(* ===== verification/Prelude.thy ===== *)
theory Prelude
  imports Main "HOL-Library.Multiset" "HOL-Library.Char_ord" "HOL-Library.List_Lexorder"
begin

text \<open>
  Vocabulary shared by every component theory: the collections of rewrite rules, the Go
  map of slices built by \<open>out[k] = append(out[k], v)\<close>, and small facts on lists and options.
  A Go error value is a \<^typ>\<open>string\<close>; a Go function returning \<open>(T, error)\<close>
  is modelled by \<^typ>\<open>string + 'a\<close>, with \<^const>\<open>Inl\<close> for the error.
\<close>

named_theorems go_simps "unfolding rules of the modelled Go helpers"
named_theorems frame_simps "fields an operation does not write"

type_synonym 'a go_result = "string + 'a"

definition is_ok :: "'e + 'a \<Rightarrow> bool" where
  "is_ok r = (case r of Inl _ \<Rightarrow> False | Inr _ \<Rightarrow> True)"

lemma is_ok_simps [simp]: "\<not> is_ok (Inl e)" "is_ok (Inr a)"
  by (simp_all add: is_ok_def)

section \<open>Grouping: Go's map of slices\<close>

text \<open>
  \<open>map_append k v m\<close> is \<open>m[k] = append(m[k], v)\<close> on an association list, which keeps
  the keys in the order in which they first occurred. Go iterates over a map in no fixed
  order: code that goes on to sort the keys is modelled with the sorted key list, so the order
  of the association list is not observable there.
\<close>

fun map_append :: "'k \<Rightarrow> 'v \<Rightarrow> ('k \<times> 'v list) list \<Rightarrow> ('k \<times> 'v list) list" where
  "map_append k v [] = [(k, [v])]"
| "map_append k v ((k', vs) # m) =
     (if k = k' then (k', vs @ [v]) # m else (k', vs) # map_append k v m)"

definition group_by :: "('a \<Rightarrow> 'k) \<Rightarrow> 'a list \<Rightarrow> ('k \<times> 'a list) list" where
  "group_by f xs = fold (\<lambda>x m. map_append (f x) x m) xs []"

definition map_get :: "('k \<times> 'v list) list \<Rightarrow> 'k \<Rightarrow> 'v list" where
  "map_get m k = (case map_of m k of None \<Rightarrow> [] | Some vs \<Rightarrow> vs)"

lemma map_get_append: "map_get (map_append k v m) k' = map_get m k' @ (if k = k' then [v] else [])"
  by (induction k v m rule: map_append.induct) (auto simp: map_get_def)

lemma keys_map_append: "fst ` set (map_append k v m) = insert k (fst ` set m)"
  by (induction k v m rule: map_append.induct) auto

lemma distinct_map_append:
  "distinct (map fst m) \<Longrightarrow> distinct (map fst (map_append k v m))"
proof (induction k v m rule: map_append.induct)
  case (2 k v k' vs m)
  then show ?case using keys_map_append [of k v m] by (auto simp: image_iff)
qed simp

lemma map_get_fold:
  "map_get (fold (\<lambda>x m. map_append (f x) x m) xs m) k = map_get m k @ filter (\<lambda>x. f x = k) xs"
  by (induction xs arbitrary: m) (auto simp: map_get_append)

lemma keys_fold:
  "fst ` set (fold (\<lambda>x m. map_append (f x) x m) xs m) = fst ` set m \<union> f ` set xs"
  by (induction xs arbitrary: m) (auto simp: keys_map_append)

lemma distinct_fold:
  "distinct (map fst m) \<Longrightarrow> distinct (map fst (fold (\<lambda>x m. map_append (f x) x m) xs m))"
  by (induction xs arbitrary: m) (auto simp: distinct_map_append)

lemma group_by_get [simp]: "map_get (group_by f xs) k = filter (\<lambda>x. f x = k) xs"
  by (simp add: group_by_def map_get_fold) (simp add: map_get_def)

lemma group_by_keys [simp]: "fst ` set (group_by f xs) = f ` set xs"
  by (simp add: group_by_def keys_fold)

lemma group_by_distinct [simp]: "distinct (map fst (group_by f xs))"
  by (simp add: group_by_def distinct_fold)

text \<open>\<open>sort.Strings\<close> on the keys of such a map.\<close>

definition sorted_keys :: "('k::linorder \<times> 'v) list \<Rightarrow> 'k list" where
  "sorted_keys m = sort (map fst m)"

lemma sorted_keys_set [simp]: "set (sorted_keys m) = fst ` set m"
  by (simp add: sorted_keys_def)

lemma sorted_keys_sorted [simp]: "sorted (sorted_keys m)"
  by (simp add: sorted_keys_def)

lemma sorted_keys_distinct [simp]: "distinct (map fst m) \<Longrightarrow> distinct (sorted_keys m)"
  by (simp add: sorted_keys_def)

section \<open>Folds that keep an invariant\<close>

lemma fold_invariant_list:
  assumes "P s" and "\<And>x s. x \<in> set xs \<Longrightarrow> P s \<Longrightarrow> P (f x s)"
  shows "P (fold f xs s)"
  using assms by (induction xs arbitrary: s) auto

lemma foldl_invariant_list:
  assumes "P s" and "\<And>x s. x \<in> set xs \<Longrightarrow> P s \<Longrightarrow> P (f s x)"
  shows "P (foldl f s xs)"
  using assms by (induction xs arbitrary: s) auto

lemma map_filter_cong: "(\<And>x. x \<in> set xs \<Longrightarrow> f x = g x) \<Longrightarrow> map f xs = map g xs"
  by simp

lemma filter_map_eq:
  "(\<And>x. x \<in> set xs \<Longrightarrow> P (f x) = P x) \<Longrightarrow> filter P (map f xs) = map f (filter P xs)"
  by (induction xs) auto

lemma length_filter_split: "length (filter P xs) + length (filter (\<lambda>x. \<not> P x) xs) = length xs"
  by (induction xs) auto

section \<open>Sequential numbering, \<open>for i, x := range xs\<close>\<close>

fun enum_from :: "nat \<Rightarrow> 'a list \<Rightarrow> (nat \<times> 'a) list" where
  "enum_from i [] = []"
| "enum_from i (x # xs) = (i, x) # enum_from (Suc i) xs"

lemma length_enum_from [simp]: "length (enum_from i xs) = length xs"
  by (induction xs arbitrary: i) auto

lemma map_snd_enum_from [simp]: "map snd (enum_from i xs) = xs"
  by (induction xs arbitrary: i) auto

lemma map_fst_enum_from [simp]: "map fst (enum_from i xs) = [i ..< i + length xs]"
  by (induction xs arbitrary: i) (auto simp: upt_conv_Cons simp del: upt_Suc)

lemma nth_enum_from [simp]: "k < length xs \<Longrightarrow> enum_from i xs ! k = (i + k, xs ! k)"
  by (induction xs arbitrary: i k) (auto simp: nth_Cons split: nat.splits)

lemma set_enum_from: "(j, x) \<in> set (enum_from i xs) \<longleftrightarrow> (\<exists>k < length xs. j = i + k \<and> x = xs ! k)"
  by (metis in_set_conv_nth length_enum_from nth_enum_from prod.inject)

section \<open>Orders the runtime chooses\<close>

text \<open>
  Go ranges over a map in an order the runtime picks, and \<open>sort.Slice\<close> arranges equal
  elements as it likes. A definition that depends on such an order takes it as an argument
  \<open>f\<close>, an arbitrary function on lists; \<open>any_order f xs\<close> is \<open>f xs\<close> when that is a
  rearrangement of \<open>xs\<close>, so the theorems hold for every order without a hypothesis on \<open>f\<close>.
  \<open>sort_slice f lt xs\<close> sorts after such a rearrangement, which yields every list a sort
  that is not stable may return.
\<close>

definition any_order :: "('a list \<Rightarrow> 'a list) \<Rightarrow> 'a list \<Rightarrow> 'a list" where
  "any_order f xs = (if mset (f xs) = mset xs then f xs else xs)"

lemma mset_any_order [simp]: "mset (any_order f xs) = mset xs"
  by (simp add: any_order_def)

lemma set_any_order [simp]: "set (any_order f xs) = set xs"
  by (rule mset_eq_setD) simp

lemma length_any_order [simp]: "length (any_order f xs) = length xs"
  by (rule mset_eq_length) simp

lemma distinct_map_any_order [simp]: "distinct (map g (any_order f xs)) = distinct (map g xs)"
  by (rule mset_eq_imp_distinct_iff) simp

lemma distinct_any_order [simp]: "distinct (any_order f xs) = distinct xs"
  by (rule mset_eq_imp_distinct_iff) simp

fun insert_by :: "('a \<Rightarrow> 'a \<Rightarrow> bool) \<Rightarrow> 'a \<Rightarrow> 'a list \<Rightarrow> 'a list" where
  "insert_by lt x [] = [x]"
| "insert_by lt x (y # ys) = (if lt y x then y # insert_by lt x ys else x # y # ys)"

definition sort_by :: "('a \<Rightarrow> 'a \<Rightarrow> bool) \<Rightarrow> 'a list \<Rightarrow> 'a list" where
  "sort_by lt xs = foldr (insert_by lt) xs []"

definition sort_slice ::
  "('a list \<Rightarrow> 'a list) \<Rightarrow> ('a \<Rightarrow> 'a \<Rightarrow> bool) \<Rightarrow> 'a list \<Rightarrow> 'a list" where
  "sort_slice f lt xs = sort_by lt (any_order f xs)"

lemma mset_insert_by [simp]: "mset (insert_by lt x xs) = add_mset x (mset xs)"
  by (induction xs) auto

lemma mset_sort_by [simp]: "mset (sort_by lt xs) = mset xs"
  unfolding sort_by_def by (induction xs) auto

lemma mset_sort_slice [simp]: "mset (sort_slice f lt xs) = mset xs"
  by (simp add: sort_slice_def)

lemma set_sort_slice [simp]: "set (sort_slice f lt xs) = set xs"
  by (rule mset_eq_setD) simp

lemma length_sort_slice [simp]: "length (sort_slice f lt xs) = length xs"
  by (rule mset_eq_length) simp

lemma distinct_map_sort_slice [simp]:
  "distinct (map g (sort_slice f lt xs)) = distinct (map g xs)"
  by (rule mset_eq_imp_distinct_iff) simp

text \<open>The order \<open>sort.Slice\<close> asks of \<open>lt\<close>: a strict weak order.\<close>

definition weak_order :: "('a \<Rightarrow> 'a \<Rightarrow> bool) \<Rightarrow> bool" where
  "weak_order lt = ((\<forall>a b. lt a b \<longrightarrow> \<not> lt b a) \<and>
     (\<forall>a b c. \<not> lt b a \<longrightarrow> \<not> lt c b \<longrightarrow> \<not> lt c a))"

lemma set_insert_by [simp]: "set (insert_by lt x xs) = insert x (set xs)"
  by (induction xs) auto

lemma sorted_insert_by:
  assumes "weak_order lt" and "sorted_wrt (\<lambda>a b. \<not> lt b a) xs"
  shows "sorted_wrt (\<lambda>a b. \<not> lt b a) (insert_by lt x xs)"
  using assms(2)
proof (induction xs)
  case (Cons y ys)
  have asym: "lt a b \<Longrightarrow> \<not> lt b a" for a b
    using assms(1) unfolding weak_order_def by blast
  have trans: "\<not> lt b a \<Longrightarrow> \<not> lt c b \<Longrightarrow> \<not> lt c a" for a b c
    using assms(1) unfolding weak_order_def by blast
  show ?case
  proof (cases "lt y x")
    case True
    have "sorted_wrt (\<lambda>a b. \<not> lt b a) (insert_by lt x ys)" using Cons by simp
    then show ?thesis using True Cons.prems asym [OF True] by simp
  next
    case False
    have "\<not> lt b x" if "b \<in> set ys" for b
      using trans [OF False] Cons.prems that by simp
    then show ?thesis using False Cons.prems by simp
  qed
qed simp

lemma sorted_sort_slice:
  assumes "weak_order lt"
  shows "sorted_wrt (\<lambda>a b. \<not> lt b a) (sort_slice f lt xs)"
proof -
  have "sorted_wrt (\<lambda>a b. \<not> lt b a) (sort_by lt ys)" for ys
    unfolding sort_by_def by (induction ys) (simp_all add: sorted_insert_by assms)
  then show ?thesis by (simp add: sort_slice_def)
qed

lemma weak_order_key: "weak_order (\<lambda>a b. k a < (k b :: 'k :: linorder))"
  by (auto simp: weak_order_def)

end
