(* ===== verification/Go_Strings.thy ===== *)
theory Go_Strings
  imports Prelude
begin

text \<open>
  The part of Go's \<open>strings\<close>, \<open>unicode/utf8\<close>, \<open>strconv\<close> and
  \<open>fmt\<close> packages that the modelled code uses. A Go string is a sequence of bytes, here
  a \<^typ>\<open>string\<close> (a list of 8-bit \<^typ>\<open>char\<close>s), so \<^const>\<open>length\<close> is
  Go's \<open>len\<close>. A rune is represented by its UTF-8 encoding.
\<close>

section \<open>UTF-8: \<open>[]rune(s)\<close> and \<open>string(runes)\<close>\<close>

abbreviation byte :: "char \<Rightarrow> nat" where "byte c \<equiv> of_char c"

definition is_cont :: "char \<Rightarrow> bool" where
  "is_cont c \<longleftrightarrow> 128 \<le> byte c \<and> byte c \<le> 191"

text \<open>
  The number of bytes of the valid encoding a byte string starts with, 0 if there is none
  (the accept ranges of \<open>unicode/utf8\<close>: no overlong forms, no surrogates, at most U+10FFFF).
\<close>

fun rune_len :: "string \<Rightarrow> nat" where
  "rune_len [] = 0"
| "rune_len (c # cs) =
     (let b = byte c in
      if b < 128 then 1
      else if 194 \<le> b \<and> b \<le> 223 then
        (case cs of c1 # _ \<Rightarrow> if is_cont c1 then 2 else 0 | _ \<Rightarrow> 0)
      else if 224 \<le> b \<and> b \<le> 239 then
        (case cs of c1 # c2 # _ \<Rightarrow>
           if (if b = 224 then 160 else 128) \<le> byte c1 \<and> byte c1 \<le> (if b = 237 then 159 else 191)
              \<and> is_cont c2 then 3 else 0
         | _ \<Rightarrow> 0)
      else if 240 \<le> b \<and> b \<le> 244 then
        (case cs of c1 # c2 # c3 # _ \<Rightarrow>
           if (if b = 240 then 144 else 128) \<le> byte c1 \<and> byte c1 \<le> (if b = 244 then 143 else 191)
              \<and> is_cont c2 \<and> is_cont c3 then 4 else 0
         | _ \<Rightarrow> 0)
      else 0)"

lemma rune_len_le: "rune_len s \<le> length s"
  by (induction s rule: rune_len.induct) (auto simp: Let_def split: list.splits)

definition valid_rune :: "string \<Rightarrow> bool" where
  "valid_rune r \<longleftrightarrow> r \<noteq> [] \<and> rune_len r = length r"

lemma rune_len_append:
  assumes "valid_rune r" shows "rune_len (r @ s) = length r"
proof (cases r)
  case Nil then show ?thesis using assms by (simp add: valid_rune_def)
next
  case (Cons c cs)
  then show ?thesis using assms
    by (cases cs; cases "tl cs"; cases "tl (tl cs)")
       (auto simp: valid_rune_def Let_def split: if_splits)
qed

text \<open>The decoding loop: an undecodable byte is a segment of its own.\<close>

function segs :: "string \<Rightarrow> string list" where
  "segs s = (if s = [] then [] else
     let n = max 1 (rune_len s) in take n s # segs (drop n s))"
  by pat_completeness auto
termination by (relation "measure length") (auto simp: Let_def)

declare segs.simps [simp del]

lemma segs_Nil [simp]: "segs [] = []"
  by (subst segs.simps) simp

lemma segs_Cons: "s \<noteq> [] \<Longrightarrow> segs s = take (max 1 (rune_len s)) s # segs (drop (max 1 (rune_len s)) s)"
  by (subst segs.simps) (simp add: Let_def)

lemma segs_eq_Nil [simp]: "segs s = [] \<longleftrightarrow> s = []"
  by (cases "s = []") (auto simp: segs_Cons)

lemma concat_segs [simp]: "concat (segs s) = s"
proof (induction s rule: segs.induct)
  case (1 s)
  then show ?case by (cases "s = []") (auto simp: segs_Cons Let_def)
qed

lemma segs_nonempty: "g \<in> set (segs s) \<Longrightarrow> g \<noteq> []"
proof (induction s rule: segs.induct)
  case (1 s)
  then show ?case by (cases "s = []") (auto simp: segs_Cons Let_def)
qed

lemma length_segs_le: "length (segs s) \<le> length s"
proof (induction s rule: segs.induct)
  case (1 s)
  show ?case
  proof (cases "s = []")
    case False
    then have "length (segs (drop (max 1 (rune_len s)) s)) \<le> length (drop (max 1 (rune_len s)) s)"
      using 1 by (simp add: Let_def)
    moreover have "length s - max 1 (rune_len s) < length s" using False by simp
    moreover have "length (segs s) = Suc (length (segs (drop (max 1 (rune_len s)) s)))"
      using False by (simp add: segs_Cons)
    ultimately show ?thesis by simp
  qed simp
qed

lemma segs_append: "valid_rune r \<Longrightarrow> segs (r @ s) = r # segs s"
proof -
  assume v: "valid_rune r"
  then have "r \<noteq> []" and "rune_len (r @ s) = length r"
    by (auto simp: valid_rune_def rune_len_append)
  moreover from \<open>r \<noteq> []\<close> have "max 1 (length r) = length r"
    by (cases r) auto
  ultimately show ?thesis by (simp add: segs_Cons)
qed

text \<open>U+FFFD, which a conversion to runes substitutes for an undecodable byte.\<close>

definition rune_error :: string where
  "rune_error = [CHR 0xEF, CHR 0xBF, CHR 0xBD]"

definition to_rune :: "string \<Rightarrow> string" where
  "to_rune g = (if valid_rune g then g else rune_error)"

lemma valid_to_rune [simp]: "valid_rune (to_rune g)"
  by (simp add: to_rune_def rune_error_def valid_rune_def is_cont_def)

definition go_runes :: "string \<Rightarrow> string list" where
  "go_runes s = map to_rune (segs s)"

definition of_runes :: "string list \<Rightarrow> string" where
  "of_runes rs = concat rs"

definition valid_utf8 :: "string \<Rightarrow> bool" where
  "valid_utf8 s \<longleftrightarrow> list_all valid_rune (segs s)"

lemma go_runes_valid: "r \<in> set (go_runes s) \<Longrightarrow> valid_rune r"
  by (auto simp: go_runes_def)

lemma length_go_runes: "length (go_runes s) = length (segs s)"
  by (simp add: go_runes_def)

lemma go_runes_Nil [simp]: "go_runes [] = []"
  by (simp add: go_runes_def)

lemma segs_of_runes: "list_all valid_rune rs \<Longrightarrow> segs (of_runes rs) = rs"
  by (induction rs) (auto simp: of_runes_def segs_append)

lemma go_runes_of_runes: "list_all valid_rune rs \<Longrightarrow> go_runes (of_runes rs) = rs"
  by (simp add: go_runes_def segs_of_runes) (induction rs; simp add: to_rune_def)

lemma valid_utf8_of_runes: "list_all valid_rune rs \<Longrightarrow> valid_utf8 (of_runes rs)"
  by (simp add: valid_utf8_def segs_of_runes)

lemma of_runes_go_runes: "valid_utf8 s \<Longrightarrow> of_runes (go_runes s) = s"
proof -
  assume "valid_utf8 s"
  then have "map to_rune (segs s) = segs s"
    by (simp add: valid_utf8_def to_rune_def list_all_iff map_idI)
  then show ?thesis by (simp add: of_runes_def go_runes_def)
qed

lemma length_of_runes_ge: "list_all valid_rune rs \<Longrightarrow> length rs \<le> length (of_runes rs)"
  by (metis length_segs_le segs_of_runes)

section \<open>\<open>strings.TrimSpace\<close>\<close>

text \<open>The encodings of the code points \<open>unicode.IsSpace\<close> accepts.\<close>

definition is_space :: "string \<Rightarrow> bool" where
  "is_space g \<longleftrightarrow>
     (case g of
        [a] \<Rightarrow> (9 \<le> byte a \<and> byte a \<le> 13) \<or> byte a = 32
      | [a, b] \<Rightarrow> byte a = 194 \<and> (byte b = 133 \<or> byte b = 160)
      | [a, b, c] \<Rightarrow>
          (byte a = 225 \<and> byte b = 154 \<and> byte c = 128)
          \<or> (byte a = 226 \<and> byte b = 128
               \<and> (byte c \<le> 138 \<or> byte c = 168 \<or> byte c = 169 \<or> byte c = 175))
          \<or> (byte a = 226 \<and> byte b = 129 \<and> byte c = 159)
          \<or> (byte a = 227 \<and> byte b = 128 \<and> byte c = 128)
      | _ \<Rightarrow> False)"

definition trim_by :: "('a \<Rightarrow> bool) \<Rightarrow> 'a list \<Rightarrow> 'a list" where
  "trim_by p xs = rev (dropWhile p (rev (dropWhile p xs)))"

definition trim_space :: "string \<Rightarrow> string" where
  "trim_space s = concat (trim_by is_space (segs s))"

lemma trim_by_sublist: "\<exists>a b. xs = a @ trim_by p xs @ b"
proof -
  let ?ys = "dropWhile p xs"
  have "xs = takeWhile p xs @ ?ys" by simp
  moreover have "?ys = trim_by p xs @ rev (takeWhile p (rev ?ys))"
    by (metis (no_types, lifting) rev_append rev_rev_ident takeWhile_dropWhile_id trim_by_def)
  ultimately show ?thesis by metis
qed

lemma length_concat_le: "xs = a @ b @ c \<Longrightarrow> length (concat b) \<le> length (concat xs)"
  by simp

lemma length_trim_space: "length (trim_space s) \<le> length s"
  by (metis concat_segs length_concat_le trim_by_sublist trim_space_def)

lemma trim_by_Nil [simp]: "trim_by p [] = []"
  by (simp add: trim_by_def)

lemma trim_space_Nil [simp]: "trim_space [] = []"
  by (simp add: trim_space_def)

section \<open>Prefixes, splitting, joining\<close>

definition has_prefix :: "string \<Rightarrow> string \<Rightarrow> bool" where
  "has_prefix s p \<longleftrightarrow> take (length p) s = p"

definition trim_prefix :: "string \<Rightarrow> string \<Rightarrow> string" where
  "trim_prefix s p = (if has_prefix s p then drop (length p) s else s)"

lemma has_prefix_append [simp]: "has_prefix (p @ s) p"
  by (simp add: has_prefix_def)

lemma trim_prefix_append [simp]: "trim_prefix (p @ s) p = s"
  by (simp add: trim_prefix_def)

lemma has_prefix_iff: "has_prefix s p \<longleftrightarrow> (\<exists>t. s = p @ t)"
  by (metis append_take_drop_id has_prefix_append has_prefix_def)

fun contains_sub :: "string \<Rightarrow> string \<Rightarrow> bool" where
  "contains_sub [] p \<longleftrightarrow> p = []"
| "contains_sub (c # cs) p \<longleftrightarrow> has_prefix (c # cs) p \<or> contains_sub cs p"

abbreviation nl :: string where "nl \<equiv> [CHR 0x0A]"

text \<open>\<open>strings.Split(s, sep)\<close> for a non-empty separator.\<close>

fun split_acc :: "string \<Rightarrow> string \<Rightarrow> string \<Rightarrow> string list" where
  "split_acc sep acc [] = [rev acc]"
| "split_acc sep acc (c # cs) =
     (if has_prefix (c # cs) sep
      then rev acc # split_acc sep [] (drop (length sep - 1) cs)
      else split_acc sep (c # acc) cs)"

definition split_str :: "string \<Rightarrow> string \<Rightarrow> string list" where
  "split_str s sep = split_acc sep [] s"

text \<open>\<open>strings.SplitN(s, sep, n)\<close> for \<open>n \<ge> 1\<close> and a non-empty separator.\<close>

fun split_n_acc :: "nat \<Rightarrow> string \<Rightarrow> string \<Rightarrow> string \<Rightarrow> string list" where
  "split_n_acc n sep acc [] = [rev acc]"
| "split_n_acc n sep acc (c # cs) =
     (if n \<le> 1 then [rev acc @ c # cs]
      else if has_prefix (c # cs) sep
      then rev acc # split_n_acc (n - 1) sep [] (drop (length sep - 1) cs)
      else split_n_acc n sep (c # acc) cs)"

definition split_n :: "string \<Rightarrow> string \<Rightarrow> nat \<Rightarrow> string list" where
  "split_n s sep n = split_n_acc n sep [] s"

fun join :: "string \<Rightarrow> string list \<Rightarrow> string" where
  "join sep [] = []"
| "join sep [x] = x"
| "join sep (x # y # xs) = x @ sep @ join sep (y # xs)"

lemma split_acc_nonempty [simp]: "split_acc sep acc s \<noteq> []"
  by (induction sep acc s rule: split_acc.induct) auto

lemma join_Cons: "xs \<noteq> [] \<Longrightarrow> join sep (x # xs) = x @ sep @ join sep xs"
  by (cases xs) auto

lemma join_append: "xs \<noteq> [] \<Longrightarrow> ys \<noteq> [] \<Longrightarrow> join sep (xs @ ys) = join sep xs @ sep @ join sep ys"
proof (induction xs)
  case (Cons x xs)
  then show ?case by (cases "xs = []") (simp_all add: join_Cons)
qed simp

lemma join_split_acc: "sep \<noteq> [] \<Longrightarrow> join sep (split_acc sep acc s) = rev acc @ s"
proof (induction sep acc s rule: split_acc.induct)
  case (2 sep acc c cs)
  show ?case
  proof (cases "has_prefix (c # cs) sep")
    case True
    then obtain t where t: "c # cs = sep @ t" by (auto simp: has_prefix_iff)
    with "2.prems" have "drop (length sep - 1) cs = t"
      by (cases sep) auto
    with True have "split_acc sep acc (c # cs) = rev acc # split_acc sep [] t"
      by simp
    moreover have "join sep (split_acc sep [] t) = t"
      using 2 True \<open>drop (length sep - 1) cs = t\<close> by simp
    ultimately show ?thesis using t by (simp add: join_Cons)
  qed (use 2 in simp)
qed simp

lemma join_split_str: "sep \<noteq> [] \<Longrightarrow> join sep (split_str s sep) = s"
  by (simp add: split_str_def join_split_acc)

lemma split_n_acc_first:
  "CHR '':'' \<notin> set a \<Longrightarrow> n > 1 \<Longrightarrow>
   split_n_acc n [CHR '':''] acc (a @ CHR '':'' # r) = (rev acc @ a) # split_n_acc (n - 1) [CHR '':''] [] r"
  by (induction a arbitrary: acc) (auto simp: has_prefix_def)

lemma split_n_acc_one: "split_n_acc (Suc 0) sep [] s = [s]"
  by (cases s) auto

lemma split_acc_free: "c \<notin> set s \<Longrightarrow> split_acc [c] acc s = [rev acc @ s]"
  by (induction s arbitrary: acc) (auto simp: has_prefix_def)

lemma split_acc_first: "c \<notin> set a \<Longrightarrow> split_acc [c] acc (a @ c # r) = (rev acc @ a) # split_acc [c] [] r"
  by (induction a arbitrary: acc) (auto simp: has_prefix_def)

lemma split_acc_parts_free: "p \<in> set (split_acc [c] acc s) \<Longrightarrow> c \<notin> set acc \<Longrightarrow> c \<notin> set p"
  by (induction "[c]" acc s rule: split_acc.induct) (auto simp: has_prefix_def split: if_splits)

text \<open>\<open>strings.ReplaceAll(s, old, new)\<close> for a non-empty \<open>old\<close>.\<close>

definition replace_all :: "string \<Rightarrow> string \<Rightarrow> string \<Rightarrow> string" where
  "replace_all s old new = join new (split_str s old)"

text \<open>
  \<open>strings.ToLower\<close>: exact on ASCII, where only A to Z change; the case tables of the other
  Unicode letters are not modelled (their bytes stay as they are).
\<close>

definition to_lower :: "string \<Rightarrow> string" where
  "to_lower s = map (\<lambda>c. if 65 \<le> byte c \<and> byte c \<le> 90 then char_of (byte c + 32) else c) s"

lemma length_to_lower [simp]: "length (to_lower s) = length s"
  by (simp add: to_lower_def)

lemma to_lower_Nil [simp]: "to_lower s = [] \<longleftrightarrow> s = []"
  by (simp add: to_lower_def)

text \<open>\<open>strings.Trim(s, cutset)\<close> for a cutset of ASCII characters.\<close>

definition trim_cut :: "string \<Rightarrow> string \<Rightarrow> string" where
  "trim_cut s cutset = trim_by (\<lambda>c. c \<in> set cutset) s"

lemma length_trim_by: "length (trim_by p xs) \<le> length xs"
  by (metis le_add1 length_append trans_le_add2 trim_by_sublist)

lemma length_trim_cut: "length (trim_cut s cutset) \<le> length s"
  by (simp add: trim_cut_def length_trim_by)

text \<open>\<open>strings.Fields\<close>: the maximal runs of non-space segments.\<close>

fun fields_acc :: "string \<Rightarrow> string list \<Rightarrow> string list" where
  "fields_acc acc [] = (if acc = [] then [] else [acc])"
| "fields_acc acc (g # gs) =
     (if is_space g then (if acc = [] then fields_acc [] gs else acc # fields_acc [] gs)
      else fields_acc (acc @ g) gs)"

definition fields :: "string \<Rightarrow> string list" where
  "fields s = fields_acc [] (segs s)"

section \<open>Decimal numbers: \<open>%d\<close> and \<open>strconv.Atoi\<close>\<close>

definition digit_char :: "nat \<Rightarrow> char" where "digit_char d = char_of (48 + d)"

definition is_digit :: "char \<Rightarrow> bool" where "is_digit c \<longleftrightarrow> 48 \<le> byte c \<and> byte c \<le> 57"

fun show_nat :: "nat \<Rightarrow> string" where
  "show_nat n = (if n < 10 then [digit_char n] else show_nat (n div 10) @ [digit_char (n mod 10)])"

declare show_nat.simps [simp del]

definition show_int :: "int \<Rightarrow> string" where
  "show_int i = (if i < 0 then CHR ''-'' # show_nat (nat (- i)) else show_nat (nat i))"

definition parse_digits :: "string \<Rightarrow> nat" where
  "parse_digits s = foldl (\<lambda>n c. 10 * n + (byte c - 48)) 0 s"

text \<open>A non-empty run of decimal digits, without sign and without a bound.\<close>

definition parse_nat :: "string \<Rightarrow> nat option" where
  "parse_nat s = (if s \<noteq> [] \<and> list_all is_digit s then Some (parse_digits s) else None)"

text \<open>\<open>strconv.ParseInt(s, 10, 64)\<close> and \<open>Atoi\<close>: optional sign, digits, the 64-bit range.\<close>

definition parse_int64 :: "string \<Rightarrow> int option" where
  "parse_int64 s =
     (let neg = has_prefix s ''-'';
          body = (if neg \<or> has_prefix s ''+'' then drop 1 s else s)
      in case parse_nat body of
           None \<Rightarrow> None
         | Some n \<Rightarrow>
             let v = (if neg then - int n else int n)
             in if - (2 ^ 63) \<le> v \<and> v < 2 ^ 63 then Some v else None)"

lemma byte_digit_char: "d < 10 \<Longrightarrow> byte (digit_char d) = 48 + d"
  by (simp add: digit_char_def)

lemma show_nat_digits: "list_all is_digit (show_nat n)"
proof (induction n rule: show_nat.induct)
  case (1 n)
  then show ?case
    by (subst show_nat.simps) (auto simp: is_digit_def list_all_iff byte_digit_char)
qed

lemma show_nat_nonempty [simp]: "show_nat n \<noteq> []"
  by (subst show_nat.simps) simp

lemma parse_digits_snoc: "parse_digits (s @ [c]) = 10 * parse_digits s + (byte c - 48)"
  by (simp add: parse_digits_def)

lemma parse_digits_show: "parse_digits (show_nat n) = n"
proof (induction n rule: show_nat.induct)
  case (1 n)
  show ?case
  proof (cases "n < 10")
    case True
    then show ?thesis
      by (subst show_nat.simps) (simp add: parse_digits_def byte_digit_char)
  next
    case False
    with 1 have "parse_digits (show_nat (n div 10)) = n div 10" by simp
    with False show ?thesis
      by (subst show_nat.simps) (simp add: parse_digits_snoc byte_digit_char)
  qed
qed

lemma parse_nat_show [simp]: "parse_nat (show_nat n) = Some n"
  by (simp add: parse_nat_def show_nat_digits parse_digits_show)

lemma digit_not_in_show: "\<not> is_digit c \<Longrightarrow> c \<notin> set (show_nat n)"
  using show_nat_digits [of n] by (auto simp: list_all_iff)

lemma show_nat_no_sign: "\<not> has_prefix (show_nat n) ''-''" "\<not> has_prefix (show_nat n) ''+''"
  using show_nat_digits [of n] by (auto simp: has_prefix_iff is_digit_def)

lemma parse_int64_show:
  assumes "0 \<le> i" and "i < 2 ^ 63" shows "parse_int64 (show_int i) = Some i"
  using assms by (simp add: parse_int64_def show_int_def show_nat_no_sign Let_def)

section \<open>Text cut at an ASCII byte\<close>

lemma rune_tail: "valid_rune r \<Longrightarrow> 0 < i \<Longrightarrow> i < length r \<Longrightarrow> 128 \<le> byte (r ! i)"
proof -
  assume v: "valid_rune r" and i: "0 < i" "i < length r"
  have l: "length r \<le> 4" using v by (cases r) (auto simp: valid_rune_def Let_def split: if_splits list.splits)
  then have "i \<in> {1, 2, 3}" using i by auto
  then show ?thesis using v i
    by (cases r; cases "tl r"; cases "tl (tl r)"; cases "tl (tl (tl r))")
      (auto simp: valid_rune_def Let_def is_cont_def split: if_splits)
qed

lemma valid_utf8_append_rune: "valid_rune r \<Longrightarrow> valid_utf8 (r @ s) \<longleftrightarrow> valid_utf8 s"
  by (simp add: valid_utf8_def segs_append)

text \<open>Text that is valid up to an ASCII byte and beyond is valid up to it.\<close>

lemma valid_before_ascii: "valid_utf8 (x @ c # y) \<Longrightarrow> byte c < 128 \<Longrightarrow> valid_utf8 x"
proof (induction x rule: length_induct)
  case (1 x)
  show ?case
  proof (cases "x = []")
    case False
    define z where "z = x @ c # y"
    define r where "r = take (max 1 (rune_len z)) z"
    have z: "z = r @ drop (max 1 (rune_len z)) z" by (simp add: r_def)
    have "segs z = r # segs (drop (max 1 (rune_len z)) z)" using segs_Cons [of z] by (simp add: r_def z_def)
    then have r: "valid_rune r" using 1 by (simp add: valid_utf8_def z_def)
    have "length r \<le> length x"
    proof (rule ccontr)
      assume "\<not> length r \<le> length x"
      then have "length x < length r" by simp
      moreover from this have "r ! length x = c" using z by (metis nth_append nth_append_length z_def)
      ultimately show False using rune_tail [OF r, of "length x"] False 1 by auto
    qed
    then have x: "x = r @ drop (length r) x" using z unfolding z_def by (metis append_eq_append_conv_if append_take_drop_id)
    have "r \<noteq> []" using r by (simp add: valid_rune_def)
    then have "length (drop (length r) x) < length x" using False by simp
    moreover have "valid_utf8 (drop (length r) x @ c # y)"
      using 1(2) valid_utf8_append_rune [OF r, of "drop (length r) x @ c # y"] x by (metis append_assoc)
    ultimately have "valid_utf8 (drop (length r) x)" using 1 by blast
    then show ?thesis using valid_utf8_append_rune [OF r] x by metis
  qed (simp add: valid_utf8_def)
qed

lemma segs_replicate_ascii: "byte a < 128 \<Longrightarrow> segs (replicate n a @ s) = replicate n [a] @ segs s"
proof (induction n)
  case (Suc n)
  have "valid_rune [a]" using Suc by (simp add: valid_rune_def)
  then show ?case using Suc segs_append [of "[a]"] by simp
qed simp

end
