(* ===== verification/Errors.thy ===== *)
theory Errors
  imports Go_Strings
begin

text \<open>
  \<open>internal/pkg/errors\<close>: business errors, whose message and code are safe to show to a
  client, and server errors, which wrap an internal error. A \<open>*Error\<close> is an option, with
  \<^const>\<open>None\<close> for nil. The wrapped \<open>error\<close> is represented by its text.
\<close>

datatype error_type = ServerError | BusinessError

record gerror =
  message :: string
  code :: string
  etype :: error_type
  err :: "string option"

definition error_text :: "gerror option \<Rightarrow> string" where
  "error_text e = (case e of
     None \<Rightarrow> ''''
   | Some x \<Rightarrow>
       if etype x = BusinessError then message x
       else (case err x of Some t \<Rightarrow> t | None \<Rightarrow> message x))"

definition new_business_error :: "string \<Rightarrow> string \<Rightarrow> gerror option" where
  "new_business_error msg cd =
     (if msg = '''' \<or> cd = '''' then None
      else Some \<lparr>message = msg, code = cd, etype = BusinessError, err = None\<rparr>)"

definition new_server_error :: "string option \<Rightarrow> gerror option" where
  "new_server_error e = (case e of
     None \<Rightarrow> None
   | Some t \<Rightarrow> Some \<lparr>message = '''', code = '''', etype = ServerError, err = Some t\<rparr>)"

definition new_server_error_text :: "string \<Rightarrow> gerror option" where
  "new_server_error_text msg =
     (if msg = '''' then None
      else Some \<lparr>message = '''', code = '''', etype = ServerError, err = Some msg\<rparr>)"

text \<open>\<open>fmt.Errorf("%s: %w", m, nil)\<close> prints the missing operand.\<close>

definition wrap_text :: "string \<Rightarrow> string option \<Rightarrow> string" where
  "wrap_text msg e = msg @ '': '' @ (case e of Some t \<Rightarrow> t | None \<Rightarrow> ''%!w(<nil>)'')"

definition wrap_server_error :: "gerror option \<Rightarrow> string \<Rightarrow> gerror option" where
  "wrap_server_error e msg = (case e of
     None \<Rightarrow> None
   | Some x \<Rightarrow>
       if msg = '''' then Some x
       else if etype x = BusinessError then Some x
       else Some \<lparr>message = '''', code = '''', etype = ServerError, err = Some (wrap_text msg (err x))\<rparr>)"

definition wrap_std_server_error :: "string option \<Rightarrow> string \<Rightarrow> gerror option" where
  "wrap_std_server_error e msg = (case e of
     None \<Rightarrow> None
   | Some t \<Rightarrow>
       if msg = '''' then Some \<lparr>message = '''', code = '''', etype = ServerError, err = Some t\<rparr>
       else Some \<lparr>message = '''', code = '''', etype = ServerError, err = Some (wrap_text msg (Some t))\<rparr>)"

definition is_business_error :: "gerror option \<Rightarrow> bool" where
  "is_business_error e = (case e of None \<Rightarrow> False | Some x \<Rightarrow> etype x = BusinessError)"

definition is_server_error :: "gerror option \<Rightarrow> bool" where
  "is_server_error e = (case e of None \<Rightarrow> False | Some x \<Rightarrow> etype x = ServerError)"

definition is_code :: "gerror option \<Rightarrow> string \<Rightarrow> bool" where
  "is_code e c = (case e of None \<Rightarrow> False | Some x \<Rightarrow> etype x = BusinessError \<and> code x = c)"

definition public_message :: "gerror option \<Rightarrow> string" where
  "public_message e = (case e of
     None \<Rightarrow> ''''
   | Some x \<Rightarrow> if etype x = BusinessError then message x else ''internal server error'')"

text \<open>The error codes the modelled services return.\<close>

definition ErrCodeUnauthorized :: string where "ErrCodeUnauthorized = ''AUTH0001''"
definition ErrCodeConversationNotFound :: string where "ErrCodeConversationNotFound = ''CHT0001''"
definition ErrCodeUnsupportedMessage :: string where "ErrCodeUnsupportedMessage = ''MSG0002''"
definition ErrCodeQuestionAlreadyAnswered :: string where "ErrCodeQuestionAlreadyAnswered = ''MSG0005''"
definition ErrCodeQuestionFollowupFailed :: string where "ErrCodeQuestionFollowupFailed = ''MSG0006''"
definition ErrCodeBadRequest :: string where "ErrCodeBadRequest = ''REQ0001''"

lemmas error_defs [go_simps] = error_text_def new_business_error_def new_server_error_def
  new_server_error_text_def wrap_server_error_def wrap_std_server_error_def
  is_business_error_def is_server_error_def is_code_def public_message_def

lemma business_or_server: "e \<noteq> None \<Longrightarrow> is_business_error e \<noteq> is_server_error e"
  by (auto simp: go_simps) (metis error_type.exhaust)+

lemma wrap_keeps_kind: "is_business_error (wrap_server_error e m) = is_business_error e"
  by (auto simp: go_simps split: option.splits)

lemma wrap_keeps_public: "public_message (wrap_server_error e m) = public_message e"
  by (auto simp: go_simps split: option.splits)

lemma wrap_business_id: "is_business_error e \<Longrightarrow> wrap_server_error e m = e"
  by (auto simp: go_simps split: option.splits)

end
