(* ===== verification/Memory_Types.thy ===== *)
theory Memory_Types
  imports Go_Strings Complex_Main
begin

text \<open>
  \<open>internal/orchestrator/memory/types.go\<close>: the rows of \<open>memory_drawers\<close>, the
  constants of the memory pipeline and the map from memory types to rooms. A \<open>float64\<close> is
  a \<^typ>\<open>real\<close> (rounding is not modelled), a \<open>time.Time\<close> an \<^typ>\<open>int\<close>
  number of seconds.
\<close>

text \<open>\<open>StEmpty\<close> is the empty string, which an insert turns into \<open>raw\<close>.\<close>

datatype drawer_state = StEmpty | Raw | Classifying | Processed | Merged | Failed

record drawer =
  d_id :: string
  d_ws :: string
  d_wing :: string
  d_room :: string
  d_hall :: string
  d_content :: string
  d_importance :: real
  d_type :: string
  d_source_file :: string
  d_added_by :: string
  d_filed_at :: int
  d_created_at :: int
  d_state :: drawer_state
  d_summary :: string
  d_agent :: string
  d_accessed :: "int option"
  d_access_count :: nat
  d_superseded :: "string option"
  d_cluster :: "string option"
  d_retry :: nat
  d_tier :: string
  d_entities :: nat
  d_triples :: nat
  d_embedding :: "real list option"

text \<open>A search hit: the drawer and its cosine similarity to the query.\<close>

type_synonym search_hit = "drawer \<times> real"

definition MaxDrawersPerWorkspace :: nat where "MaxDrawersPerWorkspace = 10000"
definition TokenBudgetL1 :: nat where "TokenBudgetL1 = 2000"
definition TokenBudgetTotal :: nat where "TokenBudgetTotal = 14000"
definition AutoIngestWing :: string where "AutoIngestWing = ''conversations''"
definition AutoIngestAddedBy :: string where "AutoIngestAddedBy = ''auto-ingest''"
definition AutoIngestChunkSize :: nat where "AutoIngestChunkSize = 800"
definition AutoIngestChunkOverlap :: nat where "AutoIngestChunkOverlap = 100"
definition AutoIngestMinChunk :: nat where "AutoIngestMinChunk = 50"
definition AutoIngestDupThreshold :: real where "AutoIngestDupThreshold = 85 / 100"
definition AutoIngestDefaultRoom :: string where "AutoIngestDefaultRoom = ''general''"
definition AutoIngestMinConfidence :: real where "AutoIngestMinConfidence = 3 / 10"
definition DefaultImportance :: real where "DefaultImportance = 3"
definition ColdWorkerClusterThreshold :: real where "ColdWorkerClusterThreshold = 85 / 100"
definition ColdWorkerConflictLow :: real where "ColdWorkerConflictLow = 75 / 100"
definition ColdWorkerConflictHigh :: real where "ColdWorkerConflictHigh = 90 / 100"
definition ColdWorkerMaxRetries :: nat where "ColdWorkerMaxRetries = 3"
definition DecayInterval :: int where "DecayInterval = 24"
definition DecayAgeDays :: int where "DecayAgeDays = 30"
definition DecayFactor :: real where "DecayFactor = 98 / 100"
definition DecayFloor :: real where "DecayFloor = 3 / 10"
definition PruneThreshold :: real where "PruneThreshold = 1 / 2"
definition PruneMinAccessCount :: nat where "PruneMinAccessCount = 3"
definition PruneKeepMin :: nat where "PruneKeepMin = 100"
definition PipelineTierHeuristic :: string where "PipelineTierHeuristic = ''heuristic''"
definition PipelineTierCentroid :: string where "PipelineTierCentroid = ''centroid''"
definition PipelineTierLLM :: string where "PipelineTierLLM = ''llm''"
definition MemoryCentroidThreshold :: real where "MemoryCentroidThreshold = 85 / 100"
definition MemoryCentroidMinSamples :: nat where "MemoryCentroidMinSamples = 50"
definition HeuristicKillSwitchValue :: real where "HeuristicKillSwitchValue = 999"

definition memory_type_to_room :: "string \<Rightarrow> string" where
  "memory_type_to_room t =
     (if t = ''decision'' then ''decisions''
      else if t = ''preference'' then ''preferences''
      else if t = ''milestone'' then ''milestones''
      else if t = ''problem'' then ''problems''
      else if t = ''emotional'' then ''emotional''
      else if t = ''fact'' then ''facts''
      else if t = ''task'' then ''tasks''
      else AutoIngestDefaultRoom)"

text \<open>\<open>parse_float\<close> is \<open>strconv.ParseFloat\<close>, \<open>raw\<close> the environment variable.\<close>

definition env_float :: "(string \<Rightarrow> real option) \<Rightarrow> string \<Rightarrow> real \<Rightarrow> real" where
  "env_float parse_float raw def =
     (if raw = '''' then def else (case parse_float raw of None \<Rightarrow> def | Some v \<Rightarrow> v))"

definition memory_types :: "string list" where
  "memory_types = [''decision'', ''preference'', ''milestone'', ''problem'', ''emotional'', ''fact'', ''task'']"

lemma room_inj: "inj_on memory_type_to_room (set memory_types)"
  by (simp add: inj_on_def memory_types_def memory_type_to_room_def)

lemma room_nonempty: "memory_type_to_room t \<noteq> ''''"
  by (simp add: memory_type_to_room_def AutoIngestDefaultRoom_def)

end
