(* ===== verification/Classify.thy ===== *)
theory Classify
  imports Memory_Types
begin

text \<open>
  \<open>internal/orchestrator/memory/extract/classify.go\<close>: the heuristic classifier. A compiled
  \<open>*regexp.Regexp\<close> is the pair of functions the code calls on it; the patterns themselves
  come from a JSON file, so the classifier is a parameter of every definition. A Go map is an
  association list; where the code iterates over a map it sorts the keys first.
\<close>

record regexp =
  match_string :: "string \<Rightarrow> bool"
  find_all :: "string \<Rightarrow> string list"

record classifier =
  markers :: "(string \<times> regexp list) list"
  positive :: "string \<Rightarrow> bool"
  negative :: "string \<Rightarrow> bool"
  resolvers :: "regexp list"
  code_lines :: "regexp list"
  blockquote :: regexp
  human_speaker :: regexp
  assistant_speaker :: regexp
  word_tokenizer :: regexp

record classified =
  c_content :: string
  c_type :: string
  c_index :: nat
  c_confidence :: real

definition confidenceDivisor :: real where "confidenceDivisor = 5"
definition minSegmentLenForBonus :: nat where "minSegmentLenForBonus = 200"
definition defaultChunkSize :: nat where "defaultChunkSize = 25"

section \<open>Segmentation\<close>

definition line_matches_any :: "string \<Rightarrow> regexp list \<Rightarrow> bool" where
  "line_matches_any line ps = list_ex (\<lambda>p. match_string p line) ps"

text \<open>The loop of \<open>splitByTurns\<close>: the finished segments and the lines of the current one.\<close>

fun turns_loop :: "regexp list \<Rightarrow> string list \<Rightarrow> string list \<Rightarrow> string list" where
  "turns_loop ps current [] = (if current = [] then [] else [join nl current])"
| "turns_loop ps current (line # lines) =
     (if line_matches_any (trim_space line) ps \<and> current \<noteq> []
      then join nl current # turns_loop ps [line] lines
      else turns_loop ps (current @ [line]) lines)"

definition split_by_turns :: "string list \<Rightarrow> regexp list \<Rightarrow> string list" where
  "split_by_turns lines ps = turns_loop ps [] lines"

definition split_paragraphs :: "string \<Rightarrow> string list" where
  "split_paragraphs text = filter (\<lambda>p. p \<noteq> []) (map trim_space (split_str text (nl @ nl)))"

text \<open>
  \<open>chunkLines\<close>. With a size of 0 the Go loop would not advance; it is only called with
  \<^const>\<open>defaultChunkSize\<close>, and the model stops there.
\<close>

function chunk_lines :: "string list \<Rightarrow> nat \<Rightarrow> string list" where
  "chunk_lines lines n =
     (if lines = [] \<or> n = 0 then []
      else let group = trim_space (join nl (take n lines))
           in (if group \<noteq> [] then [group] else []) @ chunk_lines (drop n lines) n)"
  by pat_completeness auto
termination by (relation "measure (\<lambda>(lines, n). length lines)") auto

declare chunk_lines.simps [simp del]

definition turn_patterns :: "classifier \<Rightarrow> regexp list" where
  "turn_patterns c = [blockquote c, human_speaker c, assistant_speaker c]"

definition split_into_segments :: "classifier \<Rightarrow> string \<Rightarrow> string list" where
  "split_into_segments c text =
     (let lines = split_str text nl;
          turn_count = length (filter (\<lambda>l. line_matches_any (trim_space l) (turn_patterns c)) lines)
      in if turn_count \<ge> 3 then split_by_turns lines (turn_patterns c)
         else let paragraphs = split_paragraphs text
              in if length paragraphs \<le> 1 \<and> length lines > 20
                 then chunk_lines lines defaultChunkSize
                 else paragraphs)"

section \<open>Prose extraction\<close>

definition is_alpha :: "char \<Rightarrow> bool" where
  "is_alpha ch \<longleftrightarrow> (97 \<le> byte ch \<and> byte ch \<le> 122) \<or> (65 \<le> byte ch \<and> byte ch \<le> 90)"

definition is_code_line :: "classifier \<Rightarrow> string \<Rightarrow> bool" where
  "is_code_line c line =
     (if line = [] then False
      else if list_ex (\<lambda>p. match_string p line) (code_lines c) then True
      else length line > 10
           \<and> real (length (filter is_alpha line)) / real (length line) < 4 / 10)"

fun prose_loop :: "classifier \<Rightarrow> bool \<Rightarrow> string list \<Rightarrow> string list" where
  "prose_loop c in_code [] = []"
| "prose_loop c in_code (line # lines) =
     (let stripped = trim_space line in
      if has_prefix stripped ''```'' then prose_loop c (\<not> in_code) lines
      else if in_code then prose_loop c in_code lines
      else if \<not> is_code_line c stripped then line # prose_loop c in_code lines
      else prose_loop c in_code lines)"

definition extract_prose :: "classifier \<Rightarrow> string \<Rightarrow> string" where
  "extract_prose c text =
     (let result = trim_space (join nl (prose_loop c False (split_str text nl)))
      in if result \<noteq> [] then result else text)"

section \<open>Scoring and disambiguation\<close>

fun unique_words :: "string list \<Rightarrow> string list \<Rightarrow> string list" where
  "unique_words seen [] = []"
| "unique_words seen (w # ws) =
     (if w \<in> set seen then unique_words seen ws else w # unique_words (w # seen) ws)"

definition tokenize :: "classifier \<Rightarrow> string \<Rightarrow> string list" where
  "tokenize c text = unique_words [] (find_all (word_tokenizer c) (to_lower text))"

definition get_sentiment :: "classifier \<Rightarrow> string \<Rightarrow> string" where
  "get_sentiment c text =
     (let ws = tokenize c text;
          pos = length (filter (positive c) ws);
          neg = length (filter (negative c) ws)
      in if pos > neg then ''positive'' else if neg > pos then ''negative'' else ''neutral'')"

definition has_resolution :: "classifier \<Rightarrow> string \<Rightarrow> bool" where
  "has_resolution c text = list_ex (\<lambda>r. match_string r (to_lower text)) (resolvers c)"

definition score_markers :: "string \<Rightarrow> regexp list \<Rightarrow> real" where
  "score_markers text ms = (\<Sum>m\<leftarrow>ms. real (length (find_all m (to_lower text))))"

definition score_all_markers :: "classifier \<Rightarrow> string \<Rightarrow> (string \<times> real) list" where
  "score_all_markers c prose =
     filter (\<lambda>(t, s). s > 0) (map (\<lambda>(t, ms). (t, score_markers prose ms)) (markers c))"

definition score_of :: "(string \<times> real) list \<Rightarrow> string \<Rightarrow> real" where
  "score_of scores t = (case map_of scores t of None \<Rightarrow> 0 | Some s \<Rightarrow> s)"

definition disambiguate :: "classifier \<Rightarrow> string \<Rightarrow> string \<Rightarrow> (string \<times> real) list \<Rightarrow> string" where
  "disambiguate c mem_type text scores =
     (let sentiment = get_sentiment c text in
      if mem_type = ''problem'' \<and> has_resolution c text then
        (if score_of scores ''emotional'' > 0 \<and> sentiment = ''positive'' then ''emotional''
         else ''milestone'')
      else if mem_type = ''problem'' \<and> sentiment = ''positive'' \<and> score_of scores ''milestone'' > 0
        then ''milestone''
      else if mem_type = ''problem'' \<and> sentiment = ''positive'' \<and> score_of scores ''emotional'' > 0
        then ''emotional''
      else mem_type)"

fun max_loop :: "(string \<Rightarrow> real) \<Rightarrow> string \<Rightarrow> real \<Rightarrow> string list \<Rightarrow> string" where
  "max_loop f best best_val [] = best"
| "max_loop f best best_val (k # ks) =
     (if f k > best_val then max_loop f k (f k) ks else max_loop f best best_val ks)"

definition max_key :: "(string \<times> real) list \<Rightarrow> string" where
  "max_key m = max_loop (score_of m) '''' 0 (sorted_keys m)"

section \<open>\<open>Classify\<close>\<close>

definition length_bonus :: "string \<Rightarrow> real" where
  "length_bonus seg =
     (if length seg > 500 then 2 else if length seg > minSegmentLenForBonus then 1 else 0)"

text \<open>One segment: \<^const>\<open>None\<close> where the Go loop continues without a result.\<close>

definition classify_segment :: "classifier \<Rightarrow> real \<Rightarrow> nat \<Rightarrow> string \<Rightarrow> classified option" where
  "classify_segment c min_confidence index raw =
     (let seg = trim_space raw in
      if length seg < 20 then None
      else let prose = extract_prose c seg; scores = score_all_markers c prose in
      if scores = [] then None
      else let best_type = max_key scores;
               best_score = score_of scores best_type + length_bonus seg;
               best_type' = disambiguate c best_type prose scores;
               raw_confidence = best_score / confidenceDivisor;
               confidence = (if raw_confidence > 1 then 1 else raw_confidence)
      in if confidence < min_confidence then None
         else Some \<lparr>c_content = seg, c_type = best_type', c_index = index, c_confidence = confidence\<rparr>)"

fun classify_loop :: "classifier \<Rightarrow> real \<Rightarrow> classified list \<Rightarrow> string list \<Rightarrow> classified list" where
  "classify_loop c mc results [] = results"
| "classify_loop c mc results (seg # rest) =
     (case classify_segment c mc (length results) seg of
        None \<Rightarrow> classify_loop c mc results rest
      | Some r \<Rightarrow> classify_loop c mc (results @ [r]) rest)"

definition classify :: "classifier \<Rightarrow> string \<Rightarrow> real \<Rightarrow> classified list" where
  "classify c text min_confidence = classify_loop c min_confidence [] (split_into_segments c text)"

section \<open>Lemmas\<close>

lemma concat_turns_loop: "concat (map (\<lambda>s. s @ nl) (turns_loop ps current lines)) =
   (if current @ lines = [] then [] else join nl (current @ lines) @ nl)"
proof (induction ps current lines rule: turns_loop.induct)
  case (2 ps current line lines)
  then show ?case using join_append [of current "line # lines" nl] by auto
qed auto

lemma distinct_unique_words: "distinct (unique_words seen ws) \<and> set (unique_words seen ws) = set ws - set seen"
  by (induction seen ws rule: unique_words.induct) auto

lemma distinct_tokenize: "distinct (tokenize c text)"
  by (simp add: tokenize_def distinct_unique_words)

lemma max_loop_cases:
  "max_loop f best bv ks = best \<and> (\<forall>k \<in> set ks. f k \<le> bv)
   \<or> (max_loop f best bv ks \<in> set ks \<and> f (max_loop f best bv ks) > bv
        \<and> (\<forall>k \<in> set ks. f k \<le> f (max_loop f best bv ks)))"
proof (induction f best bv ks rule: max_loop.induct)
  case (2 f best bv k ks)
  show ?case
  proof (cases "f k > bv")
    case True
    then have eq: "max_loop f best bv (k # ks) = max_loop f k (f k) ks" by simp
    from "2.IH"(1) [OF True] show ?thesis
    proof (elim disjE conjE)
      assume "max_loop f k (f k) ks = k" "\<forall>k' \<in> set ks. f k' \<le> f k"
      with eq True show ?thesis by simp
    next
      assume "max_loop f k (f k) ks \<in> set ks" "f k < f (max_loop f k (f k) ks)"
        "\<forall>k' \<in> set ks. f k' \<le> f (max_loop f k (f k) ks)"
      with eq True show ?thesis by simp
    qed
  next
    case False
    then have eq: "max_loop f best bv (k # ks) = max_loop f best bv ks" by simp
    from "2.IH"(2) [OF False] False show ?thesis unfolding eq by auto
  qed
qed simp

lemma max_loop_first:
  "sorted ks \<Longrightarrow> distinct ks \<Longrightarrow> k \<in> set ks \<Longrightarrow> f k = f (max_loop f best bv ks) \<Longrightarrow> f k > bv
   \<Longrightarrow> max_loop f best bv ks \<le> k"
proof (induction f best bv ks rule: max_loop.induct)
  case (2 f best bv k0 ks)
  show ?case
  proof (cases "f k0 > bv")
    case True
    show ?thesis
    proof (cases "f (max_loop f k0 (f k0) ks) > f k0")
      case gt: True
      with 2 True have "k \<noteq> k0" by auto
      with 2 True gt show ?thesis by auto
    next
      case False
      then have "max_loop f k0 (f k0) ks = k0"
        using max_loop_cases [of f k0 "f k0" ks] by auto
      with 2 True show ?thesis by auto
    qed
  next
    case False
    with 2 show ?thesis by auto
  qed
qed simp

lemma score_all_markers_pos: "(t, s) \<in> set (score_all_markers c prose) \<Longrightarrow> s > 0"
  by (auto simp: score_all_markers_def)

lemma score_all_markers_keys: "fst ` set (score_all_markers c prose) \<subseteq> fst ` set (markers c)"
  by (force simp: score_all_markers_def)

lemma score_of_pos:
  assumes "scores = score_all_markers c prose" and "t \<in> fst ` set scores"
  shows "score_of scores t > 0"
proof -
  from assms(2) obtain s where "map_of scores t = Some s"
    by (metis domD dom_map_of_conv_image_fst)
  then show ?thesis
    using assms(1) score_all_markers_pos by (auto simp: score_of_def dest: map_of_SomeD)
qed

lemma max_key_best:
  assumes "scores = score_all_markers c prose" and "scores \<noteq> []"
  shows "max_key scores \<in> fst ` set scores \<and> score_of scores (max_key scores) > 0
    \<and> (\<forall>t \<in> fst ` set scores. score_of scores t \<le> score_of scores (max_key scores))"
proof -
  from assms(2) obtain t where t: "t \<in> fst ` set scores" by (cases scores) auto
  have "score_of scores t > 0" using score_of_pos [OF assms(1) t] .
  with t max_loop_cases [of "score_of scores" "''''" 0 "sorted_keys scores"]
  show ?thesis unfolding max_key_def sorted_keys_set by (metis leD)
qed

lemma length_bonus_nonneg: "length_bonus seg \<ge> 0"
  by (simp add: length_bonus_def)

lemma disambiguate_cases:
  "disambiguate c t text scores \<in> {t, ''milestone'', ''emotional''}"
  by (auto simp: disambiguate_def Let_def)

lemma disambiguate_other: "t \<noteq> ''problem'' \<Longrightarrow> disambiguate c t text scores = t"
  by (simp add: disambiguate_def Let_def)

lemma classify_segment_Some:
  assumes "classify_segment c mc i raw = Some r"
  shows "c_index r = i \<and> c_content r = trim_space raw \<and> 20 \<le> length (c_content r)
    \<and> mc \<le> c_confidence r \<and> 0 < c_confidence r \<and> c_confidence r \<le> 1
    \<and> c_type r \<in> fst ` set (markers c) \<union> {''milestone'', ''emotional''}"
proof -
  let ?seg = "trim_space raw"
  let ?prose = "extract_prose c ?seg"
  let ?scores = "score_all_markers c ?prose"
  have ne: "?scores \<noteq> []" and len: "20 \<le> length ?seg"
    using assms by (auto simp: classify_segment_def Let_def split: if_splits)
  note best = max_key_best [OF refl ne]
  have key: "max_key ?scores \<in> fst ` set (markers c)"
    using best score_all_markers_keys by blast
  have pos: "0 < score_of ?scores (max_key ?scores) + length_bonus ?seg"
    using best length_bonus_nonneg [of ?seg] by linarith
  have r: "c_index r = i" "c_content r = ?seg" "mc \<le> c_confidence r"
    "c_type r = disambiguate c (max_key ?scores) ?prose ?scores"
    "c_confidence r = min 1 ((score_of ?scores (max_key ?scores) + length_bonus ?seg) / confidenceDivisor)"
    using assms by (auto simp: classify_segment_def Let_def min_def split: if_splits)
  have "c_type r \<in> fst ` set (markers c) \<union> {''milestone'', ''emotional''}"
    using disambiguate_cases [of c "max_key ?scores" ?prose ?scores] key
    unfolding r(4) insert_iff empty_iff by (elim disjE) simp_all
  moreover have "0 < c_confidence r" "c_confidence r \<le> 1"
    using r(5) pos by (simp_all add: confidenceDivisor_def)
  ultimately show ?thesis using r len by simp
qed

text \<open>The loop invariant: every result is good and carries its own position.\<close>

definition result_ok :: "classifier \<Rightarrow> real \<Rightarrow> classified \<Rightarrow> bool" where
  "result_ok c mc r \<longleftrightarrow> 20 \<le> length (c_content r) \<and> mc \<le> c_confidence r \<and> 0 < c_confidence r
     \<and> c_confidence r \<le> 1 \<and> c_type r \<in> fst ` set (markers c) \<union> {''milestone'', ''emotional''}"

lemma classify_loop_ok:
  assumes "list_all (result_ok c mc) results" and "map c_index results = [0 ..< length results]"
  shows "list_all (result_ok c mc) (classify_loop c mc results rest)
    \<and> map c_index (classify_loop c mc results rest) = [0 ..< length (classify_loop c mc results rest)]"
  using assms
proof (induction c mc results rest rule: classify_loop.induct)
  case (2 c mc results seg rest)
  show ?case
  proof (cases "classify_segment c mc (length results) seg")
    case None
    with 2 show ?thesis by simp
  next
    case (Some r)
    from classify_segment_Some [OF Some] have "result_ok c mc r" "c_index r = length results"
      by (auto simp: result_ok_def)
    with 2 Some show ?thesis by simp
  qed
qed simp

lemma extract_prose_nonempty: "text \<noteq> [] \<Longrightarrow> extract_prose c text \<noteq> []"
  by (simp add: extract_prose_def Let_def)

lemma chunk_lines_nonempty: "s \<in> set (chunk_lines lines n) \<Longrightarrow> s \<noteq> []"
proof (induction lines n rule: chunk_lines.induct)
  case (1 lines n)
  from "1.prems" have "lines \<noteq> [] \<and> n \<noteq> 0"
    by (auto simp: chunk_lines.simps [of lines n] split: if_splits)
  with 1 show ?case
    by (auto simp: chunk_lines.simps [of lines n] Let_def split: if_splits)
qed

section \<open>Properties\<close>

text \<open>Every memory that \<open>Classify\<close> returns has at least 20 bytes of content, a
  confidence that is positive, at most 1 and at least the requested minimum, a type that is one
  of the configured marker types or a disambiguation result, and its own position as its chunk
  index.\<close>

theorem classify_results_ok:
  "list_all (result_ok c mc) (classify c text mc)
   \<and> map c_index (classify c text mc) = [0 ..< length (classify c text mc)]"
  by (simp add: classify_def classify_loop_ok)

text \<open>C16. Splitting a transcript by speaker turns loses nothing: the segments, each ended by a
  newline, are the text ended by a newline, whatever the turn patterns are.\<close>

theorem split_by_turns_lossless:
  "concat (map (\<lambda>s. s @ nl) (split_by_turns (split_str text nl) ps)) = text @ nl"
proof -
  have "split_str text nl \<noteq> []" by (simp add: split_str_def)
  then show ?thesis
    using concat_turns_loop [of ps "[]" "split_str text nl"] join_split_str [of nl "text"]
    by (simp add: split_by_turns_def)
qed

text \<open>The type \<open>Classify\<close> starts from is a scored type whose score no other type
  exceeds, and among the types with that score it is the alphabetically first one, so a tie is
  broken the same way on every run although Go iterates over the score map in random order.\<close>

theorem max_key_deterministic:
  assumes "distinct (map fst (markers c))" and "score_all_markers c prose \<noteq> []"
  shows "max_key (score_all_markers c prose) \<in> fst ` set (score_all_markers c prose)
    \<and> (\<forall>t \<in> fst ` set (score_all_markers c prose).
         score_of (score_all_markers c prose) t
           \<le> score_of (score_all_markers c prose) (max_key (score_all_markers c prose))
         \<and> (score_of (score_all_markers c prose) t
              = score_of (score_all_markers c prose) (max_key (score_all_markers c prose))
              \<longrightarrow> max_key (score_all_markers c prose) \<le> t))"
proof -
  let ?m = "score_all_markers c prose"
  note best = max_key_best [OF refl assms(2)]
  have fst_map: "map fst (map (\<lambda>(t, ms). (t, score_markers prose ms)) (markers c)) = map fst (markers c)"
    by (simp add: case_prod_beta)
  have "distinct (map fst ?m)"
    unfolding score_all_markers_def using assms(1) fst_map by (metis distinct_map_filter)
  then have keys: "sorted (sorted_keys ?m)" "distinct (sorted_keys ?m)" by auto
  have "max_key ?m \<le> t" if "t \<in> fst ` set ?m" "score_of ?m t = score_of ?m (max_key ?m)" for t
    using max_loop_first [OF keys, where f = "score_of ?m" and bv = 0 and best = "''''" and k = t] that score_of_pos [OF refl that(1)]
    by (simp add: max_key_def)
  with best show ?thesis by blast
qed

definition literal_regexp :: "string \<Rightarrow> regexp" where
  "literal_regexp w = \<lparr>match_string = (\<lambda>s. contains_sub s w),
     find_all = (\<lambda>s. if contains_sub s w then [w] else [])\<rparr>"

definition sample_classifier :: classifier where
  "sample_classifier = \<lparr>markers = [(''problem'', [literal_regexp ''bug'']), (''decision'', [literal_regexp ''go''])],
     positive = (\<lambda>w. False), negative = (\<lambda>w. w = ''bug''), resolvers = [literal_regexp ''fixed''],
     code_lines = [], blockquote = literal_regexp ''> '', human_speaker = literal_regexp ''Human:'',
     assistant_speaker = literal_regexp ''AI:'', word_tokenizer = literal_regexp ''bug''\<rparr>"

theorem max_key_deterministic_witness:
  "max_key (score_all_markers sample_classifier ''bug go'') \<in> fst ` set (score_all_markers sample_classifier ''bug go'')"
proof -
  have "score_all_markers sample_classifier ''bug go'' \<noteq> []"
    by (simp add: score_all_markers_def sample_classifier_def score_markers_def literal_regexp_def
        has_prefix_def to_lower_def)
  moreover have "distinct (map fst (markers sample_classifier))"
    by (simp add: sample_classifier_def)
  ultimately show ?thesis using max_key_deterministic [of sample_classifier "''bug go''"] by blast
qed

end
