(* ===== verification/Chunking.thy ===== *)
theory Chunking
  imports Memory_Types
begin

text \<open>
  \<open>internal/orchestrator/memory/autoingest/helpers.go\<close>: cutting a chat exchange into chunks,
  by sentences with an overlap, or by runes where there is no sentence boundary. Sizes are
  natural numbers: the callers pass the positive constants of \<open>memory/types.go\<close>.
\<close>

section \<open>Sentences\<close>

text \<open>The pattern \<open>([.!?])\s+\<close>; RE2's \<open>\s\<close> is tab, newline, form feed, return, space.\<close>

definition is_punct :: "char \<Rightarrow> bool" where
  "is_punct ch \<longleftrightarrow> ch \<in> {CHR ''.'', CHR ''!'', CHR ''?''}"

definition re_space :: "char \<Rightarrow> bool" where
  "re_space ch \<longleftrightarrow> byte ch \<in> {9, 10, 12, 13, 32}"

text \<open>The parts between the matches, each with the punctuation that closed it.\<close>

function sentences_acc :: "string \<Rightarrow> string \<Rightarrow> string list" where
  "sentences_acc acc [] = [rev acc]"
| "sentences_acc acc (ch # cs) =
     (if is_punct ch \<and> cs \<noteq> [] \<and> re_space (hd cs)
      then rev (ch # acc) # sentences_acc [] (dropWhile re_space cs)
      else sentences_acc (ch # acc) cs)"
  by pat_completeness auto
termination
  by (relation "measure (\<lambda>(acc, s). length s)") (auto simp: le_imp_less_Suc length_dropWhile_le)

definition split_sentences :: "string \<Rightarrow> string list" where
  "split_sentences text = sentences_acc [] text"

definition tail_overlap :: "string \<Rightarrow> nat \<Rightarrow> string" where
  "tail_overlap chunk overlap =
     (if overlap = 0 then []
      else if length chunk > overlap then drop (length chunk - overlap) chunk
      else chunk)"

fun assemble_loop :: "nat \<Rightarrow> nat \<Rightarrow> nat \<Rightarrow> string \<Rightarrow> string list \<Rightarrow> string list" where
  "assemble_loop max_size overlap min_chunk current [] =
     (if length current \<ge> min_chunk then [current] else [])"
| "assemble_loop max_size overlap min_chunk current (sentence # rest) =
     (let flush = length current > 0 \<and> length current + 1 + length sentence > max_size;
          emitted = (if flush \<and> length current \<ge> min_chunk then [current] else []);
          current' = (if flush then tail_overlap current overlap else current);
          glue = (if length current' > 0 then '' '' else [])
      in emitted @ assemble_loop max_size overlap min_chunk (current' @ glue @ sentence) rest)"

definition assemble_chunks :: "string list \<Rightarrow> nat \<Rightarrow> nat \<Rightarrow> nat \<Rightarrow> string list" where
  "assemble_chunks sentences max_size overlap min_chunk =
     assemble_loop max_size overlap min_chunk [] sentences"

section \<open>Hard split\<close>

text \<open>
  The loop \<open>for i := 0; i < len(runes); i += maxSize - overlap\<close>, on the runes from \<open>i\<close>
  on: the windows \<open>runes[i:end]\<close>, up to the one with \<open>end == len(runes)\<close>.
\<close>

function windows :: "nat \<Rightarrow> nat \<Rightarrow> 'a list \<Rightarrow> 'a list list" where
  "windows max_size stride rs =
     (if rs = [] \<or> stride = 0 then []
      else take max_size rs
           # (if length rs \<le> max_size then [] else windows max_size stride (drop stride rs)))"
  by pat_completeness auto
termination by (relation "measure (\<lambda>(m, s, rs). length rs)") auto

declare windows.simps [simp del]

definition hard_split :: "string \<Rightarrow> nat \<Rightarrow> nat \<Rightarrow> nat \<Rightarrow> string list" where
  "hard_split text max_size overlap min_chunk =
     (if max_size \<le> overlap then []
      else filter (\<lambda>chunk. length chunk \<ge> min_chunk)
             (map of_runes (windows max_size (max_size - overlap) (go_runes text))))"

definition chunk_text :: "string \<Rightarrow> nat \<Rightarrow> nat \<Rightarrow> nat \<Rightarrow> string list" where
  "chunk_text text max_size overlap min_chunk =
     (if length text \<le> max_size then [text]
      else let chunks = assemble_chunks (split_sentences text) max_size overlap min_chunk
           in if length chunks > 0 then chunks
              else hard_split text max_size overlap min_chunk)"

text \<open>\<open>isNoise\<close>; \<open>noise\<close> is \<open>pattern.MatchString\<close> for the configured pattern.\<close>

definition is_noise :: "(string \<Rightarrow> bool) \<Rightarrow> string \<Rightarrow> nat \<Rightarrow> bool" where
  "is_noise noise text min_length =
     (if length text < min_length then True else noise (trim_space text))"

section \<open>Lemmas\<close>

lemma length_tail_overlap: "length (tail_overlap chunk overlap) \<le> overlap"
  by (simp add: tail_overlap_def)

lemma tail_overlap_suffix: "\<exists>p. chunk = p @ tail_overlap chunk overlap"
  by (metis append.right_neutral append_Nil append_take_drop_id tail_overlap_def)

lemma length_next:
  assumes "length current \<le> bound" and "max_size \<le> bound" and "overlap + 1 + length sentence \<le> bound"
    and "flush = (length current > 0 \<and> length current + 1 + length sentence > max_size)"
    and "current' = (if flush then tail_overlap current overlap else current)"
  shows "length (current' @ (if length current' > 0 then [CHR '' ''] else []) @ sentence) \<le> bound"
proof (cases flush)
  case True
  with assms(5) have "length current' \<le> overlap" by (simp add: length_tail_overlap)
  with assms(3) show ?thesis by simp
next
  case False
  with assms(5) have "current' = current" by simp
  moreover have "current = [] \<or> length current + 1 + length sentence \<le> max_size"
    using False assms(4) by auto
  ultimately show ?thesis using assms(1-3) by auto
qed

lemma assemble_loop_bounds:
  assumes "length current \<le> bound" and "max_size \<le> bound"
    and "\<forall>s \<in> set sentences. overlap + 1 + length s \<le> bound"
  shows "\<forall>chunk \<in> set (assemble_loop max_size overlap min_chunk current sentences).
    min_chunk \<le> length chunk \<and> length chunk \<le> bound"
  using assms
proof (induction max_size overlap min_chunk current sentences rule: assemble_loop.induct)
  case (2 max_size overlap min_chunk current sentence rest)
  define flush where "flush = (length current > 0 \<and> length current + 1 + length sentence > max_size)"
  define current' where "current' = (if flush then tail_overlap current overlap else current)"
  define next' where "next' = current' @ (if length current' > 0 then [CHR '' ''] else []) @ sentence"
  have "length next' \<le> bound"
    unfolding next'_def using "2.prems" by (intro length_next [OF _ _ _ flush_def current'_def]) simp_all
  then have "\<forall>chunk \<in> set (assemble_loop max_size overlap min_chunk next' rest).
      min_chunk \<le> length chunk \<and> length chunk \<le> bound"
    using "2.IH" [OF flush_def refl current'_def refl] "2.prems" unfolding next'_def by simp
  moreover have "assemble_loop max_size overlap min_chunk current (sentence # rest) =
      (if flush \<and> length current \<ge> min_chunk then [current] else [])
      @ assemble_loop max_size overlap min_chunk next' rest"
    by (simp add: Let_def flush_def current'_def next'_def)
  ultimately show ?case using "2.prems"(1) by auto
qed simp

lemma windows_Cons:
  "rs \<noteq> [] \<Longrightarrow> stride > 0 \<Longrightarrow> windows m stride rs =
     take m rs # (if length rs \<le> m then [] else windows m stride (drop stride rs))"
  by (subst windows.simps) simp

lemma windows_subset: "w \<in> set (windows m stride rs) \<Longrightarrow> set w \<subseteq> set rs \<and> length w \<le> m"
proof (induction m stride rs rule: windows.induct)
  case (1 m stride rs)
  then have ne: "rs \<noteq> []" "stride > 0"
    by (auto simp: windows.simps [of m stride rs] split: if_splits)
  with "1.prems" consider "w = take m rs" | "w \<in> set (windows m stride (drop stride rs))" "\<not> length rs \<le> m"
    by (auto simp: windows_Cons split: if_splits)
  then show ?case
  proof cases
    case 1
    then show ?thesis using set_take_subset [of m rs] by simp
  next
    case 2
    with "1.IH" ne have "set w \<subseteq> set (drop stride rs) \<and> length w \<le> m" by blast
    then show ?thesis using set_drop_subset [of stride rs] by blast
  qed
qed

lemma windows_nonempty: "rs \<noteq> [] \<Longrightarrow> stride > 0 \<Longrightarrow> windows m stride rs \<noteq> []"
  by (simp add: windows_Cons)

lemma windows_cover:
  "stride > 0 \<Longrightarrow> stride \<le> m \<Longrightarrow>
   concat (map (take stride) (butlast (windows m stride rs)))
     @ (if rs = [] then [] else last (windows m stride rs)) = rs"
proof (induction m stride rs rule: windows.induct)
  case (1 m stride rs)
  show ?case
  proof (cases "rs = [] \<or> length rs \<le> m")
    case True
    with 1 show ?thesis by (cases "rs = []") (auto simp: windows_Cons windows.simps [of m stride "[]"])
  next
    case False
    then have d: "drop stride rs \<noteq> []" using 1 by simp
    have w: "windows m stride rs = take m rs # windows m stride (drop stride rs)"
      using False 1 by (simp add: windows_Cons)
    have ne: "windows m stride (drop stride rs) \<noteq> []" using d 1 windows_nonempty by metis
    have IH: "concat (map (take stride) (butlast (windows m stride (drop stride rs))))
        @ last (windows m stride (drop stride rs)) = drop stride rs"
      using "1.IH" False 1 d by auto
    have "min stride m = stride" using 1 by simp
    then show ?thesis using w ne IH False by (simp add: min.commute)
  qed
qed

lemma windows_valid:
  assumes "w \<in> set (windows m stride (go_runes text))"
  shows "list_all valid_rune w \<and> length w \<le> m"
  using windows_subset [OF assms] go_runes_valid by (auto simp: list_all_iff)

section \<open>Properties\<close>

text \<open>Every chunk of a hard split is valid UTF-8, whatever bytes the input holds, has at most
  \<open>maxSize\<close> runes and at least \<open>minChunk\<close> bytes: no chunk ends inside a multi-byte
  character.\<close>

theorem hard_split_valid:
  "list_all (\<lambda>chunk. valid_utf8 chunk \<and> length (go_runes chunk) \<le> max_size \<and> min_chunk \<le> length chunk)
     (hard_split body max_size overlap min_chunk)"
  using windows_valid [of _ max_size "max_size - overlap" body]
  by (auto simp: list_all_iff hard_split_def valid_utf8_of_runes go_runes_of_runes)

text \<open>The windows of a hard split cover the text: the first \<open>maxSize - overlap\<close> runes of
  every window but the last, followed by the whole last window, are the runes of the text in order.
  The loop ends for every text.\<close>

theorem hard_split_covers:
  assumes "overlap < max_size"
  shows "\<exists>ws. hard_split body max_size overlap 0 = map of_runes ws
     \<and> concat (map (take (max_size - overlap)) (butlast ws)) @ (if body = [] then [] else last ws) = go_runes body"
proof (intro exI conjI)
  let ?ws = "windows max_size (max_size - overlap) (go_runes body)"
  show "hard_split body max_size overlap 0 = map of_runes ?ws"
    using assms by (simp add: hard_split_def)
  have "go_runes body = [] \<longleftrightarrow> body = []" by (simp add: go_runes_def)
  then show "concat (map (take (max_size - overlap)) (butlast ?ws)) @ (if body = [] then [] else last ?ws) = go_runes body"
    using windows_cover [of "max_size - overlap" max_size "go_runes body"] assms by simp
qed

theorem hard_split_covers_witness:
  "\<exists>ws. hard_split ''abcdef'' 3 1 0 = map of_runes ws
     \<and> concat (map (take 2) (butlast ws)) @ last ws = go_runes ''abcdef''"
  using hard_split_covers [of 1 3 "''abcdef''"] by simp

text \<open>Chunks assembled from sentences that leave room for the overlap and a space are at least
  \<open>minChunk\<close> and at most \<open>maxSize\<close> bytes long.\<close>

theorem assemble_chunks_bounded:
  assumes "\<forall>s \<in> set sentences. overlap + 1 + length s \<le> max_size"
  shows "list_all (\<lambda>chunk. min_chunk \<le> length chunk \<and> length chunk \<le> max_size)
    (assemble_chunks sentences max_size overlap min_chunk)"
  using assemble_loop_bounds [of "[]" max_size max_size sentences overlap min_chunk] assms
  by (simp add: assemble_chunks_def list_all_iff)

theorem assemble_chunks_bounded_witness:
  "list_all (\<lambda>chunk. 2 \<le> length chunk \<and> length chunk \<le> 9)
    (assemble_chunks [''Hello.'', ''Bye.'', ''Done.''] 9 2 2)"
  by (rule assemble_chunks_bounded) simp

text \<open>A text without a sentence boundary is never cut: as long as it has \<open>minChunk\<close>
  bytes it is returned whole, however much longer than \<open>maxSize\<close> it is, and the hard split
  that is meant for such a text is not reached.\<close>

theorem no_boundary_not_split:
  assumes "split_sentences body = [body]" and "0 < length body" and "min_chunk \<le> length body"
  shows "chunk_text body max_size overlap min_chunk = [body]"
  using assms by (simp add: chunk_text_def assemble_chunks_def Let_def)

theorem no_boundary_not_split_witness:
  "chunk_text (replicate 30 (CHR ''a'')) 20 5 10 = [replicate 30 (CHR ''a'')]
   \<and> length (replicate 30 (CHR ''a'')) > 20"
proof -
  have acc: "sentences_acc acc (replicate n (CHR ''a'')) = [rev acc @ replicate n (CHR ''a'')]" for acc n
    by (induction n arbitrary: acc) (simp_all add: is_punct_def replicate_app_Cons_same)
  then have "split_sentences (replicate 30 (CHR ''a'')) = [replicate 30 (CHR ''a'')]"
    by (simp add: split_sentences_def)
  then show ?thesis using no_boundary_not_split [of "replicate 30 (CHR ''a'')" 10 20 5] by simp
qed

end
