(* ===== verification/Drawer_Repo.thy ===== *)
theory Drawer_Repo
  imports Memory_Types
begin

text \<open>
  \<open>internal/orchestrator/memory/repo/drawerrepo/postgres.go\<close>: the statements on the table
  \<open>memory_drawers\<close>, whose primary key is \<open>id\<close> alone. The state is the list of rows,
  the clock, the cosine similarity of pgvector and, for the errors the driver may return, a function
  that says which of the calls made so far fail; a failing statement changes nothing. Embeddings
  are lists of reals.
\<close>

record world =
  w_rows :: "drawer list"
  w_now :: int
  w_calls :: nat
  w_fails :: "nat \<Rightarrow> bool"
  w_sim :: "real list \<Rightarrow> real list \<Rightarrow> real"

type_synonym ('s, 'a) call = "'s \<Rightarrow> 's \<times> 'a go_result"

definition db_error :: string where "db_error = ''db error''"

definition db_stmt :: "(drawer list \<Rightarrow> drawer list go_result \<times> 'a) \<Rightarrow> (world, 'a) call" where
  "db_stmt f w =
     (let w' = w\<lparr>w_calls := Suc (w_calls w)\<rparr> in
      if w_fails w (w_calls w) then (w', Inl db_error)
      else case f (w_rows w) of
             (Inl e, _) \<Rightarrow> (w', Inl e)
           | (Inr rs, a) \<Rightarrow> (w'\<lparr>w_rows := rs\<rparr>, Inr a))"

definition where_ws_id :: "string \<Rightarrow> string \<Rightarrow> drawer \<Rightarrow> bool" where
  "where_ws_id ws i r \<longleftrightarrow> d_ws r = ws \<and> d_id r = i"

definition update_rows :: "(drawer \<Rightarrow> bool) \<Rightarrow> (drawer \<Rightarrow> drawer) \<Rightarrow> drawer list \<Rightarrow> drawer list" where
  "update_rows p f rs = map (\<lambda>r. if p r then f r else r) rs"

definition exec_update :: "(drawer \<Rightarrow> bool) \<Rightarrow> (drawer \<Rightarrow> drawer) \<Rightarrow> (world, unit) call" where
  "exec_update p f = db_stmt (\<lambda>rs. (Inr (update_rows p f rs), ()))"

definition select_rows :: "(drawer list \<Rightarrow> 'a) \<Rightarrow> (world, 'a) call" where
  "select_rows q = db_stmt (\<lambda>rs. (Inr rs, q rs))"

definition day_seconds :: int where "day_seconds = 86400"
definition hour_seconds :: int where "hour_seconds = 3600"

definition or_default :: "int \<Rightarrow> nat \<Rightarrow> nat" where
  "or_default limit def = (if limit \<le> 0 then def else nat limit)"

section \<open>Inserts and deletes\<close>

text \<open>The columns an INSERT does not name take the defaults of the schema.\<close>

definition inserted :: "drawer \<Rightarrow> real list \<Rightarrow> drawer" where
  "inserted d emb =
     d\<lparr>d_state := (if d_state d = StEmpty then Raw else d_state d),
       d_summary := '''', d_accessed := None, d_access_count := 0, d_superseded := None,
       d_cluster := None, d_retry := 0,
       d_embedding := (if length emb > 0 then Some emb else None)\<rparr>"

definition add_drawer :: "drawer \<Rightarrow> real list \<Rightarrow> bool \<Rightarrow> (world, unit) call" where
  "add_drawer d emb on_conflict_do_nothing = db_stmt (\<lambda>rs.
     if d_id d \<in> d_id ` set rs
     then (if on_conflict_do_nothing then Inr rs else Inl ''duplicate key'', ())
     else (Inr (rs @ [inserted d emb]), ()))"

definition add_idempotent :: "drawer \<Rightarrow> real list \<Rightarrow> (world, unit) call" where
  "add_idempotent d emb = add_drawer d emb True"

definition count_drawers :: "string \<Rightarrow> (world, nat) call" where
  "count_drawers ws = select_rows (\<lambda>rs. length (filter (\<lambda>r. d_ws r = ws) rs))"

definition add :: "drawer \<Rightarrow> real list \<Rightarrow> (world, unit) call" where
  "add d emb w =
     (case count_drawers (d_ws d) w of
        (w1, Inl e) \<Rightarrow> (w1, Inl (''drawer: check count: '' @ e))
      | (w1, Inr n) \<Rightarrow>
          if n \<ge> MaxDrawersPerWorkspace
          then (w1, Inl (''drawer: workspace limit reached ('' @ show_nat MaxDrawersPerWorkspace @ '')''))
          else add_drawer d emb False w1)"

definition delete_drawer :: "string \<Rightarrow> string \<Rightarrow> (world, unit) call" where
  "delete_drawer ws i = db_stmt (\<lambda>rs. (Inr (filter (\<lambda>r. \<not> where_ws_id ws i r) rs), ()))"

section \<open>Updates of one row\<close>

definition update_state :: "string \<Rightarrow> string \<Rightarrow> drawer_state \<Rightarrow> (world, unit) call" where
  "update_state ws i st = exec_update (where_ws_id ws i) (\<lambda>r. r\<lparr>d_state := st\<rparr>)"

definition claim_for_processing :: "string \<Rightarrow> string list \<Rightarrow> (world, unit) call" where
  "claim_for_processing ws ids w =
     (if length ids = 0 then (w, Inr ())
      else exec_update (\<lambda>r. d_ws r = ws \<and> d_id r \<in> set ids \<and> d_state r = Raw)
             (\<lambda>r. r\<lparr>d_state := Classifying\<rparr>) w)"

definition update_embedding :: "string \<Rightarrow> string \<Rightarrow> real list \<Rightarrow> (world, unit) call" where
  "update_embedding ws i emb = exec_update (where_ws_id ws i) (\<lambda>r. r\<lparr>d_embedding := Some emb\<rparr>)"

definition update_classification ::
  "string \<Rightarrow> string \<Rightarrow> string \<Rightarrow> string \<Rightarrow> string \<Rightarrow> real \<Rightarrow> (world, unit) call" where
  "update_classification ws i ty summary room imp =
     exec_update (where_ws_id ws i)
       (\<lambda>r. r\<lparr>d_type := ty, d_summary := summary, d_room := room, d_importance := imp\<rparr>)"

definition set_superseded_by :: "string \<Rightarrow> string \<Rightarrow> string \<Rightarrow> (world, unit) call" where
  "set_superseded_by ws i by_id = exec_update (where_ws_id ws i) (\<lambda>r. r\<lparr>d_superseded := Some by_id\<rparr>)"

definition set_cluster_id :: "string \<Rightarrow> string \<Rightarrow> string \<Rightarrow> (world, unit) call" where
  "set_cluster_id ws i c = exec_update (where_ws_id ws i) (\<lambda>r. r\<lparr>d_cluster := Some c\<rparr>)"

definition touch_row :: "int \<Rightarrow> drawer \<Rightarrow> drawer" where
  "touch_row now r = r\<lparr>d_accessed := Some now, d_access_count := d_access_count r + 1\<rparr>"

definition touch_access :: "string \<Rightarrow> string \<Rightarrow> (world, unit) call" where
  "touch_access ws i w = exec_update (where_ws_id ws i) (touch_row (w_now w)) w"

definition touch_access_batch :: "string \<Rightarrow> string list \<Rightarrow> (world, unit) call" where
  "touch_access_batch ws ids w =
     (if length ids = 0 then (w, Inr ())
      else exec_update (\<lambda>r. d_ws r = ws \<and> d_id r \<in> set ids) (touch_row (w_now w)) w)"

definition increment_retry_count :: "string \<Rightarrow> string \<Rightarrow> (world, unit) call" where
  "increment_retry_count ws i = exec_update (where_ws_id ws i) (\<lambda>r. r\<lparr>d_retry := d_retry r + 1\<rparr>)"

definition boost_importance :: "string \<Rightarrow> string \<Rightarrow> real \<Rightarrow> real \<Rightarrow> (world, unit) call" where
  "boost_importance ws i delta max_importance =
     exec_update (where_ws_id ws i) (\<lambda>r. r\<lparr>d_importance := min (d_importance r + delta) max_importance\<rparr>)"

definition update_enrichment :: "string \<Rightarrow> string \<Rightarrow> nat \<Rightarrow> nat \<Rightarrow> (world, unit) call" where
  "update_enrichment ws i entities triples w =
     (case exec_update (where_ws_id ws i) (\<lambda>r. r\<lparr>d_entities := entities, d_triples := triples\<rparr>) w of
        (w1, Inl e) \<Rightarrow> (w1, Inl (''drawer: update enrichment: '' @ e))
      | (w1, Inr u) \<Rightarrow> (w1, Inr u))"

section \<open>Maintenance\<close>

definition decays :: "world \<Rightarrow> string \<Rightarrow> int \<Rightarrow> int \<Rightarrow> real \<Rightarrow> drawer \<Rightarrow> bool" where
  "decays w ws older skip lowest r \<longleftrightarrow>
     d_ws r = ws \<and> d_state r = Processed \<and> d_importance r > lowest
     \<and> d_created_at r < w_now w - day_seconds * older
     \<and> (case d_accessed r of None \<Rightarrow> True | Some t \<Rightarrow> t < w_now w - day_seconds * skip)"

definition decay_importance ::
  "string \<Rightarrow> int \<Rightarrow> int \<Rightarrow> real \<Rightarrow> real \<Rightarrow> (world, nat) call" where
  "decay_importance ws older skip factor lowest w =
     (case db_stmt (\<lambda>rs. (Inr (update_rows (decays w ws older skip lowest)
                               (\<lambda>r. r\<lparr>d_importance := max (d_importance r * factor) lowest\<rparr>) rs),
                          length (filter (decays w ws older skip lowest) rs))) w of
        (w1, Inl e) \<Rightarrow> (w1, Inl (''drawer: decay importance: '' @ e))
      | (w1, Inr n) \<Rightarrow> (w1, Inr n))"

text \<open>
  The sub-select of the prune statement: the candidates by falling importance, without the first
  \<open>keepMin\<close>. SQL leaves the order of equal importances open; the model takes the table order.
\<close>

definition prune_ids :: "string \<Rightarrow> real \<Rightarrow> nat \<Rightarrow> nat \<Rightarrow> drawer list \<Rightarrow> string list" where
  "prune_ids ws threshold min_access keep_min rs =
     map d_id (drop keep_min (sort_key (\<lambda>r. - d_importance r)
       (filter (\<lambda>r. d_ws r = ws \<and> d_importance r < threshold \<and> d_access_count r < min_access) rs)))"

definition prune_low_importance ::
  "string \<Rightarrow> real \<Rightarrow> nat \<Rightarrow> nat \<Rightarrow> (world, nat) call" where
  "prune_low_importance ws threshold min_access keep_min w =
     (case db_stmt (\<lambda>rs. let ids = prune_ids ws threshold min_access keep_min rs in
              (Inr (filter (\<lambda>r. d_id r \<notin> set ids) rs),
               length (filter (\<lambda>r. d_id r \<in> set ids) rs))) w of
        (w1, Inl e) \<Rightarrow> (w1, Inl (''drawer: prune low importance: '' @ e))
      | (w1, Inr n) \<Rightarrow> (w1, Inr n))"

section \<open>Queries\<close>

text \<open>The columns a SELECT does not name stay at Go's zero value.\<close>

definition base_cols :: "drawer \<Rightarrow> drawer" where
  "base_cols r = r\<lparr>d_state := StEmpty, d_summary := '''', d_agent := '''', d_accessed := None,
     d_access_count := 0, d_superseded := None, d_cluster := None, d_retry := 0, d_tier := '''',
     d_entities := 0, d_triples := 0, d_embedding := None\<rparr>"

definition list_cols :: "drawer \<Rightarrow> drawer" where
  "list_cols r = (base_cols r)\<lparr>d_state := d_state r, d_retry := d_retry r\<rparr>"

definition search_cols :: "drawer \<Rightarrow> drawer" where
  "search_cols r = (base_cols r)\<lparr>d_state := d_state r, d_summary := d_summary r, d_agent := d_agent r\<rparr>"

definition enrich_cols :: "drawer \<Rightarrow> drawer" where
  "enrich_cols r = (search_cols r)\<lparr>d_tier := d_tier r, d_entities := d_entities r, d_triples := d_triples r\<rparr>"

definition wrap_err :: "string \<Rightarrow> 's \<times> 'a go_result \<Rightarrow> 's \<times> 'a go_result" where
  "wrap_err msg r = (case r of (w, Inl e) \<Rightarrow> (w, Inl (msg @ '': '' @ e)) | (w, Inr a) \<Rightarrow> (w, Inr a))"

definition list_by_state :: "string \<Rightarrow> drawer_state \<Rightarrow> int \<Rightarrow> (world, drawer list) call" where
  "list_by_state ws st limit w = wrap_err ''drawer: list by state''
     (select_rows (\<lambda>rs. map list_cols (take (or_default limit 10)
        (sort_key d_created_at (filter (\<lambda>r. d_ws r = ws \<and> d_state r = st) rs)))) w)"

definition live :: "drawer \<Rightarrow> bool" where
  "live r \<longleftrightarrow> d_superseded r = None \<and> d_state r \<noteq> Merged"

definition get_top_by_importance :: "string \<Rightarrow> string \<Rightarrow> int \<Rightarrow> (world, drawer list) call" where
  "get_top_by_importance ws wing limit w = wrap_err ''drawer: top by importance''
     (select_rows (\<lambda>rs. map base_cols (take (or_default limit 15)
        (sort_key (\<lambda>r. - d_importance r)
          (filter (\<lambda>r. d_ws r = ws \<and> (wing = '''' \<or> d_wing r = wing) \<and> live r) rs)))) w)"

definition get_by_wing_room :: "string \<Rightarrow> string \<Rightarrow> string \<Rightarrow> int \<Rightarrow> (world, drawer list) call" where
  "get_by_wing_room ws wing room limit w = wrap_err ''drawer: get by wing/room''
     (select_rows (\<lambda>rs. map base_cols (take (or_default limit 10)
        (filter (\<lambda>r. d_ws r = ws \<and> (wing = '''' \<or> d_wing r = wing) \<and> (room = '''' \<or> d_room r = room)
                    \<and> live r) rs))) w)"

text \<open>
  \<open>hits\<close> pairs every row that has an embedding with its similarity to the query; ordering by
  distance is ordering by falling similarity.
\<close>

definition hits :: "(real list \<Rightarrow> real list \<Rightarrow> real) \<Rightarrow> real list \<Rightarrow> drawer list \<Rightarrow> search_hit list" where
  "hits sim q rs = concat (map (\<lambda>r. case d_embedding r of None \<Rightarrow> [] | Some e \<Rightarrow> [(r, sim e q)]) rs)"

definition search :: "string \<Rightarrow> real list \<Rightarrow> string \<Rightarrow> string \<Rightarrow> int \<Rightarrow> (world, search_hit list) call" where
  "search ws q wing room limit w =
     (if length q = 0 then (w, Inl ''drawer: empty query embedding'')
      else wrap_err ''drawer: search''
        (select_rows (\<lambda>rs. map (\<lambda>(r, s). (search_cols r, s)) (take (or_default limit 5)
           (sort_key (\<lambda>h. - snd h) (hits (w_sim w) q
             (filter (\<lambda>r. d_ws r = ws \<and> d_state r \<in> {Raw, Processed, StEmpty} \<and> d_superseded r = None
                 \<and> (wing = '''' \<or> d_wing r = wing) \<and> (room = '''' \<or> d_room r = room)) rs))))) w))"

definition check_duplicate :: "string \<Rightarrow> real list \<Rightarrow> real \<Rightarrow> int \<Rightarrow> (world, search_hit list) call" where
  "check_duplicate ws q threshold limit w =
     (if length q = 0 then (w, Inr [])
      else wrap_err ''drawer: check duplicate''
        (select_rows (\<lambda>rs. map (\<lambda>(r, s). (search_cols r, s)) (take (or_default limit 5)
           (sort_key (\<lambda>h. - snd h) (filter (\<lambda>h. snd h \<ge> threshold)
             (hits (w_sim w) q (filter (\<lambda>r. d_ws r = ws) rs)))))) w))"

definition active_workspaces :: "int \<Rightarrow> (world, string list) call" where
  "active_workspaces within_hours w = wrap_err ''drawer: active workspaces''
     (select_rows (\<lambda>rs. remdups (map d_ws (filter (\<lambda>r.
        d_created_at r > w_now w - hour_seconds * within_hours
        \<or> (case d_accessed r of None \<Rightarrow> False | Some t \<Rightarrow> t > w_now w - hour_seconds * within_hours)) rs))) w)"

definition list_enrich_candidates :: "int \<Rightarrow> (world, drawer list) call" where
  "list_enrich_candidates limit w = wrap_err ''drawer: list enrich candidates''
     (select_rows (\<lambda>rs. map enrich_cols (take (or_default limit 100)
        (sort_key d_created_at (filter (\<lambda>r. d_state r = Processed \<and> d_tier r \<noteq> ''llm''
            \<and> d_entities r = 0 \<and> d_importance r \<ge> 3) rs)))) w)"

section \<open>Lemmas\<close>

text \<open>The row of a workspace and an id: what the rest of the program sees of the table.\<close>

definition row_of :: "world \<Rightarrow> string \<times> string \<Rightarrow> drawer option" where
  "row_of w k = find (where_ws_id (fst k) (snd k)) (w_rows w)"

definition unique_ids :: "world \<Rightarrow> bool" where
  "unique_ids w \<longleftrightarrow> distinct (map d_id (w_rows w))"

lemma find_map_key: "(\<And>r. P (g r) = P r) \<Longrightarrow> find P (map g rs) = map_option g (find P rs)"
  by (induction rs) auto

lemma find_filter_key: "(\<And>r. P r \<Longrightarrow> Q r) \<Longrightarrow> find P (filter Q rs) = find P rs"
  by (induction rs) auto

lemma find_unique:
  assumes "distinct (map d_id rs)" and "r \<in> set rs"
  shows "find (where_ws_id (d_ws r) (d_id r)) rs = Some r"
  using assms by (induction rs) (auto simp: where_ws_id_def)

lemma exec_update_cases:
  "exec_update p f w = (w\<lparr>w_calls := Suc (w_calls w)\<rparr>, Inl db_error)
   \<or> exec_update p f w = (w\<lparr>w_calls := Suc (w_calls w), w_rows := update_rows p f (w_rows w)\<rparr>, Inr ())"
  by (simp add: exec_update_def db_stmt_def Let_def)

text \<open>What an update does to one row, when it keeps the key.\<close>

lemma row_of_update:
  assumes "\<And>r. d_ws (f r) = d_ws r \<and> d_id (f r) = d_id r"
  shows "row_of (w\<lparr>w_calls := n, w_rows := update_rows p f (w_rows w)\<rparr>) k
    = map_option (\<lambda>r. if p r then f r else r) (row_of w k)"
proof -
  have "\<And>r. where_ws_id (fst k) (snd k) (if p r then f r else r) = where_ws_id (fst k) (snd k) r"
    using assms by (simp add: where_ws_id_def)
  then show ?thesis
    unfolding row_of_def update_rows_def by (simp add: find_map_key [of "where_ws_id (fst k) (snd k)"])
qed

lemma row_of_calls [simp]: "row_of (w\<lparr>w_calls := n\<rparr>) = row_of w"
  by (simp add: row_of_def fun_eq_iff)

lemma unique_update:
  assumes "\<And>r. d_id (f r) = d_id r"
  shows "unique_ids (w\<lparr>w_calls := n, w_rows := update_rows p f (w_rows w)\<rparr>) = unique_ids w"
proof -
  have "map d_id (update_rows p f (w_rows w)) = map d_id (w_rows w)"
    using assms by (simp add: update_rows_def)
  then show ?thesis by (simp add: unique_ids_def)
qed

lemma row_of_key: "row_of w k = Some r \<Longrightarrow> d_ws r = fst k \<and> d_id r = snd k"
  unfolding row_of_def by (metis find_Some_iff where_ws_id_def)

lemma select_rows_world: "fst (select_rows q w) = w\<lparr>w_calls := Suc (w_calls w)\<rparr>"
  by (simp add: select_rows_def db_stmt_def Let_def)

lemma fst_wrap_err [simp]: "fst (wrap_err m r) = fst r"
  by (simp add: wrap_err_def split: prod.splits sum.splits)

text \<open>A world for the concrete instances: no rows and no failing calls.\<close>

definition empty_world :: world where
  "empty_world = \<lparr>w_rows = [], w_now = 0, w_calls = 0, w_fails = (\<lambda>n. False), w_sim = (\<lambda>a b. 0)\<rparr>"

end
