(* ===== verification/Auto_Ingest.thy ===== *)
theory Auto_Ingest
  imports Classify Chunking Drawer_Repo
begin

text \<open>
  \<open>internal/orchestrator/memory/autoingest\<close>: the pool that turns chat exchanges into drawers.
  The collaborators of \<open>Deps\<close> are the fields of a record over an arbitrary outside world
  \<^typ>\<open>'s\<close>, with \<^const>\<open>None\<close> for a nil one. The pool itself (alitto/pond) is not under
  src/: whether it accepts a task is a parameter, and accepted work waits in a list.
\<close>

record work =
  wk_ws :: string
  wk_agent :: string
  wk_exchange :: string

record memory_event =
  ev_ws :: string
  ev_drawer :: string
  ev_wing :: string
  ev_room :: string
  ev_type :: string
  ev_agent :: string
  ev_len :: nat

record 's ingest_deps =
  i_add :: "drawer \<Rightarrow> real list \<Rightarrow> ('s, unit) call"
  i_check :: "string \<Rightarrow> real list \<Rightarrow> real \<Rightarrow> int \<Rightarrow> ('s, search_hit list) call"
  i_nearest :: "(string \<Rightarrow> real list \<Rightarrow> ('s, string \<times> real \<times> bool) call) option"
  i_classify :: "string \<Rightarrow> real \<Rightarrow> classified list"
  i_embed :: "(string \<Rightarrow> ('s, real list) call) option"
  i_publish :: "(string \<Rightarrow> memory_event \<Rightarrow> 's \<Rightarrow> 's) option"
  i_now :: "'s \<Rightarrow> int"
  i_sha256 :: "string \<Rightarrow> string"
  i_high :: real
  i_low :: real
  i_noise :: "string \<Rightarrow> bool"
  i_noise_min :: nat

record 's service =
  sv_world :: 's
  sv_queue :: "work list"
  sv_dropped :: nat
  sv_centroid_errors :: nat

section \<open>Drawer identifiers\<close>

definition hex_digit :: "nat \<Rightarrow> char" where
  "hex_digit n = (if n < 10 then char_of (48 + n) else char_of (87 + n))"

definition hex_bytes :: "string \<Rightarrow> string" where
  "hex_bytes s = concat (map (\<lambda>ch. [hex_digit (byte ch div 16), hex_digit (byte ch mod 16)]) s)"

definition auto_ingest_drawer_id :: "(string \<Rightarrow> string) \<Rightarrow> string \<Rightarrow> string \<Rightarrow> string" where
  "auto_ingest_drawer_id sha256 room content =
     ''drawer_'' @ AutoIngestWing @ ''_'' @ room @ ''_'' @ hex_bytes (take 8 (sha256 content))"

definition build_drawer ::
  "(string \<Rightarrow> string) \<Rightarrow> int \<Rightarrow> work \<Rightarrow> string \<Rightarrow> string \<Rightarrow> string \<Rightarrow> real \<Rightarrow> string \<Rightarrow> drawer_state \<Rightarrow> drawer" where
  "build_drawer sha256 now wk chunk mem_type room importance tier st =
     \<lparr>d_id = auto_ingest_drawer_id sha256 room chunk, d_ws = wk_ws wk, d_wing = AutoIngestWing,
      d_room = room, d_hall = '''', d_content = chunk, d_importance = importance, d_type = mem_type,
      d_source_file = '''', d_added_by = AutoIngestAddedBy, d_filed_at = now, d_created_at = now,
      d_state = st, d_summary = '''', d_agent = wk_agent wk, d_accessed = None, d_access_count = 0,
      d_superseded = None, d_cluster = None, d_retry = 0, d_tier = tier, d_entities = 0,
      d_triples = 0, d_embedding = None\<rparr>"

section \<open>The chunk pipeline\<close>

definition importanceScale :: real where "importanceScale = 5"

definition classify_chunk :: "'s ingest_deps \<Rightarrow> string \<Rightarrow> string \<times> real \<times> real" where
  "classify_chunk deps chunk =
     (case i_classify deps chunk AutoIngestMinConfidence of
        [] \<Rightarrow> ('''', DefaultImportance, 0)
      | c # _ \<Rightarrow> (c_type c, c_confidence c * importanceScale, c_confidence c))"

definition embed_chunk :: "'s ingest_deps \<Rightarrow> string \<Rightarrow> 's \<Rightarrow> 's \<times> real list" where
  "embed_chunk deps chunk w =
     (case i_embed deps of
        None \<Rightarrow> (w, [])
      | Some emb \<Rightarrow> (case emb chunk w of (w1, Inl e) \<Rightarrow> (w1, []) | (w1, Inr v) \<Rightarrow> (w1, v)))"

definition is_duplicate :: "'s ingest_deps \<Rightarrow> string \<Rightarrow> real list \<Rightarrow> 's \<Rightarrow> 's \<times> bool" where
  "is_duplicate deps ws embedding w =
     (if length embedding = 0 then (w, False)
      else case i_check deps ws embedding AutoIngestDupThreshold 1 w of
             (w1, Inl e) \<Rightarrow> (w1, False)
           | (w1, Inr dupes) \<Rightarrow> (w1, length dupes > 0))"

text \<open>The result is the world, the number of centroid errors added, the tier and the state.\<close>

definition pick_tier ::
  "'s ingest_deps \<Rightarrow> string \<Rightarrow> real \<Rightarrow> real list \<Rightarrow> 's \<Rightarrow> 's \<times> nat \<times> string \<times> drawer_state" where
  "pick_tier deps ws confidence embedding w =
     (if confidence \<ge> i_high deps then (w, 0, PipelineTierHeuristic, Processed)
      else if confidence < i_low deps \<or> i_nearest deps = None \<or> length embedding = 0
        then (w, 0, PipelineTierLLM, Raw)
      else case the (i_nearest deps) ws embedding w of
             (w1, Inl e) \<Rightarrow> (w1, 1, PipelineTierLLM, Raw)
           | (w1, Inr (matched, sim, ok)) \<Rightarrow>
               if \<not> ok \<or> sim < MemoryCentroidThreshold then (w1, 0, PipelineTierLLM, Raw)
               else (w1, 0, PipelineTierCentroid, Processed))"

definition publish_memory_event :: "'s ingest_deps \<Rightarrow> work \<Rightarrow> drawer \<Rightarrow> nat \<Rightarrow> 's \<Rightarrow> 's" where
  "publish_memory_event deps wk d content_len w =
     (case i_publish deps of
        None \<Rightarrow> w
      | Some publish \<Rightarrow> publish (wk_ws wk)
          \<lparr>ev_ws = wk_ws wk, ev_drawer = d_id d, ev_wing = d_wing d, ev_room = d_room d,
           ev_type = d_type d, ev_agent = wk_agent wk, ev_len = content_len\<rparr> w)"

definition ingest_chunk :: "'s ingest_deps \<Rightarrow> work \<Rightarrow> string \<Rightarrow> 's service \<Rightarrow> 's service \<times> bool" where
  "ingest_chunk deps wk chunk sv =
     (let (mem_type, importance, confidence) = classify_chunk deps chunk;
          room = memory_type_to_room mem_type;
          (w1, embedding) = embed_chunk deps chunk (sv_world sv);
          (w2, dup) = is_duplicate deps (wk_ws wk) embedding w1
      in if dup then (sv\<lparr>sv_world := w2\<rparr>, False)
         else
           let (w3, errs, tier, st) = pick_tier deps (wk_ws wk) confidence embedding w2;
               sv3 = sv\<lparr>sv_centroid_errors := sv_centroid_errors sv + errs\<rparr>;
               d = build_drawer (i_sha256 deps) (i_now deps w3) wk chunk mem_type room importance tier st
           in case i_add deps d embedding w3 of
                (w4, Inl e) \<Rightarrow> (sv3\<lparr>sv_world := w4\<rparr>, False)
              | (w4, Inr _) \<Rightarrow> (sv3\<lparr>sv_world := publish_memory_event deps wk d (length chunk) w4\<rparr>, True))"

text \<open>\<open>cancelled i\<close> is whether the run context has expired before chunk \<open>i\<close>.\<close>

fun chunk_loop ::
  "'s ingest_deps \<Rightarrow> (nat \<Rightarrow> bool) \<Rightarrow> work \<Rightarrow> (nat \<times> string) list \<Rightarrow> 's service \<times> nat \<times> nat \<Rightarrow> 's service \<times> nat \<times> nat" where
  "chunk_loop deps cancelled wk [] st = st"
| "chunk_loop deps cancelled wk ((i, chunk) # rest) (sv, ingested, skipped) =
     (if cancelled i then (sv, ingested, skipped)
      else case ingest_chunk deps wk chunk sv of
             (sv', True) \<Rightarrow> chunk_loop deps cancelled wk rest (sv', ingested + 1, skipped)
           | (sv', False) \<Rightarrow> chunk_loop deps cancelled wk rest (sv', ingested, skipped + 1))"

definition run_chunk_pipeline ::
  "'s ingest_deps \<Rightarrow> (nat \<Rightarrow> bool) \<Rightarrow> work \<Rightarrow> 's service \<Rightarrow> 's service \<times> nat \<times> nat" where
  "run_chunk_pipeline deps cancelled wk sv =
     chunk_loop deps cancelled wk
       (enum_from 0 (chunk_text (wk_exchange wk) AutoIngestChunkSize AutoIngestChunkOverlap AutoIngestMinChunk))
       (sv, 0, 0)"

section \<open>The pool\<close>

definition defaultWorkers :: int where "defaultWorkers = 16"
definition defaultQueueSize :: int where "defaultQueueSize = 1024"

text \<open>The pool sizes \<open>NewService\<close> uses.\<close>

definition pool_sizes :: "int \<Rightarrow> int \<Rightarrow> int \<times> int" where
  "pool_sizes workers queue_size =
     (if workers \<le> 0 then defaultWorkers else workers,
      if queue_size \<le> 0 then defaultQueueSize else queue_size)"

text \<open>\<open>accepted\<close> is the result of the pool's \<open>TrySubmit\<close>.\<close>

definition submit :: "'s ingest_deps \<Rightarrow> bool \<Rightarrow> work \<Rightarrow> 's service \<Rightarrow> 's service" where
  "submit deps accepted wk sv =
     (if is_noise (i_noise deps) (wk_exchange wk) (i_noise_min deps) then sv
      else if accepted then sv\<lparr>sv_queue := sv_queue sv @ [wk]\<rparr>
      else sv\<lparr>sv_dropped := sv_dropped sv + 1\<rparr>)"

fun submit_all :: "'s ingest_deps \<Rightarrow> (bool \<times> work) list \<Rightarrow> 's service \<Rightarrow> 's service" where
  "submit_all deps [] sv = sv"
| "submit_all deps ((ok, wk) # rest) sv = submit_all deps rest (submit deps ok wk sv)"

section \<open>Inserting a drawer: the interface\<close>

text \<open>
  What the pipeline relies on in \<open>drawerStore\<close>: an insert that succeeds makes the row present
  and never replaces a row, an insert that fails changes nothing. \<open>row\<close> looks a row up by its id.
\<close>

locale drawer_inserts =
  fixes ins :: "drawer \<Rightarrow> real list \<Rightarrow> ('s, unit) call"
    and row :: "'s \<Rightarrow> string \<Rightarrow> drawer option"
  assumes ins_ok: "ins d e s = (s', Inr u) \<Longrightarrow>
      row s' = (case row s (d_id d) of None \<Rightarrow> (row s)(d_id d \<mapsto> inserted d e) | Some r \<Rightarrow> row s)"
    and ins_err: "ins d e s = (s', Inl x) \<Longrightarrow> row s' = row s"
begin

lemma ins_present: "ins d e s = (s', Inr u) \<Longrightarrow> row s' (d_id d) \<noteq> None"
  using ins_ok by (auto split: option.splits)

lemma ins_keeps: "row s i = Some r \<Longrightarrow> row (fst (ins d e s)) i = Some r"
  using ins_ok [of d e s] ins_err [of d e s]
  by (cases "ins d e s"; cases "snd (ins d e s)") (auto split: option.splits)

lemma ins_again:
  assumes "ins d e s = (s1, Inr u)" and "ins d' e' s1 = (s2, r)" and "d_id d' = d_id d"
  shows "row s2 = row s1"
proof (cases r)
  case (Inl x)
  then show ?thesis using assms(2) ins_err by simp
next
  case (Inr v)
  then show ?thesis using assms ins_present [OF assms(1)] ins_ok [of d' e' s1 s2 v]
    by (auto split: option.splits)
qed

end

definition id_row :: "world \<Rightarrow> string \<Rightarrow> drawer option" where
  "id_row w i = find (\<lambda>r. d_id r = i) (w_rows w)"

lemma find_append: "find P (xs @ ys) = (case find P xs of None \<Rightarrow> find P ys | Some x \<Rightarrow> Some x)"
  by (induction xs) auto

lemma find_id_None: "find (\<lambda>r. d_id r = i) rs = None \<longleftrightarrow> i \<notin> d_id ` set rs"
  by (auto simp: find_None_iff)

interpretation table: drawer_inserts add_idempotent id_row
proof unfold_locales
  fix d e w w' u
  assume a: "add_idempotent d e w = (w', Inr u)"
  show "id_row w' = (case id_row w (d_id d) of None \<Rightarrow> (id_row w)(d_id d \<mapsto> inserted d e) | Some r \<Rightarrow> id_row w)"
  proof (cases "d_id d \<in> d_id ` set (w_rows w)")
    case True
    then have "w_rows w' = w_rows w"
      using a by (auto simp: add_idempotent_def add_drawer_def db_stmt_def Let_def split: if_splits)
    moreover have "id_row w (d_id d) \<noteq> None"
      unfolding id_row_def using True by (simp add: find_id_None)
    ultimately show ?thesis by (auto simp: id_row_def fun_eq_iff split: option.splits)
  next
    case False
    then have "w_rows w' = w_rows w @ [inserted d e]"
      using a by (auto simp: add_idempotent_def add_drawer_def db_stmt_def Let_def split: if_splits)
    moreover have "find (\<lambda>r. d_id r = d_id d) (w_rows w) = None"
      using False by (simp add: find_id_None)
    ultimately show ?thesis
      by (auto simp: id_row_def fun_eq_iff find_append inserted_def split: option.splits)
  qed
next
  fix d e w w' x
  assume "add_idempotent d e w = (w', Inl x)"
  then show "id_row w' = id_row w"
    by (auto simp: add_idempotent_def add_drawer_def db_stmt_def Let_def id_row_def fun_eq_iff split: if_splits)
qed

section \<open>Lemmas\<close>

lemma chunk_loop_count:
  assumes "\<And>i. \<not> cancelled i"
  shows "fst (snd (chunk_loop deps cancelled wk cs (sv, a, b))) + snd (snd (chunk_loop deps cancelled wk cs (sv, a, b)))
    = a + b + length cs"
proof (induction cs arbitrary: sv a b)
  case (Cons ic cs)
  obtain i chunk where ic: "ic = (i, chunk)" by (cases ic)
  obtain sv' ok where r: "ingest_chunk deps wk chunk sv = (sv', ok)" by fastforce
  show ?case using Cons [of sv' "a + 1" b] Cons [of sv' a "b + 1"] assms
    by (cases ok) (simp_all add: ic r)
qed simp

lemma submit_all_counts:
  "length (sv_queue (submit_all deps ws sv)) + sv_dropped (submit_all deps ws sv)
   = length (sv_queue sv) + sv_dropped sv
     + length (filter (\<lambda>(ok, wk). \<not> is_noise (i_noise deps) (wk_exchange wk) (i_noise_min deps)) ws)"
  by (induction deps ws sv rule: submit_all.induct) (auto simp: submit_def)

lemma pick_tier_state:
  "snd (snd (pick_tier deps ws confidence embedding w)) \<in>
    {(PipelineTierHeuristic, Processed), (PipelineTierCentroid, Processed), (PipelineTierLLM, Raw)}"
  by (auto simp: pick_tier_def split: prod.splits sum.splits)

lemma pick_tier_off:
  "confidence < i_high deps \<Longrightarrow> confidence < i_low deps \<Longrightarrow>
   pick_tier deps ws confidence embedding w = (w, 0, PipelineTierLLM, Raw)"
  by (simp add: pick_tier_def)

text \<open>The store of the production wiring; the other collaborators are those of \<open>base\<close>.\<close>

definition postgres_ingest :: "world ingest_deps \<Rightarrow> world ingest_deps" where
  "postgres_ingest base = base\<lparr>i_add := add_idempotent, i_check := check_duplicate\<rparr>"

text \<open>Embedder, centroid lookup and publisher do not write the drawers table.\<close>

definition quiet :: "world ingest_deps \<Rightarrow> bool" where
  "quiet deps \<longleftrightarrow>
     (\<forall>f chunk w. i_embed deps = Some f \<longrightarrow> w_rows (fst (f chunk w)) = w_rows w)
     \<and> (\<forall>f ws e w. i_nearest deps = Some f \<longrightarrow> w_rows (fst (f ws e w)) = w_rows w)
     \<and> (\<forall>f ws ev w. i_publish deps = Some f \<longrightarrow> w_rows (f ws ev w) = w_rows w)"

lemma id_row_cong: "w_rows w = w_rows w' \<Longrightarrow> id_row w = id_row w'"
  by (simp add: id_row_def fun_eq_iff)

lemma embed_chunk_rows: "quiet deps \<Longrightarrow> w_rows (fst (embed_chunk deps chunk w)) = w_rows w"
  unfolding quiet_def embed_chunk_def
  by (auto split: option.splits prod.splits sum.splits) (metis fst_conv)+

lemma is_duplicate_rows: "w_rows (fst (is_duplicate (postgres_ingest deps) ws emb w)) = w_rows w"
proof -
  have "w_rows (fst (check_duplicate ws emb AutoIngestDupThreshold 1 w)) = w_rows w"
    by (simp add: check_duplicate_def select_rows_world)
  then show ?thesis
    by (auto simp: is_duplicate_def postgres_ingest_def split: prod.splits sum.splits)
qed

lemma pick_tier_rows: "quiet deps \<Longrightarrow> w_rows (fst (pick_tier (postgres_ingest deps) ws c emb w)) = w_rows w"
  unfolding quiet_def pick_tier_def postgres_ingest_def
  by (cases "i_nearest deps") (auto split: prod.splits sum.splits, (metis fst_conv)+)

lemma publish_rows:
  "quiet deps \<Longrightarrow> w_rows (publish_memory_event (postgres_ingest deps) wk d n w) = w_rows w"
  unfolding quiet_def publish_memory_event_def postgres_ingest_def by (auto split: option.splits)

lemma ingest_chunk_keeps:
  assumes q: "quiet deps" and row: "id_row (sv_world sv) i = Some r"
  shows "id_row (sv_world (fst (ingest_chunk (postgres_ingest deps) wk chunk sv))) i = Some r"
proof -
  let ?D = "postgres_ingest deps"
  obtain ty imp conf where c: "classify_chunk ?D chunk = (ty, imp, conf)" by (metis prod_cases3)
  obtain w1 emb where e: "embed_chunk ?D chunk (sv_world sv) = (w1, emb)" by fastforce
  obtain w2 dup where d: "is_duplicate ?D (wk_ws wk) emb w1 = (w2, dup)" by fastforce
  obtain w3 errs tier st where p: "pick_tier ?D (wk_ws wk) conf emb w2 = (w3, errs, tier, st)"
    by (metis prod_cases4)
  have ed: "embed_chunk ?D chunk (sv_world sv) = embed_chunk deps chunk (sv_world sv)"
    by (simp add: embed_chunk_def postgres_ingest_def)
  have w2: "w_rows w2 = w_rows (sv_world sv)"
    using embed_chunk_rows [OF q, of chunk "sv_world sv"] is_duplicate_rows [of deps "wk_ws wk" emb w1] e d ed
    by simp
  have w3: "id_row w3 i = Some r"
    using row w2 pick_tier_rows [OF q, of "wk_ws wk" conf emb w2] p
    by (metis fst_conv id_row_cong)
  let ?d = "build_drawer (i_sha256 ?D) (i_now ?D w3) wk chunk ty (memory_type_to_room ty) imp tier st"
  have keep: "id_row (fst (add_idempotent ?d emb w3)) i = Some r"
    using w3 by (rule table.ins_keeps)
  have add: "i_add ?D = add_idempotent" by (simp add: postgres_ingest_def)
  obtain w4 res where a: "add_idempotent ?d emb w3 = (w4, res)" by fastforce
  have pub: "id_row (publish_memory_event ?D wk ?d (length chunk) w4) i = id_row w4 i"
    using publish_rows [OF q] id_row_cong by metis
  show ?thesis
    using row w2 id_row_cong [OF w2] keep pub a
    by (cases res) (auto simp: ingest_chunk_def c e d p add Let_def)
qed

lemma chunk_loop_keeps:
  "quiet deps \<Longrightarrow> id_row (sv_world sv) i = Some r \<Longrightarrow>
   id_row (sv_world (fst (chunk_loop (postgres_ingest deps) cancelled wk cs (sv, a, b)))) i = Some r"
proof (induction cs arbitrary: sv a b)
  case (Cons ic cs)
  obtain j chunk where ic: "ic = (j, chunk)" by (cases ic)
  obtain sv' ok where ing: "ingest_chunk (postgres_ingest deps) wk chunk sv = (sv', ok)" by fastforce
  have "id_row (sv_world sv') i = Some r"
    using ingest_chunk_keeps [OF Cons.prems, of wk chunk] ing by simp
  then show ?case using Cons ic ing by (cases ok) auto
qed simp

section \<open>Properties\<close>

text \<open>C11. Running the pipeline on an exchange never changes or removes a drawer that is already
  stored, whichever statements fail and whenever the run is cancelled: inserts are idempotent by id
  and nothing else is written.\<close>

theorem ingest_keeps_drawers:
  assumes "quiet deps" and "id_row (sv_world sv) i = Some r"
  shows "id_row (sv_world (fst (run_chunk_pipeline (postgres_ingest deps) cancelled wk sv))) i = Some r"
  using chunk_loop_keeps [OF assms] by (simp add: run_chunk_pipeline_def)

definition sample_deps :: "world ingest_deps" where
  "sample_deps = \<lparr>i_add = add_idempotent, i_check = check_duplicate, i_nearest = None,
     i_classify = (\<lambda>s m. []), i_embed = None, i_publish = None, i_now = w_now, i_sha256 = (\<lambda>s. take 8 s),
     i_high = HeuristicKillSwitchValue, i_low = HeuristicKillSwitchValue,
     i_noise = (\<lambda>s. s = ''ok''), i_noise_min = 20\<rparr>"

definition sample_work :: "string \<Rightarrow> work" where
  "sample_work ws = \<lparr>wk_ws = ws, wk_agent = ''wally'', wk_exchange = ''User: we ship on Friday''\<rparr>"

definition sample_drawer :: "string \<Rightarrow> drawer" where
  "sample_drawer ws = build_drawer (\<lambda>s. take 8 s) 0 (sample_work ws) ''User: we ship on Friday''
     '''' (memory_type_to_room '''') DefaultImportance PipelineTierLLM Raw"

definition sample_service :: "world service" where
  "sample_service = \<lparr>sv_world = empty_world\<lparr>w_rows := [sample_drawer ''A'']\<rparr>, sv_queue = [],
     sv_dropped = 0, sv_centroid_errors = 0\<rparr>"

lemma quiet_sample: "quiet sample_deps"
  by (simp add: quiet_def sample_deps_def)

theorem ingest_keeps_drawers_witness:
  "id_row (sv_world (fst (run_chunk_pipeline (postgres_ingest sample_deps) (\<lambda>i. False) (sample_work ''B'') sample_service)))
     (d_id (sample_drawer ''A'')) = Some (sample_drawer ''A'')"
  by (rule ingest_keeps_drawers [OF quiet_sample]) (simp add: sample_service_def id_row_def)

text \<open>With the Phase 0 gates (both at the kill-switch value) every chunk the heuristic
  classifier scores is left to the LLM as a raw drawer, without a centroid lookup.\<close>

theorem kill_switch:
  assumes "i_classify deps = classify c"
    and "i_high deps = HeuristicKillSwitchValue" and "i_low deps = HeuristicKillSwitchValue"
  shows "pick_tier deps ws (snd (snd (classify_chunk deps chunk))) embedding w = (w, 0, PipelineTierLLM, Raw)"
proof -
  have "snd (snd (classify_chunk deps chunk)) \<le> 1"
    using assms(1) classify_loop_ok [of c AutoIngestMinConfidence "[]" "split_into_segments c chunk"]
    by (auto simp: classify_chunk_def classify_def result_ok_def split: list.splits)
  then show ?thesis using assms(2,3) by (simp add: pick_tier_off HeuristicKillSwitchValue_def)
qed

theorem kill_switch_witness:
  "pick_tier (sample_deps\<lparr>i_classify := classify sample_classifier\<rparr>) ''A''
     (snd (snd (classify_chunk (sample_deps\<lparr>i_classify := classify sample_classifier\<rparr>) ''bug fixed, go'')))
     [1] empty_world = (empty_world, 0, PipelineTierLLM, Raw)"
  by (rule kill_switch [of _ sample_classifier]) (simp_all add: sample_deps_def)

text \<open>Every submitted exchange that is not noise is either queued or counted as dropped,
  exactly once; noise is neither.\<close>

theorem submit_accounts:
  "length (sv_queue (submit_all deps ws sv)) + sv_dropped (submit_all deps ws sv)
   = length (sv_queue sv) + sv_dropped sv
     + length (filter (\<lambda>(ok, wk). \<not> is_noise (i_noise deps) (wk_exchange wk) (i_noise_min deps)) ws)"
  by (rule submit_all_counts)

text \<open>The id of an auto-ingested drawer does not depend on the workspace, and the table's key
  is the id alone: when another workspace has already stored the same content in the same room, the
  insert reports success and stores nothing, so the second workspace has no such memory.\<close>

theorem same_content_not_stored:
  assumes "r \<in> set (w_rows w)" and "\<not> w_fails w (w_calls w)"
    and "r = inserted (build_drawer sha now1 wk1 chunk ty1 room imp1 tier1 st1) emb1"
  shows "add_idempotent (build_drawer sha now2 wk2 chunk ty2 room imp2 tier2 st2) emb2 w
    = (w\<lparr>w_calls := Suc (w_calls w)\<rparr>, Inr ())"
proof -
  have "d_id (build_drawer sha now2 wk2 chunk ty2 room imp2 tier2 st2) = d_id r"
    using assms(3) by (simp add: build_drawer_def inserted_def)
  then have "d_id (build_drawer sha now2 wk2 chunk ty2 room imp2 tier2 st2) \<in> d_id ` set (w_rows w)"
    using assms(1) by simp
  then show ?thesis using assms(2) by (simp add: add_idempotent_def add_drawer_def db_stmt_def Let_def)
qed

theorem same_content_not_stored_witness:
  "w_rows (fst (add_idempotent (sample_drawer ''B'') [] (empty_world\<lparr>w_rows := [inserted (sample_drawer ''A'') []]\<rparr>)))
     = [inserted (sample_drawer ''A'') []] \<and> d_ws (sample_drawer ''B'') \<noteq> d_ws (sample_drawer ''A'')"
proof -
  let ?w = "empty_world\<lparr>w_rows := [inserted (sample_drawer ''A'') []]\<rparr>"
  have "add_idempotent (sample_drawer ''B'') [] ?w = (?w\<lparr>w_calls := Suc (w_calls ?w)\<rparr>, Inr ())"
    unfolding sample_drawer_def
    by (rule same_content_not_stored) (auto simp: empty_world_def)
  then show ?thesis by (simp add: sample_drawer_def build_drawer_def sample_work_def)
qed

end
