(* ===== verification/Memory_Jobs.thy ===== *)
theory Memory_Jobs
  imports Drawer_Repo
begin

text \<open>
  \<open>internal/orchestrator/memory/jobs\<close>: the cold pipeline (\<open>process.go\<close>), knowledge-graph
  linking (\<open>linking.go\<close>), enrichment (\<open>enrich.go\<close>) and maintenance (\<open>maintain.go\<close>).
  The jobs reach the drawers only through the interface \<open>DrawerStore\<close>, a record of operations on
  a store state \<open>'s\<close>; the language model, the knowledge graph and the embedder work on a state
  \<open>'x\<close> of their own, so that the types say that they do not write the drawers table. The locale
  \<open>drawer_table\<close> states what the jobs rely on, and is interpreted on the statements of
  \<open>Drawer_Repo\<close>. One worker is modelled: \<open>FOR UPDATE SKIP LOCKED\<close> is what gives
  concurrent workers disjoint claims. \<open>ClassifyAndExtract\<close> of \<open>llm_classify.go\<close> never
  returns nil without an error, and \<open>process.go\<close> relies on it.
\<close>

section \<open>Interfaces\<close>

record classification =
  c_type :: string
  c_importance :: real
  c_entities :: "(string \<times> string) list"
  c_summary :: string
  c_triples :: "(string \<times> string \<times> string) list"

record triple =
  t_ws :: string
  t_subject :: string
  t_predicate :: string
  t_object :: string
  t_confidence :: real
  t_source_closet :: string

record 's drawer_store =
  ds_begin :: "('s, unit) call"
  ds_commit :: "('s, unit) call"
  ds_rollback :: "'s \<Rightarrow> 's \<Rightarrow> 's"
  ds_active_workspaces :: "int \<Rightarrow> ('s, string list) call"
  ds_list_by_state :: "string \<Rightarrow> drawer_state \<Rightarrow> int \<Rightarrow> ('s, drawer list) call"
  ds_claim :: "string \<Rightarrow> string list \<Rightarrow> ('s, unit) call"
  ds_update_classification :: "string \<Rightarrow> string \<Rightarrow> string \<Rightarrow> string \<Rightarrow> string \<Rightarrow> real \<Rightarrow> ('s, unit) call"
  ds_update_embedding :: "string \<Rightarrow> string \<Rightarrow> real list \<Rightarrow> ('s, unit) call"
  ds_update_state :: "string \<Rightarrow> string \<Rightarrow> drawer_state \<Rightarrow> ('s, unit) call"
  ds_search :: "string \<Rightarrow> real list \<Rightarrow> string \<Rightarrow> string \<Rightarrow> int \<Rightarrow> ('s, search_hit list) call"
  ds_set_superseded_by :: "string \<Rightarrow> string \<Rightarrow> string \<Rightarrow> ('s, unit) call"
  ds_set_cluster_id :: "string \<Rightarrow> string \<Rightarrow> string \<Rightarrow> ('s, unit) call"
  ds_increment_retry_count :: "string \<Rightarrow> string \<Rightarrow> ('s, unit) call"
  ds_decay_importance :: "string \<Rightarrow> int \<Rightarrow> int \<Rightarrow> real \<Rightarrow> real \<Rightarrow> ('s, nat) call"
  ds_prune_low_importance :: "string \<Rightarrow> real \<Rightarrow> nat \<Rightarrow> nat \<Rightarrow> ('s, nat) call"
  ds_list_enrich_candidates :: "int \<Rightarrow> ('s, drawer list) call"
  ds_update_enrichment :: "string \<Rightarrow> string \<Rightarrow> nat \<Rightarrow> nat \<Rightarrow> ('s, unit) call"

record 'x kg_store =
  kg_add_entity :: "string \<Rightarrow> string \<Rightarrow> string \<Rightarrow> ('x, string) call"
  kg_add_triple :: "string \<Rightarrow> triple \<Rightarrow> ('x, string) call"

record 'x process_ext =
  x_kg :: "'x kg_store option"
  x_classify :: "string \<Rightarrow> ('x, classification) call"
  x_classify_batch :: "string list \<Rightarrow> ('x, classification option list) call"
  x_detect_conflict :: "string \<Rightarrow> string \<Rightarrow> ('x, bool) call"
  x_merge_summary :: "string list \<Rightarrow> ('x, string) call"
  x_embed :: "(string \<Rightarrow> ('x, real list) call) option"

record process_result =
  pr_processed :: nat
  pr_failed :: nat

definition activeWorkspaceHours :: int where "activeWorkspaceHours = 24"
definition rawDrawerBatchSize :: int where "rawDrawerBatchSize = 50"
definition jobsImportanceScale :: real where "jobsImportanceScale = 5"
definition enrichBatchSize :: int where "enrichBatchSize = 100"
definition decaySkipRecentDays :: int where "decaySkipRecentDays = 7"

text \<open>A call of the store or of an external service, on the pair of both states.\<close>

definition on_db :: "('s, 'a) call \<Rightarrow> ('s \<times> 'x, 'a) call" where
  "on_db c s = (case c (fst s) of (d, r) \<Rightarrow> ((d, snd s), r))"

definition on_ext :: "('x, 'a) call \<Rightarrow> ('s \<times> 'x, 'a) call" where
  "on_ext c s = (case c (snd s) of (x, r) \<Rightarrow> ((fst s, x), r))"

lemma fst_on_db [simp]: "fst (fst (on_db c s)) = fst (c (fst s))"
  by (simp add: on_db_def split: prod.splits)

lemma snd_on_db [simp]: "snd (on_db c s) = snd (c (fst s))"
  by (simp add: on_db_def split: prod.splits)

lemma fst_on_ext [simp]: "fst (fst (on_ext c s)) = fst s"
  by (simp add: on_ext_def split: prod.splits)

section \<open>Linking\<close>

fun add_entities :: "'x kg_store \<Rightarrow> string \<Rightarrow> (string \<times> string) list \<Rightarrow> 'x \<Rightarrow> nat \<Rightarrow> 'x \<times> nat" where
  "add_entities kg ws [] x n = (x, n)"
| "add_entities kg ws ((name, ty) # es) x n =
     (case kg_add_entity kg ws name ty x of
        (x1, Inl e) \<Rightarrow> add_entities kg ws es x1 n
      | (x1, Inr i) \<Rightarrow> add_entities kg ws es x1 (n + 1))"

definition linked_triple :: "string \<Rightarrow> string \<Rightarrow> string \<times> string \<times> string \<Rightarrow> triple" where
  "linked_triple ws hall t =
     \<lparr>t_ws = ws, t_subject = fst t, t_predicate = fst (snd t), t_object = snd (snd t),
      t_confidence = 1, t_source_closet = hall\<rparr>"

fun add_triples ::
  "'x kg_store \<Rightarrow> string \<Rightarrow> string \<Rightarrow> (string \<times> string \<times> string) list \<Rightarrow> 'x \<Rightarrow> nat \<Rightarrow> 'x \<times> nat" where
  "add_triples kg ws hall [] x n = (x, n)"
| "add_triples kg ws hall (t # ts) x n =
     (case kg_add_triple kg ws (linked_triple ws hall t) x of
        (x1, Inl e) \<Rightarrow> add_triples kg ws hall ts x1 n
      | (x1, Inr i) \<Rightarrow> add_triples kg ws hall ts x1 (n + 1))"

definition link_and_count ::
  "'x kg_store option \<Rightarrow> string \<Rightarrow> string \<Rightarrow> classification \<Rightarrow> 'x \<Rightarrow> 'x \<times> nat \<times> nat" where
  "link_and_count kg_repo ws hall c x =
     (case kg_repo of
        None \<Rightarrow> (x, 0, 0)
      | Some kg \<Rightarrow>
          (case add_entities kg ws (c_entities c) x 0 of
             (x1, ents) \<Rightarrow>
               (case add_triples kg ws hall (c_triples c) x1 0 of
                  (x2, trips) \<Rightarrow> (x2, ents, trips))))"

section \<open>Claiming\<close>

definition claim_drawers :: "'s drawer_store \<Rightarrow> string \<Rightarrow> ('s, drawer list) call" where
  "claim_drawers st ws s =
     (case ds_begin st s of
        (s0, Inl e) \<Rightarrow> (s0, Inl (''begin claim tx: '' @ e))
      | (s0, Inr _) \<Rightarrow>
          (case ds_list_by_state st ws Raw rawDrawerBatchSize s0 of
             (s1, Inl e) \<Rightarrow> (ds_rollback st s0 s1, Inl (''list raw drawers: '' @ e))
           | (s1, Inr drawers) \<Rightarrow>
               if length drawers = 0 then (ds_rollback st s0 s1, Inr [])
               else
                 (case ds_claim st ws (map d_id drawers) s1 of
                    (s2, Inl e) \<Rightarrow> (ds_rollback st s0 s2, Inl (''claim drawers for processing: '' @ e))
                  | (s2, Inr _) \<Rightarrow>
                      (case ds_commit st s2 of
                         (s3, Inl e) \<Rightarrow> (ds_rollback st s0 s3, Inl (''commit claim tx: '' @ e))
                       | (s3, Inr _) \<Rightarrow> (s3, Inr drawers)))))"

definition classify_batch ::
  "'x process_ext \<Rightarrow> drawer list \<Rightarrow> ('s \<times> 'x, classification option list) call" where
  "classify_batch ext drawers = on_ext (x_classify_batch ext (map d_content drawers))"

definition resolve_classification ::
  "'x process_ext \<Rightarrow> drawer \<Rightarrow> classification option list go_result \<Rightarrow> nat \<Rightarrow> ('s \<times> 'x, classification) call" where
  "resolve_classification ext d batch idx s =
     (case batch of
        Inl _ \<Rightarrow> on_ext (x_classify ext (d_content d)) s
      | Inr cs \<Rightarrow>
          if idx < length cs
          then (case cs ! idx of Some c \<Rightarrow> (s, Inr c) | None \<Rightarrow> on_ext (x_classify ext (d_content d)) s)
          else on_ext (x_classify ext (d_content d)) s)"

section \<open>Clustering and conflicts\<close>

definition merge_cluster_member :: "'s drawer_store \<Rightarrow> drawer \<Rightarrow> drawer \<Rightarrow> 's \<times> 'x \<Rightarrow> 's \<times> 'x" where
  "merge_cluster_member st leader member s =
     (case on_db (ds_set_cluster_id st (d_ws leader) (d_id member) (d_id leader)) s of
        (s1, Inl _) \<Rightarrow> s1
      | (s1, Inr _) \<Rightarrow> fst (on_db (ds_update_state st (d_ws leader) (d_id member) Merged) s1))"

definition cluster_of :: "drawer \<Rightarrow> search_hit list \<Rightarrow> drawer list" where
  "cluster_of d similar = map fst (filter (\<lambda>(sr, sim).
     sim \<ge> ColdWorkerClusterThreshold \<and> d_id sr \<noteq> d_id d \<and> d_state sr = Processed) similar)"

definition cluster_drawers ::
  "'s drawer_store \<Rightarrow> 'x process_ext \<Rightarrow> drawer \<Rightarrow> real list \<Rightarrow> 's \<times> 'x \<Rightarrow> 's \<times> 'x" where
  "cluster_drawers st ext d embedding s =
     (if length embedding = 0 then s
      else
        (case on_db (ds_search st (d_ws d) embedding '''' '''' 10) s of
           (s1, Inl _) \<Rightarrow> s1
         | (s1, Inr similar) \<Rightarrow>
             let members = cluster_of d similar in
             if length members < 2 then s1
             else
               (case on_ext (x_merge_summary ext (d_content d # map d_content members)) s1 of
                  (s2, Inl _) \<Rightarrow> s2
                | (s2, Inr merged) \<Rightarrow>
                    let s3 = fold (merge_cluster_member st d) members s2 in
                    fst (on_db (ds_update_classification st (d_ws d) (d_id d) (d_type d) merged
                                  (d_room d) (d_importance d)) s3))))"

definition resolve_neighbor_conflict ::
  "'s drawer_store \<Rightarrow> 'x process_ext \<Rightarrow> drawer \<Rightarrow> search_hit \<Rightarrow> 's \<times> 'x \<Rightarrow> 's \<times> 'x" where
  "resolve_neighbor_conflict st ext d hit s =
     (case hit of (neighbor, sim) \<Rightarrow>
        if d_id neighbor = d_id d then s
        else if sim < ColdWorkerConflictLow \<or> sim \<ge> ColdWorkerConflictHigh then s
        else
          (case on_ext (x_detect_conflict ext (d_content d) (d_content neighbor)) s of
             (s1, Inl _) \<Rightarrow> s1
           | (s1, Inr conflicts) \<Rightarrow>
               if \<not> conflicts then s1
               else fst (on_db (ds_set_superseded_by st (d_ws d) (d_id neighbor) (d_id d)) s1)))"

definition detect_drawer_conflicts ::
  "'s drawer_store \<Rightarrow> 'x process_ext \<Rightarrow> drawer \<Rightarrow> real list \<Rightarrow> 's \<times> 'x \<Rightarrow> 's \<times> 'x" where
  "detect_drawer_conflicts st ext d embedding s =
     (if length embedding = 0 then s
      else
        (case on_db (ds_search st (d_ws d) embedding '''' '''' 5) s of
           (s1, Inl _) \<Rightarrow> s1
         | (s1, Inr neighbors) \<Rightarrow> fold (resolve_neighbor_conflict st ext d) neighbors s1))"

section \<open>One drawer\<close>

text \<open>An \<open>Embed\<close> that fails is taken to return no vector.\<close>

definition embed_and_persist ::
  "'s drawer_store \<Rightarrow> 'x process_ext \<Rightarrow> drawer \<Rightarrow> 's \<times> 'x \<Rightarrow> ('s \<times> 'x) \<times> real list" where
  "embed_and_persist st ext d s =
     (case x_embed ext of
        None \<Rightarrow> (s, [])
      | Some f \<Rightarrow>
          (case on_ext (f (d_content d)) s of
             (s1, Inl _) \<Rightarrow> (s1, [])
           | (s1, Inr embedding) \<Rightarrow>
               if length embedding > 0
               then (fst (on_db (ds_update_embedding st (d_ws d) (d_id d) embedding) s1), embedding)
               else (s1, embedding)))"

definition classified_drawer :: "drawer \<Rightarrow> classification \<Rightarrow> drawer" where
  "classified_drawer d c =
     d\<lparr>d_type := c_type c, d_summary := c_summary c, d_room := memory_type_to_room (c_type c),
       d_importance := c_importance c * jobsImportanceScale\<rparr>"

definition link_drawer ::
  "'s drawer_store \<Rightarrow> 'x process_ext \<Rightarrow> drawer \<Rightarrow> classification \<Rightarrow> 's \<times> 'x \<Rightarrow> 's \<times> 'x" where
  "link_drawer st ext d c s =
     (case link_and_count (x_kg ext) (d_ws d) (d_hall d) c (snd s) of
        (x, ents, trips) \<Rightarrow>
          fst (on_db (ds_update_enrichment st (d_ws d) (d_id d) ents trips) (fst s, x)))"

definition apply_classification ::
  "'s drawer_store \<Rightarrow> 'x process_ext \<Rightarrow> drawer \<Rightarrow> classification \<Rightarrow> ('s \<times> 'x, unit) call" where
  "apply_classification st ext d c s =
     (let d' = classified_drawer d c in
      case on_db (ds_update_classification st (d_ws d) (d_id d) (c_type c) (c_summary c)
                    (memory_type_to_room (c_type c)) (c_importance c * jobsImportanceScale)) s of
        (s1, Inl e) \<Rightarrow> (s1, Inl (''update classification: '' @ e))
      | (s1, Inr _) \<Rightarrow>
          (case embed_and_persist st ext d' (link_drawer st ext d' c s1) of
             (s2, embedding) \<Rightarrow>
               let s3 = cluster_drawers st ext d' embedding s2;
                   s4 = detect_drawer_conflicts st ext d' embedding s3
               in on_db (ds_update_state st (d_ws d) (d_id d) Processed) s4))"

definition handle_process_failure :: "'s drawer_store \<Rightarrow> drawer \<Rightarrow> 's \<times> 'x \<Rightarrow> 's \<times> 'x" where
  "handle_process_failure st d s =
     (let s1 = fst (on_db (ds_increment_retry_count st (d_ws d) (d_id d)) s) in
      if d_retry d + 1 < ColdWorkerMaxRetries
      then fst (on_db (ds_update_state st (d_ws d) (d_id d) Raw) s1)
      else fst (on_db (ds_update_state st (d_ws d) (d_id d) Failed) s1))"

definition process_single_drawer ::
  "'s drawer_store \<Rightarrow> 'x process_ext \<Rightarrow> classification option list go_result \<Rightarrow> nat \<Rightarrow> drawer
     \<Rightarrow> process_result \<Rightarrow> 's \<times> 'x \<Rightarrow> process_result \<times> 's \<times> 'x" where
  "process_single_drawer st ext batch idx d res s =
     (case resolve_classification ext d batch idx s of
        (s1, Inl _) \<Rightarrow> (res\<lparr>pr_failed := pr_failed res + 1\<rparr>, handle_process_failure st d s1)
      | (s1, Inr c) \<Rightarrow>
          (case apply_classification st ext d c s1 of
             (s2, Inl _) \<Rightarrow> (res\<lparr>pr_failed := pr_failed res + 1\<rparr>, handle_process_failure st d s2)
           | (s2, Inr _) \<Rightarrow> (res\<lparr>pr_processed := pr_processed res + 1\<rparr>, s2)))"

section \<open>Workspaces and sweeps\<close>

fun process_drawers ::
  "'s drawer_store \<Rightarrow> 'x process_ext \<Rightarrow> classification option list go_result \<Rightarrow> (nat \<times> drawer) list
     \<Rightarrow> process_result \<times> 's \<times> 'x \<Rightarrow> process_result \<times> 's \<times> 'x" where
  "process_drawers st ext batch [] rs = rs"
| "process_drawers st ext batch ((i, d) # ds) (res, s) =
     process_drawers st ext batch ds (process_single_drawer st ext batch i d res s)"

definition process_workspace ::
  "'s drawer_store \<Rightarrow> 'x process_ext \<Rightarrow> string \<Rightarrow> process_result \<times> 's \<times> 'x \<Rightarrow> process_result \<times> 's \<times> 'x" where
  "process_workspace st ext ws rs =
     (case rs of (res, s) \<Rightarrow>
        (case on_db (claim_drawers st ws) s of
           (s1, Inl _) \<Rightarrow> (res, s1)
         | (s1, Inr drawers) \<Rightarrow>
             if length drawers = 0 then (res, s1)
             else
               (case classify_batch ext drawers s1 of
                  (s2, batch) \<Rightarrow> process_drawers st ext batch (enum_from 0 drawers) (res, s2))))"

definition run_process ::
  "'s drawer_store \<Rightarrow> 'x process_ext \<Rightarrow> ('s \<times> 'x, process_result) call" where
  "run_process st ext s =
     (case on_db (ds_active_workspaces st activeWorkspaceHours) s of
        (s1, Inl e) \<Rightarrow> (s1, Inl (''list active workspaces: '' @ e))
      | (s1, Inr ids) \<Rightarrow>
          if length ids = 0 then (s1, Inr \<lparr>pr_processed = 0, pr_failed = 0\<rparr>)
          else (case fold (process_workspace st ext) ids (\<lparr>pr_processed = 0, pr_failed = 0\<rparr>, s1) of
                  (res, s2) \<Rightarrow> (s2, Inr res)))"

section \<open>Enrichment\<close>

record enrich_result =
  er_processed :: nat
  er_skipped :: nat

record 'x enrich_ext =
  ee_kg :: "'x kg_store option"
  ee_classify :: "(string \<Rightarrow> ('x, classification option) call) option"

definition enrich_one_drawer ::
  "'s drawer_store \<Rightarrow> 'x kg_store option \<Rightarrow> (string \<Rightarrow> ('x, classification option) call) \<Rightarrow> drawer
     \<Rightarrow> enrich_result \<times> 's \<times> 'x \<Rightarrow> enrich_result \<times> 's \<times> 'x" where
  "enrich_one_drawer st kg classify d rs =
     (case rs of (res, s) \<Rightarrow>
        (case on_ext (classify (d_content d)) s of
           (s1, Inl _) \<Rightarrow> (res\<lparr>er_skipped := er_skipped res + 1\<rparr>, s1)
         | (s1, Inr None) \<Rightarrow> (res\<lparr>er_skipped := er_skipped res + 1\<rparr>, s1)
         | (s1, Inr (Some c)) \<Rightarrow>
             (case link_and_count kg (d_ws d) (d_hall d) c (snd s1) of
                (x, ents, trips) \<Rightarrow>
                  (case on_db (ds_update_enrichment st (d_ws d) (d_id d) ents trips) (fst s1, x) of
                     (s2, Inl _) \<Rightarrow> (res\<lparr>er_skipped := er_skipped res + 1\<rparr>, s2)
                   | (s2, Inr _) \<Rightarrow> (res\<lparr>er_processed := er_processed res + 1\<rparr>, s2)))))"

definition run_enrich ::
  "'s drawer_store \<Rightarrow> 'x enrich_ext \<Rightarrow> ('s \<times> 'x, enrich_result) call" where
  "run_enrich st ext s =
     (case ee_classify ext of
        None \<Rightarrow> (s, Inr \<lparr>er_processed = 0, er_skipped = 0\<rparr>)
      | Some classify \<Rightarrow>
          (case on_db (ds_list_enrich_candidates st enrichBatchSize) s of
             (s1, Inl e) \<Rightarrow> (s1, Inl (''list enrich candidates: '' @ e))
           | (s1, Inr candidates) \<Rightarrow>
               if length candidates = 0 then (s1, Inr \<lparr>er_processed = 0, er_skipped = 0\<rparr>)
               else (case fold (enrich_one_drawer st (ee_kg ext) classify) candidates
                            (\<lparr>er_processed = 0, er_skipped = 0\<rparr>, s1) of
                       (res, s2) \<Rightarrow> (s2, Inr res))))"

section \<open>Maintenance\<close>

record maintain_result =
  mr_workspaces :: nat
  mr_decayed :: nat
  mr_pruned :: nat

definition maintain_workspace ::
  "'s drawer_store \<Rightarrow> string \<Rightarrow> maintain_result \<times> 's \<Rightarrow> maintain_result \<times> 's" where
  "maintain_workspace st ws rs =
     (case rs of (res, s) \<Rightarrow>
        (case ds_decay_importance st ws DecayAgeDays decaySkipRecentDays DecayFactor DecayFloor s of
           (s1, Inl _) \<Rightarrow> (res, s1)
         | (s1, Inr decayed) \<Rightarrow>
             let res1 = res\<lparr>mr_decayed := mr_decayed res + decayed\<rparr> in
             (case ds_prune_low_importance st ws PruneThreshold PruneMinAccessCount PruneKeepMin s1 of
                (s2, Inl _) \<Rightarrow> (res1, s2)
              | (s2, Inr pruned) \<Rightarrow> (res1\<lparr>mr_pruned := mr_pruned res1 + pruned\<rparr>, s2))))"

definition run_maintain :: "'s drawer_store \<Rightarrow> ('s, maintain_result) call" where
  "run_maintain st s =
     (case ds_active_workspaces st DecayInterval s of
        (s1, Inl e) \<Rightarrow> (s1, Inl (''list active workspaces: '' @ e))
      | (s1, Inr ids) \<Rightarrow>
          if length ids = 0 then (s1, Inr \<lparr>mr_workspaces = 0, mr_decayed = 0, mr_pruned = 0\<rparr>)
          else (case fold (maintain_workspace st) ids
                       (\<lparr>mr_workspaces = length ids, mr_decayed = 0, mr_pruned = 0\<rparr>, s1) of
                  (res, s2) \<Rightarrow> (s2, Inr res)))"

section \<open>The contract of the drawer store\<close>

text \<open>
  \<open>row s (ws, id)\<close> is the row a caller sees under a workspace and an id. A call
  \<^emph>\<open>writes\<close> the rows of a key set by a function when it succeeds, and none when it fails.
\<close>

type_synonym key = "string \<times> string"

definition writes ::
  "('s \<Rightarrow> bool) \<Rightarrow> ('s \<Rightarrow> key \<Rightarrow> drawer option) \<Rightarrow> ('s, 'a) call \<Rightarrow> (key \<Rightarrow> bool) \<Rightarrow> (drawer \<Rightarrow> drawer) \<Rightarrow> bool" where
  "writes safe row c K f \<longleftrightarrow>
     (\<forall>s. safe s \<longrightarrow> safe (fst (c s)) \<and>
        row (fst (c s)) = (if is_ok (snd (c s)) then (\<lambda>k. if K k then map_option f (row s k) else row s k) else row s))"

abbreviation reads :: "('s \<Rightarrow> bool) \<Rightarrow> ('s \<Rightarrow> key \<Rightarrow> drawer option) \<Rightarrow> ('s, 'a) call \<Rightarrow> bool" where
  "reads safe row c \<equiv> writes safe row c (\<lambda>k. False) id"

text \<open>From \<open>s\<close> to \<open>s'\<close> every row moves by \<open>Q\<close>; none appears or vanishes.\<close>

definition moves ::
  "('s \<Rightarrow> bool) \<Rightarrow> ('s \<Rightarrow> key \<Rightarrow> drawer option) \<Rightarrow> (key \<Rightarrow> drawer \<Rightarrow> drawer \<Rightarrow> bool) \<Rightarrow> 's \<Rightarrow> 's \<Rightarrow> bool" where
  "moves safe row Q s s' \<longleftrightarrow> (safe s \<longrightarrow> safe s' \<and> (\<forall>k. rel_option (Q k) (row s k) (row s' k)))"

lemma moves_refl: "(\<And>k r. Q k r r) \<Longrightarrow> moves safe row Q s s"
  by (simp add: moves_def option.rel_refl)

lemma moves_comp:
  assumes "moves safe row Q1 s s1" "moves safe row Q2 s1 s2"
    and "\<And>k r r1 r2. Q1 k r r1 \<Longrightarrow> Q2 k r1 r2 \<Longrightarrow> Q k r r2"
  shows "moves safe row Q s s2"
  unfolding moves_def
proof (intro impI conjI allI)
  assume "safe s"
  then have i1: "safe s1" and r1: "\<And>k. rel_option (Q1 k) (row s k) (row s1 k)"
    using assms(1) by (auto simp: moves_def)
  then have "safe s2" and r2: "\<And>k. rel_option (Q2 k) (row s1 k) (row s2 k)"
    using assms(2) by (auto simp: moves_def)
  then show "safe s2" by simp
  show "rel_option (Q k) (row s k) (row s2 k)" for k
    using r1 [of k] r2 [of k] assms(3) by (cases "row s k"; cases "row s1 k"; cases "row s2 k") auto
qed

lemma moves_mono: "moves safe row Q s s' \<Longrightarrow> (\<And>k r r'. Q k r r' \<Longrightarrow> Q' k r r') \<Longrightarrow> moves safe row Q' s s'"
  unfolding moves_def by (metis option.rel_mono_strong)

lemma moves_writes:
  assumes "writes safe row c K f"
    and "\<And>k r. safe s \<Longrightarrow> row s k = Some r \<Longrightarrow> K k \<Longrightarrow> Q k r (f r)" and "\<And>k r. Q k r r"
  shows "moves safe row Q s (fst (c s))"
  unfolding moves_def
proof (intro impI conjI allI)
  assume "safe s"
  then show "safe (fst (c s))" using assms(1) by (simp add: writes_def)
  show "rel_option (Q k) (row s k) (row (fst (c s)) k)" for k
    using assms \<open>safe s\<close> by (cases "row s k") (auto simp: writes_def rel_option_iff)
qed

lemma moves_inv: "moves safe row Q s s' \<Longrightarrow> safe s \<Longrightarrow> safe s'"
  by (simp add: moves_def)

lemma moves_row:
  "moves safe row Q s s' \<Longrightarrow> safe s \<Longrightarrow> row s k = Some r \<Longrightarrow> \<exists>r'. row s' k = Some r' \<and> Q k r r'"
  unfolding moves_def using option_rel_Some1 [of "Q k" r "row s' k"] by (metis (no_types))

lemma moves_row':
  "moves safe row Q s s' \<Longrightarrow> safe s \<Longrightarrow> row s' k = Some r' \<Longrightarrow> \<exists>r. row s k = Some r \<and> Q k r r'"
  unfolding moves_def using option_rel_Some2 [of "Q k" "row s k" r'] by (metis (no_types))

lemma moves_fold:
  assumes "\<And>k r. Q k r r" "\<And>k r r1 r2. Q k r r1 \<Longrightarrow> Q k r1 r2 \<Longrightarrow> Q k r r2"
    and "\<And>x s. x \<in> set xs \<Longrightarrow> moves safe row Q (g s) (g (f x s))"
  shows "moves safe row Q (g s) (g (fold f xs s))"
  using assms(3)
proof (induction xs arbitrary: s)
  case Nil
  then show ?case by (simp add: moves_refl assms(1))
next
  case (Cons x xs)
  have "moves safe row Q (g s) (g (f x s))" "moves safe row Q (g (f x s)) (g (fold f xs (f x s)))"
    using Cons by auto
  then show ?case using moves_comp [OF _ _ assms(2)] by simp
qed

locale drawer_table =
  fixes st :: "'s drawer_store"
    and row :: "'s \<Rightarrow> key \<Rightarrow> drawer option"
    and safe :: "'s \<Rightarrow> bool"
  assumes tx_begin: "reads safe row (ds_begin st)"
    and tx_commit: "reads safe row (ds_commit st)"
    and tx_rollback: "safe s0 \<Longrightarrow> safe s \<Longrightarrow> safe (ds_rollback st s0 s) \<and> row (ds_rollback st s0 s) = row s0"
    and active: "reads safe row (ds_active_workspaces st h)"
    and list_reads: "reads safe row (ds_list_by_state st ws x lmt)"
    and list_rows: "safe s \<Longrightarrow> ds_list_by_state st ws x lmt s = (s', Inr ds) \<Longrightarrow>
          distinct (map d_id ds) \<and> (0 < lmt \<longrightarrow> length ds \<le> nat lmt) \<and>
          (\<forall>d \<in> set ds. d_ws d = ws \<and>
            (\<exists>r. row s (ws, d_id d) = Some r \<and> d_state r = x \<and> d_retry r = d_retry d))"
    and claim: "writes safe row (ds_claim st ws ids) (\<lambda>k. fst k = ws \<and> snd k \<in> set ids)
          (\<lambda>r. if d_state r = Raw then r\<lparr>d_state := Classifying\<rparr> else r)"
    and classification: "writes safe row (ds_update_classification st ws i ty sm rm im) (\<lambda>k. k = (ws, i))
          (\<lambda>r. r\<lparr>d_type := ty, d_summary := sm, d_room := rm, d_importance := im\<rparr>)"
    and embedding: "writes safe row (ds_update_embedding st ws i e) (\<lambda>k. k = (ws, i)) (\<lambda>r. r\<lparr>d_embedding := Some e\<rparr>)"
    and state: "writes safe row (ds_update_state st ws i x) (\<lambda>k. k = (ws, i)) (\<lambda>r. r\<lparr>d_state := x\<rparr>)"
    and search_reads: "reads safe row (ds_search st ws q wing room lmt)"
    and search_rows: "safe s \<Longrightarrow> ds_search st ws q wing room lmt s = (s', Inr hs) \<Longrightarrow>
          \<forall>h \<in> set hs. \<exists>r. row s (ws, d_id (fst h)) = Some r \<and> d_state r = d_state (fst h)"
    and superseded: "writes safe row (ds_set_superseded_by st ws i b) (\<lambda>k. k = (ws, i)) (\<lambda>r. r\<lparr>d_superseded := Some b\<rparr>)"
    and cluster: "writes safe row (ds_set_cluster_id st ws i b) (\<lambda>k. k = (ws, i)) (\<lambda>r. r\<lparr>d_cluster := Some b\<rparr>)"
    and retry: "writes safe row (ds_increment_retry_count st ws i) (\<lambda>k. k = (ws, i)) (\<lambda>r. r\<lparr>d_retry := d_retry r + 1\<rparr>)"
    and enrichment: "writes safe row (ds_update_enrichment st ws i n m) (\<lambda>k. k = (ws, i)) (\<lambda>r. r\<lparr>d_entities := n, d_triples := m\<rparr>)"

text \<open>A table on which no state update fails.\<close>

locale reliable_table = drawer_table +
  assumes state_ok: "safe s \<Longrightarrow> is_ok (snd (ds_update_state st ws i x s))"

section \<open>What one drawer's processing writes\<close>

text \<open>The columns no step of the pipeline writes.\<close>

definition core :: "drawer \<Rightarrow> drawer" where
  "core r = r\<lparr>d_room := '''', d_type := '''', d_summary := '''', d_importance := 0, d_state := Raw,
     d_superseded := None, d_cluster := None, d_retry := 0, d_entities := 0, d_triples := 0, d_embedding := None\<rparr>"

text \<open>Side effects: other rows of the workspace may be merged or superseded, never re-opened.\<close>

definition side :: "string \<Rightarrow> key \<Rightarrow> drawer \<Rightarrow> drawer \<Rightarrow> bool" where
  "side ws k r r' \<longleftrightarrow> (fst k \<noteq> ws \<longrightarrow> r' = r) \<and> core r' = core r \<and> d_retry r' = d_retry r
     \<and> (d_state r' = d_state r \<or> d_state r \<in> {Processed, Merged} \<and> d_state r' = Merged)"

definition sweep :: "string set \<Rightarrow> key \<Rightarrow> drawer \<Rightarrow> drawer \<Rightarrow> bool" where
  "sweep W k r r' \<longleftrightarrow> (fst k \<notin> W \<longrightarrow> r' = r) \<and> core r' = core r
     \<and> (d_state r' = Raw \<longrightarrow> d_state r = Raw \<and> d_retry r' = d_retry r \<or> d_retry r' < ColdWorkerMaxRetries)"

text \<open>No row but those of \<open>K\<close> keeps or gets the state \<open>classifying\<close> unless it had it.\<close>

definition closes :: "key set \<Rightarrow> key \<Rightarrow> drawer \<Rightarrow> drawer \<Rightarrow> bool" where
  "closes K k r r' \<longleftrightarrow> (d_state r' = Classifying \<longrightarrow> d_state r = Classifying \<and> k \<notin> K)"

lemma side_refl [simp]: "side ws k r r"
  by (simp add: side_def)

lemma side_trans: "side ws k r r1 \<Longrightarrow> side ws k r1 r2 \<Longrightarrow> side ws k r r2"
  unfolding side_def by auto

lemma side_sweep: "side ws k r r' \<Longrightarrow> ws \<in> W \<Longrightarrow> sweep W k r r'"
  unfolding side_def sweep_def by auto

lemma side_closes: "side ws k r r' \<Longrightarrow> closes {} k r r'"
  unfolding side_def closes_def by auto

lemma sweep_refl [simp]: "sweep W k r r"
  by (simp add: sweep_def)

lemma sweep_trans: "sweep W k r r1 \<Longrightarrow> sweep W k r1 r2 \<Longrightarrow> sweep W k r r2"
  unfolding sweep_def by auto

lemma sweep_mono: "sweep W k r r' \<Longrightarrow> W \<subseteq> W' \<Longrightarrow> sweep W' k r r'"
  unfolding sweep_def by auto

lemma closes_refl [simp]: "closes {} k r r"
  by (simp add: closes_def)

lemma closes_trans: "closes K k r r1 \<Longrightarrow> closes K' k r1 r2 \<Longrightarrow> closes (K \<union> K') k r r2"
  unfolding closes_def by auto

lemma core_eqI [simp]:
  "core (r\<lparr>d_state := x\<rparr>) = core r" "core (r\<lparr>d_retry := n\<rparr>) = core r"
  "core (r\<lparr>d_embedding := e\<rparr>) = core r" "core (r\<lparr>d_superseded := b\<rparr>) = core r"
  "core (r\<lparr>d_cluster := b\<rparr>) = core r" "core (r\<lparr>d_entities := n, d_triples := m\<rparr>) = core r"
  "core (r\<lparr>d_type := ty, d_summary := sm, d_room := rm, d_importance := im\<rparr>) = core r"
  by (simp_all add: core_def)

context drawer_table
begin

lemma sides_trans: "moves safe row (side ws) s s1 \<Longrightarrow> moves safe row (side ws) s1 s2 \<Longrightarrow> moves safe row (side ws) s s2"
  by (erule moves_comp, assumption) (rule side_trans)

lemma sides_refl [simp]: "moves safe row (side ws) s s"
  by (rule moves_refl) simp

lemma side_writes:
  "moves safe row (side ws) s (fst (ds_update_classification st ws i ty sm rm im s))"
  "moves safe row (side ws) s (fst (ds_update_embedding st ws i e s))"
  "moves safe row (side ws) s (fst (ds_update_enrichment st ws i n m s))"
  "moves safe row (side ws) s (fst (ds_set_superseded_by st ws i b s))"
  "moves safe row (side ws) s (fst (ds_set_cluster_id st ws i b s))"
  "moves safe row (side ws) s (fst (ds_search st ws q wing room lmt s))"
  by (rule moves_writes [OF classification] moves_writes [OF embedding] moves_writes [OF enrichment]
        moves_writes [OF superseded] moves_writes [OF cluster] moves_writes [OF search_reads];
      simp add: side_def)+

text \<open>A member of the cluster has been found processed, so merging it is a side effect.\<close>

definition mergeable :: "string \<Rightarrow> drawer \<Rightarrow> 's \<Rightarrow> bool" where
  "mergeable ws m s \<longleftrightarrow> (\<forall>r. row s (ws, d_id m) = Some r \<longrightarrow> d_state r \<in> {Processed, Merged})"

lemma mergeable_side: "safe s \<Longrightarrow> mergeable ws m s \<Longrightarrow> moves safe row (side ws) s s' \<Longrightarrow> mergeable ws m s'"
  unfolding mergeable_def
proof (intro allI impI)
  fix r'
  assume "safe s" and old: "\<forall>r. row s (ws, d_id m) = Some r \<longrightarrow> d_state r \<in> {Processed, Merged}"
    and "moves safe row (side ws) s s'" and "row s' (ws, d_id m) = Some r'"
  then obtain r where "row s (ws, d_id m) = Some r" "side ws (ws, d_id m) r r'"
    using moves_row' by metis
  then show "d_state r' \<in> {Processed, Merged}" using old by (auto simp: side_def)
qed

lemma merge_member_side:
  assumes "safe (fst s)" "mergeable (d_ws d) m (fst s)"
  shows "moves safe row (side (d_ws d)) (fst s) (fst (merge_cluster_member st d m s))"
proof -
  obtain s1 r where c: "on_db (ds_set_cluster_id st (d_ws d) (d_id m) (d_id d)) s = (s1, r)" by fastforce
  have s1: "moves safe row (side (d_ws d)) (fst s) (fst s1)"
    using side_writes(5) [of "d_ws d" "fst s" "d_id m" "d_id d"] fst_on_db [of _ s] c by (metis fst_conv)
  have m1: "mergeable (d_ws d) m (fst s1)" "safe (fst s1)"
    using assms mergeable_side [OF _ _ s1] moves_inv [OF s1] by simp_all
  have "moves safe row (side (d_ws d)) (fst s1) (fst (ds_update_state st (d_ws d) (d_id m) Merged (fst s1)))"
    by (rule moves_writes [OF state]) (use m1 in \<open>auto simp: side_def mergeable_def\<close>)
  then show ?thesis
    using s1 sides_trans [OF s1] by (cases r) (simp_all add: merge_cluster_member_def c)
qed

lemma merge_members_side:
  "safe (fst s) \<Longrightarrow> (\<forall>m \<in> set ms. mergeable (d_ws d) m (fst s)) \<Longrightarrow>
   moves safe row (side (d_ws d)) (fst s) (fst (fold (merge_cluster_member st d) ms s))"
proof (induction ms arbitrary: s)
  case (Cons m ms)
  let ?s1 = "merge_cluster_member st d m s"
  have s1: "moves safe row (side (d_ws d)) (fst s) (fst ?s1)"
    using Cons.prems by (simp add: merge_member_side)
  have "safe (fst ?s1)" using s1 Cons.prems(1) by (rule moves_inv)
  moreover have "\<forall>m \<in> set ms. mergeable (d_ws d) m (fst ?s1)"
    using Cons.prems mergeable_side [OF _ _ s1] by simp
  ultimately show ?case using sides_trans [OF s1 Cons.IH [of ?s1]] by simp
qed simp

lemma cluster_side:
  assumes "safe (fst s)"
  shows "moves safe row (side (d_ws d)) (fst s) (fst (cluster_drawers st ext d emb s))"
proof -
  obtain s1 r where c: "on_db (ds_search st (d_ws d) emb '''' '''' 10) s = (s1, r)" by fastforce
  have s1: "moves safe row (side (d_ws d)) (fst s) (fst s1)"
    using side_writes(6) [of "d_ws d" "fst s" emb "''''" "''''" 10] fst_on_db [of _ s] c by (metis fst_conv)
  have safe1: "safe (fst s1)" using s1 assms by (rule moves_inv)
  show ?thesis
  proof (cases r)
    case (Inr similar)
    have "ds_search st (d_ws d) emb '''' '''' 10 (fst s) = (fst s1, Inr similar)"
      using c Inr by (auto simp: on_db_def split: prod.splits)
    then have found: "\<forall>h \<in> set similar. \<exists>r. row (fst s) (d_ws d, d_id (fst h)) = Some r \<and> d_state r = d_state (fst h)"
      using assms search_rows by blast
    have "\<forall>m \<in> set (cluster_of d similar). mergeable (d_ws d) m (fst s)"
      using found by (fastforce simp: cluster_of_def mergeable_def)
    then have m1: "\<forall>m \<in> set (cluster_of d similar). mergeable (d_ws d) m (fst s1)"
      using assms mergeable_side [OF _ _ s1] by simp
    obtain s2 ms where x: "on_ext (x_merge_summary ext (d_content d # map d_content (cluster_of d similar))) s1 = (s2, ms)"
      by fastforce
    then have "fst s2 = fst s1" using fst_on_ext by (metis fst_conv)
    then have s3: "moves safe row (side (d_ws d)) (fst s) (fst (fold (merge_cluster_member st d) (cluster_of d similar) s2))"
      using sides_trans [OF s1 merge_members_side [of s2 "cluster_of d similar" d, simplified \<open>fst s2 = fst s1\<close>]]
        safe1 m1 by simp
    show ?thesis
      using s1 \<open>fst s2 = fst s1\<close> sides_trans [OF s3 side_writes(1)] c Inr x
      by (cases ms) (simp_all add: cluster_drawers_def Let_def)
  qed (use s1 in \<open>simp add: cluster_drawers_def c\<close>)
qed

lemma conflict_side:
  "moves safe row (side (d_ws d)) (fst s) (fst (resolve_neighbor_conflict st ext d h s))"
proof -
  obtain nb sim where h: "h = (nb, sim)" by (cases h)
  obtain s1 r where c: "on_ext (x_detect_conflict ext (d_content d) (d_content nb)) s = (s1, r)" by fastforce
  then have "fst s1 = fst s" using fst_on_ext by (metis fst_conv)
  then show ?thesis
    using side_writes(4) by (cases r) (simp_all add: resolve_neighbor_conflict_def h c)
qed

lemma conflicts_side:
  "moves safe row (side (d_ws d)) (fst s) (fst (detect_drawer_conflicts st ext d emb s))"
proof -
  obtain s1 r where c: "on_db (ds_search st (d_ws d) emb '''' '''' 5) s = (s1, r)" by fastforce
  have s1: "moves safe row (side (d_ws d)) (fst s) (fst s1)"
    using side_writes(6) [of "d_ws d" "fst s" emb "''''" "''''" 5] fst_on_db [of _ s] c by (metis fst_conv)
  have "moves safe row (side (d_ws d)) (fst s1) (fst (fold (resolve_neighbor_conflict st ext d) hs s1))" for hs
    by (rule moves_fold [where g = fst]) (simp, erule side_trans, assumption, rule conflict_side)
  then show ?thesis
    using s1 sides_trans [OF s1] by (cases r) (simp_all add: detect_drawer_conflicts_def c)
qed

end

section \<open>Sweeps in the contract\<close>

definition pending :: "('s \<Rightarrow> key \<Rightarrow> drawer option) \<Rightarrow> string \<Rightarrow> drawer list \<Rightarrow> 's \<Rightarrow> bool" where
  "pending row ws ds s \<longleftrightarrow> distinct (map d_id ds) \<and>
     (\<forall>d \<in> set ds. d_ws d = ws \<and>
        (\<exists>r. row s (ws, d_id d) = Some r \<and> d_retry r = d_retry d \<and> d_state r \<noteq> Raw))"

text \<open>What one drawer's processing does: to its own row, and to the others.\<close>

definition handled :: "drawer \<Rightarrow> key \<Rightarrow> drawer \<Rightarrow> drawer \<Rightarrow> bool" where
  "handled d k r r' \<longleftrightarrow>
     (if k = (d_ws d, d_id d)
      then core r' = core r \<and> d_retry r' \<in> {d_retry r, d_retry r + 1}
           \<and> (d_state r' = Raw \<longrightarrow> d_state r = Raw \<or> d_retry d + 1 < ColdWorkerMaxRetries)
           \<and> (d_state r' = Classifying \<longrightarrow> d_state r = Classifying)
      else side (d_ws d) k r r')"

lemma side_handled: "side (d_ws d) k r r' \<Longrightarrow> handled d k r r'"
  unfolding handled_def side_def by auto

lemma side_then_handled: "side (d_ws d) k r r1 \<Longrightarrow> handled d k r1 r2 \<Longrightarrow> handled d k r r2"
  unfolding handled_def by (auto simp: side_trans) (auto simp: side_def)

lemma handled_closes: "handled d k r r' \<Longrightarrow> closes {} k r r'"
  unfolding handled_def closes_def side_def by (auto split: if_splits)

context drawer_table
begin

lemma link_side: "moves safe row (side (d_ws d)) (fst s) (fst (link_drawer st ext d c s))"
  using side_writes(3) by (auto simp: link_drawer_def split: prod.splits)

lemma embed_side:
  "moves safe row (side (d_ws d)) (fst s) (fst (fst (embed_and_persist st ext d s)))"
proof (cases "x_embed ext")
  case (Some f)
  obtain s1 r where c: "on_ext (f (d_content d)) s = (s1, r)" by fastforce
  then have "fst s1 = fst s" using fst_on_ext by (metis fst_conv)
  then show ?thesis
    using side_writes(2) by (cases r) (simp_all add: embed_and_persist_def Some c)
qed (simp add: embed_and_persist_def)

lemma own_state:
  assumes "x \<noteq> Classifying" and "x = Raw \<Longrightarrow> d_retry d + 1 < ColdWorkerMaxRetries"
  shows "moves safe row (handled d) s (fst (ds_update_state st (d_ws d) (d_id d) x s))"
  by (rule moves_writes [OF state]) (use assms in \<open>auto simp: handled_def side_def\<close>)

lemma apply_parts:
  assumes "safe (fst s)" and "apply_classification st ext d c s = (s', r)"
  shows "\<exists>s4. moves safe row (side (d_ws d)) (fst s) (fst s4) \<and>
     (\<not> is_ok r \<and> s' = s4 \<or> s' = fst (on_db (ds_update_state st (d_ws d) (d_id d) Processed) s4)
        \<and> is_ok r = is_ok (snd (ds_update_state st (d_ws d) (d_id d) Processed (fst s4))))"
proof -
  let ?d = "classified_drawer d c"
  have key: "d_ws ?d = d_ws d" "d_id ?d = d_id d" by (simp_all add: classified_drawer_def)
  obtain s1 u where c: "on_db (ds_update_classification st (d_ws d) (d_id d) (c_type c) (c_summary c)
      (memory_type_to_room (c_type c)) (c_importance c * jobsImportanceScale)) s = (s1, u)" by fastforce
  have s1: "moves safe row (side (d_ws d)) (fst s) (fst s1)"
    using side_writes(1) fst_on_db c by (metis fst_conv)
  show ?thesis
  proof (cases u)
    case (Inl e)
    then have "s' = s1" "\<not> is_ok r" using assms(2) by (auto simp: apply_classification_def c Let_def)
    then show ?thesis using s1 by (intro exI [of _ s1]) simp
  next
    case (Inr v)
    obtain s2 emb where e: "embed_and_persist st ext ?d (link_drawer st ext ?d c s1) = (s2, emb)" by fastforce
    let ?s3 = "cluster_drawers st ext ?d emb s2"
    let ?s4 = "detect_drawer_conflicts st ext ?d emb ?s3"
    have s2: "moves safe row (side (d_ws d)) (fst s) (fst s2)"
      using sides_trans [OF s1 sides_trans [OF link_side [of ?d] embed_side [of ?d], unfolded key]] e
      by (metis fst_conv)
    then have "safe (fst s2)" using assms(1) by (rule moves_inv)
    then have s4: "moves safe row (side (d_ws d)) (fst s) (fst ?s4)"
      using sides_trans [OF s2 sides_trans [OF cluster_side [where d = ?d, unfolded key] conflicts_side [where d = ?d, unfolded key]]]
      by simp
    moreover have "s' = fst (on_db (ds_update_state st (d_ws d) (d_id d) Processed) ?s4)
        \<and> r = snd (on_db (ds_update_state st (d_ws d) (d_id d) Processed) ?s4)"
      using assms(2) Inr e by (simp add: apply_classification_def c Let_def)
    ultimately show ?thesis by (intro exI [of _ ?s4]) simp
  qed
qed

lemma failure_handled: "moves safe row (handled d) (fst s) (fst (handle_process_failure st d s))"
proof -
  let ?s1 = "fst (ds_increment_retry_count st (d_ws d) (d_id d) (fst s))"
  let ?inc = "\<lambda>k r r'. if k = (d_ws d, d_id d) then r' = r \<or> r' = r\<lparr>d_retry := d_retry r + 1\<rparr> else r' = r"
  have inc: "moves safe row ?inc (fst s) ?s1"
    by (rule moves_writes [OF retry]) auto
  let ?st = "\<lambda>x k r r'. if k = (d_ws d, d_id d) then r' = r \<or> r' = r\<lparr>d_state := x\<rparr> else r' = r"
  have upd: "moves safe row (?st x) ?s1 (fst (ds_update_state st (d_ws d) (d_id d) x ?s1))" for x
    by (rule moves_writes [OF state]) auto
  have both: "moves safe row (handled d) (fst s) (fst (ds_update_state st (d_ws d) (d_id d) x ?s1))"
    if "x \<noteq> Classifying" "x = Raw \<Longrightarrow> d_retry d + 1 < ColdWorkerMaxRetries" for x
    by (rule moves_comp [OF inc upd]) (use that in \<open>auto simp: handled_def split: if_splits\<close>)
  show ?thesis
    unfolding handle_process_failure_def Let_def
    using both [of Raw] both [of Failed] by (cases "d_retry d + 1 < ColdWorkerMaxRetries") simp_all
qed

lemma resolve_store: "fst (fst (resolve_classification ext d batch i s)) = fst s"
  by (auto simp: resolve_classification_def split: sum.splits option.splits)

lemma single_handled:
  assumes "safe (fst s)"
  shows "moves safe row (handled d) (fst s) (fst (snd (process_single_drawer st ext batch i d res s)))"
proof -
  obtain s1 u where c: "resolve_classification ext d batch i s = (s1, u)" by fastforce
  then have s1: "fst s1 = fst s" using resolve_store by (metis fst_conv)
  show ?thesis
  proof (cases u)
    case (Inl e)
    then show ?thesis using failure_handled [of d s1] s1 by (simp add: process_single_drawer_def c)
  next
    case (Inr cl)
    obtain s2 v where a: "apply_classification st ext d cl s1 = (s2, v)" by fastforce
    have side2: "moves safe row (side (d_ws d)) (fst s) (fst s4) \<Longrightarrow> moves safe row (handled d) (fst s4) s5 \<Longrightarrow>
        moves safe row (handled d) (fst s) s5" for s4 :: "'s \<times> 'a" and s5
      by (erule moves_comp, assumption) (rule side_then_handled)
    obtain s4 where s4: "moves safe row (side (d_ws d)) (fst s) (fst s4)"
      and r: "\<not> is_ok v \<and> s2 = s4 \<or> s2 = fst (on_db (ds_update_state st (d_ws d) (d_id d) Processed) s4)"
      using apply_parts [OF _ a] assms s1 by (metis (no_types))
    have own: "moves safe row (handled d) (fst s4) (fst (ds_update_state st (d_ws d) (d_id d) Processed (fst s4)))"
      by (rule own_state) simp_all
    have twice: "handled d k r r1 \<Longrightarrow> False \<Longrightarrow> handled d k r r1" for k r r1 by simp
    show ?thesis
    proof (cases v)
      case (Inr w)
      then show ?thesis
        using r side2 [OF s4 own] \<open>u = Inr cl\<close> by (simp add: process_single_drawer_def c a)
    next
      case (Inl e)
      let ?x = "\<lambda>k r r'. if k = (d_ws d, d_id d) then r' = r \<or> r' = r\<lparr>d_state := Processed\<rparr> else r' = r"
      have "moves safe row ?x (fst s4) (fst s2)"
      proof (cases "s2 = s4")
        case False
        then have "fst s2 = fst (ds_update_state st (d_ws d) (d_id d) Processed (fst s4))" using r by simp
        then show ?thesis by (simp only:) (rule moves_writes [OF state], auto)
      qed (rule ssubst, assumption, rule moves_refl, simp)
      then have "moves safe row (handled d) (fst s4) (fst (handle_process_failure st d s2))"
        by (rule moves_comp [OF _ failure_handled]) (auto simp: handled_def core_def split: if_splits)
      then show ?thesis
        using side2 [OF s4] Inl \<open>u = Inr cl\<close> by (simp add: process_single_drawer_def c a)
    qed
  qed
qed

end

lemma handled_other:
  "handled d k r r' \<Longrightarrow> k \<noteq> (d_ws d, d_id d) \<Longrightarrow> side (d_ws d) k r r'"
  by (simp add: handled_def)

lemma handled_sweep:
  "handled d k r r' \<Longrightarrow> d_ws d \<in> W \<Longrightarrow> (k = (d_ws d, d_id d) \<Longrightarrow> d_retry r = d_retry d \<and> d_state r \<noteq> Raw) \<Longrightarrow>
   sweep W k r r'"
  by (cases "k = (d_ws d, d_id d)") (auto simp: handled_def sweep_def side_def)

lemma handled_pending:
  assumes "pending row ws (d # ds) s" "moves safe row (handled d) s s'" "safe s"
  shows "pending row ws ds s'"
  unfolding pending_def
proof (intro conjI ballI)
  show "distinct (map d_id ds)" using assms(1) by (simp add: pending_def)
  fix e
  assume e: "e \<in> set ds"
  then show "d_ws e = ws" using assms(1) by (simp add: pending_def)
  obtain r where r: "row s (ws, d_id e) = Some r" "d_retry r = d_retry e" "d_state r \<noteq> Raw"
    using assms(1) e by (auto simp: pending_def)
  obtain r' where r': "row s' (ws, d_id e) = Some r'" "handled d (ws, d_id e) r r'"
    using moves_row [OF assms(2,3) r(1)] by auto
  have "d_id d \<notin> d_id ` set ds" using assms(1) by (simp add: pending_def)
  then have "d_id e \<noteq> d_id d" using e by (metis imageI)
  then have "side (d_ws d) (ws, d_id e) r r'" using r'(2) by (simp add: handled_def)
  then have "d_retry r' = d_retry e" "d_state r' \<noteq> Raw" using r by (auto simp: side_def)
  then show "\<exists>r. row s' (ws, d_id e) = Some r \<and> d_retry r = d_retry e \<and> d_state r \<noteq> Raw" using r' by auto
qed

lemma moves_sweep_handled:
  assumes "pending row ws (d # ds) s" "moves safe row (handled d) s s'" "ws \<in> W"
  shows "moves safe row (sweep W) s s'"
  unfolding moves_def
proof (intro impI conjI allI)
  assume i: "safe s"
  then show "safe s'" using assms(2) by (simp add: moves_def)
  fix k
  have d: "d_ws d = ws" and row: "\<exists>r. row s (ws, d_id d) = Some r \<and> d_retry r = d_retry d \<and> d_state r \<noteq> Raw"
    using assms(1) by (auto simp: pending_def)
  have "rel_option (handled d k) (row s k) (row s' k)" using assms(2) i unfolding moves_def by blast
  then show "rel_option (sweep W k) (row s k) (row s' k)"
  proof (rule option.rel_mono_strong)
    fix r r'
    assume "r \<in> set_option (row s k)" "handled d k r r'"
    moreover have "k = (d_ws d, d_id d) \<Longrightarrow> d_retry r = d_retry d \<and> d_state r \<noteq> Raw"
      using row \<open>r \<in> set_option (row s k)\<close> d by auto
    ultimately show "sweep W k r r'" using handled_sweep assms(3) d by blast
  qed
qed

lemma sweep_moves_trans: "moves safe row (sweep W) s s1 \<Longrightarrow> moves safe row (sweep W) s1 s2 \<Longrightarrow> moves safe row (sweep W) s s2"
  by (erule moves_comp, assumption) (rule sweep_trans)

context drawer_table
begin

lemma drawers_sweep:
  assumes "safe (fst s)" and "pending row ws (map snd ids) (fst s)" and "ws \<in> W"
  shows "moves safe row (sweep W) (fst s) (fst (snd (process_drawers st ext batch ids (res, s))))"
  using assms(1,2)
proof (induction ids arbitrary: res s)
  case (Cons id ids)
  obtain i d where id: "id = (i, d)" by (cases id)
  obtain res1 s1 where p: "process_single_drawer st ext batch i d res s = (res1, s1)"
    by (cases "process_single_drawer st ext batch i d res s")
  have h: "moves safe row (handled d) (fst s) (fst s1)"
    using single_handled [OF Cons.prems(1), of d ext batch i res] p by simp
  have "pending row ws (map snd ids) (fst s1)"
    using handled_pending [OF _ h Cons.prems(1)] Cons.prems(2) id by simp
  moreover have "safe (fst s1)" using h Cons.prems(1) by (rule moves_inv)
  moreover have "moves safe row (sweep W) (fst s) (fst s1)"
    using moves_sweep_handled [OF _ h assms(3)] Cons.prems(2) id by simp
  ultimately show ?case using sweep_moves_trans [OF _ Cons.IH [of s1 res1]] by (simp add: id p)
qed (simp add: moves_refl)

lemma drawers_count:
  "pr_processed (fst (process_drawers st ext batch ids (res, s))) + pr_failed (fst (process_drawers st ext batch ids (res, s)))
   = pr_processed res + pr_failed res + length ids"
proof (induction ids arbitrary: res s)
  case (Cons id ids)
  obtain i d where id: "id = (i, d)" by (cases id)
  obtain res1 s1 where p: "process_single_drawer st ext batch i d res s = (res1, s1)"
    by (cases "process_single_drawer st ext batch i d res s")
  then have "pr_processed res1 + pr_failed res1 = pr_processed res + pr_failed res + 1"
    by (auto simp: process_single_drawer_def split: prod.splits sum.splits)
  then show ?case using Cons.IH [of res1 s1] by (simp add: id p)
qed simp

text \<open>The claim: on success exactly the listed rows, all raw before, are classifying.\<close>

lemma claim_result:
  assumes "safe s" and "claim_drawers st ws s = (s', res)"
  shows "safe s' \<and>
    (case res of
       Inl e \<Rightarrow> row s' = row s
     | Inr ds \<Rightarrow> length ds \<le> 50 \<and> distinct (map d_id ds) \<and>
         row s' = (\<lambda>k. if fst k = ws \<and> snd k \<in> d_id ` set ds
                       then map_option (\<lambda>r. r\<lparr>d_state := Classifying\<rparr>) (row s k) else row s k) \<and>
         (\<forall>d \<in> set ds. d_ws d = ws \<and> (\<exists>r. row s (ws, d_id d) = Some r \<and> d_state r = Raw \<and> d_retry r = d_retry d)))"
proof -
  obtain s0 r0 where b: "ds_begin st s = (s0, r0)" by fastforce
  have s0: "safe s0" "row s0 = row s"
    using tx_begin assms(1) b unfolding writes_def by (force, auto simp: option.map_id fun_eq_iff split: if_splits)
  show ?thesis
  proof (cases r0)
    case (Inl e)
    then show ?thesis using assms(2) s0 by (auto simp: claim_drawers_def b)
  next
    case (Inr u0)
    obtain s1 r1 where l: "ds_list_by_state st ws Raw rawDrawerBatchSize s0 = (s1, r1)" by fastforce
    have s1: "safe s1" "row s1 = row s"
      using list_reads [of ws Raw rawDrawerBatchSize] s0 l unfolding writes_def
      by (force, auto simp: option.map_id fun_eq_iff split: if_splits)
    show ?thesis
    proof (cases r1)
      case (Inl e)
      then show ?thesis using assms(2) s0 s1 tx_rollback [OF s0(1) s1(1)] Inr by (auto simp: claim_drawers_def b l)
    next
      case r1: (Inr ds)
      have ds: "distinct (map d_id ds)" "length ds \<le> 50"
        "\<forall>d \<in> set ds. d_ws d = ws \<and> (\<exists>r. row s (ws, d_id d) = Some r \<and> d_state r = Raw \<and> d_retry r = d_retry d)"
        using list_rows [OF s0(1), of ws Raw rawDrawerBatchSize s1 ds] l r1 s0(2) by (auto simp: rawDrawerBatchSize_def)
      obtain s2 r2 where c: "ds_claim st ws (map d_id ds) s1 = (s2, r2)" by fastforce
      have s2: "safe s2" using claim [of ws "map d_id ds"] s1 c unfolding writes_def by force
      have row2: "is_ok r2 \<Longrightarrow> row s2 = (\<lambda>k. if fst k = ws \<and> snd k \<in> d_id ` set ds
          then map_option (\<lambda>r. if d_state r = Raw then r\<lparr>d_state := Classifying\<rparr> else r) (row s k) else row s k)"
        using claim [of ws "map d_id ds"] s1 c unfolding writes_def by force
      have raw: "(if fst k = ws \<and> snd k \<in> d_id ` set ds
          then map_option (\<lambda>r. if d_state r = Raw then r\<lparr>d_state := Classifying\<rparr> else r) (row s k) else row s k)
        = (if fst k = ws \<and> snd k \<in> d_id ` set ds
          then map_option (\<lambda>r. r\<lparr>d_state := Classifying\<rparr>) (row s k) else row s k)" for k
        using ds(3) by (cases k) auto
      obtain s3 r3 where m: "ds_commit st s2 = (s3, r3)" by fastforce
      have s3: "safe s3" "row s3 = row s2"
        using tx_commit s2 m unfolding writes_def by (force, auto simp: option.map_id fun_eq_iff split: if_splits)
      show ?thesis
        using assms(2) Inr r1 ds s0 s2 s3 row2 raw tx_rollback [OF s0(1) s1(1)] tx_rollback [OF s0(1) s2]
          tx_rollback [OF s0(1) s3(1)]
        by (cases r2; cases r3; cases "ds = []") (auto simp: claim_drawers_def b l c m)
    qed
  qed
qed

lemma classify_batch_store: "fst (fst (classify_batch ext ds s)) = fst s"
  by (simp add: classify_batch_def)

lemma workspace_sweep:
  assumes "ws \<in> W"
  shows "moves safe row (sweep W) (fst (snd rs)) (fst (snd (process_workspace st ext ws rs)))"
proof -
  obtain res s where rs: "rs = (res, s)" by (cases rs)
  obtain s1 r1 where c: "on_db (claim_drawers st ws) s = (s1, r1)" by fastforce
  then have cl: "claim_drawers st ws (fst s) = (fst s1, r1)"
    by (auto simp: on_db_def split: prod.splits)
  have goal: "moves safe row (sweep W) (fst s) (fst (snd (process_workspace st ext ws (res, s))))" if i: "safe (fst s)"
  proof (cases r1)
    case (Inl e)
    then show ?thesis
      using claim_result [OF i cl] by (simp add: process_workspace_def c moves_def option.rel_refl)
  next
    case (Inr ds)
    have i1: "safe (fst s1)" and row1: "row (fst s1) = (\<lambda>k. if fst k = ws \<and> snd k \<in> d_id ` set ds
          then map_option (\<lambda>r. r\<lparr>d_state := Classifying\<rparr>) (row (fst s) k) else row (fst s) k)"
      and ds: "distinct (map d_id ds)" "\<forall>d \<in> set ds. d_ws d = ws \<and>
          (\<exists>r. row (fst s) (ws, d_id d) = Some r \<and> d_state r = Raw \<and> d_retry r = d_retry d)"
      using claim_result [OF i cl] Inr by auto
    have claim_move: "moves safe row (sweep W) (fst s) (fst s1)"
      using i1 row1 assms by (auto simp: moves_def rel_option_iff sweep_def core_def split: option.splits)
    have pend: "pending row ws ds (fst s1)"
      using ds row1 by (force simp: pending_def)
    obtain s2 batch where b: "classify_batch ext ds s1 = (s2, batch)" by fastforce
    then have s2: "fst s2 = fst s1" using classify_batch_store by (metis fst_conv)
    show ?thesis
      using sweep_moves_trans [OF claim_move drawers_sweep [of s2 ws "enum_from 0 ds" W ext batch res, unfolded s2]]
        i1 pend assms claim_move Inr b
      by (simp add: process_workspace_def c)
  qed
  then show ?thesis unfolding rs by (cases "safe (fst s)") (auto simp: moves_def)
qed

lemma workspace_count:
  assumes "safe (fst (snd rs))"
  shows "pr_processed (fst (process_workspace st ext ws rs)) + pr_failed (fst (process_workspace st ext ws rs))
     \<le> pr_processed (fst rs) + pr_failed (fst rs) + 50"
proof -
  obtain res s where rs: "rs = (res, s)" by (cases rs)
  obtain s1 r1 where c: "on_db (claim_drawers st ws) s = (s1, r1)" by fastforce
  then have cl: "claim_drawers st ws (fst s) = (fst s1, r1)"
    by (auto simp: on_db_def split: prod.splits)
  have len: "r1 = Inr ds \<Longrightarrow> length ds \<le> 50" for ds
    using claim_result [OF _ cl] assms rs by auto
  show ?thesis
    using drawers_count [of ext _ "enum_from 0 _" res] len
    by (cases r1) (auto simp: rs process_workspace_def c split: prod.splits)
qed

lemma run_process_sweep:
  assumes "ds_active_workspaces st activeWorkspaceHours (fst s) = (a, Inr ids)"
  shows "moves safe row (sweep (set ids)) (fst s) (fst (fst (run_process st ext s)))"
proof -
  have a: "moves safe row (sweep (set ids)) (fst s) a"
    using moves_writes [OF active, of "fst s" "sweep (set ids)"] assms by (metis fst_conv sweep_refl)
  have "moves safe row (sweep (set ids)) (fst (snd rs)) (fst (snd (fold (process_workspace st ext) ids rs)))"
    for rs :: "process_result \<times> 's \<times> 'a"
    by (rule moves_fold [where g = "\<lambda>rs. fst (snd rs)"])
      (simp, erule sweep_trans, assumption, rule workspace_sweep)
  from sweep_moves_trans [OF a this [of "(\<lparr>pr_processed = 0, pr_failed = 0\<rparr>, (a, snd s))", simplified]] a
  show ?thesis
    using assms by (auto simp: run_process_def on_db_def split: prod.splits)
qed

lemma fold_count:
  "safe (fst (snd rs)) \<Longrightarrow>
   pr_processed (fst (fold (process_workspace st ext) ids rs)) + pr_failed (fst (fold (process_workspace st ext) ids rs))
     \<le> pr_processed (fst rs) + pr_failed (fst rs) + 50 * length ids"
proof (induction ids arbitrary: rs)
  case (Cons ws ids)
  have "safe (fst (snd (process_workspace st ext ws rs)))"
    using moves_inv [OF workspace_sweep [of ws UNIV rs ext]] Cons.prems by simp
  then show ?case
    using Cons.IH [of "process_workspace st ext ws rs"] workspace_count [OF Cons.prems, of ext ws] by simp
qed simp

end

section \<open>Reliable tables\<close>

context reliable_table
begin

lemma state_closes:
  assumes "x \<noteq> Classifying"
  shows "moves safe row (closes {(ws, i)}) s (fst (ds_update_state st ws i x s))"
proof -
  have "safe s \<Longrightarrow> row (fst (ds_update_state st ws i x s))
      = (\<lambda>k. if k = (ws, i) then map_option (\<lambda>r. r\<lparr>d_state := x\<rparr>) (row s k) else row s k)"
    and "safe s \<Longrightarrow> safe (fst (ds_update_state st ws i x s))"
    using state [of ws i x] state_ok by (auto simp: writes_def)
  then show ?thesis
    using assms by (auto simp: moves_def closes_def rel_option_iff split: option.splits)
qed

lemma closes_after:
  assumes "moves safe row (closes {}) s s1" "moves safe row (closes K) s1 s2"
  shows "moves safe row (closes K) s s2"
  by (rule moves_comp [OF assms]) (auto simp: closes_def)

lemma failure_closes:
  "moves safe row (closes {(d_ws d, d_id d)}) (fst s) (fst (handle_process_failure st d s))"
proof -
  have "moves safe row (closes {}) (fst s) (fst (ds_increment_retry_count st (d_ws d) (d_id d) (fst s)))"
    by (rule moves_writes [OF retry]) (auto simp: closes_def)
  then show ?thesis
    using closes_after [OF _ state_closes [of Raw]] closes_after [OF _ state_closes [of Failed]]
    unfolding handle_process_failure_def Let_def by (cases "d_retry d + 1 < ColdWorkerMaxRetries") simp_all
qed

lemma single_closes:
  assumes i: "safe (fst s)"
  shows "moves safe row (closes {(d_ws d, d_id d)}) (fst s) (fst (snd (process_single_drawer st ext batch n d res s)))"
proof -
  obtain s1 u where c: "resolve_classification ext d batch n s = (s1, u)" by fastforce
  then have s1: "fst s1 = fst s" using resolve_store by (metis fst_conv)
  show ?thesis
  proof (cases u)
    case (Inl e)
    then show ?thesis using failure_closes [of d s1] s1 by (simp add: process_single_drawer_def c)
  next
    case (Inr cl)
    obtain s2 v where a: "apply_classification st ext d cl s1 = (s2, v)" by fastforce
    obtain s4 where s4: "moves safe row (side (d_ws d)) (fst s1) (fst s4)"
      and r: "\<not> is_ok v \<and> s2 = s4 \<or> s2 = fst (on_db (ds_update_state st (d_ws d) (d_id d) Processed) s4)"
      using apply_parts [OF _ a] i s1 by (metis (no_types))
    have c4: "moves safe row (closes {}) (fst s) (fst s4)"
      using moves_mono [OF s4 side_closes] s1 by simp
    have upd: "moves safe row (closes {(d_ws d, d_id d)}) (fst s4)
        (fst (ds_update_state st (d_ws d) (d_id d) Processed (fst s4)))"
      by (rule state_closes) simp
    have c2: "moves safe row (closes {}) (fst s) (fst s2)"
      using r c4 moves_mono [OF closes_after [OF c4 upd], of "closes {}"] by (auto simp: closes_def)
    show ?thesis
    proof (cases v)
      case (Inl e)
      then show ?thesis
        using closes_after [OF c2 failure_closes] \<open>u = Inr cl\<close> by (simp add: process_single_drawer_def c a)
    next
      case (Inr w)
      then show ?thesis
        using closes_after [OF c4 upd] r \<open>u = Inr cl\<close> by (simp add: process_single_drawer_def c a)
    qed
  qed
qed

lemma drawers_close:
  "safe (fst s) \<Longrightarrow>
   moves safe row (closes ((\<lambda>(i, d). (d_ws d, d_id d)) ` set ids)) (fst s)
     (fst (snd (process_drawers st ext batch ids (res, s))))"
proof (induction ids arbitrary: res s)
  case (Cons id ids)
  obtain i d where id: "id = (i, d)" by (cases id)
  obtain res1 s1 where p: "process_single_drawer st ext batch i d res s = (res1, s1)"
    by (cases "process_single_drawer st ext batch i d res s")
  have one: "moves safe row (closes {(d_ws d, d_id d)}) (fst s) (fst s1)"
    using single_closes [OF Cons.prems, of d ext batch i res] p by simp
  have rest: "moves safe row (closes ((\<lambda>(i, d). (d_ws d, d_id d)) ` set ids)) (fst s1)
      (fst (snd (process_drawers st ext batch ids (res1, s1))))"
    by (rule Cons.IH) (rule moves_inv [OF one Cons.prems])
  have "moves safe row (closes (insert (d_ws d, d_id d) ((\<lambda>(i, d). (d_ws d, d_id d)) ` set ids))) (fst s)
      (fst (snd (process_drawers st ext batch ids (res1, s1))))"
    by (rule moves_comp [OF one rest]) (auto simp: closes_def)
  then show ?case by (simp add: id p)
qed (simp add: moves_refl)

lemma set_snd_enum: "snd ` set (enum_from i xs) = set xs"
  by (metis list.set_map map_snd_enum_from)

lemma workspace_closes:
  "moves safe row (closes {}) (fst (snd rs)) (fst (snd (process_workspace st ext ws rs)))"
proof -
  obtain res s where rs: "rs = (res, s)" by (cases rs)
  obtain s1 r1 where c: "on_db (claim_drawers st ws) s = (s1, r1)" by fastforce
  then have cl: "claim_drawers st ws (fst s) = (fst s1, r1)"
    by (auto simp: on_db_def split: prod.splits)
  have "moves safe row (closes {}) (fst s) (fst (snd (process_workspace st ext ws (res, s))))" if i: "safe (fst s)"
  proof (cases r1)
    case (Inl e)
    then show ?thesis
      using claim_result [OF i cl] by (simp add: process_workspace_def c moves_def option.rel_refl)
  next
    case (Inr ds)
    let ?K = "{k. fst k = ws \<and> snd k \<in> d_id ` set ds}"
    have i1: "safe (fst s1)" and row1: "row (fst s1) = (\<lambda>k. if fst k = ws \<and> snd k \<in> d_id ` set ds
          then map_option (\<lambda>r. r\<lparr>d_state := Classifying\<rparr>) (row (fst s) k) else row (fst s) k)"
      and ds: "\<forall>d \<in> set ds. d_ws d = ws"
      using claim_result [OF i cl] Inr by auto
    have claim_move: "moves safe row (\<lambda>k r r'. k \<notin> ?K \<longrightarrow> r' = r) (fst s) (fst s1)"
      using i1 row1 by (auto simp: moves_def rel_option_iff split: option.splits)
    obtain s2 batch where b: "classify_batch ext ds s1 = (s2, batch)" by fastforce
    then have s2: "fst s2 = fst s1" using classify_batch_store by (metis fst_conv)
    have "(\<lambda>(i, d). (d_ws d, d_id d)) ` set (enum_from 0 ds) = (\<lambda>d. (d_ws d, d_id d)) ` set ds"
      using set_snd_enum [of 0 ds] by (force simp: image_iff)
    also have "\<dots> = ?K" using ds by force
    finally have rest: "moves safe row (closes ?K) (fst s1)
        (fst (snd (process_drawers st ext batch (enum_from 0 ds) (res, s2))))"
      using drawers_close [of s2 "enum_from 0 ds" ext batch res] i1 s2 by simp
    have "moves safe row (closes {}) (fst s) (fst (snd (process_drawers st ext batch (enum_from 0 ds) (res, s2))))"
      by (rule moves_comp [OF claim_move rest]) (auto simp: closes_def)
    moreover have "moves safe row (closes {}) (fst s) (fst s1)" if "ds = []"
      using claim_move that by (elim moves_mono) (simp add: closes_def)
    ultimately show ?thesis using Inr b by (simp add: process_workspace_def c)
  qed
  then show ?thesis unfolding rs by (cases "safe (fst s)") (auto simp: moves_def)
qed

lemma run_process_closes: "moves safe row (closes {}) (fst s) (fst (fst (run_process st ext s)))"
proof -
  obtain s1 r where a: "on_db (ds_active_workspaces st activeWorkspaceHours) s = (s1, r)" by fastforce
  have s1: "moves safe row (closes {}) (fst s) (fst s1)"
    using moves_writes [OF active, of "fst s" "closes {}"] fst_on_db a by (metis closes_refl fst_conv)
  have "moves safe row (closes {}) (fst (snd rs)) (fst (snd (fold (process_workspace st ext) ids rs)))"
    for ids and rs :: "process_result \<times> 'a \<times> 'b"
    by (rule moves_fold [where g = "\<lambda>rs. fst (snd rs)"])
      (simp, simp add: closes_def, rule workspace_closes)
  then have all: "moves safe row (closes {}) (fst s)
      (fst (snd (fold (process_workspace st ext) ids (\<lparr>pr_processed = 0, pr_failed = 0\<rparr>, s1))))" for ids
    using closes_after [OF s1] by (metis snd_conv)
  show ?thesis
  proof (cases r)
    case (Inr ids)
    then show ?thesis using s1 all [of ids]
      by (cases "fold (process_workspace st ext) ids (\<lparr>pr_processed = 0, pr_failed = 0\<rparr>, s1)")
        (simp add: run_process_def a)
  qed (use s1 in \<open>simp add: run_process_def a\<close>)
qed

end

section \<open>The drawers table of Postgres\<close>

definition tx_stmt :: "(world, unit) call" where
  "tx_stmt = select_rows (\<lambda>rs. ())"

definition postgres_store :: "world drawer_store" where
  "postgres_store =
     \<lparr>ds_begin = tx_stmt, ds_commit = tx_stmt, ds_rollback = (\<lambda>w0 w. w\<lparr>w_rows := w_rows w0\<rparr>),
      ds_active_workspaces = active_workspaces, ds_list_by_state = list_by_state,
      ds_claim = claim_for_processing, ds_update_classification = update_classification,
      ds_update_embedding = update_embedding, ds_update_state = update_state, ds_search = search,
      ds_set_superseded_by = set_superseded_by, ds_set_cluster_id = set_cluster_id,
      ds_increment_retry_count = increment_retry_count, ds_decay_importance = decay_importance,
      ds_prune_low_importance = prune_low_importance, ds_list_enrich_candidates = list_enrich_candidates,
      ds_update_enrichment = update_enrichment\<rparr>"

definition healthy :: "world \<Rightarrow> bool" where
  "healthy w \<longleftrightarrow> unique_ids w \<and> w_fails w = (\<lambda>n. False)"

text \<open>Both invariants are kept by every statement that keeps the ids.\<close>

definition keeps_ids :: "(world \<Rightarrow> bool) \<Rightarrow> bool" where
  "keeps_ids P \<longleftrightarrow>
     (\<forall>w n rs. P w \<longrightarrow> map d_id rs = map d_id (w_rows w) \<longrightarrow> P (w\<lparr>w_calls := n, w_rows := rs\<rparr>))
     \<and> (\<forall>w n. P w \<longrightarrow> P (w\<lparr>w_calls := n\<rparr>)) \<and> (\<forall>w. P w \<longrightarrow> unique_ids w)
     \<and> (\<forall>w0 w. P w0 \<longrightarrow> P w \<longrightarrow> P (w\<lparr>w_rows := w_rows w0\<rparr>))"

lemma keeps_unique: "keeps_ids unique_ids"
  by (simp add: keeps_ids_def unique_ids_def)

lemma keeps_healthy: "keeps_ids healthy"
  by (simp add: keeps_ids_def healthy_def unique_ids_def)

lemma update_writes:
  assumes "keeps_ids P" and "\<And>r. d_ws (f r) = d_ws r \<and> d_id (f r) = d_id r"
    and "\<And>r. p r = K (d_ws r, d_id r)"
  shows "writes P row_of (exec_update p f) K f"
  unfolding writes_def
proof (intro allI impI)
  fix w
  assume w: "P w"
  have "map d_id (update_rows p f (w_rows w)) = map d_id (w_rows w)"
    using assms(2) by (simp add: update_rows_def)
  then have P: "P (w\<lparr>w_calls := n, w_rows := update_rows p f (w_rows w)\<rparr>)" "P (w\<lparr>w_calls := n\<rparr>)" for n
    using assms(1) w by (simp_all add: keeps_ids_def)
  have "row_of (w\<lparr>w_calls := n, w_rows := update_rows p f (w_rows w)\<rparr>) k
      = (if K k then map_option f (row_of w k) else row_of w k)" for n k
    using row_of_update [of f, OF assms(2), where w = w and n = n and p = p and k = k] assms(3) row_of_key [of w k] by (cases "row_of w k") auto
  then show "P (fst (exec_update p f w)) \<and> row_of (fst (exec_update p f w)) =
      (if is_ok (snd (exec_update p f w)) then \<lambda>k. if K k then map_option f (row_of w k) else row_of w k else row_of w)"
    using exec_update_cases [of p f w] P by (elim disjE) (simp_all add: fun_eq_iff)
qed

lemma select_reads: "keeps_ids P \<Longrightarrow> reads P row_of (select_rows q)"
  by (auto simp: writes_def select_rows_world keeps_ids_def option.map_id fun_eq_iff)

lemma reads_wrap:
  "(\<And>w. fst (c w) = w\<lparr>w_calls := Suc (w_calls w)\<rparr> \<or> fst (c w) = w) \<Longrightarrow> keeps_ids P \<Longrightarrow> reads P row_of c"
  unfolding writes_def
proof (intro allI impI)
  fix w
  assume "fst (c w) = w\<lparr>w_calls := Suc (w_calls w)\<rparr> \<or> fst (c w) = w" for w
  then have "fst (c w) = w\<lparr>w_calls := Suc (w_calls w)\<rparr> \<or> fst (c w) = w" .
  moreover assume "keeps_ids P" "P w"
  ultimately show "P (fst (c w)) \<and> row_of (fst (c w)) =
      (if is_ok (snd (c w)) then \<lambda>k. if False then map_option id (row_of w k) else row_of w k else row_of w)"
    by (elim disjE) (simp_all add: keeps_ids_def)
qed

lemma row_of_unique: "unique_ids w \<Longrightarrow> r \<in> set (w_rows w) \<Longrightarrow> row_of w (d_ws r, d_id r) = Some r"
  by (simp add: row_of_def unique_ids_def find_unique)

lemma list_by_state_rows:
  assumes "unique_ids w" and "list_by_state ws x lmt w = (w', Inr ds)"
  shows "distinct (map d_id ds) \<and> (0 < lmt \<longrightarrow> length ds \<le> nat lmt) \<and>
    (\<forall>d \<in> set ds. d_ws d = ws \<and>
       (\<exists>r. row_of w (ws, d_id d) = Some r \<and> d_state r = x \<and> d_retry r = d_retry d))"
proof -
  let ?found = "take (or_default lmt 10) (sort_key d_created_at (filter (\<lambda>r. d_ws r = ws \<and> d_state r = x) (w_rows w)))"
  have ds: "ds = map list_cols ?found"
    using assms(2) by (auto simp: list_by_state_def wrap_err_def select_rows_def db_stmt_def Let_def split: if_splits)
  have key: "d_id (list_cols r) = d_id r" "d_ws (list_cols r) = d_ws r" "d_retry (list_cols r) = d_retry r" for r
    by (simp_all add: list_cols_def base_cols_def)
  have "distinct (map d_id (sort_key d_created_at (filter (\<lambda>r. d_ws r = ws \<and> d_state r = x) (w_rows w))))"
    using assms(1) by (simp add: unique_ids_def distinct_map inj_on_def)
  then have "distinct (map d_id ?found)" by (simp add: take_map [symmetric] distinct_take)
  then have "distinct (map d_id ds)" by (simp add: ds key comp_def)
  moreover have "0 < lmt \<longrightarrow> length ds \<le> nat lmt" by (simp add: ds or_default_def)
  moreover have "d_ws d = ws \<and> (\<exists>r. row_of w (ws, d_id d) = Some r \<and> d_state r = x \<and> d_retry r = d_retry d)"
    if "d \<in> set ds" for d
  proof -
    obtain r where r: "d = list_cols r" "r \<in> set ?found" using \<open>d \<in> set ds\<close> unfolding ds by auto
    then have "r \<in> set (w_rows w)" "d_ws r = ws" "d_state r = x" by (auto dest: in_set_takeD)
    then show ?thesis using row_of_unique [OF assms(1)] r(1) key by auto
  qed
  ultimately show ?thesis by simp
qed

lemma search_rows:
  assumes "unique_ids w" and "search ws q wing room lmt w = (w', Inr hs)"
  shows "\<forall>h \<in> set hs. \<exists>r. row_of w (ws, d_id (fst h)) = Some r \<and> d_state r = d_state (fst h)"
proof
  fix h
  assume "h \<in> set hs"
  then obtain r s where r: "h = (search_cols r, s)" "r \<in> set (w_rows w)" "d_ws r = ws"
    using assms(2)
    by (auto simp: search_def wrap_err_def select_rows_def db_stmt_def Let_def hits_def
        split: if_splits option.splits dest!: in_set_takeD)
  have "d_id (search_cols r) = d_id r" "d_state (search_cols r) = d_state r"
    by (simp_all add: search_cols_def base_cols_def)
  then show "\<exists>r. row_of w (ws, d_id (fst h)) = Some r \<and> d_state r = d_state (fst h)"
    using r row_of_unique [OF assms(1) r(2)] by simp
qed

lemma postgres_writes:
  assumes "keeps_ids P"
  shows "writes P row_of (claim_for_processing ws ids) (\<lambda>k. fst k = ws \<and> snd k \<in> set ids)
      (\<lambda>r. if d_state r = Raw then r\<lparr>d_state := Classifying\<rparr> else r)"
    and "writes P row_of (update_classification ws i ty sm rm im) (\<lambda>k. k = (ws, i))
      (\<lambda>r. r\<lparr>d_type := ty, d_summary := sm, d_room := rm, d_importance := im\<rparr>)"
    and "writes P row_of (update_embedding ws i e) (\<lambda>k. k = (ws, i)) (\<lambda>r. r\<lparr>d_embedding := Some e\<rparr>)"
    and "writes P row_of (update_state ws i x) (\<lambda>k. k = (ws, i)) (\<lambda>r. r\<lparr>d_state := x\<rparr>)"
    and "writes P row_of (set_superseded_by ws i b) (\<lambda>k. k = (ws, i)) (\<lambda>r. r\<lparr>d_superseded := Some b\<rparr>)"
    and "writes P row_of (set_cluster_id ws i b) (\<lambda>k. k = (ws, i)) (\<lambda>r. r\<lparr>d_cluster := Some b\<rparr>)"
    and "writes P row_of (increment_retry_count ws i) (\<lambda>k. k = (ws, i)) (\<lambda>r. r\<lparr>d_retry := d_retry r + 1\<rparr>)"
    and "writes P row_of (update_enrichment ws i n m) (\<lambda>k. k = (ws, i)) (\<lambda>r. r\<lparr>d_entities := n, d_triples := m\<rparr>)"
proof -
  note upd = update_writes [OF assms]
  show "writes P row_of (update_classification ws i ty sm rm im) (\<lambda>k. k = (ws, i))
      (\<lambda>r. r\<lparr>d_type := ty, d_summary := sm, d_room := rm, d_importance := im\<rparr>)"
    unfolding update_classification_def by (rule upd) (auto simp: where_ws_id_def)
  show "writes P row_of (update_embedding ws i e) (\<lambda>k. k = (ws, i)) (\<lambda>r. r\<lparr>d_embedding := Some e\<rparr>)"
    unfolding update_embedding_def by (rule upd) (auto simp: where_ws_id_def)
  show "writes P row_of (update_state ws i x) (\<lambda>k. k = (ws, i)) (\<lambda>r. r\<lparr>d_state := x\<rparr>)"
    unfolding update_state_def by (rule upd) (auto simp: where_ws_id_def)
  show "writes P row_of (set_superseded_by ws i b) (\<lambda>k. k = (ws, i)) (\<lambda>r. r\<lparr>d_superseded := Some b\<rparr>)"
    unfolding set_superseded_by_def by (rule upd) (auto simp: where_ws_id_def)
  show "writes P row_of (set_cluster_id ws i b) (\<lambda>k. k = (ws, i)) (\<lambda>r. r\<lparr>d_cluster := Some b\<rparr>)"
    unfolding set_cluster_id_def by (rule upd) (auto simp: where_ws_id_def)
  show "writes P row_of (increment_retry_count ws i) (\<lambda>k. k = (ws, i)) (\<lambda>r. r\<lparr>d_retry := d_retry r + 1\<rparr>)"
    unfolding increment_retry_count_def by (rule upd) (auto simp: where_ws_id_def)
  have "writes P row_of (exec_update (where_ws_id ws i) (\<lambda>r. r\<lparr>d_entities := n, d_triples := m\<rparr>))
      (\<lambda>k. k = (ws, i)) (\<lambda>r. r\<lparr>d_entities := n, d_triples := m\<rparr>)"
    by (rule upd) (auto simp: where_ws_id_def)
  then show "writes P row_of (update_enrichment ws i n m) (\<lambda>k. k = (ws, i)) (\<lambda>r. r\<lparr>d_entities := n, d_triples := m\<rparr>)"
    unfolding writes_def update_enrichment_def by (auto split: prod.splits sum.splits)
  have claim: "writes P row_of (exec_update (\<lambda>r. d_ws r = ws \<and> d_id r \<in> set ids)
        (\<lambda>r. if d_state r = Raw then r\<lparr>d_state := Classifying\<rparr> else r))
      (\<lambda>k. fst k = ws \<and> snd k \<in> set ids) (\<lambda>r. if d_state r = Raw then r\<lparr>d_state := Classifying\<rparr> else r)"
    by (rule upd) auto
  have "update_rows (\<lambda>r. d_ws r = ws \<and> d_id r \<in> set ids \<and> d_state r = Raw) (\<lambda>r. r\<lparr>d_state := Classifying\<rparr>)
      = update_rows (\<lambda>r. d_ws r = ws \<and> d_id r \<in> set ids) (\<lambda>r. if d_state r = Raw then r\<lparr>d_state := Classifying\<rparr> else r)"
    by (auto simp: update_rows_def fun_eq_iff)
  then show "writes P row_of (claim_for_processing ws ids) (\<lambda>k. fst k = ws \<and> snd k \<in> set ids)
      (\<lambda>r. if d_state r = Raw then r\<lparr>d_state := Classifying\<rparr> else r)"
    using claim unfolding writes_def claim_for_processing_def exec_update_def
    by (auto simp: fun_eq_iff)
qed

lemma postgres_reads:
  assumes "keeps_ids P"
  shows "reads P row_of tx_stmt" "reads P row_of (active_workspaces h)"
    "reads P row_of (list_by_state ws x lmt)" "reads P row_of (search ws q wing room lmt)"
  unfolding tx_stmt_def
  by (rule reads_wrap [OF _ assms],
      simp add: select_rows_world active_workspaces_def list_by_state_def search_def)+

lemmas postgres_laws = postgres_writes postgres_writes(7) [simplified] postgres_reads

lemma rollback_rows: "row_of (w\<lparr>w_rows := w_rows w0\<rparr>) = row_of w0"
  by (simp add: row_of_def fun_eq_iff)

interpretation pg: drawer_table postgres_store row_of unique_ids
  by unfold_locales
    (use keeps_unique in \<open>simp_all add: postgres_store_def postgres_laws rollback_rows list_by_state_rows search_rows\<close>,
      simp add: unique_ids_def)

lemma healthy_unique: "healthy w \<Longrightarrow> unique_ids w"
  by (simp add: healthy_def)

lemma healthy_state_ok: "healthy w \<Longrightarrow> is_ok (snd (update_state ws i x w))"
  by (simp add: healthy_def update_state_def exec_update_def db_stmt_def Let_def)

lemma healthy_rollback: "healthy w0 \<Longrightarrow> healthy w \<Longrightarrow> healthy (w\<lparr>w_rows := w_rows w0\<rparr>)"
  by (simp add: healthy_def unique_ids_def)

interpretation healthy_pg: reliable_table postgres_store row_of healthy
  by unfold_locales
    (use keeps_healthy in \<open>simp_all add: postgres_store_def postgres_laws rollback_rows search_rows
        healthy_unique healthy_state_ok healthy_rollback\<close>,
      use list_by_state_rows healthy_unique in blast)

end
