(* ===== verification/Session_Store.thy ===== *)
theory Session_Store
  imports Go_Strings
begin

text \<open>
  \<open>internal/agentruntime/session/redis.go\<close>: the session service of the agent runtime over
  Redis. Redis is modelled by the commands the service issues: string keys with JSON blobs, lists,
  hashes and sets, each under the key string the code formats. A JSON value is its text, and
  marshalling followed by unmarshalling is the identity; a transaction pipeline applies all its
  commands or none; \<open>rd_fails\<close> says which round-trips fail. Expiry times are not recorded: a
  key may vanish at any moment, which is the step \<open>Expired\<close> below. A state map is a function,
  a state delta a list of entries with distinct keys (Go's map iteration order is not observable).
\<close>

type_synonym val = string
type_synonym state = "string \<Rightarrow> val option"

datatype session_error = SessionNotFound | SessionErr string

record event =
  ev_timestamp :: int
  ev_partial :: bool
  ev_delta :: "(string \<times> val) list"
  ev_body :: string

record session_payload =
  sp_app :: string
  sp_user :: string
  sp_sid :: string
  sp_state :: state
  sp_updated :: int

record redis_session =
  rs_app :: string
  rs_user :: string
  rs_sid :: string
  rs_events :: "event list"
  rs_state :: state
  rs_updated :: int

record redis =
  rd_blobs :: "string \<Rightarrow> session_payload option"
  rd_lists :: "string \<Rightarrow> event list"
  rd_hashes :: "string \<Rightarrow> state"
  rd_sets :: "string \<Rightarrow> string list"
  rd_now :: int
  rd_calls :: nat
  rd_fails :: "nat \<Rightarrow> bool"

type_synonym 'a redis_call = "redis \<Rightarrow> redis \<times> (session_error + 'a)"

definition maxSessionEvents :: nat where "maxSessionEvents = 60"
definition KeyPrefixApp :: string where "KeyPrefixApp = ''app:''"
definition KeyPrefixTemp :: string where "KeyPrefixTemp = ''temp:''"
definition KeyPrefixUser :: string where "KeyPrefixUser = ''user:''"

definition redis_error :: string where "redis_error = ''redis error''"

text \<open>One round-trip: it fails and changes nothing, or reads with \<open>q\<close> and writes with \<open>f\<close>.\<close>

definition trip :: "string \<Rightarrow> (redis \<Rightarrow> 'a) \<Rightarrow> (redis \<Rightarrow> redis) \<Rightarrow> 'a redis_call" where
  "trip msg q f rd =
     (let rd' = rd\<lparr>rd_calls := Suc (rd_calls rd)\<rparr> in
      if rd_fails rd (rd_calls rd) then (rd', Inl (SessionErr (msg @ redis_error)))
      else (f rd', Inr (q rd)))"

section \<open>Keys\<close>

definition keyPrefix :: string where "keyPrefix = ''crawbl''"

definition session_key :: "string \<Rightarrow> string \<Rightarrow> string \<Rightarrow> string" where
  "session_key app user sid = keyPrefix @ '':session:'' @ app @ '':'' @ user @ '':'' @ sid"

definition events_key :: "string \<Rightarrow> string \<Rightarrow> string \<Rightarrow> string" where
  "events_key app user sid = keyPrefix @ '':events:'' @ app @ '':'' @ user @ '':'' @ sid"

definition user_sessions_key :: "string \<Rightarrow> string \<Rightarrow> string" where
  "user_sessions_key app user = keyPrefix @ '':sessions:'' @ app @ '':'' @ user"

definition app_state_key :: "string \<Rightarrow> string" where
  "app_state_key app = keyPrefix @ '':state:app:'' @ app"

definition user_state_key :: "string \<Rightarrow> string \<Rightarrow> string" where
  "user_state_key app user = keyPrefix @ '':state:user:'' @ app @ '':'' @ user"

section \<open>State deltas\<close>

fun split_state_deltas ::
  "(string \<times> val) list \<Rightarrow> (string \<times> val) list \<times> (string \<times> val) list \<times> (string \<times> val) list" where
  "split_state_deltas [] = ([], [], [])"
| "split_state_deltas ((k, v) # delta) =
     (case split_state_deltas delta of (app_d, user_d, sess_d) \<Rightarrow>
        if has_prefix k KeyPrefixTemp then (app_d, user_d, sess_d)
        else if has_prefix k KeyPrefixApp then ((trim_prefix k KeyPrefixApp, v) # app_d, user_d, sess_d)
        else if has_prefix k KeyPrefixUser then (app_d, (trim_prefix k KeyPrefixUser, v) # user_d, sess_d)
        else (app_d, user_d, (k, v) # sess_d))"

definition strip_temp_state_keys :: "event \<Rightarrow> event" where
  "strip_temp_state_keys ev =
     (if length (ev_delta ev) = 0 then ev
      else ev\<lparr>ev_delta := filter (\<lambda>(k, v). \<not> has_prefix k KeyPrefixTemp) (ev_delta ev)\<rparr>)"

definition apply_state_delta :: "redis_session \<Rightarrow> event \<Rightarrow> redis_session" where
  "apply_state_delta rs ev =
     rs\<lparr>rs_state := rs_state rs ++ map_of (filter (\<lambda>(k, v).
        \<not> (has_prefix k KeyPrefixApp \<or> has_prefix k KeyPrefixUser)) (ev_delta ev))\<rparr>"

text \<open>\<open>redisState.Set\<close>, which the ADK calls for every write of a callback or a tool.\<close>

definition state_set :: "redis_session \<Rightarrow> string \<Rightarrow> val \<Rightarrow> redis_session" where
  "state_set rs k v = rs\<lparr>rs_state := (rs_state rs)(k \<mapsto> v)\<rparr>"

definition state_get :: "redis_session \<Rightarrow> string \<Rightarrow> val option" where
  "state_get rs k = rs_state rs k"

definition filter_events :: "event list \<Rightarrow> int \<Rightarrow> int \<Rightarrow> event list" where
  "filter_events events num_recent after =
     (let evs = (if num_recent > 0 \<and> int (length events) > num_recent
                 then drop (nat (int (length events) - num_recent)) events else events) in
      if after = 0 then evs else filter (\<lambda>e. ev_timestamp e \<ge> after) evs)"

definition events_at :: "redis_session \<Rightarrow> int \<Rightarrow> event option" where
  "events_at rs i =
     (if i < 0 \<or> i \<ge> int (length (rs_events rs)) then None else Some (rs_events rs ! nat i))"

section \<open>State hashes\<close>

definition merge_hash :: "string \<Rightarrow> (string \<times> val) list \<Rightarrow> unit redis_call" where
  "merge_hash key delta rd =
     (if length delta = 0 then (rd, Inr ())
      else trip '''' (\<lambda>rd. ()) (\<lambda>rd. rd\<lparr>rd_hashes := (rd_hashes rd)(key := rd_hashes rd key ++ map_of delta)\<rparr>) rd)"

definition merge_app_state :: "string \<Rightarrow> (string \<times> val) list \<Rightarrow> unit redis_call" where
  "merge_app_state app delta rd = (if length delta = 0 then (rd, Inr ()) else merge_hash (app_state_key app) delta rd)"

definition merge_user_state :: "string \<Rightarrow> string \<Rightarrow> (string \<times> val) list \<Rightarrow> unit redis_call" where
  "merge_user_state app user delta rd =
     (if length delta = 0 then (rd, Inr ()) else merge_hash (user_state_key app user) delta rd)"

definition load_state_hash :: "string \<Rightarrow> state redis_call" where
  "load_state_hash key = trip (''session/redis: load state hash '') (\<lambda>rd. rd_hashes rd key) id"

text \<open>\<open>merged[prefix + k] = v\<close> for every entry of a hash.\<close>

definition prefixed :: "string \<Rightarrow> state \<Rightarrow> state" where
  "prefixed p m k = (if has_prefix k p then m (trim_prefix k p) else None)"

definition merged_state :: "state \<Rightarrow> state \<Rightarrow> state \<Rightarrow> state" where
  "merged_state app_state user_state payload_state =
     prefixed KeyPrefixApp app_state ++ prefixed KeyPrefixUser user_state ++ payload_state"

section \<open>Operations\<close>

definition load_events :: "string \<Rightarrow> string \<Rightarrow> string \<Rightarrow> event list redis_call" where
  "load_events app user sid =
     trip ''session/redis: load events: '' (\<lambda>rd. rd_lists rd (events_key app user sid)) id"

definition write_session :: "string \<Rightarrow> session_payload \<Rightarrow> unit redis_call" where
  "write_session key payload =
     trip ''session/redis: write session: '' (\<lambda>rd. ()) (\<lambda>rd. rd\<lparr>rd_blobs := (rd_blobs rd)(key \<mapsto> payload)\<rparr>)"

definition load_session :: "string \<Rightarrow> string \<Rightarrow> string \<Rightarrow> int \<Rightarrow> int \<Rightarrow> redis_session redis_call" where
  "load_session app user sid num_recent after rd =
     (case trip ''session/redis: load session: '' (\<lambda>rd. rd_blobs rd (session_key app user sid)) id rd of
        (rd1, Inl e) \<Rightarrow> (rd1, Inl e)
      | (rd1, Inr None) \<Rightarrow> (rd1, Inl SessionNotFound)
      | (rd1, Inr (Some payload)) \<Rightarrow>
          (case load_state_hash (app_state_key app) rd1 of
             (rd2, Inl e) \<Rightarrow> (rd2, Inl e)
           | (rd2, Inr app_state) \<Rightarrow>
               (case load_state_hash (user_state_key app user) rd2 of
                  (rd3, Inl e) \<Rightarrow> (rd3, Inl e)
                | (rd3, Inr user_state) \<Rightarrow>
                    (case load_events app user sid rd3 of
                       (rd4, Inl e) \<Rightarrow> (rd4, Inl e)
                     | (rd4, Inr events) \<Rightarrow>
                         (rd4, Inr \<lparr>rs_app = sp_app payload, rs_user = sp_user payload, rs_sid = sp_sid payload,
                                    rs_events = filter_events events num_recent after,
                                    rs_state = merged_state app_state user_state (sp_state payload),
                                    rs_updated = sp_updated payload\<rparr>)))))"

definition index_add :: "string \<Rightarrow> string \<Rightarrow> redis \<Rightarrow> redis" where
  "index_add key sid rd =
     rd\<lparr>rd_sets := (rd_sets rd)(key := (if sid \<in> set (rd_sets rd key) then rd_sets rd key else rd_sets rd key @ [sid]))\<rparr>"

definition index_remove :: "string \<Rightarrow> string \<Rightarrow> redis \<Rightarrow> redis" where
  "index_remove key sid rd = rd\<lparr>rd_sets := (rd_sets rd)(key := filter (\<lambda>s. s \<noteq> sid) (rd_sets rd key))\<rparr>"

text \<open>\<open>new_id\<close> is the value \<open>uuid.NewString\<close> returns.\<close>

definition create_session ::
  "string \<Rightarrow> string \<Rightarrow> string \<Rightarrow> string \<Rightarrow> (string \<times> val) list \<Rightarrow> redis_session redis_call" where
  "create_session new_id app user req_sid init rd =
     (if app = '''' \<or> user = '''' then (rd, Inl (SessionErr ''session/redis: app_name and user_id are required''))
      else
        let sid = (if req_sid = '''' then new_id else req_sid);
            sess_key = session_key app user sid in
        (case trip ''session/redis: check existence: '' (\<lambda>rd. rd_blobs rd sess_key \<noteq> None) id rd of
           (rd1, Inl e) \<Rightarrow> (rd1, Inl e)
         | (rd1, Inr exists) \<Rightarrow>
             if exists then (rd1, Inl (SessionErr (''session/redis: session '' @ sid @ '' already exists'')))
             else
               (case split_state_deltas init of (app_d, user_d, sess_d) \<Rightarrow>
                 (case merge_app_state app app_d rd1 of
                    (rd2, Inl e) \<Rightarrow> (rd2, Inl e)
                  | (rd2, Inr _) \<Rightarrow>
                     (case merge_user_state app user user_d rd2 of
                        (rd3, Inl e) \<Rightarrow> (rd3, Inl e)
                      | (rd3, Inr _) \<Rightarrow>
                         (case write_session sess_key
                                 \<lparr>sp_app = app, sp_user = user, sp_sid = sid, sp_state = map_of sess_d,
                                  sp_updated = rd_now rd3\<rparr> rd3 of
                            (rd4, Inl e) \<Rightarrow> (rd4, Inl e)
                          | (rd4, Inr _) \<Rightarrow>
                             (case trip ''session/redis: index session: '' (\<lambda>rd. ())
                                     (index_add (user_sessions_key app user) sid) rd4 of
                                (rd5, Inl e) \<Rightarrow> (rd5, Inl e)
                              | (rd5, Inr _) \<Rightarrow> load_session app user sid 0 0 rd5)))))))"

definition get_session :: "string \<Rightarrow> string \<Rightarrow> string \<Rightarrow> int \<Rightarrow> int \<Rightarrow> redis_session redis_call" where
  "get_session app user sid num_recent after rd =
     (if app = '''' \<or> user = '''' \<or> sid = ''''
      then (rd, Inl (SessionErr ''session/redis: app_name, user_id, session_id are required''))
      else load_session app user sid num_recent after rd)"

fun list_loop :: "string \<Rightarrow> string \<Rightarrow> string list \<Rightarrow> redis_session list \<Rightarrow> redis_session list redis_call" where
  "list_loop app user [] out rd = (rd, Inr out)"
| "list_loop app user (sid # ids) out rd =
     (case load_session app user sid 0 0 rd of
        (rd1, Inl SessionNotFound) \<Rightarrow>
          (case trip '''' (\<lambda>rd. ()) (index_remove (user_sessions_key app user) sid) rd1 of
             (rd2, _) \<Rightarrow> list_loop app user ids out rd2)
      | (rd1, Inl (SessionErr e)) \<Rightarrow> (rd1, Inl (SessionErr e))
      | (rd1, Inr sess) \<Rightarrow> list_loop app user ids (out @ [sess]) rd1)"

definition list_sessions :: "string \<Rightarrow> string \<Rightarrow> redis_session list redis_call" where
  "list_sessions app user rd =
     (if app = '''' then (rd, Inl (SessionErr ''session/redis: app_name is required''))
      else
        (case trip ''session/redis: list session ids: '' (\<lambda>rd. rd_sets rd (user_sessions_key app user)) id rd of
           (rd1, Inl e) \<Rightarrow> (rd1, Inl e)
         | (rd1, Inr ids) \<Rightarrow> list_loop app user ids [] rd1))"

definition delete_session :: "string \<Rightarrow> string \<Rightarrow> string \<Rightarrow> unit redis_call" where
  "delete_session app user sid rd =
     (if app = '''' \<or> user = '''' \<or> sid = ''''
      then (rd, Inl (SessionErr ''session/redis: app_name, user_id, session_id are required''))
      else trip ''session/redis: delete session: '' (\<lambda>rd. ())
             (\<lambda>rd. index_remove (user_sessions_key app user) sid
                (rd\<lparr>rd_blobs := (rd_blobs rd)(session_key app user sid := None),
                    rd_lists := (rd_lists rd)(events_key app user sid := [])\<rparr>)) rd)"

text \<open>\<open>RPush\<close> followed by \<open>LTrim(-maxSessionEvents, -1)\<close>.\<close>

definition push_trim :: "event \<Rightarrow> event list \<Rightarrow> event list" where
  "push_trim ev evs = (let l = evs @ [ev] in drop (length l - maxSessionEvents) l)"

text \<open>The in-memory half, under the session's lock.\<close>

definition record_event :: "int \<Rightarrow> redis_session \<Rightarrow> event \<Rightarrow> redis_session" where
  "record_event now rs ev =
     (apply_state_delta (rs\<lparr>rs_events := rs_events rs @ [ev]\<rparr>) ev)
       \<lparr>rs_updated := (if ev_timestamp ev = 0 then now else ev_timestamp ev)\<rparr>"

definition append_event ::
  "redis_session \<Rightarrow> event \<Rightarrow> redis \<Rightarrow> redis \<times> redis_session \<times> event \<times> (session_error + unit)" where
  "append_event rs event rd =
     (if ev_partial event then (rd, rs, event, Inr ())
      else
        let ev = strip_temp_state_keys event;
            rs1 = record_event (rd_now rd) rs ev in
        (case split_state_deltas (ev_delta ev) of (app_d, user_d, _) \<Rightarrow>
          (case merge_app_state (rs_app rs1) app_d rd of
             (rd1, Inl e) \<Rightarrow> (rd1, rs1, ev, Inl e)
           | (rd1, Inr _) \<Rightarrow>
              (case merge_user_state (rs_app rs1) (rs_user rs1) user_d rd1 of
                 (rd2, Inl e) \<Rightarrow> (rd2, rs1, ev, Inl e)
               | (rd2, Inr _) \<Rightarrow>
                   let ek = events_key (rs_app rs1) (rs_user rs1) (rs_sid rs1);
                       sk = session_key (rs_app rs1) (rs_user rs1) (rs_sid rs1);
                       payload = \<lparr>sp_app = rs_app rs1, sp_user = rs_user rs1, sp_sid = rs_sid rs1,
                                  sp_state = rs_state rs1, sp_updated = rs_updated rs1\<rparr> in
                   (case trip ''session/redis: persist event: '' (\<lambda>rd. ())
                           (\<lambda>rd. rd\<lparr>rd_lists := (rd_lists rd)(ek := push_trim ev (rd_lists rd ek)),
                                    rd_blobs := (rd_blobs rd)(sk \<mapsto> payload)\<rparr>) rd2 of
                      (rd3, Inl e) \<Rightarrow> (rd3, rs1, ev, Inl e)
                    | (rd3, Inr _) \<Rightarrow> (rd3, rs1, ev, Inr ()))))))"

section \<open>Keys do not clash\<close>

definition colon_free :: "string \<Rightarrow> bool" where
  "colon_free s \<longleftrightarrow> CHR '':'' \<notin> set s"

lemma colon_split: "colon_free a \<Longrightarrow> colon_free a' \<Longrightarrow> (a @ CHR '':'' # x = a' @ CHR '':'' # x') = (a = a' \<and> x = x')"
proof (induction a arbitrary: a')
  case Nil
  then show ?case by (cases a') (auto simp: colon_free_def)
next
  case (Cons c a)
  then show ?case by (cases a') (auto simp: colon_free_def)
qed

lemma session_key_inj:
  "colon_free app \<Longrightarrow> colon_free app' \<Longrightarrow> colon_free user \<Longrightarrow> colon_free user' \<Longrightarrow>
   (session_key app user sid = session_key app' user' sid') = (app = app' \<and> user = user' \<and> sid = sid')"
  by (simp add: session_key_def keyPrefix_def colon_split)

lemma events_key_inj:
  "colon_free app \<Longrightarrow> colon_free app' \<Longrightarrow> colon_free user \<Longrightarrow> colon_free user' \<Longrightarrow>
   (events_key app user sid = events_key app' user' sid') = (app = app' \<and> user = user' \<and> sid = sid')"
  by (simp add: events_key_def keyPrefix_def colon_split)

lemma state_keys_apart: "app_state_key app \<noteq> user_state_key app' user'"
  by (simp add: app_state_key_def user_state_key_def keyPrefix_def)

section \<open>What a successful call does\<close>

definition up :: "redis \<Rightarrow> bool" where "up rd \<longleftrightarrow> rd_fails rd = (\<lambda>n. False)"

lemma trip_up: "up rd \<Longrightarrow> trip msg q f rd = (f (rd\<lparr>rd_calls := Suc (rd_calls rd)\<rparr>), Inr (q rd))"
  by (simp add: trip_def up_def Let_def)

lemma up_simps [simp]:
  "up (rd\<lparr>rd_calls := n\<rparr>) = up rd" "up (rd\<lparr>rd_blobs := b\<rparr>) = up rd" "up (rd\<lparr>rd_lists := l\<rparr>) = up rd"
  "up (rd\<lparr>rd_hashes := h\<rparr>) = up rd" "up (rd\<lparr>rd_sets := s\<rparr>) = up rd"
  by (simp_all add: up_def)

text \<open>\<open>hashed key delta rd\<close>: the state after merging a delta into a hash, up to the call counter.\<close>

lemma merge_hash_up:
  assumes "up rd"
  shows "\<exists>n. merge_hash key delta rd =
     (rd\<lparr>rd_calls := n, rd_hashes := (rd_hashes rd)(key := rd_hashes rd key ++ map_of delta)\<rparr>, Inr ())"
proof (cases "delta = []")
  case True
  then show ?thesis by (intro exI [of _ "rd_calls rd"]) (simp add: merge_hash_def)
next
  case False
  then show ?thesis using assms by (auto simp: merge_hash_def trip_up)
qed

lemma load_session_up:
  assumes "up rd"
  shows "snd (load_session app user sid n t rd) =
    (case rd_blobs rd (session_key app user sid) of
       None \<Rightarrow> Inl SessionNotFound
     | Some p \<Rightarrow> Inr \<lparr>rs_app = sp_app p, rs_user = sp_user p, rs_sid = sp_sid p,
                    rs_events = filter_events (rd_lists rd (events_key app user sid)) n t,
                    rs_state = merged_state (rd_hashes rd (app_state_key app)) (rd_hashes rd (user_state_key app user)) (sp_state p),
                    rs_updated = sp_updated p\<rparr>)"
  using assms by (simp add: load_session_def trip_up load_state_hash_def load_events_def split: option.splits)

lemma trim_prefix_eq: "has_prefix k' p \<Longrightarrow> (trim_prefix k' p = k) = (k' = p @ k)"
  by (auto simp: has_prefix_iff)

lemma append_trim_prefix [simp]: "has_prefix k' p \<Longrightarrow> p @ trim_prefix k' p = k'"
  by (auto simp: has_prefix_iff)

lemma prefixes_apart [simp]:
  "\<not> has_prefix (KeyPrefixApp @ k) KeyPrefixTemp" "\<not> has_prefix (KeyPrefixApp @ k) KeyPrefixUser"
  "\<not> has_prefix (KeyPrefixUser @ k) KeyPrefixTemp" "\<not> has_prefix (KeyPrefixUser @ k) KeyPrefixApp"
  "\<not> has_prefix (KeyPrefixTemp @ k) KeyPrefixApp" "\<not> has_prefix (KeyPrefixTemp @ k) KeyPrefixUser"
  by (simp_all add: has_prefix_def KeyPrefixApp_def KeyPrefixTemp_def KeyPrefixUser_def)

lemma split_app: "map_of (fst (split_state_deltas d)) k = map_of d (KeyPrefixApp @ k)"
proof (induction d rule: split_state_deltas.induct)
  case (2 k' v d)
  obtain a u s where s: "split_state_deltas d = (a, u, s)" by (metis prod_cases3)
  have "k' \<noteq> KeyPrefixApp @ k" if "has_prefix k' KeyPrefixTemp \<or> \<not> has_prefix k' KeyPrefixApp"
    using that by auto
  then show ?case
    using 2 s by (cases "has_prefix k' KeyPrefixTemp"; cases "has_prefix k' KeyPrefixApp"; cases "has_prefix k' KeyPrefixUser")
      (auto simp: trim_prefix_eq)
qed simp

text \<open>A successful append on a store that is up, spelled out.\<close>

lemma append_event_up:
  assumes "up rd" and "\<not> ev_partial ev"
    and "append_event rs ev rd = (rd', rs', ev', res)"
  shows "res = Inr () \<and> ev' = strip_temp_state_keys ev \<and> rs' = record_event (rd_now rd) rs ev' \<and> up rd'
    \<and> rd_blobs rd' = (rd_blobs rd)(session_key (rs_app rs) (rs_user rs) (rs_sid rs) \<mapsto>
          \<lparr>sp_app = rs_app rs, sp_user = rs_user rs, sp_sid = rs_sid rs, sp_state = rs_state rs', sp_updated = rs_updated rs'\<rparr>)
    \<and> rd_lists rd' = (rd_lists rd)(events_key (rs_app rs) (rs_user rs) (rs_sid rs) :=
          push_trim ev' (rd_lists rd (events_key (rs_app rs) (rs_user rs) (rs_sid rs))))
    \<and> rd_hashes rd' (app_state_key (rs_app rs)) =
          rd_hashes rd (app_state_key (rs_app rs)) ++ map_of (fst (split_state_deltas (ev_delta ev')))"
proof -
  let ?ev = "strip_temp_state_keys ev"
  obtain a u s where sp: "split_state_deltas (ev_delta ?ev) = (a, u, s)" by (metis prod_cases3)
  have keys: "rs_app (record_event t rs ?ev) = rs_app rs" "rs_user (record_event t rs ?ev) = rs_user rs"
    "rs_sid (record_event t rs ?ev) = rs_sid rs" for t
    by (simp_all add: record_event_def apply_state_delta_def)
  obtain n where m: "merge_app_state (rs_app rs) a rd =
      (rd\<lparr>rd_calls := n, rd_hashes := (rd_hashes rd)(app_state_key (rs_app rs) := rd_hashes rd (app_state_key (rs_app rs)) ++ map_of a)\<rparr>, Inr ())"
    using merge_hash_up [OF assms(1), of "app_state_key (rs_app rs)" a]
    by (cases "a = []") (auto simp: merge_app_state_def merge_hash_def intro: that [of "rd_calls rd"])
  let ?rd1 = "rd\<lparr>rd_calls := n, rd_hashes := (rd_hashes rd)(app_state_key (rs_app rs) := rd_hashes rd (app_state_key (rs_app rs)) ++ map_of a)\<rparr>"
  have up1: "up ?rd1" using assms(1) by simp
  obtain n2 where m2: "merge_user_state (rs_app rs) (rs_user rs) u ?rd1 =
      (?rd1\<lparr>rd_calls := n2, rd_hashes := (rd_hashes ?rd1)(user_state_key (rs_app rs) (rs_user rs) :=
          rd_hashes ?rd1 (user_state_key (rs_app rs) (rs_user rs)) ++ map_of u)\<rparr>, Inr ())"
    using merge_hash_up [OF up1, of "user_state_key (rs_app rs) (rs_user rs)" u]
    by (cases "u = []") (auto simp: merge_user_state_def merge_hash_def intro: that [of n])
  show ?thesis
    using assms sp m m2 state_keys_apart by (auto simp: append_event_def Let_def keys trip_up)
qed

section \<open>Properties\<close>


text \<open>A fresh store with one session in it, for the instances.\<close>

definition empty_redis :: redis where
  "empty_redis = \<lparr>rd_blobs = Map.empty, rd_lists = (\<lambda>k. []), rd_hashes = (\<lambda>k. Map.empty), rd_sets = (\<lambda>k. []),
     rd_now = 7, rd_calls = 0, rd_fails = (\<lambda>n. False)\<rparr>"

definition demo_session :: redis_session where
  "demo_session = \<lparr>rs_app = ''a'', rs_user = ''u'', rs_sid = ''s'', rs_events = [],
     rs_state = [''app:lang'' \<mapsto> ''en''], rs_updated = 0\<rparr>"

definition demo_event :: event where
  "demo_event = \<lparr>ev_timestamp = 3, ev_partial = False, ev_delta = [(''app:lang'', ''de''), (''n'', ''1'')], ev_body = ''hi''\<rparr>"

lemma demo_up [simp]: "up empty_redis"
  by (simp add: up_def empty_redis_def)


text \<open>An app-scoped update is lost to the session that made it: the append writes the new value
  to the app hash, but the session blob it rewrites holds a copy of the merged state, old
  \<open>app:\<close> entries included, and on every later load that copy wins over the hash.
\<close>

theorem app_update_lost:
  assumes "up rd" and "\<not> ev_partial ev" and "rs_app rs \<noteq> ''''" "rs_user rs \<noteq> ''''" "rs_sid rs \<noteq> ''''"
    and "rs_state rs (KeyPrefixApp @ k) = Some v_old" and "map_of (ev_delta ev) (KeyPrefixApp @ k) = Some v_new"
    and "append_event rs ev rd = (rd', rs', ev', res)"
  shows "res = Inr () \<and> rd_hashes rd' (app_state_key (rs_app rs)) k = Some v_new
    \<and> (\<exists>s. snd (get_session (rs_app rs) (rs_user rs) (rs_sid rs) 0 0 rd') = Inr s
         \<and> state_get s (KeyPrefixApp @ k) = Some v_old)"
proof -
  note a = append_event_up [OF assms(1,2,8)]
  have flt: "map_of (filter (\<lambda>(k, v). P k) d) x = (if P x then map_of d x else None)" for P d x
    by (induction d) auto
  have delta: "map_of (ev_delta ev') (KeyPrefixApp @ k) = Some v_new"
    using a assms(7) by (auto simp: strip_temp_state_keys_def flt)
  then have hash: "rd_hashes rd' (app_state_key (rs_app rs)) k = Some v_new"
    using a by (simp add: split_app map_add_def)
  have st: "rs_state rs' (KeyPrefixApp @ k) = Some v_old"
    using a assms(6) by (simp add: record_event_def apply_state_delta_def map_add_def flt)
  show ?thesis
    using a hash st assms(3-5)
    by (simp add: get_session_def load_session_up merged_state_def map_add_def state_get_def)
qed

lemma app_update_lost_witness:
  "\<exists>s. snd (get_session ''a'' ''u'' ''s'' 0 0 (fst (append_event demo_session demo_event empty_redis))) = Inr s
     \<and> state_get s ''app:lang'' = Some ''en''"
proof -
  obtain rd' rs' ev' res where a: "append_event demo_session demo_event empty_redis = (rd', rs', ev', res)"
    by (metis prod_cases4)
  show ?thesis
    using app_update_lost [OF _ _ _ _ _ _ _ a, of "''lang''" "''en''" "''de''"] a
    by (simp add: demo_session_def demo_event_def KeyPrefixApp_def)
qed

text \<open>A \<open>temp:\<close> key written with \<open>State.Set\<close>, the way the agent framework writes state,
  is persisted by the next append and comes back on a later load, although the event's delta is
  stripped of such keys.
\<close>

theorem temp_state_persisted:
  assumes "up rd" and "\<not> ev_partial ev" and "rs_app rs \<noteq> ''''" "rs_user rs \<noteq> ''''" "rs_sid rs \<noteq> ''''"
    and "append_event (state_set rs (KeyPrefixTemp @ k) v) ev rd = (rd', rs', ev', res)"
  shows "\<exists>s. snd (get_session (rs_app rs) (rs_user rs) (rs_sid rs) 0 0 rd') = Inr s
     \<and> state_get s (KeyPrefixTemp @ k) = Some v"
proof -
  note a = append_event_up [OF assms(1,2,6)]
  have flt: "map_of (filter (\<lambda>(k, v). P k) d) x = (if P x then map_of d x else None)" for P d x
    by (induction d) auto
  have no: "map_of (ev_delta ev') (KeyPrefixTemp @ k) = None"
    using a by (auto simp: strip_temp_state_keys_def flt)
  have st: "rs_state rs' (KeyPrefixTemp @ k) = Some v"
    using a no by (simp add: record_event_def apply_state_delta_def map_add_def flt state_set_def)
  show ?thesis
    using a st assms(3-5)
    by (simp add: get_session_def load_session_up merged_state_def map_add_def state_get_def state_set_def)
qed

lemma temp_state_persisted_witness:
  "\<exists>s. snd (get_session ''a'' ''u'' ''s'' 0 0
        (fst (append_event (state_set demo_session (KeyPrefixTemp @ ''otp'') ''99'') demo_event empty_redis))) = Inr s
     \<and> state_get s (KeyPrefixTemp @ ''otp'') = Some ''99''"
proof -
  obtain rd' rs' ev' res where
    a: "append_event (state_set demo_session (KeyPrefixTemp @ ''otp'') ''99'') demo_event empty_redis = (rd', rs', ev', res)"
    by (metis prod_cases4)
  show ?thesis
    using temp_state_persisted [OF _ _ _ _ _ a] a by (simp add: demo_session_def demo_event_def)
qed

text \<open>Deleting a session forgets exactly that session: a later load finds nothing, its event list is
  gone for a session created again under the same id, and the blob and
  the history of every other session are untouched, when application and user names hold no colon.
\<close>

theorem delete_exact:
  assumes "up rd" and "app \<noteq> ''''" "user \<noteq> ''''" "sid \<noteq> ''''"
    and "colon_free app" "colon_free user" "colon_free app'" "colon_free user'"
    and "(app', user', sid') \<noteq> (app, user, sid)"
  shows "snd (get_session app user sid n t (fst (delete_session app user sid rd))) = Inl SessionNotFound
    \<and> rd_lists (fst (delete_session app user sid rd)) (events_key app user sid) = []
    \<and> snd (get_session app' user' sid' n t (fst (delete_session app user sid rd))) = snd (get_session app' user' sid' n t rd)"
  using assms(1-4) assms(9) session_key_inj [OF assms(7,5,8,6), of sid' sid] events_key_inj [OF assms(7,5,8,6), of sid' sid]
  by (simp add: get_session_def delete_session_def trip_up load_session_up index_remove_def split: option.splits)

lemma delete_exact_witness:
  "snd (get_session ''a'' ''u'' ''s'' 0 0 (fst (delete_session ''a'' ''u'' ''s'' empty_redis))) = Inl SessionNotFound"
  using delete_exact [of empty_redis "''a''" "''u''" "''s''" "''a''" "''u''" "''t''" 0 0] by (simp add: colon_free_def)

section \<open>Any sequence of calls\<close>

text \<open>The service's calls, by any client and with any failures, and the expiry of a key.\<close>

inductive session_step :: "redis \<Rightarrow> redis \<Rightarrow> bool" where
  Created: "session_step rd (fst (create_session new_id app user sid init rd))"
| Got: "session_step rd (fst (get_session app user sid n t rd))"
| Listed: "session_step rd (fst (list_sessions app user rd))"
| Deleted: "session_step rd (fst (delete_session app user sid rd))"
| Appended: "session_step rd (fst (append_event rs ev rd))"
| Expired: "session_step rd (rd\<lparr>rd_blobs := (rd_blobs rd)(k := None), rd_lists := (rd_lists rd)(k' := []),
     rd_sets := (rd_sets rd)(k'' := [])\<rparr>)"

inductive session_reach :: "redis \<Rightarrow> bool" where
  Start: "(\<forall>k. rd_lists rd k = []) \<Longrightarrow> session_reach rd"
| Step: "session_reach rd \<Longrightarrow> session_step rd rd' \<Longrightarrow> session_reach rd'"

lemma trip_lists: "(\<And>rd. rd_lists (f rd) = rd_lists rd) \<Longrightarrow> rd_lists (fst (trip m q f rd)) = rd_lists rd"
  by (simp add: trip_def Let_def)

lemma trip_id_lists: "rd_lists (fst (trip m q id rd)) = rd_lists rd"
  by (simp add: trip_lists)

lemma load_lists: "rd_lists (fst (load_session app user sid n t rd)) = rd_lists rd"
proof -
  obtain rd1 r1 where 1: "trip ''session/redis: load session: '' (\<lambda>rd. rd_blobs rd (session_key app user sid)) id rd = (rd1, r1)"
    by fastforce
  obtain rd2 r2 where 2: "load_state_hash (app_state_key app) rd1 = (rd2, r2)" by fastforce
  obtain rd3 r3 where 3: "load_state_hash (user_state_key app user) rd2 = (rd3, r3)" by fastforce
  obtain rd4 r4 where 4: "load_events app user sid rd3 = (rd4, r4)" by fastforce
  have "rd_lists rd1 = rd_lists rd" "rd_lists rd2 = rd_lists rd1" "rd_lists rd3 = rd_lists rd2" "rd_lists rd4 = rd_lists rd3"
    using 1 2 3 4 trip_id_lists unfolding load_state_hash_def load_events_def by (metis fst_conv)+
  then show ?thesis
    by (cases r1; cases r2; cases r3; cases r4) (auto simp: load_session_def 1 2 3 4 split: option.splits)
qed

lemma list_loop_lists: "rd_lists (fst (list_loop app user ids out rd)) = rd_lists rd"
proof (induction app user ids out rd rule: list_loop.induct)
  case (2 app user sid ids out rd)
  obtain rd1 r where l: "load_session app user sid 0 0 rd = (rd1, r)" by fastforce
  then have rd1: "rd_lists rd1 = rd_lists rd" using load_lists by (metis fst_conv)
  show ?case
  proof (cases r)
    case (Inr s)
    then show ?thesis using "2.IH"(2) [OF l [symmetric]] rd1 l by simp
  next
    case (Inl e)
    show ?thesis
    proof (cases e)
      case SessionNotFound
      obtain rd2 u where t: "trip '''' (\<lambda>rd. ()) (index_remove (user_sessions_key app user) sid) rd1 = (rd2, u)" by fastforce
      have "rd_lists rd2 = rd_lists rd1"
        using trip_lists [of "index_remove (user_sessions_key app user) sid" "''''" "\<lambda>rd. ()" rd1] t by (simp add: index_remove_def)
      then show ?thesis
        using "2.IH"(1) rd1 l t SessionNotFound Inl by simp
    qed (use rd1 l Inl in simp)
  qed
qed simp

lemma list_lists: "rd_lists (fst (list_sessions app user rd)) = rd_lists rd"
proof -
  obtain rd1 r1 where 1: "trip ''session/redis: list session ids: '' (\<lambda>rd. rd_sets rd (user_sessions_key app user)) id rd = (rd1, r1)"
    by fastforce
  then have "rd_lists rd1 = rd_lists rd" using trip_id_lists by (metis fst_conv)
  then show ?thesis using list_loop_lists by (cases r1) (simp_all add: list_sessions_def 1)
qed

text \<open>The history of a session never grows beyond the cap.\<close>

definition histories_capped :: "redis \<Rightarrow> bool" where
  "histories_capped rd \<longleftrightarrow> (\<forall>k. length (rd_lists rd k) \<le> maxSessionEvents)"

lemma capped_cong: "rd_lists rd' = rd_lists rd \<Longrightarrow> histories_capped rd' = histories_capped rd"
  by (simp add: histories_capped_def)

lemma merge_lists:
  "rd_lists (fst (merge_app_state app d rd)) = rd_lists rd" "rd_lists (fst (merge_user_state app user d rd)) = rd_lists rd"
  using trip_lists [of _ "''''" "\<lambda>rd. ()"] by (simp_all add: merge_app_state_def merge_user_state_def merge_hash_def)

lemma create_lists: "rd_lists (fst (create_session new_id app user sid init rd)) = rd_lists rd"
proof -
  define sid0 where "sid0 = (if sid = '''' then new_id else sid)"
  obtain a u s where sp: "split_state_deltas init = (a, u, s)" by (metis prod_cases3)
  obtain rd1 r1 where 1: "trip ''session/redis: check existence: '' (\<lambda>rd. rd_blobs rd (session_key app user sid0) \<noteq> None) id rd = (rd1, r1)"
    by fastforce
  obtain rd2 r2 where 2: "merge_app_state app a rd1 = (rd2, r2)" by fastforce
  obtain rd3 r3 where 3: "merge_user_state app user u rd2 = (rd3, r3)" by fastforce
  obtain rd4 r4 where 4: "write_session (session_key app user sid0)
      \<lparr>sp_app = app, sp_user = user, sp_sid = sid0, sp_state = map_of s, sp_updated = rd_now rd3\<rparr> rd3 = (rd4, r4)" by fastforce
  obtain rd5 r5 where 5: "trip ''session/redis: index session: '' (\<lambda>rd. ()) (index_add (user_sessions_key app user) sid0) rd4 = (rd5, r5)"
    by fastforce
  have "rd_lists rd1 = rd_lists rd" using 1 trip_id_lists by (metis fst_conv)
  moreover have "rd_lists rd2 = rd_lists rd1" "rd_lists rd3 = rd_lists rd2" using 2 3 merge_lists by (metis fst_conv)+
  moreover have "rd_lists rd4 = rd_lists rd3"
    using arg_cong [OF 4, of "\<lambda>x. rd_lists (fst x)"] by (simp add: write_session_def trip_lists)
  moreover have "rd_lists rd5 = rd_lists rd4"
    using arg_cong [OF 5, of "\<lambda>x. rd_lists (fst x)"] by (simp add: trip_lists index_add_def)
  ultimately show ?thesis
    unfolding create_session_def Let_def sid0_def [symmetric]
    using load_lists by (cases r1; cases r2; cases r3; cases r4; cases r5) (simp_all add: sp 1 2 3 4 5 del: not_None_eq)
qed

lemma append_capped: "histories_capped rd \<Longrightarrow> histories_capped (fst (append_event rs ev rd))"
proof -
  assume cap: "histories_capped rd"
  let ?ev = "strip_temp_state_keys ev"
  let ?rs = "record_event (rd_now rd) rs ?ev"
  obtain a u s where sp: "split_state_deltas (ev_delta ?ev) = (a, u, s)" by (metis prod_cases3)
  obtain rd1 r1 where 1: "merge_app_state (rs_app ?rs) a rd = (rd1, r1)" by fastforce
  obtain rd2 r2 where 2: "merge_user_state (rs_app ?rs) (rs_user ?rs) u rd1 = (rd2, r2)" by fastforce
  have eq: "rd_lists rd1 = rd_lists rd" "rd_lists rd2 = rd_lists rd1" using 1 2 merge_lists by (metis fst_conv)+
  have cap2: "histories_capped rd1" "histories_capped rd2" using cap eq capped_cong by metis+
  have "length (push_trim e l) \<le> maxSessionEvents" for e l by (simp add: push_trim_def Let_def)
  then have 3: "histories_capped (fst (trip m (\<lambda>rd. ()) (\<lambda>rd. rd\<lparr>rd_lists := (rd_lists rd)(ek := push_trim e (rd_lists rd ek)),
      rd_blobs := (rd_blobs rd)(sk \<mapsto> p)\<rparr>) rd2))" for m ek e sk p
    using cap2(2) by (auto simp: trip_def Let_def histories_capped_def)
  have fst3: "fst (case x of (rd3, Inl e) \<Rightarrow> (rd3, rs1, v, Inl e) | (rd3, Inr u) \<Rightarrow> (rd3, rs1, v, Inr ())) = fst x"
    for x :: "redis \<times> (session_error + unit)" and rs1 :: redis_session and v :: event
    by (cases x; cases "snd x") auto
  show ?thesis
  proof (cases "ev_partial ev")
    case False
    then show ?thesis
      using cap cap2 3 by (cases r1; cases r2) (simp_all add: append_event_def Let_def sp 1 2 fst3)
  qed (use cap in \<open>simp add: append_event_def\<close>)
qed

text \<open>
  C21. Whatever sequence of calls the service has served, with round-trips failing and keys expiring
  at any point, no session's stored history is longer than \<open>maxSessionEvents\<close>.
\<close>

theorem history_capped:
  "session_reach rd \<Longrightarrow> length (rd_lists rd (events_key app user sid)) \<le> 60"
proof -
  assume "session_reach rd"
  then have "histories_capped rd"
  proof induction
    case (Step rd rd')
    have cap: "rd_lists rd' = rd_lists rd \<Longrightarrow> ?case" using Step.IH capped_cong by metis
    from Step.hyps(2) show ?case
    proof cases
      case Created then show ?thesis using cap create_lists by simp
    next
      case Got then show ?thesis using cap load_lists by (simp add: get_session_def)
    next
      case (Listed app user)
      then show ?thesis using cap list_lists by simp
    next
      case Deleted then show ?thesis using Step.IH
        by (auto simp: delete_session_def trip_def Let_def index_remove_def histories_capped_def)
    next
      case Appended then show ?thesis using Step.IH append_capped by simp
    next
      case Expired then show ?thesis using Step.IH by (auto simp: histories_capped_def)
    qed
  qed (simp add: histories_capped_def)
  then show ?thesis by (simp add: histories_capped_def maxSessionEvents_def)
qed

lemma history_capped_witness:
  "length (rd_lists (fst (append_event demo_session demo_event empty_redis)) (events_key ''a'' ''u'' ''s'')) \<le> 60"
  by (rule history_capped, rule Step [OF Start Appended]) (simp add: empty_redis_def)

end
