(* ===== verification/Reaper.thy ===== *)
theory Reaper
  imports Go_Strings
begin

text \<open>
  \<open>internal/userswarm/reaper\<close> (\<open>reaper.go\<close>, \<open>reaperrepo\<close>): the job that
  deletes stale end-to-end test swarms and swarms without an active owner. The state holds the
  UserSwarm resources of the cluster and the users table. Every request to Kubernetes or Postgres is
  numbered: \<open>rc_fails\<close> says which of them fail, \<open>rc_others\<close> which swarms somebody else
  deletes just before. Opening the connections is not modelled.
\<close>

record user_row =
  ur_id :: string
  ur_subject :: string
  ur_email :: string
  ur_created :: int
  ur_deleted :: "int option"

record swarm =
  sw_name :: string
  sw_user :: string
  sw_created :: int

record cluster =
  rc_swarms :: "swarm list"
  rc_users :: "user_row list"
  rc_now :: int
  rc_calls :: nat
  rc_fails :: "nat \<Rightarrow> bool"
  rc_others :: "nat \<Rightarrow> string list"

record reaper_result =
  rr_users_found :: nat
  rr_users_reaped :: nat
  rr_swarms_reaped :: nat
  rr_errors :: nat

record reaper_config =
  cfg_max_age :: int
  cfg_dry_run :: bool

datatype delete_outcome = Deleted | NotFound | Refused string

definition request_error :: string where "request_error = ''request failed''"

definition tick :: "cluster \<Rightarrow> cluster" where
  "tick c = c\<lparr>rc_calls := Suc (rc_calls c),
     rc_swarms := filter (\<lambda>s. sw_name s \<notin> set (rc_others c (rc_calls c))) (rc_swarms c)\<rparr>"

definition query :: "(cluster \<Rightarrow> 'a) \<Rightarrow> cluster \<Rightarrow> cluster \<times> 'a go_result" where
  "query q c = (if rc_fails c (rc_calls c) then (tick c, Inl request_error) else (tick c, Inr (q (tick c))))"

section \<open>Repository and Kubernetes client\<close>

definition find_user_by_id :: "string \<Rightarrow> cluster \<Rightarrow> cluster \<times> user_row option go_result" where
  "find_user_by_id i c =
     (if i = '''' then (c, Inr None) else query (\<lambda>c. find (\<lambda>u. ur_id u = i) (rc_users c)) c)"

definition count_active_by_id :: "string \<Rightarrow> cluster \<Rightarrow> cluster \<times> nat go_result" where
  "count_active_by_id i = query (\<lambda>c. length (filter (\<lambda>u. ur_id u = i \<and> ur_deleted u = None) (rc_users c)))"

definition soft_delete_rows :: "int \<Rightarrow> string \<Rightarrow> user_row list \<Rightarrow> user_row list" where
  "soft_delete_rows now i us =
     map (\<lambda>u. if ur_id u = i \<and> ur_deleted u = None then u\<lparr>ur_deleted := Some now\<rparr> else u) us"

definition soft_delete_user :: "string \<Rightarrow> cluster \<Rightarrow> cluster \<times> unit go_result" where
  "soft_delete_user i c =
     (if rc_fails c (rc_calls c) then (tick c, Inl request_error)
      else ((tick c)\<lparr>rc_users := soft_delete_rows (rc_now c) i (rc_users c)\<rparr>, Inr ()))"

definition k8s_list :: "cluster \<Rightarrow> cluster \<times> swarm list go_result" where
  "k8s_list = query rc_swarms"

definition k8s_delete :: "swarm \<Rightarrow> cluster \<Rightarrow> cluster \<times> delete_outcome" where
  "k8s_delete s c =
     (if rc_fails c (rc_calls c) then (tick c, Refused request_error)
      else if sw_name s \<in> sw_name ` set (rc_swarms (tick c))
      then ((tick c)\<lparr>rc_swarms := filter (\<lambda>x. sw_name x \<noteq> sw_name s) (rc_swarms (tick c))\<rparr>, Deleted)
      else (tick c, NotFound))"

section \<open>Phase 1: stale test swarms\<close>

definition is_e2e :: "user_row \<Rightarrow> bool" where
  "is_e2e u \<longleftrightarrow> has_prefix (ur_subject u) ''e2e-''"

text \<open>
  The results are users found, swarms reaped, users reaped and whether an error is counted;
  \<open>seen\<close> is the map \<open>softDeletedUsers\<close>, which the callee updates.
\<close>

definition process_stale_swarm ::
  "bool \<Rightarrow> swarm \<Rightarrow> string list \<Rightarrow> cluster \<Rightarrow> cluster \<times> string list \<times> nat \<times> nat \<times> nat \<times> string option" where
  "process_stale_swarm dry_run s seen c =
     (case find_user_by_id (sw_user s) c of
        (c1, Inl e) \<Rightarrow> (c1, seen, 0, 0, 0, Some e)
      | (c1, Inr None) \<Rightarrow> (c1, seen, 0, 0, 0, None)
      | (c1, Inr (Some u)) \<Rightarrow>
          if \<not> is_e2e u then (c1, seen, 0, 0, 0, None)
          else if dry_run then
            (if ur_id u \<in> set seen then (c1, seen, 1, 1, 0, None) else (c1, ur_id u # seen, 1, 1, 1, None))
          else
            (case k8s_delete s c1 of
               (c2, Refused e) \<Rightarrow> (c2, seen, 1, 0, 0, Some e)
             | (c2, _) \<Rightarrow>
                 if ur_id u \<in> set seen then (c2, seen, 1, 1, 0, None)
                 else if ur_deleted u \<noteq> None then (c2, ur_id u # seen, 1, 1, 1, None)
                 else
                   (case soft_delete_user (ur_id u) c2 of
                      (c3, Inl e) \<Rightarrow> (c3, ur_id u # seen, 1, 1, 0, Some e)
                    | (c3, Inr _) \<Rightarrow> (c3, ur_id u # seen, 1, 1, 1, None))))"

fun stale_loop ::
  "bool \<Rightarrow> int \<Rightarrow> swarm list \<Rightarrow> string list \<Rightarrow> reaper_result \<Rightarrow> cluster \<Rightarrow> cluster \<times> reaper_result" where
  "stale_loop dry_run cutoff [] seen res c = (c, res)"
| "stale_loop dry_run cutoff (s # ss) seen res c =
     (if sw_created s > cutoff then stale_loop dry_run cutoff ss seen res c
      else
        (case process_stale_swarm dry_run s seen c of
           (c1, seen1, found, reaped, user_reaped, err) \<Rightarrow>
             stale_loop dry_run cutoff ss seen1
               (res\<lparr>rr_users_found := rr_users_found res + found, rr_swarms_reaped := rr_swarms_reaped res + reaped,
                    rr_users_reaped := rr_users_reaped res + user_reaped,
                    rr_errors := rr_errors res + (if err = None then 0 else 1)\<rparr>) c1))"

section \<open>Phase 2: orphans\<close>

definition reap_one_orphan :: "bool \<Rightarrow> swarm \<Rightarrow> cluster \<times> nat \<times> nat \<Rightarrow> cluster \<times> nat \<times> nat" where
  "reap_one_orphan dry_run s acc =
     (case acc of (c, reaped, errs) \<Rightarrow>
        if sw_user s = '''' then (c, reaped, errs)
        else
          (case count_active_by_id (sw_user s) c of
             (c1, Inl e) \<Rightarrow> (c1, reaped, errs + 1)
           | (c1, Inr n) \<Rightarrow>
               if n > 0 then (c1, reaped, errs)
               else if dry_run then (c1, reaped + 1, errs)
               else
                 (case k8s_delete s c1 of
                    (c2, Deleted) \<Rightarrow> (c2, reaped + 1, errs)
                  | (c2, NotFound) \<Rightarrow> (c2, reaped, errs)
                  | (c2, Refused e) \<Rightarrow> (c2, reaped, errs + 1))))"

definition reap_orphaned_swarms :: "bool \<Rightarrow> cluster \<Rightarrow> cluster \<times> nat \<times> nat" where
  "reap_orphaned_swarms dry_run c =
     (case k8s_list c of
        (c1, Inl e) \<Rightarrow> (c1, 0, 1)
      | (c1, Inr swarms) \<Rightarrow> fold (reap_one_orphan dry_run) swarms (c1, 0, 0))"

definition zero_result :: reaper_result where
  "zero_result = \<lparr>rr_users_found = 0, rr_users_reaped = 0, rr_swarms_reaped = 0, rr_errors = 0\<rparr>"

definition run_reaper :: "reaper_config \<Rightarrow> cluster \<Rightarrow> cluster \<times> reaper_result go_result" where
  "run_reaper cfg c =
     (let cutoff = rc_now c - cfg_max_age cfg in
      case k8s_list c of
        (c1, Inl e) \<Rightarrow> (c1, Inl (''list userswarms: '' @ e))
      | (c1, Inr swarms) \<Rightarrow>
          (case stale_loop (cfg_dry_run cfg) cutoff swarms [] zero_result c1 of
             (c2, res) \<Rightarrow>
               (case reap_orphaned_swarms (cfg_dry_run cfg) c2 of
                  (c3, orphaned, errs) \<Rightarrow>
                    (c3, Inr (res\<lparr>rr_swarms_reaped := rr_swarms_reaped res + orphaned, rr_errors := rr_errors res + errs\<rparr>)))))"

section \<open>Lemmas\<close>

text \<open>A cluster nobody else changes: names and user ids are keys.\<close>

definition alone :: "cluster \<Rightarrow> bool" where
  "alone c \<longleftrightarrow> (\<forall>n. rc_others c n = []) \<and> distinct (map sw_name (rc_swarms c)) \<and> distinct (map ur_id (rc_users c))"

lemma tick_alone [simp]: "alone c \<Longrightarrow> alone (tick c)" "alone c \<Longrightarrow> rc_swarms (tick c) = rc_swarms c"
  "rc_users (tick c) = rc_users c" "rc_now (tick c) = rc_now c" "rc_fails (tick c) = rc_fails c"
  by (simp_all add: alone_def tick_def)

text \<open>\<open>c'\<close> comes from \<open>c\<close> by deletions of swarms in \<open>D\<close> and of test users.\<close>

definition reaps :: "(swarm \<Rightarrow> bool) \<Rightarrow> cluster \<Rightarrow> cluster \<Rightarrow> bool" where
  "reaps D c c' \<longleftrightarrow> (alone c \<longrightarrow> alone c' \<and> rc_now c' = rc_now c \<and> rc_fails c' = rc_fails c
     \<and> (\<forall>s \<in> set (rc_swarms c). s \<in> set (rc_swarms c') \<or> D s)
     \<and> set (rc_swarms c') \<subseteq> set (rc_swarms c)
     \<and> list_all2 (\<lambda>u u'. u' = u \<or> is_e2e u \<and> (\<exists>t. u' = u\<lparr>ur_deleted := Some t\<rparr>)) (rc_users c) (rc_users c'))"

lemma reaps_refl [simp]: "reaps D c c"
  by (simp add: reaps_def list_all2_refl)

lemma reaps_trans:
  assumes "reaps D c c1" "reaps D c1 c2"
  shows "reaps D c c2"
  unfolding reaps_def
proof
  assume "alone c"
  note 1 = assms(1) [unfolded reaps_def, rule_format, OF this]
  note 2 = assms(2) [unfolded reaps_def, rule_format, OF conjunct1 [OF 1]]
  have step: "(u1 = u \<or> is_e2e u \<and> (\<exists>t. u1 = u\<lparr>ur_deleted := Some t\<rparr>)) \<Longrightarrow>
      (u2 = u1 \<or> is_e2e u1 \<and> (\<exists>t. u2 = u1\<lparr>ur_deleted := Some t\<rparr>)) \<Longrightarrow>
      u2 = u \<or> is_e2e u \<and> (\<exists>t. u2 = u\<lparr>ur_deleted := Some t\<rparr>)" for u u1 u2
    by (auto simp: is_e2e_def)
  have "list_all2 (\<lambda>u u'. u' = u \<or> is_e2e u \<and> (\<exists>t. u' = u\<lparr>ur_deleted := Some t\<rparr>)) (rc_users c) (rc_users c2)"
    by (rule list_all2_trans [OF step]) (use 1 2 in auto)
  then show "alone c2 \<and> rc_now c2 = rc_now c \<and> rc_fails c2 = rc_fails c
     \<and> (\<forall>s \<in> set (rc_swarms c). s \<in> set (rc_swarms c2) \<or> D s)
     \<and> set (rc_swarms c2) \<subseteq> set (rc_swarms c)
     \<and> list_all2 (\<lambda>u u'. u' = u \<or> is_e2e u \<and> (\<exists>t. u' = u\<lparr>ur_deleted := Some t\<rparr>)) (rc_users c) (rc_users c2)"
    using 1 2 by auto
qed

lemma reaps_mono: "reaps D c c' \<Longrightarrow> (\<And>s. D s \<Longrightarrow> D' s) \<Longrightarrow> reaps D' c c'"
  unfolding reaps_def by blast

lemma tick_reaps: "reaps D c (tick c)"
  by (simp add: reaps_def list_all2_refl)

lemma query_reaps: "reaps D c (fst (query q c))"
  by (simp add: query_def tick_reaps)

lemma find_user_reaps: "reaps D c (fst (find_user_by_id i c))"
  by (simp add: find_user_by_id_def query_reaps)

lemma delete_reaps:
  assumes "alone c \<Longrightarrow> \<forall>x \<in> set (rc_swarms c). sw_name x = sw_name s \<longrightarrow> D x"
  shows "reaps D c (fst (k8s_delete s c))"
  unfolding reaps_def
proof
  assume a: "alone c"
  have "distinct (map sw_name (filter P (rc_swarms c)))" for P
    using a by (simp add: alone_def distinct_map_filter)
  then show "alone (fst (k8s_delete s c)) \<and> rc_now (fst (k8s_delete s c)) = rc_now c
     \<and> rc_fails (fst (k8s_delete s c)) = rc_fails c
     \<and> (\<forall>x \<in> set (rc_swarms c). x \<in> set (rc_swarms (fst (k8s_delete s c))) \<or> D x)
     \<and> set (rc_swarms (fst (k8s_delete s c))) \<subseteq> set (rc_swarms c)
     \<and> list_all2 (\<lambda>u u'. u' = u \<or> is_e2e u \<and> (\<exists>t. u' = u\<lparr>ur_deleted := Some t\<rparr>)) (rc_users c) (rc_users (fst (k8s_delete s c)))"
    using a assms [OF a] tick_alone(1,2) [OF a] tick_alone(3-5) [of c]
    by (auto simp: k8s_delete_def list_all2_refl alone_def tick_def)
qed

lemma soft_delete_reaps:
  assumes "alone c \<Longrightarrow> \<forall>u \<in> set (rc_users c). ur_id u = i \<longrightarrow> is_e2e u"
  shows "reaps D c (fst (soft_delete_user i c))"
  unfolding reaps_def
proof
  assume a: "alone c"
  have ids: "map ur_id (soft_delete_rows t i us) = map ur_id us" for t us
    by (simp add: soft_delete_rows_def)
  have "list_all2 (\<lambda>u u'. u' = u \<or> is_e2e u \<and> (\<exists>t. u' = u\<lparr>ur_deleted := Some t\<rparr>)) us (soft_delete_rows t i us)"
    if "\<forall>u \<in> set us. ur_id u = i \<longrightarrow> is_e2e u" for us t
    using that by (induction us) (auto simp: soft_delete_rows_def)
  then show "alone (fst (soft_delete_user i c)) \<and> rc_now (fst (soft_delete_user i c)) = rc_now c
     \<and> rc_fails (fst (soft_delete_user i c)) = rc_fails c
     \<and> (\<forall>s \<in> set (rc_swarms c). s \<in> set (rc_swarms (fst (soft_delete_user i c))) \<or> D s)
     \<and> set (rc_swarms (fst (soft_delete_user i c))) \<subseteq> set (rc_swarms c)
     \<and> list_all2 (\<lambda>u u'. u' = u \<or> is_e2e u \<and> (\<exists>t. u' = u\<lparr>ur_deleted := Some t\<rparr>)) (rc_users c) (rc_users (fst (soft_delete_user i c)))"
    using a assms tick_alone(1,2) [OF a] tick_alone(3-5) [of c] ids
    by (auto simp: soft_delete_user_def alone_def list_all2_refl tick_def)
qed

text \<open>A swarm whose deletion the state at the start of the run justifies.\<close>

definition justified :: "cluster \<Rightarrow> swarm \<Rightarrow> bool" where
  "justified c0 s \<longleftrightarrow> sw_user s \<noteq> '''' \<and>
     (\<forall>u \<in> set (rc_users c0). ur_id u = sw_user s \<and> ur_deleted u = None \<longrightarrow> is_e2e u)"

lemma same_name: "alone c0 \<Longrightarrow> s \<in> set (rc_swarms c0) \<Longrightarrow> x \<in> set (rc_swarms c0) \<Longrightarrow> sw_name x = sw_name s \<Longrightarrow> x = s"
  unfolding alone_def by (metis distinct_map inj_onD)

lemma same_user: "alone c0 \<Longrightarrow> u \<in> set (rc_users c0) \<Longrightarrow> v \<in> set (rc_users c0) \<Longrightarrow> ur_id u = ur_id v \<Longrightarrow> u = v"
  unfolding alone_def by (metis distinct_map inj_onD)

lemma reaps_user:
  assumes "reaps D c0 c" "alone c0" "u \<in> set (rc_users c)"
  shows "\<exists>u0 \<in> set (rc_users c0). ur_id u0 = ur_id u \<and> is_e2e u0 = is_e2e u"
proof -
  have l: "list_all2 (\<lambda>u u'. u' = u \<or> is_e2e u \<and> (\<exists>t. u' = u\<lparr>ur_deleted := Some t\<rparr>)) (rc_users c0) (rc_users c)"
    using assms(1,2) by (simp add: reaps_def)
  obtain i where i: "i < length (rc_users c)" "u = rc_users c ! i" using assms(3) by (metis in_set_conv_nth)
  then have "rc_users c0 ! i \<in> set (rc_users c0)" "u = rc_users c0 ! i \<or> is_e2e (rc_users c0 ! i) \<and> (\<exists>t. u = (rc_users c0 ! i)\<lparr>ur_deleted := Some t\<rparr>)"
    using l by (auto simp: list_all2_conv_all_nth)
  then show ?thesis by (auto simp: is_e2e_def)
qed

lemma reaps_user_back:
  assumes "reaps D c0 c" "alone c0" "u \<in> set (rc_users c0)"
  shows "u \<in> set (rc_users c) \<or> is_e2e u"
proof -
  have l: "list_all2 (\<lambda>u u'. u' = u \<or> is_e2e u \<and> (\<exists>t. u' = u\<lparr>ur_deleted := Some t\<rparr>)) (rc_users c0) (rc_users c)"
    using assms(1,2) by (simp add: reaps_def)
  obtain i where i: "i < length (rc_users c0)" "u = rc_users c0 ! i" using assms(3) by (metis in_set_conv_nth)
  then have "rc_users c ! i \<in> set (rc_users c)" "rc_users c ! i = u \<or> is_e2e u"
    using l by (auto simp: list_all2_conv_all_nth)
  then show ?thesis by auto
qed

lemma find_user_result:
  "find_user_by_id i c = (c1, Inr (Some u)) \<Longrightarrow> u \<in> set (rc_users c) \<and> ur_id u = i \<and> i \<noteq> ''''"
  by (auto simp: find_user_by_id_def query_def find_Some_iff split: if_splits)

text \<open>One stale swarm, seen from the start of the run.\<close>

lemma stale_swarm_reaps:
  assumes a: "alone c0" and r: "reaps (justified c0) c0 c" and s: "s \<in> set (rc_swarms c0)"
  shows "reaps (justified c0) c0 (fst (process_stale_swarm dry s seen c))"
proof -
  obtain c1 r1 where f: "find_user_by_id (sw_user s) c = (c1, r1)" by fastforce
  have c1: "reaps (justified c0) c0 c1"
    using reaps_trans [OF r find_user_reaps [of "justified c0" c "sw_user s"]] f by simp
  show ?thesis
  proof (cases r1)
    case (Inr ru)
    show ?thesis
    proof (cases ru)
      case (Some u)
      have u: "u \<in> set (rc_users c)" "ur_id u = sw_user s" "sw_user s \<noteq> ''''"
        using find_user_result f Inr Some by metis+
      show ?thesis
      proof (cases "is_e2e u \<and> \<not> dry")
        case True
        obtain u0 where u0: "u0 \<in> set (rc_users c0)" "ur_id u0 = sw_user s" "is_e2e u0"
          using reaps_user [OF r a u(1)] u(2) True by auto
        then have all_e2e: "v \<in> set (rc_users c0) \<Longrightarrow> ur_id v = sw_user s \<Longrightarrow> is_e2e v" for v
          using same_user [OF a] by metis
        have just: "justified c0 s" using u all_e2e by (simp add: justified_def)
        obtain c2 d where d: "k8s_delete s c1 = (c2, d)" by fastforce
        have "\<forall>x \<in> set (rc_swarms c1). sw_name x = sw_name s \<longrightarrow> justified c0 x"
          using c1 a same_name [OF a s] just unfolding reaps_def by blast
        then have c2: "reaps (justified c0) c0 c2"
          using reaps_trans [OF c1 delete_reaps [of c1 s]] d by simp
        obtain c3 e where sd: "soft_delete_user (ur_id u) c2 = (c3, e)" by fastforce
        have "\<forall>v \<in> set (rc_users c2). ur_id v = ur_id u \<longrightarrow> is_e2e v"
          using reaps_user [OF c2 a] all_e2e u(2) by metis
        then have "reaps (justified c0) c0 c3"
          using reaps_trans [OF c2 soft_delete_reaps [of c2 "ur_id u"]] sd by simp
        then show ?thesis
          using c1 c2 True by (cases d; cases e) (simp_all add: process_stale_swarm_def f Inr Some d sd)
      qed (use c1 in \<open>auto simp: process_stale_swarm_def f Inr Some\<close>)
    qed (use c1 in \<open>simp add: process_stale_swarm_def f Inr\<close>)
  qed (use c1 in \<open>simp add: process_stale_swarm_def f\<close>)
qed

lemma stale_loop_reaps:
  assumes a: "alone c0"
  shows "reaps (justified c0) c0 c \<Longrightarrow> set ss \<subseteq> set (rc_swarms c0) \<Longrightarrow>
    reaps (justified c0) c0 (fst (stale_loop dry cutoff ss seen res c))"
proof (induction ss arbitrary: seen res c)
  case (Cons s ss)
  obtain c1 seen1 n1 n2 n3 e where p: "process_stale_swarm dry s seen c = (c1, seen1, n1, n2, n3, e)"
    by (metis prod_cases6)
  have "reaps (justified c0) c0 c1" using stale_swarm_reaps [OF a Cons.prems(1), of s dry seen] Cons.prems(2) p by simp
  then show ?case using Cons.IH Cons.prems by (simp add: p)
qed simp

lemma orphan_reaps:
  assumes a: "alone c0" and r: "reaps (justified c0) c0 (fst acc)" and s: "s \<in> set (rc_swarms c0)"
  shows "reaps (justified c0) c0 (fst (reap_one_orphan dry s acc))"
proof -
  obtain c n m where acc: "acc = (c, n, m)" by (metis prod_cases3)
  obtain c1 r1 where q: "count_active_by_id (sw_user s) c = (c1, r1)" by fastforce
  have c1: "reaps (justified c0) c0 c1"
    using reaps_trans [OF r [unfolded acc fst_conv] query_reaps] q by (metis count_active_by_id_def fst_conv)
  show ?thesis
  proof (cases "sw_user s \<noteq> '''' \<and> r1 = Inr 0 \<and> \<not> dry")
    case True
    have none: "\<forall>u \<in> set (rc_users c). \<not> (ur_id u = sw_user s \<and> ur_deleted u = None)"
      using q True by (auto simp: count_active_by_id_def query_def filter_empty_conv split: if_splits)
    have just: "justified c0 s"
      unfolding justified_def using True none reaps_user_back [OF r [unfolded acc fst_conv] a] by blast
    obtain c2 d where d: "k8s_delete s c1 = (c2, d)" by fastforce
    have "\<forall>x \<in> set (rc_swarms c1). sw_name x = sw_name s \<longrightarrow> justified c0 x"
      using c1 a same_name [OF a s] just unfolding reaps_def by blast
    then have "reaps (justified c0) c0 c2"
      using reaps_trans [OF c1 delete_reaps [of c1 s]] d by simp
    then show ?thesis using True c1 by (cases d) (simp_all add: reap_one_orphan_def acc q d)
  next
    case False
    then show ?thesis using c1 r acc by (cases r1) (auto simp: reap_one_orphan_def q)
  qed
qed

lemma orphans_reap:
  assumes a: "alone c0"
  shows "reaps (justified c0) c0 (fst acc) \<Longrightarrow> set ss \<subseteq> set (rc_swarms c0) \<Longrightarrow>
    reaps (justified c0) c0 (fst (fold (reap_one_orphan dry) ss acc))"
  by (induction ss arbitrary: acc) (auto simp: orphan_reaps [OF a])

lemma k8s_list_result: "k8s_list c = (c1, Inr ss) \<Longrightarrow> c1 = tick c \<and> ss = rc_swarms (tick c)"
  by (auto simp: k8s_list_def query_def split: if_splits)

lemma run_reaps:
  assumes a: "alone c"
  shows "reaps (justified c) c (fst (run_reaper cfg c))"
proof -
  obtain c1 r1 where l: "k8s_list c = (c1, r1)" by fastforce
  have c1: "reaps (justified c) c c1" using query_reaps l by (metis fst_conv k8s_list_def)
  show ?thesis
  proof (cases r1)
    case (Inr ss)
    then have ss: "set ss \<subseteq> set (rc_swarms c)" using k8s_list_result [of c c1 ss] l a by simp
    obtain c2 res where p1: "stale_loop (cfg_dry_run cfg) (rc_now c - cfg_max_age cfg) ss [] zero_result c1 = (c2, res)" by fastforce
    have c2: "reaps (justified c) c c2" using stale_loop_reaps [OF a c1 ss] p1 by (metis fst_conv)
    obtain c3 n m where p2: "reap_orphaned_swarms (cfg_dry_run cfg) c2 = (c3, n, m)" by (metis prod_cases3)
    obtain c2' r2 where l2: "k8s_list c2 = (c2', r2)" by fastforce
    have c2': "reaps (justified c) c c2'" using reaps_trans [OF c2 query_reaps] l2 by (metis fst_conv k8s_list_def)
    have "reaps (justified c) c c3"
    proof (cases r2)
      case (Inr ss2)
      have "alone c2" using c2 a by (simp add: reaps_def)
      then have "set ss2 \<subseteq> set (rc_swarms c)" using k8s_list_result [of c2 c2' ss2] l2 Inr c2 a by (auto simp: reaps_def)
      then show ?thesis using orphans_reap [OF a, of "(c2', 0, 0)" ss2] c2' p2 l2 Inr
        by (simp add: reap_orphaned_swarms_def) (metis fst_conv)
    qed (use p2 l2 c2' in \<open>simp add: reap_orphaned_swarms_def\<close>)
    then show ?thesis by (simp add: run_reaper_def Let_def l Inr p1 p2)
  qed (use c1 in \<open>simp add: run_reaper_def Let_def l\<close>)
qed

section \<open>Properties\<close>

text \<open>
  C8. Whatever requests fail, the reaper never deletes a swarm whose owner is an active user that is
  not a test user, nor a swarm without an owner in its spec, and it changes no user row but those of
  test users, which it only marks as deleted.
\<close>

theorem reaper_safe:
  assumes "alone c"
  shows "list_all (\<lambda>s. s \<in> set (rc_swarms (fst (run_reaper cfg c))) \<or> justified c s) (rc_swarms c)
    \<and> list_all2 (\<lambda>u u'. u' = u \<or> is_e2e u \<and> (\<exists>t. u' = u\<lparr>ur_deleted := Some t\<rparr>))
         (rc_users c) (rc_users (fst (run_reaper cfg c)))"
  using run_reaps [OF assms, of cfg] assms by (auto simp: reaps_def list_all_iff)

definition demo_cluster :: cluster where
  "demo_cluster = \<lparr>rc_swarms = [\<lparr>sw_name = ''old'', sw_user = ''u1'', sw_created = 0\<rparr>,
       \<lparr>sw_name = ''new'', sw_user = ''u1'', sw_created = 99\<rparr>, \<lparr>sw_name = ''prod'', sw_user = ''u2'', sw_created = 0\<rparr>],
     rc_users = [\<lparr>ur_id = ''u1'', ur_subject = ''e2e-1'', ur_email = '''', ur_created = 0, ur_deleted = None\<rparr>,
       \<lparr>ur_id = ''u2'', ur_subject = ''google'', ur_email = '''', ur_created = 0, ur_deleted = None\<rparr>],
     rc_now = 100, rc_calls = 0, rc_fails = (\<lambda>n. False), rc_others = (\<lambda>n. [])\<rparr>"

lemma demo_alone [simp]: "alone demo_cluster"
  by (simp add: alone_def demo_cluster_def)

lemma reaper_safe_witness:
  "\<lparr>sw_name = ''prod'', sw_user = ''u2'', sw_created = 0\<rparr>
     \<in> set (rc_swarms (fst (run_reaper \<lparr>cfg_max_age = 50, cfg_dry_run = False\<rparr> demo_cluster)))"
  using reaper_safe [OF demo_alone, of "\<lparr>cfg_max_age = 50, cfg_dry_run = False\<rparr>"]
  by (simp add: demo_cluster_def justified_def is_e2e_def has_prefix_def)

lemmas reaper_eval = run_reaper_def reap_orphaned_swarms_def reap_one_orphan_def count_active_by_id_def
  process_stale_swarm_def find_user_by_id_def k8s_list_def k8s_delete_def soft_delete_user_def soft_delete_rows_def
  query_def tick_def is_e2e_def has_prefix_def zero_result_def Let_def

text \<open>A swarm younger than the cutoff is deleted all the same when its test user also owns a stale
  one: the first phase soft-deletes the user, and the second then takes the young swarm for an
  orphan.
\<close>

theorem young_swarm_reaped:
  "rc_now demo_cluster - 50 < sw_created (rc_swarms demo_cluster ! 1)
   \<and> map sw_name (rc_swarms (fst (run_reaper \<lparr>cfg_max_age = 50, cfg_dry_run = False\<rparr> demo_cluster))) = [''prod'']
   \<and> snd (run_reaper \<lparr>cfg_max_age = 50, cfg_dry_run = False\<rparr> demo_cluster)
       = Inr \<lparr>rr_users_found = 1, rr_users_reaped = 1, rr_swarms_reaped = 2, rr_errors = 0\<rparr>"
  by (simp add: reaper_eval demo_cluster_def)

lemma dry_stale: "fst (process_stale_swarm True s seen c) = fst (find_user_by_id (sw_user s) c)"
  by (auto simp: process_stale_swarm_def split: prod.splits sum.splits option.splits)

definition same_store :: "cluster \<Rightarrow> cluster \<Rightarrow> bool" where
  "same_store c c' \<longleftrightarrow> (alone c \<longrightarrow> alone c' \<and> rc_swarms c' = rc_swarms c \<and> rc_users c' = rc_users c)"

lemma same_store_trans: "same_store c c1 \<Longrightarrow> same_store c1 c2 \<Longrightarrow> same_store c c2"
  by (auto simp: same_store_def)

lemma query_same: "same_store c (fst (query q c))"
  by (auto simp: same_store_def query_def)

lemma find_same: "same_store c (fst (find_user_by_id i c))"
  by (simp add: find_user_by_id_def query_same) (simp add: same_store_def)

lemma dry_loop_same: "same_store c (fst (stale_loop True cutoff ss seen res c))"
proof (induction ss arbitrary: seen res c)
  case (Cons s ss)
  obtain c1 seen1 n1 n2 n3 e where p: "process_stale_swarm True s seen c = (c1, seen1, n1, n2, n3, e)"
    by (metis prod_cases6)
  have "same_store c c1" using dry_stale [of s seen c] find_same [of c "sw_user s"] p by simp
  then show ?case using same_store_trans [OF _ Cons.IH] Cons.IH by (simp add: p)
qed (simp add: same_store_def)

lemma dry_orphan_same: "same_store (fst acc) (fst (reap_one_orphan True s acc))"
proof -
  obtain c n m where acc: "acc = (c, n, m)" by (metis prod_cases3)
  obtain c1 r1 where q: "count_active_by_id (sw_user s) c = (c1, r1)" by fastforce
  then have "same_store c c1" using query_same unfolding count_active_by_id_def by (metis fst_conv)
  then show ?thesis by (cases r1) (auto simp: reap_one_orphan_def acc q same_store_def)
qed

lemma dry_orphans_same: "same_store (fst acc) (fst (fold (reap_one_orphan True) ss acc))"
proof (induction ss arbitrary: acc)
  case (Cons s ss)
  then show ?case using same_store_trans [OF dry_orphan_same Cons.IH] by simp
qed (simp add: same_store_def)

text \<open>A dry run deletes no swarm and changes no user row.\<close>

theorem dry_run_changes_nothing:
  assumes "alone c" and "cfg_dry_run cfg"
  shows "rc_swarms (fst (run_reaper cfg c)) = rc_swarms c \<and> rc_users (fst (run_reaper cfg c)) = rc_users c"
proof -
  obtain c1 r1 where l: "k8s_list c = (c1, r1)" by fastforce
  have c1: "same_store c c1" using query_same l by (metis fst_conv k8s_list_def)
  have "same_store c (fst (run_reaper cfg c))"
  proof (cases r1)
    case (Inr ss)
    obtain c2 res where p1: "stale_loop True (rc_now c - cfg_max_age cfg) ss [] zero_result c1 = (c2, res)" by fastforce
    have c2: "same_store c c2" using same_store_trans [OF c1 dry_loop_same] p1 by (metis fst_conv)
    obtain c2' r2 where l2: "k8s_list c2 = (c2', r2)" by fastforce
    have c2': "same_store c c2'" using same_store_trans [OF c2 query_same] l2 by (metis fst_conv k8s_list_def)
    obtain c3 n m where p2: "reap_orphaned_swarms True c2 = (c3, n, m)" by (metis prod_cases3)
    have "same_store c c3"
      using p2 l2 c2' same_store_trans [OF c2' dry_orphans_same [of "(c2', 0, 0)", unfolded fst_conv]]
      by (cases r2) (simp_all add: reap_orphaned_swarms_def, metis fst_conv)
    then show ?thesis using assms(2) by (simp add: run_reaper_def Let_def l Inr p1 p2)
  qed (use c1 in \<open>simp add: run_reaper_def Let_def l\<close>)
  then show ?thesis using assms(1) by (simp add: same_store_def)
qed

lemma dry_run_changes_nothing_witness:
  "rc_swarms (fst (run_reaper \<lparr>cfg_max_age = 50, cfg_dry_run = True\<rparr> demo_cluster)) = rc_swarms demo_cluster"
  using dry_run_changes_nothing [OF demo_alone, of "\<lparr>cfg_max_age = 50, cfg_dry_run = True\<rparr>"] by simp

text \<open>With every request answered, the second phase leaves only owned swarms.\<close>

definition owned :: "cluster \<Rightarrow> swarm \<Rightarrow> bool" where
  "owned c s \<longleftrightarrow> sw_user s = '''' \<or> (\<exists>u \<in> set (rc_users c). ur_id u = sw_user s \<and> ur_deleted u = None)"

definition answering :: "cluster \<Rightarrow> bool" where
  "answering c \<longleftrightarrow> alone c \<and> rc_fails c = (\<lambda>n. False)"

lemma answering_tick [simp]: "answering c \<Longrightarrow> answering (tick c)"
  by (simp add: answering_def)

lemma orphan_step:
  assumes "answering c"
  shows "fst (reap_one_orphan False s (c, n, m)) = (if sw_user s = '''' then c
     else if owned c s then tick c
     else fst (k8s_delete s (tick c)))"
  using assms by (auto simp: reap_one_orphan_def count_active_by_id_def query_def owned_def answering_def filter_empty_conv
      neq_Nil_conv split: prod.splits delete_outcome.splits)

lemma delete_answered:
  assumes "answering c"
  shows "answering (fst (k8s_delete s c)) \<and> rc_users (fst (k8s_delete s c)) = rc_users c
    \<and> (\<forall>x \<in> set (rc_swarms (fst (k8s_delete s c))). x \<in> set (rc_swarms c) \<and> sw_name x \<noteq> sw_name s)"
  using assms by (auto simp: k8s_delete_def answering_def alone_def tick_def distinct_map_filter image_iff)

lemma orphans_owned:
  "answering c \<Longrightarrow>
   answering (fst (fold (reap_one_orphan False) ss (c, n, m)))
   \<and> rc_users (fst (fold (reap_one_orphan False) ss (c, n, m))) = rc_users c
   \<and> set (rc_swarms (fst (fold (reap_one_orphan False) ss (c, n, m)))) \<subseteq> set (rc_swarms c)
   \<and> (\<forall>s \<in> set ss. s \<in> set (rc_swarms (fst (fold (reap_one_orphan False) ss (c, n, m)))) \<longrightarrow> owned c s)"
proof (induction ss arbitrary: c n m)
  case (Cons s ss)
  obtain c1 n1 m1 where r: "reap_one_orphan False s (c, n, m) = (c1, n1, m1)" by (metis prod_cases3)
  then have c1: "c1 = (if sw_user s = '''' then c else if owned c s then tick c else fst (k8s_delete s (tick c)))"
    using orphan_step [OF Cons.prems, of s n m] by simp
  have k: "answering c1" "rc_users c1 = rc_users c" "set (rc_swarms c1) \<subseteq> set (rc_swarms c)"
    using Cons.prems delete_answered [of "tick c" s] c1 by (auto simp: answering_def)
  have own: "owned c1 x = owned c x" for x using k(2) by (simp add: owned_def)
  have "s \<in> set (rc_swarms c1) \<Longrightarrow> owned c s"
    using c1 delete_answered [of "tick c" s] Cons.prems by (auto simp: owned_def split: if_splits)
  then show ?case using Cons.IH [OF k(1), of n1 m1] k own by (auto simp: r)
qed simp

lemma stale_answered:
  assumes "answering c"
  shows "answering (fst (process_stale_swarm dry s seen c))"
proof -
  have sd: "answering c \<Longrightarrow> answering (fst (soft_delete_user i c))" for i c
  proof -
    fix i c
    have "map ur_id (soft_delete_rows t i us) = map ur_id us" for t us
      by (simp add: soft_delete_rows_def)
    then show "answering c \<Longrightarrow> answering (fst (soft_delete_user i c))"
      by (simp add: soft_delete_user_def answering_def alone_def tick_def)
  qed
  obtain c1 r where f: "find_user_by_id (sw_user s) c = (c1, r)" by fastforce
  obtain c2 d where k: "k8s_delete s c1 = (c2, d)" by fastforce
  have a1: "answering c1" using assms f by (auto simp: find_user_by_id_def query_def split: if_splits)
  have a2: "answering c2" using delete_answered [OF a1, of s] k by simp
  show ?thesis
  proof (cases "\<exists>u. r = Inr (Some u)")
    case True
    then obtain u where u: "r = Inr (Some u)" by auto
    obtain c3 e where s: "soft_delete_user (ur_id u) c2 = (c3, e)" by fastforce
    have "answering c3" using sd [OF a2, of "ur_id u"] s by simp
    then show ?thesis using a1 a2 by (cases d; cases e) (simp_all add: process_stale_swarm_def f u k s)
  next
    case False
    then show ?thesis using a1 by (cases r; cases "projr r") (auto simp: process_stale_swarm_def f)
  qed
qed

lemma stale_loop_answered: "answering c \<Longrightarrow> answering (fst (stale_loop dry cutoff ss seen res c))"
proof (induction ss arbitrary: seen res c)
  case (Cons s ss)
  obtain c1 seen1 n1 n2 n3 e where p: "process_stale_swarm dry s seen c = (c1, seen1, n1, n2, n3, e)"
    by (metis prod_cases6)
  have "answering c1" using stale_answered [OF Cons.prems, of dry s seen] p by simp
  then show ?case using Cons by (simp add: p)
qed simp



end
