(* ===== verification/Chat_Store.thy ===== *)
theory Chat_Store
  imports Errors
begin

text \<open>
  The tables and the broadcast channel of the chat services: messages (\<open>repo/messagerepo\<close>),
  conversations (\<open>repo/conversationrepo\<close>), workspaces (\<open>repo/workspacerepo\<close>) and agents, and
  \<open>pkg/database\<close>'s transactions. Statements are numbered and \<open>ch_fails\<close> says which fail;
  a failing statement changes nothing. Broadcasts are recorded in order. A message holds the columns
  of its row and the JSON fields of its content the services use.
\<close>

datatype msg_status = MsgPending | MsgSent | MsgDelivered | MsgRead | MsgFailed | MsgIncomplete | MsgSilent
  | MsgDelegated | MsgOther string

datatype content_type = CtText | CtActionCard | CtToolStatus | CtSystem | CtLoading | CtDelegation | CtArtifact
  | CtWorkflow | CtQuestions

datatype msg_role = RoleUser | RoleAgent | RoleSystem



record question_option =
  qo_id :: string
  qo_label :: string

record question_item =
  qi_id :: string
  qi_prompt :: string
  qi_mode :: string
  qi_options :: "question_option list"
  qi_allow_custom :: bool

record question_turn =
  qt_index :: nat
  qt_label :: string
  qt_questions :: "question_item list"

record question_answer =
  qa_question :: string
  qa_options :: "string list"
  qa_custom :: string

record chat_message =
  m_id :: string
  m_conv :: string
  m_role :: msg_role
  m_type :: content_type
  m_text :: string
  m_tool :: string
  m_tool_state :: string
  m_query :: string
  m_args :: "(string \<times> string) list"
  m_from :: string
  m_to :: string
  m_content_status :: string
  m_preview :: string
  m_turns :: "question_turn list"
  m_answers :: "question_answer list"
  m_selected :: "string option"
  m_status :: msg_status
  m_agent :: "string option"
  m_local :: string
  m_created :: int
  m_updated :: int

record agent =
  ag_id :: string
  ag_slug :: string
  ag_name :: string
  ag_manager :: bool

record conversation =
  cv_id :: string
  cv_ws :: string
  cv_updated :: int

datatype chat_event =
    EvMessageNew string chat_message "agent option"
  | EvMessageUpdated string chat_message
  | EvMessageStatus string string string msg_status
  | EvMessageChunk string string string string
  | EvMessageDone string string string msg_status
  | EvAgentStatus string string string
  | EvAgentTool string string string string string string "(string \<times> string) list"
  | EvDelegation string string string string string
  | EvUsage string string string int

record chat =
  ch_workspaces :: "(string \<times> string) list"
  ch_convs :: "string \<Rightarrow> conversation option"
  ch_msgs :: "string \<Rightarrow> chat_message option"
  ch_agents :: "string \<Rightarrow> agent option"
  ch_roster :: "string \<Rightarrow> agent list"
  ch_events :: "chat_event list"
  ch_now :: int
  ch_uuid :: nat
  ch_uuids :: "nat \<Rightarrow> string"
  ch_user_tokens :: "string \<Rightarrow> int"
  ch_agent_tokens :: "string \<Rightarrow> int"
  ch_calls :: nat
  ch_fails :: "nat \<Rightarrow> bool"

type_synonym 'a chat_call = "chat \<Rightarrow> chat \<times> (gerror + 'a)"

definition biz :: "string \<Rightarrow> string \<Rightarrow> gerror" where
  "biz msg cd = \<lparr>message = msg, code = cd, etype = BusinessError, err = None\<rparr>"

definition srv :: "string \<Rightarrow> gerror" where
  "srv t = \<lparr>message = '''', code = '''', etype = ServerError, err = Some t\<rparr>"

lemma biz_new: "m \<noteq> '''' \<Longrightarrow> c \<noteq> '''' \<Longrightarrow> new_business_error m c = Some (biz m c)"
  by (simp add: new_business_error_def biz_def)

lemma srv_new: "t \<noteq> '''' \<Longrightarrow> new_server_error_text t = Some (srv t)"
  by (simp add: new_server_error_text_def srv_def)

definition ErrInvalidInput :: gerror where "ErrInvalidInput = srv ''invalid input provided''"
definition ErrUnauthorized :: gerror where "ErrUnauthorized = biz ''Unauthorized'' ErrCodeUnauthorized"
definition ErrWorkspaceNotFound :: gerror where "ErrWorkspaceNotFound = biz ''Workspace not found'' ''WSP0001''"
definition ErrConversationNotFound :: gerror where
  "ErrConversationNotFound = biz ''Conversation not found'' ErrCodeConversationNotFound"
definition ErrMessageNotFound :: gerror where "ErrMessageNotFound = biz ''Message not found'' ''MSG0001''"
definition ErrAgentNotFound :: gerror where "ErrAgentNotFound = biz ''Agent not found'' ''AGT0001''"
definition ErrUnsupportedMessage :: gerror where
  "ErrUnsupportedMessage = biz ''Only text messages are supported right now'' ErrCodeUnsupportedMessage"

text \<open>One statement.\<close>

definition stmt :: "string \<Rightarrow> (chat \<Rightarrow> 'a) \<Rightarrow> (chat \<Rightarrow> chat) \<Rightarrow> 'a chat_call" where
  "stmt msg q f c =
     (let c' = c\<lparr>ch_calls := Suc (ch_calls c)\<rparr> in
      if ch_fails c (ch_calls c) then (c', Inl (srv (msg @ '': db error''))) else (f c', Inr (q c)))"

text \<open>An early return on error, and the translation of an error.\<close>

definition chat_bind :: "'a chat_call \<Rightarrow> ('a \<Rightarrow> 'b chat_call) \<Rightarrow> 'b chat_call" where
  "chat_bind m k c = (case m c of (c1, Inl e) \<Rightarrow> (c1, Inl e) | (c1, Inr a) \<Rightarrow> k a c1)"

definition map_error :: "(gerror \<Rightarrow> gerror) \<Rightarrow> 'a chat_call \<Rightarrow> 'a chat_call" where
  "map_error f m c = (case m c of (c1, Inl e) \<Rightarrow> (c1, Inl (f e)) | (c1, Inr a) \<Rightarrow> (c1, Inr a))"

definition emit :: "chat_event \<Rightarrow> chat \<Rightarrow> chat" where
  "emit e c = c\<lparr>ch_events := ch_events c @ [e]\<rparr>"

definition new_uuid :: "chat \<Rightarrow> chat \<times> string" where
  "new_uuid c = (c\<lparr>ch_uuid := Suc (ch_uuid c)\<rparr>, ch_uuids c (ch_uuid c))"

section \<open>Repositories\<close>

definition blank :: "string \<Rightarrow> bool" where "blank s \<longleftrightarrow> trim_space s = ''''"

definition workspace_get :: "string \<Rightarrow> string \<Rightarrow> unit chat_call" where
  "workspace_get user ws c =
     (if blank user \<or> blank ws then (c, Inl ErrInvalidInput)
      else case stmt ''select workspace by id'' (\<lambda>c. (user, ws) \<in> set (ch_workspaces c)) id c of
             (c1, Inl e) \<Rightarrow> (c1, Inl e)
           | (c1, Inr found) \<Rightarrow> (c1, if found then Inr () else Inl ErrWorkspaceNotFound))"

definition conversation_get :: "string \<Rightarrow> string \<Rightarrow> conversation chat_call" where
  "conversation_get ws cv c =
     (if blank ws \<or> blank cv then (c, Inl ErrInvalidInput)
      else case stmt ''select conversation by id'' (\<lambda>c. ch_convs c cv) id c of
             (c1, Inl e) \<Rightarrow> (c1, Inl e)
           | (c1, Inr None) \<Rightarrow> (c1, Inl ErrConversationNotFound)
           | (c1, Inr (Some v)) \<Rightarrow> (c1, if cv_ws v = ws then Inr v else Inl ErrConversationNotFound))"

definition conversation_save :: "conversation \<Rightarrow> unit chat_call" where
  "conversation_save v = stmt ''upsert conversation'' (\<lambda>c. ())
     (\<lambda>c. c\<lparr>ch_convs := (ch_convs c)(cv_id v \<mapsto>
        (case ch_convs c (cv_id v) of None \<Rightarrow> v | Some old \<Rightarrow> old\<lparr>cv_updated := cv_updated v\<rparr>))\<rparr>)"

definition message_get :: "string \<Rightarrow> chat_message chat_call" where
  "message_get i c =
     (if blank i then (c, Inl ErrInvalidInput)
      else case stmt ''select message by id'' (\<lambda>c. ch_msgs c i) id c of
             (c1, Inl e) \<Rightarrow> (c1, Inl e)
           | (c1, Inr None) \<Rightarrow> (c1, Inl ErrMessageNotFound)
           | (c1, Inr (Some m)) \<Rightarrow> (c1, Inr m))"

text \<open>The upsert keeps the conversation and the creation time of an existing row.\<close>

definition upserted :: "chat_message \<Rightarrow> chat_message option \<Rightarrow> chat_message" where
  "upserted m old = (case old of None \<Rightarrow> m | Some r \<Rightarrow> m\<lparr>m_conv := m_conv r, m_created := m_created r\<rparr>)"

definition message_save :: "chat_message \<Rightarrow> unit chat_call" where
  "message_save m = stmt ''upsert message'' (\<lambda>c. ())
     (\<lambda>c. c\<lparr>ch_msgs := (ch_msgs c)(m_id m \<mapsto> upserted m (ch_msgs c (m_id m)))\<rparr>)"

definition message_delete :: "string \<Rightarrow> unit chat_call" where
  "message_delete i c =
     (if i = '''' then (c, Inl ErrInvalidInput)
      else stmt ''delete message by id'' (\<lambda>c. ()) (\<lambda>c. c\<lparr>ch_msgs := (ch_msgs c)(i := None)\<rparr>) c)"

definition terminalStatusOrdinal :: int where "terminalStatusOrdinal = 99"

definition status_ordinal :: "msg_status \<Rightarrow> int" where
  "status_ordinal st = (case st of
     MsgPending \<Rightarrow> 0 | MsgSent \<Rightarrow> 1 | MsgDelivered \<Rightarrow> 2 | MsgRead \<Rightarrow> 3
   | MsgFailed \<Rightarrow> terminalStatusOrdinal | MsgIncomplete \<Rightarrow> terminalStatusOrdinal | MsgSilent \<Rightarrow> terminalStatusOrdinal
   | _ \<Rightarrow> -1)"

text \<open>\<open>messageStatusOrderingCASE\<close>, the same order as an SQL expression.\<close>

definition status_case :: "msg_status \<Rightarrow> int" where
  "status_case st =
     (if st = MsgPending then 0 else if st = MsgSent then 1 else if st = MsgDelivered then 2 else if st = MsgRead then 3
      else if st = MsgFailed then 99 else if st = MsgIncomplete then 99 else if st = MsgSilent then 99 else -1)"

definition update_where :: "(chat_message \<Rightarrow> bool) \<Rightarrow> (chat_message \<Rightarrow> chat_message) \<Rightarrow> chat \<Rightarrow> chat" where
  "update_where p f c = c\<lparr>ch_msgs := (\<lambda>i. map_option (\<lambda>m. if p m then f m else m) (ch_msgs c i))\<rparr>"

definition message_update_status :: "string \<Rightarrow> msg_status \<Rightarrow> unit chat_call" where
  "message_update_status i st c =
     (if i = '''' then (c, Inl ErrInvalidInput)
      else stmt ''update message status'' (\<lambda>c. ())
        (update_where (\<lambda>m. m_id m = i \<and> status_case (m_status m) < status_ordinal st)
           (\<lambda>m. m\<lparr>m_status := st, m_updated := ch_now c\<rparr>)) c)"

definition message_update_tool_state :: "string \<Rightarrow> string \<Rightarrow> unit chat_call" where
  "message_update_tool_state i state c =
     (if i = '''' then (c, Inr ())
      else stmt ''update tool state'' (\<lambda>c. ())
        (update_where (\<lambda>m. m_id m = i) (\<lambda>m. m\<lparr>m_tool_state := state, m_updated := ch_now c\<rparr>)) c)"

definition message_fail_stale_pending :: "int \<Rightarrow> unit chat_call" where
  "message_fail_stale_pending cutoff c =
     stmt ''fail stale pending messages'' (\<lambda>c. ())
       (update_where (\<lambda>m. m_status m = MsgPending \<and> m_created m < cutoff)
          (\<lambda>m. m\<lparr>m_status := MsgFailed, m_updated := ch_now c\<rparr>)) c"

definition agent_get_global :: "string \<Rightarrow> agent chat_call" where
  "agent_get_global i c =
     (if blank i then (c, Inl ErrInvalidInput)
      else case stmt ''select agent by id global'' (\<lambda>c. ch_agents c i) id c of
        (c1, Inl e) \<Rightarrow> (c1, Inl e)
      | (c1, Inr None) \<Rightarrow> (c1, Inl ErrAgentNotFound)
      | (c1, Inr (Some g)) \<Rightarrow> (c1, Inr g))"

text \<open>\<open>ch_roster c ws\<close> lists the agents of \<open>ws\<close> by sort order and creation time.\<close>

definition agent_list :: "string \<Rightarrow> agent list chat_call" where
  "agent_list ws c =
     (if blank ws then (c, Inl ErrInvalidInput)
      else stmt ''list agents by workspace id'' (\<lambda>c. ch_roster c ws) id c)"

section \<open>Transactions\<close>

definition rollback :: "chat \<Rightarrow> chat \<Rightarrow> chat" where
  "rollback c0 c = c\<lparr>ch_msgs := ch_msgs c0, ch_convs := ch_convs c0\<rparr>"

definition with_transaction :: "string \<Rightarrow> 'a chat_call \<Rightarrow> 'a chat_call" where
  "with_transaction op fn c =
     (case stmt (''begin '' @ op @ '' transaction'') (\<lambda>c. ()) id c of
        (c1, Inl e) \<Rightarrow> (c1, Inl e)
      | (c1, Inr _) \<Rightarrow>
          (case fn c1 of
             (c2, Inl e) \<Rightarrow> (rollback c1 c2, Inl e)
           | (c2, Inr a) \<Rightarrow>
               (case stmt (''commit '' @ op @ '' transaction'') (\<lambda>c. ()) id c2 of
                  (c3, Inl e) \<Rightarrow> (rollback c1 c3, Inl e)
                | (c3, Inr _) \<Rightarrow> (c3, Inr a))))"

section \<open>Lemmas\<close>

lemma stmt_fields [simp]:
  "(\<And>c. ch_events (f c) = ch_events c) \<Longrightarrow> ch_events (fst (stmt m q f c)) = ch_events c"
  by (simp add: stmt_def Let_def)

text \<open>What a read leaves alone: everything but the number of statements.\<close>

definition same_data :: "chat \<Rightarrow> chat \<Rightarrow> bool" where
  "same_data c c' \<longleftrightarrow>
     ch_msgs c' = ch_msgs c \<and> ch_convs c' = ch_convs c \<and> ch_events c' = ch_events c
     \<and> ch_workspaces c' = ch_workspaces c \<and> ch_agents c' = ch_agents c \<and> ch_roster c' = ch_roster c
     \<and> ch_now c' = ch_now c \<and> ch_uuid c' = ch_uuid c \<and> ch_uuids c' = ch_uuids c \<and> ch_fails c' = ch_fails c
     \<and> ch_user_tokens c' = ch_user_tokens c \<and> ch_agent_tokens c' = ch_agent_tokens c"

lemma same_data_refl [simp]: "same_data c c"
  by (simp add: same_data_def)

lemma same_data_trans: "same_data a b \<Longrightarrow> same_data b c \<Longrightarrow> same_data a c"
  by (simp add: same_data_def)

lemma stmt_same: "same_data c (fst (stmt m q id c))"
  by (simp add: stmt_def Let_def same_data_def)

lemmas read_defs = workspace_get_def conversation_get_def message_get_def agent_get_global_def agent_list_def

lemma read_same [simp]:
  "same_data c (fst (workspace_get u w c))"
  "same_data c (fst (conversation_get w v c))"
  "same_data c (fst (message_get i c))"
  "same_data c (fst (agent_get_global i c))"
  "same_data c (fst (agent_list w c))"
  by (auto simp: read_defs stmt_def Let_def same_data_def split: option.splits)

lemma status_case_ordinal: "status_case st = status_ordinal st"
  by (cases st) (simp_all add: status_case_def status_ordinal_def terminalStatusOrdinal_def)

definition terminal :: "msg_status \<Rightarrow> bool" where
  "terminal st \<longleftrightarrow> st \<in> {MsgFailed, MsgIncomplete, MsgSilent}"

lemma ordinal_bound: "status_ordinal st \<le> 99" "terminal st \<longleftrightarrow> status_ordinal st = 99"
  by (cases st; simp add: status_ordinal_def terminalStatusOrdinal_def terminal_def)+

text \<open>
  C23. A status update never moves a message backwards in the order pending, sent, delivered, read,
  and never replaces failed, incomplete or silent by anything else; no other message and no other
  column but the time of the update changes.
\<close>

theorem status_monotone:
  "rel_option (\<lambda>m m'. status_ordinal (m_status m) \<le> status_ordinal (m_status m')
       \<and> (if terminal (m_status m) then m' = m else True)
       \<and> m'\<lparr>m_status := m_status m, m_updated := m_updated m\<rparr> = m
       \<and> (m_id m = i \<or> m' = m))
     (ch_msgs c j) (ch_msgs (fst (message_update_status i st c)) j)"
proof (cases "i = '''' \<or> ch_fails c (ch_calls c)")
  case True
  then show ?thesis by (auto simp: message_update_status_def stmt_def Let_def option.rel_refl)
next
  case False
  have "terminal (m_status m) \<Longrightarrow> \<not> status_ordinal (m_status m) < status_ordinal st" for m :: chat_message
    using ordinal_bound(1) [of st] ordinal_bound(2) [of "m_status m"] by simp
  then show ?thesis
    using False by (auto simp: message_update_status_def stmt_def Let_def update_where_def status_case_ordinal
        option.rel_map intro!: option.rel_refl_strong)
qed

text \<open>A transaction that fails leaves messages and conversations as they were.\<close>

lemma with_transaction_fails:
  assumes "with_transaction op fn c = (c', Inl e)"
  shows "ch_msgs c' = ch_msgs c \<and> ch_convs c' = ch_convs c"
proof -
  define bm cm where msgs: "bm = ''begin '' @ op @ '' transaction''" "cm = ''commit '' @ op @ '' transaction''"
  obtain c1 r1 where b: "stmt bm (\<lambda>c. ()) id c = (c1, r1)" by fastforce
  have c1: "ch_msgs c1 = ch_msgs c" "ch_convs c1 = ch_convs c"
    using b by (auto simp: stmt_def Let_def split: if_splits)
  obtain c2 r2 where f: "fn c1 = (c2, r2)" by fastforce
  obtain c3 r3 where m: "stmt cm (\<lambda>c. ()) id c2 = (c3, r3)" by fastforce
  note a = assms [unfolded with_transaction_def, folded msgs]
  show ?thesis
    using a c1 by (cases r1; cases r2; cases r3) (auto simp: b f m rollback_def)
qed

lemma with_transaction_ok:
  assumes "with_transaction op fn c = (c', Inr a)"
  obtains c1 c2 where "same_data c c1" "fn c1 = (c2, Inr a)" "same_data c2 c'"
proof -
  define bm cm where msgs: "bm = ''begin '' @ op @ '' transaction''" "cm = ''commit '' @ op @ '' transaction''"
  obtain c1 r1 where b: "stmt bm (\<lambda>c. ()) id c = (c1, r1)" by fastforce
  obtain c2 r2 where f: "fn c1 = (c2, r2)" by fastforce
  obtain c3 r3 where m: "stmt cm (\<lambda>c. ()) id c2 = (c3, r3)" by fastforce
  have s: "same_data c c1" "same_data c2 c3"
    using stmt_same [of c bm "\<lambda>c. ()"] stmt_same [of c2 cm "\<lambda>c. ()"] by (simp_all add: b m)
  note a = assms [unfolded with_transaction_def, folded msgs]
  have "r2 = Inr a \<and> c' = c3" using a by (cases r1; cases r2; cases r3) (auto simp: b f m)
  then show thesis using that [of c1 c2] s f by simp
qed

end
