(* ===== verification/Questions.thy ===== *)
theory Questions
  imports Chat_Store
begin

text \<open>
  Question cards. \<open>mcpservice/questions.go\<close> validates the parameters of the
  \<open>ask_questions\<close> tool, numbers the questions and options and stores the card;
  \<open>chatservice/actions.go\<close> records the user's answers, once, and sends their summary as the
  next user message; \<open>socketio/answers.go\<close> parses the socket event and reports the outcome.
  The follow-up \<open>sendFn\<close> and the lookup of a user by subject are parameters.
\<close>

section \<open>Asking\<close>

record ask_question =
  aq_prompt :: string
  aq_mode :: string
  aq_options :: "string list"
  aq_custom :: bool

record ask_turn =
  at_label :: string
  at_questions :: "ask_question list"

record ask_params =
  ap_agent_id :: string
  ap_agent_slug :: string
  ap_conv :: string
  ap_turns :: "ask_turn list"

definition QuestionModeSingle :: string where "QuestionModeSingle = ''single''"
definition QuestionModeMulti :: string where "QuestionModeMulti = ''multi''"

definition optionIDBase :: nat where "optionIDBase = 65"
definition maxOptionsPerQuestion :: nat where "maxOptionsPerQuestion = 90 - optionIDBase + 1"
definition minOptionsPerQuestion :: nat where "minOptionsPerQuestion = 2"
definition maxTurnsPerMessage :: nat where "maxTurnsPerMessage = 10"
definition maxQuestionsPerTurn :: nat where "maxQuestionsPerTurn = 20"
definition maxPromptLen :: nat where "maxPromptLen = 2048"
definition maxOptionLabelLen :: nat where "maxOptionLabelLen = 256"
definition maxTurnLabelLen :: nat where "maxTurnLabelLen = 128"
definition errCodeInvalidInput :: string where "errCodeInvalidInput = ''invalid_input''"

lemmas question_limits = optionIDBase_def maxOptionsPerQuestion_def minOptionsPerQuestion_def
  maxTurnsPerMessage_def maxQuestionsPerTurn_def maxPromptLen_def maxOptionLabelLen_def maxTurnLabelLen_def

text \<open>\<open>for i, x := range xs { if err := check(i, x); err != nil { return err } }\<close>\<close>

fun first_error :: "(nat \<Rightarrow> 'a \<Rightarrow> gerror option) \<Rightarrow> nat \<Rightarrow> 'a list \<Rightarrow> gerror option" where
  "first_error check i [] = None"
| "first_error check i (x # xs) = (case check i x of Some e \<Rightarrow> Some e | None \<Rightarrow> first_error check (Suc i) xs)"

definition invalid :: "string \<Rightarrow> gerror option" where
  "invalid msg = Some (biz msg errCodeInvalidInput)"

definition at_turn :: "nat \<Rightarrow> string" where
  "at_turn ti = ''turn '' @ show_nat (ti + 1)"

definition at_question :: "nat \<Rightarrow> nat \<Rightarrow> string" where
  "at_question ti qi = at_turn ti @ '' question '' @ show_nat (qi + 1)"

definition validate_option :: "nat \<Rightarrow> nat \<Rightarrow> nat \<Rightarrow> string \<Rightarrow> gerror option" where
  "validate_option ti qi oi label =
     (let trimmed = trim_space label in
      if trimmed = '''' then
        invalid (at_question ti qi @ '' option '' @ show_nat (oi + 1) @ '': label must not be empty'')
      else if maxOptionLabelLen < length trimmed then
        invalid (at_question ti qi @ '' option '' @ show_nat (oi + 1) @ '': label exceeds ''
                 @ show_nat maxOptionLabelLen @ '' characters'')
      else None)"

definition validate_question :: "nat \<Rightarrow> nat \<Rightarrow> ask_question \<Rightarrow> gerror option" where
  "validate_question ti qi q =
     (let prompt = trim_space (aq_prompt q) in
      if prompt = '''' then invalid (at_question ti qi @ '': prompt must not be empty'')
      else if maxPromptLen < length prompt then
        invalid (at_question ti qi @ '': prompt exceeds '' @ show_nat maxPromptLen @ '' characters'')
      else if aq_mode q \<noteq> QuestionModeSingle \<and> aq_mode q \<noteq> QuestionModeMulti then
        invalid (at_question ti qi @ '': mode must be single or multi'')
      else if length (aq_options q) < minOptionsPerQuestion then
        invalid (at_question ti qi @ '': at least '' @ show_nat minOptionsPerQuestion @ '' options required'')
      else if maxOptionsPerQuestion < length (aq_options q) then
        invalid (at_question ti qi @ '': at most '' @ show_nat maxOptionsPerQuestion @ '' options allowed'')
      else first_error (validate_option ti qi) 0 (aq_options q))"

definition validate_turn :: "nat \<Rightarrow> ask_turn \<Rightarrow> gerror option" where
  "validate_turn ti t =
     (if maxTurnLabelLen < length (trim_space (at_label t)) then
        invalid (at_turn ti @ '': label exceeds '' @ show_nat maxTurnLabelLen @ '' characters'')
      else if length (at_questions t) < 1 then
        invalid (at_turn ti @ '': at least one question required'')
      else if maxQuestionsPerTurn < length (at_questions t) then
        invalid (at_turn ti @ '': too many questions, got '' @ show_nat (length (at_questions t))
                 @ '', max '' @ show_nat maxQuestionsPerTurn)
      else first_error (validate_question ti) 0 (at_questions t))"

definition validate_params :: "ask_params \<Rightarrow> gerror option" where
  "validate_params p =
     (if length (ap_turns p) < 1 then invalid ''at least one turn is required''
      else if maxTurnsPerMessage < length (ap_turns p) then
        invalid (''too many turns: got '' @ show_nat (length (ap_turns p)) @ '', max '' @ show_nat maxTurnsPerMessage)
      else first_error validate_turn 0 (ap_turns p))"

text \<open>Option ids are the letters from A; question ids are \<open>t1q1\<close>, \<open>t1q2\<close> and so on.\<close>

definition option_id :: "nat \<Rightarrow> string" where "option_id oi = [char_of (optionIDBase + oi)]"

definition question_id :: "nat \<Rightarrow> nat \<Rightarrow> string" where
  "question_id ti qi = ''t'' @ show_nat (ti + 1) @ ''q'' @ show_nat (qi + 1)"

definition build_question :: "nat \<Rightarrow> nat \<Rightarrow> ask_question \<Rightarrow> question_item" where
  "build_question ti qi q =
     \<lparr>qi_id = question_id ti qi, qi_prompt = trim_space (aq_prompt q), qi_mode = aq_mode q,
      qi_options = map (\<lambda>(oi, label). \<lparr>qo_id = option_id oi, qo_label = trim_space label\<rparr>) (enum_from 0 (aq_options q)),
      qi_allow_custom = aq_custom q\<rparr>"

definition build_question_turns :: "ask_turn list \<Rightarrow> question_turn list" where
  "build_question_turns ts =
     map (\<lambda>(ti, t). \<lparr>qt_index = ti + 1, qt_label = trim_space (at_label t),
                     qt_questions = map (\<lambda>(qi, q). build_question ti qi q) (enum_from 0 (at_questions t))\<rparr>)
       (enum_from 0 ts)"

text \<open>
  The errors of the tool: a business or server error, the plain errors of the lookups, and the
  text of \<open>save questions message\<close>.
\<close>

datatype ask_error = AskTyped gerror | AskPlain string | AskNoAgent string

type_synonym 'a ask_call = "chat \<Rightarrow> chat \<times> (ask_error + 'a)"

definition ask_bind :: "'a chat_call \<Rightarrow> (gerror \<Rightarrow> ask_error) \<Rightarrow> ('a \<Rightarrow> 'b ask_call) \<Rightarrow> 'b ask_call" where
  "ask_bind m f k c = (case m c of (c1, Inl e) \<Rightarrow> (c1, Inl (f e)) | (c1, Inr a) \<Rightarrow> k a c1)"

definition verify_workspace :: "string \<Rightarrow> string \<Rightarrow> unit ask_call" where
  "verify_workspace user ws =
     ask_bind (workspace_get user ws) (\<lambda>_. AskPlain ''workspace not found'') (\<lambda>_ c. (c, Inr ()))"

definition resolve_agent_id :: "string \<Rightarrow> string \<Rightarrow> string ask_call" where
  "resolve_agent_id ws slug =
     ask_bind (agent_list ws) (\<lambda>e. AskPlain (''list agents: '' @ error_text (Some e)))
       (\<lambda>ags c. case find (\<lambda>a. ag_slug a = slug) ags of
          Some a \<Rightarrow> (c, Inr (ag_id a))
        | None \<Rightarrow> (c, Inl (AskNoAgent slug)))"

definition resolve_agent_param :: "string \<Rightarrow> string \<Rightarrow> string \<Rightarrow> string ask_call" where
  "resolve_agent_param ws agent_id slug c =
     (if agent_id \<noteq> '''' then (c, Inr agent_id) else resolve_agent_id ws slug c)"

definition question_message :: "string \<Rightarrow> string \<Rightarrow> string \<Rightarrow> question_turn list \<Rightarrow> int \<Rightarrow> chat_message" where
  "question_message i cv ag ts now =
     \<lparr>m_id = i, m_conv = cv, m_role = RoleAgent, m_type = CtQuestions, m_text = '''', m_tool = '''',
      m_tool_state = '''', m_query = '''', m_args = [], m_from = '''', m_to = '''', m_content_status = '''', m_preview = '''', m_turns = ts, m_answers = [], m_selected = None,
      m_status = MsgDelivered, m_agent = Some ag, m_local = '''', m_created = now, m_updated = now\<rparr>"

definition ask_questions :: "string \<Rightarrow> string \<Rightarrow> ask_params \<Rightarrow> string ask_call" where
  "ask_questions user ws p c =
     (case verify_workspace user ws c of
        (c1, Inl e) \<Rightarrow> (c1, Inl e)
      | (c1, Inr _) \<Rightarrow>
     (case resolve_agent_param ws (ap_agent_id p) (ap_agent_slug p) c1 of
        (c2, Inl e) \<Rightarrow> (c2, Inl e)
      | (c2, Inr ag) \<Rightarrow>
     (case conversation_get ws (ap_conv p) c2 of
        (c3, Inl _) \<Rightarrow>
          (c3, Inl (AskTyped (biz ''conversation not found in this workspace'' ErrCodeConversationNotFound)))
      | (c3, Inr _) \<Rightarrow>
     (case validate_params p of
        Some e \<Rightarrow> (c3, Inl (AskTyped e))
      | None \<Rightarrow>
          let (c4, i) = new_uuid c3;
              msg = question_message i (ap_conv p) ag (build_question_turns (ap_turns p)) (ch_now c)
          in case message_save msg c4 of
               (c5, Inl e) \<Rightarrow> (c5, Inl (AskPlain (wrap_text ''save questions message'' (Some (error_text (Some e))))))
             | (c5, Inr _) \<Rightarrow>
                 (case agent_get_global ag c5 of
                    (c6, r) \<Rightarrow>
                      (emit (EvMessageNew ws msg (case r of Inr a \<Rightarrow> Some a | Inl _ \<Rightarrow> None)) c6, Inr i))))))"

section \<open>Answering\<close>

definition maxCustomTextLen :: nat where "maxCustomTextLen = 4096"

definition questionErrorf :: "string \<Rightarrow> string \<Rightarrow> gerror option" where
  "questionErrorf i detail = Some (biz (''question '' @ i @ '': '' @ detail) ErrCodeBadRequest)"

definition check_required_content :: "question_item \<Rightarrow> question_answer \<Rightarrow> gerror option" where
  "check_required_content q a =
     (if qa_options a = [] \<and> trim_space (qa_custom a) = ''''
      then questionErrorf (qi_id q) ''at least one option or custom text required'' else None)"

definition check_option_ids :: "question_item \<Rightarrow> question_answer \<Rightarrow> gerror option" where
  "check_option_ids q a =
     (if length (qi_options q) < length (qa_options a)
      then questionErrorf (qi_id q) ''more option ids than the question defines''
      else case find (\<lambda>oid. oid \<notin> set (map qo_id (qi_options q))) (qa_options a) of
             Some oid \<Rightarrow> Some (biz (''unknown option id: '' @ oid) ErrCodeBadRequest)
           | None \<Rightarrow> None)"

definition check_single_mode :: "question_item \<Rightarrow> question_answer \<Rightarrow> gerror option" where
  "check_single_mode q a =
     (if qi_mode q = QuestionModeSingle \<and> 1 < length (qa_options a)
      then questionErrorf (qi_id q) ''is single-select but received multiple options'' else None)"

definition check_custom_text :: "question_item \<Rightarrow> question_answer \<Rightarrow> gerror option" where
  "check_custom_text q a =
     (if qa_custom a = '''' then None
      else if \<not> qi_allow_custom q then questionErrorf (qi_id q) ''does not allow custom text''
      else if maxCustomTextLen < length (qa_custom a)
      then questionErrorf (qi_id q) (''custom text exceeds '' @ show_nat maxCustomTextLen @ '' characters'')
      else None)"

text \<open>\<open>questions[q.ID] = q\<close> over all turns: the last question of an id wins.\<close>

definition all_questions :: "chat_message \<Rightarrow> question_item list" where
  "all_questions m = concat (map qt_questions (m_turns m))"

definition question_map :: "chat_message \<Rightarrow> string \<Rightarrow> question_item option" where
  "question_map m = map_of (rev (map (\<lambda>q. (qi_id q, q)) (all_questions m)))"

definition validate_answer :: "(string \<Rightarrow> question_item option) \<Rightarrow> question_answer \<Rightarrow> gerror option" where
  "validate_answer qs a =
     (case qs (qa_question a) of
        None \<Rightarrow> Some (biz (''unknown question id: '' @ qa_question a) ErrCodeBadRequest)
      | Some q \<Rightarrow>
          (case check_required_content q a of Some e \<Rightarrow> Some e | None \<Rightarrow>
          (case check_option_ids q a of Some e \<Rightarrow> Some e | None \<Rightarrow>
          (case check_single_mode q a of Some e \<Rightarrow> Some e | None \<Rightarrow>
             check_custom_text q a))))"

definition validate_question_answers :: "chat_message \<Rightarrow> question_answer list \<Rightarrow> gerror option" where
  "validate_question_answers m as =
     (if as = [] then Some (biz ''at least one answer is required'' ErrCodeBadRequest)
      else first_error (\<lambda>_. validate_answer (question_map m)) 0 as)"

definition option_labels :: "question_item \<Rightarrow> string \<Rightarrow> string option" where
  "option_labels q = map_of (rev (map (\<lambda>p. (qo_id p, qo_label p)) (qi_options q)))"

definition format_answer_line :: "string \<Rightarrow> (string \<Rightarrow> string option) \<Rightarrow> question_answer \<Rightarrow> string" where
  "format_answer_line prompt labels a =
     prompt @ '': '' @
     join '', '' (map (\<lambda>oid. case labels oid of Some l \<Rightarrow> l | None \<Rightarrow> oid) (qa_options a)
                 @ (if qa_custom a \<noteq> '''' then [qa_custom a] else []))"

definition format_answers :: "chat_message \<Rightarrow> question_answer list \<Rightarrow> string" where
  "format_answers m as =
     join [char_of (10::nat)]
       (map (\<lambda>a. case question_map m (qa_question a) of
               None \<Rightarrow> format_answer_line '''' (\<lambda>_. None) a
             | Some q \<Rightarrow> format_answer_line (qi_prompt q) (option_labels q) a) as)"

type_synonym send_fn = "string \<Rightarrow> string \<Rightarrow> string \<Rightarrow> string \<Rightarrow> string \<Rightarrow> (chat_message list) chat_call"

text \<open>Everything up to and including the check that the answers are valid.\<close>

definition respond_check :: "string \<Rightarrow> string \<Rightarrow> string \<Rightarrow> question_answer list \<Rightarrow> chat_message chat_call" where
  "respond_check user ws mid as =
     chat_bind (workspace_get user ws) (\<lambda>_.
     chat_bind (message_get mid) (\<lambda>m.
     chat_bind (map_error (\<lambda>_. ErrUnauthorized) (conversation_get ws (m_conv m))) (\<lambda>_ c.
       (c, if m_type m \<noteq> CtQuestions then Inl ErrUnsupportedMessage
           else if m_answers m \<noteq> [] then Inl (biz ''question already answered'' ErrCodeQuestionAlreadyAnswered)
           else case validate_question_answers m as of Some e \<Rightarrow> Inl e | None \<Rightarrow> Inr m))))"

definition answered :: "chat_message \<Rightarrow> question_answer list \<Rightarrow> int \<Rightarrow> chat_message" where
  "answered m as now = m\<lparr>m_answers := as, m_updated := now\<rparr>"

text \<open>
  The rest: the message is saved as it was read, with the answers. The caller gets the error, and
  with \<^const>\<open>ErrCodeQuestionFollowupFailed\<close> the message too.
\<close>

definition followup_failed :: gerror where
  "followup_failed = biz ''answers recorded but follow-up dispatch failed'' ErrCodeQuestionFollowupFailed"

definition respond_commit ::
  "send_fn \<Rightarrow> string \<Rightarrow> string \<Rightarrow> question_answer list \<Rightarrow> chat_message \<Rightarrow> chat
   \<Rightarrow> chat \<times> chat_message option \<times> gerror option" where
  "respond_commit send user ws as m c =
     (let m' = answered m as (ch_now c) in
      case message_save m' c of
        (c1, Inl e) \<Rightarrow> (c1, None, Some e)
      | (c1, Inr _) \<Rightarrow>
          (let c2 = emit (EvMessageUpdated ws m') c1;
               (c3, local) = new_uuid c2
           in case send user ws (m_conv m) local (format_answers m' as) c3 of
                (c4, Inl _) \<Rightarrow> (c4, Some m', Some followup_failed)
              | (c4, Inr _) \<Rightarrow> (c4, Some m', None)))"

definition respond_to_questions ::
  "send_fn \<Rightarrow> string \<Rightarrow> string \<Rightarrow> string \<Rightarrow> question_answer list \<Rightarrow> chat
   \<Rightarrow> chat \<times> chat_message option \<times> gerror option" where
  "respond_to_questions send user ws mid as c =
     (case respond_check user ws mid as c of
        (c1, Inl e) \<Rightarrow> (c1, None, Some e)
      | (c1, Inr m) \<Rightarrow> respond_commit send user ws as m c1)"

definition respond_to_action_card :: "string \<Rightarrow> string \<Rightarrow> string \<Rightarrow> string \<Rightarrow> chat_message chat_call" where
  "respond_to_action_card user ws mid action =
     chat_bind (workspace_get user ws) (\<lambda>_.
     chat_bind (message_get mid) (\<lambda>m.
     chat_bind (map_error (\<lambda>_. ErrUnauthorized) (conversation_get ws (m_conv m))) (\<lambda>_ c.
       let m' = m\<lparr>m_selected := Some action, m_updated := ch_now c\<rparr>
       in chat_bind (message_save m') (\<lambda>_ c. (c, Inr m')) c)))"

section \<open>The socket event\<close>

datatype json = JString string | JList "json list" | JMap "(string \<times> json) list" | JOther

text \<open>The type assertion \<open>data[k].(string)\<close> with its zero value.\<close>

definition str_field :: "(string \<times> json) list \<Rightarrow> string \<Rightarrow> string" where
  "str_field d k = (case map_of d k of Some (JString s) \<Rightarrow> s | _ \<Rightarrow> '''')"

definition parse_option_ids :: "json option \<Rightarrow> string list" where
  "parse_option_ids raw = (case raw of
     Some (JList xs) \<Rightarrow> concat (map (\<lambda>x. case x of JString s \<Rightarrow> [s] | _ \<Rightarrow> []) xs)
   | _ \<Rightarrow> [])"

definition parse_answer_entry :: "(string \<times> json) list \<Rightarrow> question_answer" where
  "parse_answer_entry d =
     \<lparr>qa_question = str_field d ''question_id'', qa_options = parse_option_ids (map_of d ''option_ids''),
      qa_custom = str_field d ''custom_text''\<rparr>"

record answers_request =
  ar_ws :: string
  ar_mid :: string
  ar_local :: string
  ar_answers :: "question_answer list"

definition parse_answers_payload :: "json \<Rightarrow> answers_request option" where
  "parse_answers_payload raw = (case raw of
     JMap d \<Rightarrow> Some
       \<lparr>ar_ws = str_field d ''workspace_id'', ar_mid = str_field d ''message_id'', ar_local = str_field d ''local_id'',
        ar_answers = (case map_of d ''answers'' of
            Some (JList xs) \<Rightarrow> concat (map (\<lambda>x. case x of JMap am \<Rightarrow> [parse_answer_entry am] | _ \<Rightarrow> []) xs)
          | _ \<Rightarrow> [])\<rparr>
   | _ \<Rightarrow> None)"

datatype socket_reply = AnswersAck string string | AnswersError string string string

definition emit_merror :: "string \<Rightarrow> string \<Rightarrow> gerror \<Rightarrow> string \<Rightarrow> socket_reply" where
  "emit_merror local mid e generic =
     (if is_business_error (Some e) \<and> public_message (Some e) \<noteq> ''''
      then AnswersError local mid (public_message (Some e)) else AnswersError local mid generic)"

definition dispatch_answers ::
  "(string \<Rightarrow> gerror + string) \<Rightarrow> send_fn \<Rightarrow> string \<Rightarrow> answers_request \<Rightarrow> string \<Rightarrow> chat \<Rightarrow> chat \<times> socket_reply" where
  "dispatch_answers by_subject send subject req local c =
     (case by_subject subject of
        Inl e \<Rightarrow> (c, emit_merror local (ar_mid req) e ''user not found'')
      | Inr user \<Rightarrow>
          (case respond_to_questions send user (ar_ws req) (ar_mid req) (ar_answers req) c of
             (c1, m, Some e) \<Rightarrow>
               (c1, if is_code (Some e) ErrCodeQuestionFollowupFailed
                    then AnswersError local (case m of Some m' \<Rightarrow> m_id m' | None \<Rightarrow> ar_mid req) (message e)
                    else emit_merror local (ar_mid req) e ''failed to process answers'')
           | (c1, m, None) \<Rightarrow> (c1, AnswersAck local (case m of Some m' \<Rightarrow> m_id m' | None \<Rightarrow> ''''))))"

definition handle_message_answers ::
  "(string \<Rightarrow> gerror + string) \<Rightarrow> send_fn \<Rightarrow> string option \<Rightarrow> json list \<Rightarrow> chat \<Rightarrow> chat \<times> socket_reply option" where
  "handle_message_answers by_subject send subject_of args c =
     (case args of
        [] \<Rightarrow> (c, None)
      | raw # _ \<Rightarrow>
          (case subject_of of
             None \<Rightarrow> (c, Some (AnswersError '''' '''' ''unauthorized''))
           | Some subject \<Rightarrow>
               (case parse_answers_payload raw of
                  None \<Rightarrow> (c, Some (AnswersError '''' '''' ''invalid payload''))
                | Some req \<Rightarrow>
                    (let local = trim_space (ar_local req) in
                     if blank (ar_ws req) \<or> blank (ar_mid req) \<or> ar_answers req = []
                     then (c, Some (AnswersError local (ar_mid req) ''workspace_id, message_id, and answers are required''))
                     else map_prod id Some (dispatch_answers by_subject send subject req local c)))))"

section \<open>Lemmas\<close>

lemma first_error_None: "first_error f i xs = None \<longleftrightarrow> (\<forall>k < length xs. f (i + k) (xs ! k) = None)"
proof (induction xs arbitrary: i)
  case (Cons x xs)
  show ?case by (auto simp: Cons.IH All_less_Suc2 split: option.splits)
qed simp

lemma show_nat_inj: "show_nat a = show_nat b \<longleftrightarrow> a = b"
  by (metis option.inject parse_nat_show)

lemma no_q_in_show: "CHR ''q'' \<notin> set (show_nat n)"
  by (rule digit_not_in_show) (simp add: is_digit_def)

lemma question_id_inj: "question_id a b = question_id a' b' \<longleftrightarrow> a = a' \<and> b = b'"
  using append_Cons_eq_iff [OF no_q_in_show [of "Suc a"] no_q_in_show [of "Suc b"]]
  by (simp add: question_id_def show_nat_inj)

lemma build_question_turns_length [simp]: "length (build_question_turns ts) = length ts"
  by (simp add: build_question_turns_def)

lemma build_question_turns_nth:
  "ti < length ts \<Longrightarrow> build_question_turns ts ! ti =
     \<lparr>qt_index = ti + 1, qt_label = trim_space (at_label (ts ! ti)),
      qt_questions = map (\<lambda>(qi, q). build_question ti qi q) (enum_from 0 (at_questions (ts ! ti)))\<rparr>"
  by (simp add: build_question_turns_def)

lemma option_id_inj: "a < 26 \<Longrightarrow> b < 26 \<Longrightarrow> option_id a = option_id b \<longleftrightarrow> a = b"
  by (simp add: option_id_def optionIDBase_def char_of_eq_iff take_bit_eq_mod)

lemma qi_ids_build:
  "map (\<lambda>x. qi_id (build_question ti (fst x) (snd x))) (enum_from 0 qs) = map (question_id ti) [0 ..< length qs]"
  by (rule nth_equalityI) (simp_all add: build_question_def)

lemma distinct_ids_from:
  "distinct (concat (map (\<lambda>(ti, n). map (question_id ti) [0 ..< n]) (enum_from i ns)))
   \<and> (\<forall>x \<in> set (concat (map (\<lambda>(ti, n). map (question_id ti) [0 ..< n]) (enum_from i ns))). \<exists>t \<ge> i. \<exists>q. x = question_id t q)"
proof (induction ns arbitrary: i)
  case (Cons n ns)
  show ?case
    using Cons.IH [of "Suc i"] by (force simp: distinct_map inj_on_def question_id_inj)
qed simp

lemma enum_from_map: "enum_from i (map f xs) = map (\<lambda>(k, x). (k, f x)) (enum_from i xs)"
  by (induction xs arbitrary: i) auto

lemma distinct_question_ids:
  "distinct (map qi_id (concat (map qt_questions (build_question_turns ts))))"
proof -
  have "map qi_id (concat (map qt_questions (build_question_turns ts)))
        = concat (map (\<lambda>(ti, n). map (question_id ti) [0 ..< n]) (enum_from 0 (map (length \<circ> at_questions) ts)))"
    unfolding build_question_turns_def
    by (simp add: map_concat enum_from_map comp_def case_prod_beta qi_ids_build)
  then show ?thesis using distinct_ids_from by metis
qed

section \<open>The contract of a card\<close>

definition well_formed_question :: "question_item \<Rightarrow> bool" where
  "well_formed_question q \<longleftrightarrow>
     qi_prompt q \<noteq> '''' \<and> length (qi_prompt q) \<le> 2048 \<and> qi_mode q \<in> {''single'', ''multi''}
     \<and> 2 \<le> length (qi_options q) \<and> length (qi_options q) \<le> 26
     \<and> map qo_id (qi_options q) = map (\<lambda>ch. [ch]) (take (length (qi_options q)) ''ABCDEFGHIJKLMNOPQRSTUVWXYZ'')
     \<and> list_all (\<lambda>p. qo_label p \<noteq> '''' \<and> length (qo_label p) \<le> 256) (qi_options q)"

definition well_formed_turns :: "question_turn list \<Rightarrow> bool" where
  "well_formed_turns ts \<longleftrightarrow>
     1 \<le> length ts \<and> length ts \<le> 10 \<and> map qt_index ts = [1 ..< length ts + 1]
     \<and> distinct (map qi_id (concat (map qt_questions ts)))
     \<and> list_all (\<lambda>t. length (qt_label t) \<le> 128 \<and> 1 \<le> length (qt_questions t) \<and> length (qt_questions t) \<le> 20
          \<and> list_all well_formed_question (qt_questions t)) ts"

lemma option_letters: "n \<le> 26 \<Longrightarrow> map option_id [0 ..< n] = map (\<lambda>ch. [ch]) (take n ''ABCDEFGHIJKLMNOPQRSTUVWXYZ'')"
proof -
  assume n: "n \<le> 26"
  have "map option_id [0 ..< 26] = map (\<lambda>ch. [ch]) ''ABCDEFGHIJKLMNOPQRSTUVWXYZ''" by code_simp
  from arg_cong [OF this, of "take n"] have "map option_id (take n [0 ..< 26]) = map (\<lambda>ch. [ch]) (take n ''ABCDEFGHIJKLMNOPQRSTUVWXYZ'')"
    by (simp only: take_map)
  then show ?thesis using n by (simp only: take_upt add_0)
qed

lemma build_options:
  "map qo_id (qi_options (build_question ti qi q)) = map option_id [0 ..< length (aq_options q)]"
  by (rule nth_equalityI) (simp_all add: build_question_def)

lemma validate_option_None:
  "validate_option ti qi oi l = None \<longleftrightarrow> trim_space l \<noteq> '''' \<and> length (trim_space l) \<le> 256"
  by (auto simp: validate_option_def Let_def invalid_def question_limits)

lemma validated_question:
  assumes "validate_question ti qi q = None"
  shows "well_formed_question (build_question ti qi q)"
proof -
  have v: "trim_space (aq_prompt q) \<noteq> ''''" "length (trim_space (aq_prompt q)) \<le> 2048"
    "aq_mode q \<in> {''single'', ''multi''}" "2 \<le> length (aq_options q)" "length (aq_options q) \<le> 26"
    and f: "first_error (validate_option ti qi) 0 (aq_options q) = None"
    using assms by (auto simp: validate_question_def Let_def invalid_def question_limits
        QuestionModeSingle_def QuestionModeMulti_def split: if_splits)
  have "list_all (\<lambda>p. qo_label p \<noteq> '''' \<and> length (qo_label p) \<le> 256) (qi_options (build_question ti qi q))"
    using f by (simp add: first_error_None validate_option_None list_all_length build_question_def)
  moreover have "length (qi_options (build_question ti qi q)) = length (aq_options q)"
    by (simp add: build_question_def)
  ultimately show ?thesis
    using v option_letters [OF v(5)] build_options [of ti qi q]
    by (simp add: well_formed_question_def) (simp add: build_question_def)
qed

lemma validated_turn:
  assumes "validate_turn ti t = None"
  shows "length (trim_space (at_label t)) \<le> 128" "1 \<le> length (at_questions t)" "length (at_questions t) \<le> 20"
    "\<forall>qi < length (at_questions t). well_formed_question (build_question ti qi (at_questions t ! qi))"
  using assms by (auto simp: validate_turn_def invalid_def question_limits first_error_None Suc_le_eq intro: validated_question
      split: if_splits)

lemma validated_params:
  assumes "validate_params p = None"
  shows "well_formed_turns (build_question_turns (ap_turns p))"
proof -
  have l: "1 \<le> length (ap_turns p)" "length (ap_turns p) \<le> 10"
    and f: "\<forall>k < length (ap_turns p). validate_turn k (ap_turns p ! k) = None"
    using assms by (auto simp: validate_params_def invalid_def question_limits first_error_None Suc_le_eq split: if_splits)
  have "map qt_index (build_question_turns (ap_turns p)) = [1 ..< length (ap_turns p) + 1]"
    by (rule nth_equalityI) (simp_all add: build_question_turns_nth del: upt_Suc)
  moreover have "list_all (\<lambda>t. length (qt_label t) \<le> 128 \<and> 1 \<le> length (qt_questions t)
      \<and> length (qt_questions t) \<le> 20 \<and> list_all well_formed_question (qt_questions t)) (build_question_turns (ap_turns p))"
    using f validated_turn by (auto simp: list_all_length build_question_turns_nth)
  ultimately show ?thesis using l distinct_question_ids by (simp add: well_formed_turns_def)
qed

lemma same_fst: "same_data c (fst p) \<Longrightarrow> p = (c', r) \<Longrightarrow> same_data c c'"
  by simp

lemma verify_same: "same_data c (fst (verify_workspace u w c))"
  by (auto simp: verify_workspace_def ask_bind_def dest: same_fst [OF read_same(1)] split: prod.splits sum.splits)

lemma verify_ok: "verify_workspace u w c = (c', Inr x) \<Longrightarrow> (u, w) \<in> set (ch_workspaces c)"
  by (auto simp: verify_workspace_def ask_bind_def workspace_get_def stmt_def Let_def split: if_splits prod.splits sum.splits)

lemma resolve_same: "same_data c (fst (resolve_agent_param ws a s c))"
  by (auto simp: resolve_agent_param_def resolve_agent_id_def ask_bind_def dest: same_fst [OF read_same(5)]
      split: prod.splits sum.splits option.splits)

lemma workspace_get_ok: "workspace_get u w c = (c', Inr x) \<Longrightarrow> (u, w) \<in> set (ch_workspaces c)"
  by (auto simp: workspace_get_def stmt_def Let_def split: if_splits)

lemma conversation_ok: "conversation_get w v c = (c', Inr x) \<Longrightarrow> ch_convs c v = Some x \<and> cv_ws x = w"
  by (auto simp: conversation_get_def stmt_def Let_def split: if_splits option.splits)

lemma message_ok: "message_get i c = (c', Inr m) \<Longrightarrow> ch_msgs c i = Some m"
  by (auto simp: message_get_def stmt_def Let_def split: if_splits option.splits)

lemma save_cases:
  "message_save m c = (c', Inl e) \<Longrightarrow> same_data c c'"
  "message_save m c = (c', Inr x) \<Longrightarrow>
     c' = c\<lparr>ch_calls := Suc (ch_calls c), ch_msgs := (ch_msgs c)(m_id m \<mapsto> upserted m (ch_msgs c (m_id m)))\<rparr>"
  by (auto simp: message_save_def stmt_def Let_def same_data_def split: if_splits)



lemma ask_cases:
  assumes "ask_questions user ws p c = (c', r)"
  obtains (error) e where "r = Inl e" "ch_msgs c' = ch_msgs c" "ch_convs c' = ch_convs c" "ch_events c' = ch_events c"
  | (ok) ag found where "r = Inr (ch_uuids c (ch_uuid c))" "(user, ws) \<in> set (ch_workspaces c)"
      "\<exists>v. ch_convs c (ap_conv p) = Some v \<and> cv_ws v = ws" "validate_params p = None"
      "let m = question_message (ch_uuids c (ch_uuid c)) (ap_conv p) ag (build_question_turns (ap_turns p)) (ch_now c)
       in ch_msgs c' = (ch_msgs c)(m_id m \<mapsto> upserted m (ch_msgs c (m_id m)))
        \<and> ch_events c' = ch_events c @ [EvMessageNew ws m found] \<and> ch_convs c' = ch_convs c"
proof -
  obtain c1 r1 where v: "verify_workspace user ws c = (c1, r1)" by fastforce
  obtain c2 r2 where a: "resolve_agent_param ws (ap_agent_id p) (ap_agent_slug p) c1 = (c2, r2)" by fastforce
  obtain c3 r3 where g: "conversation_get ws (ap_conv p) c2 = (c3, r3)" by fastforce
  have s: "same_data c c1" "same_data c c2" "same_data c c3"
    using same_fst [OF verify_same v] same_fst [OF resolve_same a] same_fst [OF read_same(2) g] same_data_trans by blast+
  show thesis
  proof (cases "is_ok r1 \<and> is_ok r2 \<and> is_ok r3 \<and> validate_params p = None")
    case False
    then have "\<exists>e. r = Inl e \<and> same_data c c'"
      using assms s by (auto simp: ask_questions_def v a g is_ok_def split: sum.splits option.splits)
    then show thesis using error by (auto simp: same_data_def)
  next
    case True
    then obtain x ag y where oks: "r1 = Inr x" "r2 = Inr ag" "r3 = Inr y" by (auto simp: is_ok_def split: sum.splits)
    define m where "m = question_message (ch_uuids c3 (ch_uuid c3)) (ap_conv p) ag (build_question_turns (ap_turns p)) (ch_now c)"
    obtain c5 r5 where sv: "message_save m (fst (new_uuid c3)) = (c5, r5)" by fastforce
    obtain c6 r6 where ga: "agent_get_global ag c5 = (c6, r6)" by fastforce
    have s6: "same_data c5 c6" using same_fst [OF read_same(4) ga] .
    note steps = ask_questions_def v a g oks new_uuid_def ga
    show thesis
    proof (cases r5)
      case (Inl e)
      then show thesis
        using assms True s sv save_cases(1) [OF sv [unfolded Inl]]
        by (intro error) (auto simp: steps m_def same_data_def)
    next
      case (Inr z)
      have i: "m_id m = ch_uuids c (ch_uuid c)" using s by (simp add: m_def question_message_def same_data_def)
      have m: "m = question_message (ch_uuids c (ch_uuid c)) (ap_conv p) ag (build_question_turns (ap_turns p)) (ch_now c)"
        using s by (simp add: m_def same_data_def)
      have c': "c' = emit (EvMessageNew ws m (case r6 of Inr a \<Rightarrow> Some a | Inl _ \<Rightarrow> None)) c6" "r = Inr (ch_uuids c (ch_uuid c))"
        using assms True sv Inr s by (auto simp: steps m_def same_data_def)
      show thesis
      proof (rule ok)
        show "r = Inr (ch_uuids c (ch_uuid c))" "validate_params p = None" using c' True by auto
        show "(user, ws) \<in> set (ch_workspaces c)" using verify_ok v oks by blast
        show "\<exists>v. ch_convs c (ap_conv p) = Some v \<and> cv_ws v = ws"
          using conversation_ok [OF g [unfolded oks]] s by (auto simp: same_data_def)
        show "let m = question_message (ch_uuids c (ch_uuid c)) (ap_conv p) ag (build_question_turns (ap_turns p)) (ch_now c)
          in ch_msgs c' = (ch_msgs c)(m_id m \<mapsto> upserted m (ch_msgs c (m_id m)))
           \<and> ch_events c' = ch_events c @ [EvMessageNew ws m (case r6 of Inr a \<Rightarrow> Some a | Inl _ \<Rightarrow> None)]
           \<and> ch_convs c' = ch_convs c"
          using s s6 save_cases(2) [OF sv [unfolded Inr]] by (simp add: m [symmetric] c' emit_def same_data_def new_uuid_def)
      qed
    qed
  qed
qed

text \<open>
  C24. When \<open>AskQuestions\<close> returns an id, the caller owns the workspace, the conversation belongs to
  it, and exactly one message was added, under that id: an unanswered questions card of the
  conversation whose turns are well formed (1 to 10 turns numbered from 1, 1 to 20 questions each,
  question ids unique in the card, 2 to 26 options lettered from A, no empty prompt or label, the
  length caps) with one question per question of the request, and it was broadcast. When it
  returns an error nothing was stored and nothing broadcast.
\<close>

theorem ask_stores_card:
  assumes run: "ask_questions user ws p c = (c', r)" and fresh: "ch_msgs c (ch_uuids c (ch_uuid c)) = None"
  shows "case r of
      Inl e \<Rightarrow> ch_msgs c' = ch_msgs c \<and> ch_events c' = ch_events c
    | Inr i \<Rightarrow> (user, ws) \<in> set (ch_workspaces c) \<and> (\<exists>v. ch_convs c (ap_conv p) = Some v \<and> cv_ws v = ws)
        \<and> (\<exists>m found. ch_msgs c i = None \<and> ch_msgs c' = (ch_msgs c)(i \<mapsto> m)
             \<and> ch_events c' = ch_events c @ [EvMessageNew ws m found]
             \<and> m_id m = i \<and> m_conv m = ap_conv p \<and> m_type m = CtQuestions \<and> m_answers m = []
             \<and> m_status m = MsgDelivered \<and> well_formed_turns (m_turns m)
             \<and> map (\<lambda>t. map qi_prompt (qt_questions t)) (m_turns m)
               = map (\<lambda>t. map (\<lambda>q. trim_space (aq_prompt q)) (at_questions t)) (ap_turns p))"
proof -
  have prompts: "map (\<lambda>t. map qi_prompt (qt_questions t)) (build_question_turns ts)
      = map (\<lambda>t. map (\<lambda>q. trim_space (aq_prompt q)) (at_questions t)) ts" for ts
    by (rule nth_equalityI) (auto simp: build_question_turns_nth build_question_def intro!: nth_equalityI)
  from run show ?thesis
  proof (cases rule: ask_cases)
    case (error e)
    then show ?thesis by simp
  next
    case (ok ag found)
    then show ?thesis
      using fresh validated_params [OF ok(4)] prompts [of "ap_turns p"]
      by (simp add: Let_def question_message_def upserted_def)
  qed
qed

section \<open>Lemmas on answers\<close>

definition answer_ok :: "chat_message \<Rightarrow> question_answer \<Rightarrow> bool" where
  "answer_ok m a \<longleftrightarrow> (\<exists>q \<in> set (all_questions m). qi_id q = qa_question a
     \<and> set (qa_options a) \<subseteq> qo_id ` set (qi_options q) \<and> length (qa_options a) \<le> length (qi_options q)
     \<and> (qa_options a \<noteq> [] \<or> trim_space (qa_custom a) \<noteq> '''')
     \<and> (qi_mode q = ''single'' \<longrightarrow> length (qa_options a) \<le> 1)
     \<and> (qa_custom a \<noteq> '''' \<longrightarrow> qi_allow_custom q \<and> length (qa_custom a) \<le> 4096))"

lemma question_map_in: "question_map m i = Some q \<Longrightarrow> q \<in> set (all_questions m) \<and> qi_id q = i"
  by (auto simp: question_map_def dest: map_of_SomeD)

lemma question_map_unique:
  "distinct (map qi_id (all_questions m)) \<Longrightarrow> q \<in> set (all_questions m) \<Longrightarrow> question_map m (qi_id q) = Some q"
  unfolding question_map_def by (rule map_of_is_SomeI) (auto simp: rev_map [symmetric] comp_def)

lemma find_None_all: "find P xs = None \<longleftrightarrow> (\<forall>x \<in> set xs. \<not> P x)"
  by (induction xs) auto

lemmas answer_checks = check_required_content_def check_option_ids_def check_single_mode_def check_custom_text_def
  questionErrorf_def maxCustomTextLen_def QuestionModeSingle_def

lemma check_option_ids_None:
  "check_option_ids q a = None \<longleftrightarrow>
     length (qa_options a) \<le> length (qi_options q) \<and> set (qa_options a) \<subseteq> qo_id ` set (qi_options q)"
  by (auto simp: check_option_ids_def questionErrorf_def find_None_all split: option.splits)
     (use nth_mem in \<open>fastforce simp: find_Some_iff\<close>)

lemma validate_answer_ok: "validate_answer (question_map m) a = None \<Longrightarrow> answer_ok m a"
  unfolding answer_ok_def validate_answer_def
  by (auto simp: check_option_ids_None split: option.splits dest!: question_map_in)
     (auto simp: check_required_content_def check_single_mode_def check_custom_text_def questionErrorf_def
        maxCustomTextLen_def QuestionModeSingle_def split: if_splits intro!: bexI)

lemma validate_answers_ok:
  "validate_question_answers m as = None \<Longrightarrow> as \<noteq> [] \<and> list_all (answer_ok m) as"
  by (auto simp: validate_question_answers_def first_error_None list_all_length intro: validate_answer_ok split: if_splits)

lemma respond_check_same: "same_data c (fst (respond_check u w i as c))"
proof -
  obtain c1 r1 where 1: "workspace_get u w c = (c1, r1)" by fastforce
  obtain c2 r2 where 2: "message_get i c1 = (c2, r2)" by fastforce
  have s: "same_data c c1" "same_data c c2"
    using same_fst [OF read_same(1) 1] same_fst [OF read_same(3) 2] same_data_trans by blast+
  show ?thesis
  proof (cases "is_ok r1 \<and> is_ok r2")
    case True
    then obtain x m where r: "r1 = Inr x" "r2 = Inr m" by (auto simp: is_ok_def split: sum.splits)
    obtain c3 r3 where 3: "conversation_get w (m_conv m) c2 = (c3, r3)" by fastforce
    have "same_data c c3" using same_fst [OF read_same(2) 3] s same_data_trans by blast
    then show ?thesis by (cases r3) (auto simp: respond_check_def chat_bind_def map_error_def 1 2 3 r)
  qed (use s in \<open>auto simp: respond_check_def chat_bind_def is_ok_def 1 2 split: sum.splits\<close>)
qed

lemma respond_check_ok:
  assumes "respond_check u w i as c = (c', Inr m)"
  shows "ch_msgs c i = Some m" "(u, w) \<in> set (ch_workspaces c)" "\<exists>v. ch_convs c (m_conv m) = Some v \<and> cv_ws v = w"
    "m_type m = CtQuestions" "m_answers m = []" "validate_question_answers m as = None"
proof -
  obtain c1 r1 where 1: "workspace_get u w c = (c1, r1)" by fastforce
  obtain c2 r2 where 2: "message_get i c1 = (c2, r2)" by fastforce
  have r: "\<exists>x. r1 = Inr x" "\<exists>m. r2 = Inr m"
    using assms by (auto simp: respond_check_def chat_bind_def 1 2 split: sum.splits)
  then obtain x m' where r: "r1 = Inr x" "r2 = Inr m'" by blast
  obtain c3 r3 where 3: "conversation_get w (m_conv m') c2 = (c3, r3)" by fastforce
  have r3: "\<exists>v. r3 = Inr v" and m: "m' = m" and rest: "m_type m = CtQuestions" "m_answers m = []" "validate_question_answers m as = None"
    using assms by (auto simp: respond_check_def chat_bind_def map_error_def 1 2 3 r split: sum.splits if_splits option.splits)
  have s: "same_data c c1" "same_data c c2"
    using same_fst [OF read_same(1) 1] same_fst [OF read_same(3) 2] same_data_trans by blast+
  show "m_type m = CtQuestions" "m_answers m = []" "validate_question_answers m as = None" using rest by auto
  show "(u, w) \<in> set (ch_workspaces c)" using workspace_get_ok [OF 1 [unfolded r]] .
  show "ch_msgs c i = Some m" using message_ok [OF 2 [unfolded r]] s m by (simp add: same_data_def)
  show "\<exists>v. ch_convs c (m_conv m) = Some v \<and> cv_ws v = w"
    using r3 3 m conversation_ok [of w "m_conv m" c2] s by (auto simp: same_data_def)
qed

text \<open>The key of a row is its id.\<close>

definition keyed :: "chat \<Rightarrow> bool" where
  "keyed c \<longleftrightarrow> (\<forall>i m. ch_msgs c i = Some m \<longrightarrow> m_id m = i)"

lemma respond_commit_cases:
  assumes "keyed c" "ch_msgs c i = Some m" "respond_commit send u w as m c = (c', mo, eo)"
  obtains (failed) e where "mo = None" "eo = Some e" "same_data c c'"
  | (saved) c1 l where "mo = Some (answered m as (ch_now c))" "eo \<in> {None, Some followup_failed}"
      "ch_msgs c1 = (ch_msgs c)(i \<mapsto> answered m as (ch_now c))"
      "ch_events c1 = ch_events c @ [EvMessageUpdated w (answered m as (ch_now c))]"
      "ch_convs c1 = ch_convs c" "ch_workspaces c1 = ch_workspaces c" "ch_now c1 = ch_now c" "ch_fails c1 = ch_fails c"
      "c' = fst (send u w (m_conv m) l (format_answers (answered m as (ch_now c)) as) c1)"
      "eo = None \<longleftrightarrow> is_ok (snd (send u w (m_conv m) l (format_answers (answered m as (ch_now c)) as) c1))"
proof -
  let ?m = "answered m as (ch_now c)"
  have i: "m_id m = i" using assms by (simp add: keyed_def)
  have up: "upserted ?m (ch_msgs c (m_id ?m)) = ?m" using assms i by (simp add: upserted_def answered_def)
  obtain c1 r where s: "message_save ?m c = (c1, r)" by fastforce
  show thesis
  proof (cases r)
    case (Inl e)
    then show thesis using assms(3) s save_cases(1) [OF s [unfolded Inl]] by (intro failed) (auto simp: respond_commit_def)
  next
    case (Inr x)
    define c2 where "c2 = fst (new_uuid (emit (EvMessageUpdated w ?m) c1))"
    define l where "l = snd (new_uuid (emit (EvMessageUpdated w ?m) c1))"
    have c1: "c1 = c\<lparr>ch_calls := Suc (ch_calls c), ch_msgs := (ch_msgs c)(i \<mapsto> ?m)\<rparr>"
      using save_cases(2) [OF s [unfolded Inr]] up i by (simp add: answered_def)
    obtain c3 q where snd: "send u w (m_conv m) l (format_answers ?m as) c2 = (c3, q)" by fastforce
    have "c' = c3 \<and> mo = Some ?m \<and> eo = (case q of Inl _ \<Rightarrow> Some followup_failed | Inr _ \<Rightarrow> None)"
      using assms(3) s Inr snd
      by (auto simp: respond_commit_def Let_def c2_def l_def case_prod_beta split: sum.splits)
    then show thesis
      using snd c1 by (intro saved [of c2 l]) (auto simp: c2_def new_uuid_def emit_def is_ok_def split: sum.splits)
  qed
qed

text \<open>For any behaviour of the follow-up, \<open>RespondToQuestions\<close> either returns an error having
  stored and broadcast nothing, or it recorded exactly the given answers on the unanswered card and
  broadcast the updated card before the follow-up ran on that state; it then returns the card,
  with \<open>ErrCodeQuestionFollowupFailed\<close> iff the follow-up failed, and no rollback. Recorded answers
  name questions of the card and their options, at most one for a single-select question, are not
  empty, and have custom text only where allowed.
\<close>

theorem respond_outcome:
  assumes "keyed c" and run: "respond_to_questions send user ws mid as c = (c', mo, eo)"
  shows "if mo = None then eo \<noteq> None \<and> ch_msgs c' = ch_msgs c \<and> ch_events c' = ch_events c
    else \<exists>m c1 loc. ch_msgs c mid = Some m \<and> m_type m = CtQuestions \<and> m_answers m = [] \<and> as \<noteq> []
      \<and> list_all (answer_ok m) as \<and> (user, ws) \<in> set (ch_workspaces c)
      \<and> mo = Some (answered m as (ch_now c))
      \<and> ch_msgs c1 = (ch_msgs c)(mid \<mapsto> answered m as (ch_now c))
      \<and> ch_events c1 = ch_events c @ [EvMessageUpdated ws (answered m as (ch_now c))]
      \<and> c' = fst (send user ws (m_conv m) loc (format_answers (answered m as (ch_now c)) as) c1)
      \<and> eo = (if is_ok (snd (send user ws (m_conv m) loc (format_answers (answered m as (ch_now c)) as) c1))
              then None else Some followup_failed)"
proof -
  obtain c0 r where k: "respond_check user ws mid as c = (c0, r)" by fastforce
  have s: "same_data c c0" using same_fst [OF respond_check_same k] .
  show ?thesis
  proof (cases r)
    case (Inl e)
    then show ?thesis using run s by (auto simp: respond_to_questions_def k same_data_def)
  next
    case (Inr m)
    note ok = respond_check_ok [OF k [unfolded Inr]]
    have c0: "keyed c0" "ch_msgs c0 mid = Some m" using assms(1) ok(1) s by (auto simp: keyed_def same_data_def)
    have "respond_commit send user ws as m c0 = (c', mo, eo)" using run by (simp add: respond_to_questions_def k Inr)
    with c0 show ?thesis
    proof (cases rule: respond_commit_cases)
      case (failed e)
      then show ?thesis using s by (simp add: same_data_def)
    next
      case (saved c1 l)
      let ?s = "send user ws (m_conv m) l (format_answers (answered m as (ch_now c)) as) c1"
      have n: "ch_now c0 = ch_now c" using s by (simp add: same_data_def)
      have "eo = (if is_ok (snd ?s) then None else Some followup_failed)" using saved n by auto
      moreover have "ch_msgs c1 = (ch_msgs c)(mid \<mapsto> answered m as (ch_now c))"
        "ch_events c1 = ch_events c @ [EvMessageUpdated ws (answered m as (ch_now c))]"
        "mo = Some (answered m as (ch_now c))" "c' = fst ?s"
        using saved s n by (simp_all add: same_data_def)
      ultimately show ?thesis
        using ok validate_answers_ok [OF ok(6)] by auto
    qed
  qed
qed

lemma respond_check_answered:
  assumes "ch_msgs c mid = Some m" "m_answers m \<noteq> []"
  shows "\<exists>e. snd (respond_check u w mid as c) = Inl e"
proof (cases "snd (respond_check u w mid as c)")
  case (Inr m')
  then have "respond_check u w mid as c = (fst (respond_check u w mid as c), Inr m')" by (metis prod.collapse)
  from respond_check_ok(1,5) [OF this] assms show ?thesis by simp
qed auto


text \<open>The read, the check and the save are not one transaction. When two responses to a card are both
  checked before either is saved, and no statement fails, both are reported as recorded and
  broadcast; the card keeps the answers of the later save and the earlier ones are lost.
\<close>

theorem answer_race:
  assumes "keyed c" and first: "respond_check u1 ws mid as1 c = (c1, Inr m1)"
    and second: "respond_check u2 ws mid as2 c1 = (c2, Inr m2)"
    and live: "\<And>k. \<not> ch_fails c k"
    and send: "\<And>u w v l t c. \<exists>k ms. send u w v l t c = (c\<lparr>ch_calls := k\<rparr>, Inr ms)"
  shows "case respond_commit send u1 ws as1 m1 c2 of
      (c3, mo1, e1) \<Rightarrow> e1 = None \<and> mo1 \<noteq> None \<and> map_option m_answers (ch_msgs c3 mid) = Some as1
        \<and> (case respond_commit send u2 ws as2 m2 c3 of
             (c4, mo2, e2) \<Rightarrow> e2 = None \<and> mo2 \<noteq> None \<and> map_option m_answers (ch_msgs c4 mid) = Some as2
               \<and> ch_events c4 = ch_events c @ [EvMessageUpdated ws (answered m1 as1 (ch_now c)),
                                              EvMessageUpdated ws (answered m2 as2 (ch_now c))])"
proof -
  have s: "same_data c c1" "same_data c c2"
    using same_fst [OF respond_check_same first] same_fst [OF respond_check_same second] same_data_trans by blast+
  have m: "ch_msgs c mid = Some m1" "m2 = m1"
    using respond_check_ok(1) [OF first] respond_check_ok(1) [OF second] s by (auto simp: same_data_def)

  have step: "\<exists>d' mo. respond_commit send u ws as m1 d = (d', mo, None) \<and> mo \<noteq> None
      \<and> ch_msgs d' = (ch_msgs d)(mid \<mapsto> answered m1 as (ch_now d)) \<and> ch_now d' = ch_now d \<and> ch_fails d' = ch_fails d
      \<and> ch_events d' = ch_events d @ [EvMessageUpdated ws (answered m1 as (ch_now d))]"
    if d: "ch_msgs d mid = Some q" "m_conv q = m_conv m1" "m_created q = m_created m1" "\<And>k. \<not> ch_fails d k" for u as d q
  proof -
    have i: "m_id m1 = mid" using assms(1) m by (simp add: keyed_def)
    have sv: "message_save (answered m1 as (ch_now d)) d
        = (d\<lparr>ch_calls := Suc (ch_calls d), ch_msgs := (ch_msgs d)(mid \<mapsto> answered m1 as (ch_now d))\<rparr>, Inr ())"
      using d i by (simp add: message_save_def stmt_def Let_def upserted_def answered_def)
    define e where "e = fst (new_uuid (emit (EvMessageUpdated ws (answered m1 as (ch_now d)))
        (d\<lparr>ch_calls := Suc (ch_calls d), ch_msgs := (ch_msgs d)(mid \<mapsto> answered m1 as (ch_now d))\<rparr>)))"
    obtain k ms where "send u ws (m_conv m1) (ch_uuids d (ch_uuid d)) (format_answers (answered m1 as (ch_now d)) as) e
        = (e\<lparr>ch_calls := k\<rparr>, Inr ms)" using send by blast
    then have "respond_commit send u ws as m1 d = (e\<lparr>ch_calls := k\<rparr>, Some (answered m1 as (ch_now d)), None)"
      by (simp add: respond_commit_def Let_def sv e_def new_uuid_def emit_def)
    then show ?thesis by (simp add: e_def new_uuid_def emit_def)
  qed
  obtain d mo where 1: "respond_commit send u1 ws as1 m1 c2 = (d, mo, None)" "mo \<noteq> None"
    "ch_msgs d = (ch_msgs c2)(mid \<mapsto> answered m1 as1 (ch_now c2))" "ch_now d = ch_now c2" "ch_fails d = ch_fails c2"
    "ch_events d = ch_events c2 @ [EvMessageUpdated ws (answered m1 as1 (ch_now c2))]"
    using step [of c2 m1 u1 as1] m(1) s live by (auto simp: same_data_def)
  obtain d' mo' where 2: "respond_commit send u2 ws as2 m1 d = (d', mo', None)" "mo' \<noteq> None"
    "ch_msgs d' = (ch_msgs d)(mid \<mapsto> answered m1 as2 (ch_now d))"
    "ch_events d' = ch_events d @ [EvMessageUpdated ws (answered m1 as2 (ch_now d))]"
    using step [of d "answered m1 as1 (ch_now c2)" u2 as2] 1 s live by (auto simp: same_data_def answered_def)
  show ?thesis
    using 1 2 s m(2) by (simp add: same_data_def answered_def)
qed

lemma all_questions_build:
  assumes "ti < length ts" "qi < length (at_questions (ts ! ti))" "m_turns m = build_question_turns ts"
  shows "build_question ti qi (at_questions (ts ! ti) ! qi) \<in> set (all_questions m)"
proof -
  let ?t = "build_question_turns ts ! ti"
  have "?t \<in> set (m_turns m)" using assms by simp
  moreover have "build_question ti qi (at_questions (ts ! ti) ! qi) \<in> set (qt_questions ?t)"
    using assms(1,2) by (force simp: build_question_turns_nth set_enum_from)
  ultimately show ?thesis by (auto simp: all_questions_def)
qed

lemma option_labels_build:
  assumes "oi < length (aq_options q)" "length (aq_options q) \<le> 26"
  shows "option_labels (build_question ti qi q) (option_id oi) = Some (trim_space (aq_options q ! oi))"
proof -
  let ?xs = "map (\<lambda>p. (qo_id p, qo_label p)) (qi_options (build_question ti qi q))"
  have "map fst ?xs = map option_id [0 ..< length (aq_options q)]"
    using build_options [of ti qi q] by (simp add: comp_def)
  then have "distinct (map fst ?xs)"
    using assms(2) by (simp add: distinct_map inj_on_def option_id_inj del: map_map)
  moreover have "(option_id oi, trim_space (aq_options q ! oi)) \<in> set ?xs"
  proof -
    have "(oi, aq_options q ! oi) \<in> set (enum_from 0 (aq_options q))" using assms(1) by (simp add: set_enum_from)
    then show ?thesis by (force simp: build_question_def)
  qed
  ultimately show ?thesis
    unfolding option_labels_def by (intro map_of_is_SomeI) (simp_all add: rev_map [symmetric] del: map_map)
qed

text \<open>
  C25. Cards can be answered: on a card built from validated parameters, choosing any one option of
  any question passes the validation, and the follow-up text is the prompt and the label of that
  very option.
\<close>

theorem card_answerable:
  assumes v: "validate_params p = None" and card: "m_turns m = build_question_turns (ap_turns p)"
    and idx: "ti < length (ap_turns p)" "qi < length (at_questions (ap_turns p ! ti))"
      "oi < length (aq_options (at_questions (ap_turns p ! ti) ! qi))"
  shows "let q = at_questions (ap_turns p ! ti) ! qi;
             a = \<lparr>qa_question = question_id ti qi, qa_options = [option_id oi], qa_custom = ''''\<rparr>
         in validate_question_answers m [a] = None
          \<and> format_answers m [a] = trim_space (aq_prompt q) @ '': '' @ trim_space (aq_options q ! oi)"
proof -
  define q where "q = at_questions (ap_turns p ! ti) ! qi"
  have "validate_turn ti (ap_turns p ! ti) = None"
    using v idx(1) by (auto simp: validate_params_def first_error_None invalid_def split: if_splits)
  then have wf: "well_formed_question (build_question ti qi q)" using validated_turn(4) idx(2) q_def by blast
  then have n: "length (aq_options q) \<le> 26" by (simp add: well_formed_question_def build_question_def)
  have oi: "oi < length (aq_options q)" using idx(3) by (simp add: q_def)
  have qi: "qi_id (build_question ti qi q) = question_id ti qi" by (simp add: build_question_def)
  have qm: "question_map m (question_id ti qi) = Some (build_question ti qi q)"
    using question_map_unique [of m "build_question ti qi q"] all_questions_build [OF idx(1,2) card, folded q_def]
      distinct_question_ids [of "ap_turns p"]
    by (simp add: qi card all_questions_def [of m])
  have "option_id oi \<in> qo_id ` set (qi_options (build_question ti qi q))"
    using oi arg_cong [OF build_options [of ti qi q], of set] by auto
  moreover have "1 \<le> length (qi_options (build_question ti qi q))" using oi by (simp add: build_question_def)
  ultimately have "check_option_ids (build_question ti qi q)
      \<lparr>qa_question = question_id ti qi, qa_options = [option_id oi], qa_custom = ''''\<rparr> = None"
    by (simp add: check_option_ids_None)
  moreover have "qi_prompt (build_question ti qi q) = trim_space (aq_prompt q)" by (simp add: build_question_def)
  ultimately show ?thesis
    using option_labels_build [OF oi n, of ti qi]
    by (simp add: Let_def validate_question_answers_def validate_answer_def qm check_required_content_def
        check_single_mode_def check_custom_text_def format_answers_def format_answer_line_def q_def [symmetric])
qed

section \<open>Witnesses\<close>

text \<open>A workspace with one conversation and one agent, an empty message table, and no failures.\<close>

definition sample_chat :: chat where
  "sample_chat =
     \<lparr>ch_workspaces = [(''u'', ''w'')],
      ch_convs = (\<lambda>i. if i = ''v'' then Some \<lparr>cv_id = ''v'', cv_ws = ''w'', cv_updated = 0\<rparr> else None),
      ch_msgs = (\<lambda>i. None),
      ch_agents = (\<lambda>i. None),
      ch_roster = (\<lambda>w. [\<lparr>ag_id = ''a1'', ag_slug = ''wally'', ag_name = ''Wally'', ag_manager = False\<rparr>]),
      ch_events = [], ch_now = 100, ch_uuid = 0, ch_uuids = (\<lambda>n. ''m'' @ show_nat n), ch_user_tokens = (\<lambda>u. 0), ch_agent_tokens = (\<lambda>a. 0), ch_calls = 0,
      ch_fails = (\<lambda>k. False)\<rparr>"

definition sample_params :: ask_params where
  "sample_params = \<lparr>ap_agent_id = '''', ap_agent_slug = ''wally'', ap_conv = ''v'',
     ap_turns = [\<lparr>at_label = ''Pick'', at_questions =
       [\<lparr>aq_prompt = ''Which '', aq_mode = ''single'', aq_options = [''yes'', ''no''], aq_custom = False\<rparr>]\<rparr>]\<rparr>"

definition sample_card :: chat where
  "sample_card = fst (ask_questions ''u'' ''w'' sample_params sample_chat)"

definition sample_send :: send_fn where "sample_send u w v l t c = (c, Inr [])"

definition sample_answer :: question_answer where
  "sample_answer = \<lparr>qa_question = ''t1q1'', qa_options = [''B''], qa_custom = ''''\<rparr>"

lemma sample_keyed: "keyed sample_chat"
  by (simp add: keyed_def sample_chat_def)

lemma sample_ask: "snd (ask_questions ''u'' ''w'' sample_params sample_chat) = Inr ''m0''"
  by code_simp

lemma sample_fresh: "ch_msgs sample_chat i = None"
  by (simp add: sample_chat_def)

lemma ask_stores_card_witness:
  "\<exists>m. ch_msgs sample_card ''m0'' = Some m \<and> well_formed_turns (m_turns m) \<and> m_type m = CtQuestions"
proof -
  have "ask_questions ''u'' ''w'' sample_params sample_chat = (sample_card, Inr ''m0'')"
    using sample_ask by (simp add: sample_card_def prod_eq_iff)
  from ask_stores_card [OF this sample_fresh] show ?thesis by auto
qed

lemma card_answerable_witness:
  "format_answers (question_message ''m0'' ''v'' ''a1'' (build_question_turns (ap_turns sample_params)) 100)
     [\<lparr>qa_question = ''t1q1'', qa_options = [''B''], qa_custom = ''''\<rparr>] = ''Which: no''"
proof -
  have q: "question_id 0 0 = ''t1q1''" "option_id 1 = ''B''" by code_simp+
  have v: "validate_params sample_params = None" by code_simp
  have t: "trim_space ''Which '' = ''Which''" "trim_space ''no'' = ''no''" by code_simp+
  show ?thesis
    using card_answerable [OF v, of "question_message ''m0'' ''v'' ''a1'' (build_question_turns (ap_turns sample_params)) 100" 0 0 1]
    by (simp add: Let_def q [simplified] t sample_params_def question_message_def)
qed

lemma sample_card_keyed: "keyed sample_card"
proof -
  have "ask_questions ''u'' ''w'' sample_params sample_chat = (sample_card, Inr ''m0'')"
    using sample_ask by (simp add: sample_card_def prod_eq_iff)
  then show ?thesis
    using sample_fresh
    by (cases rule: ask_cases) (auto simp: keyed_def Let_def upserted_def question_message_def split: if_splits)
qed

lemma sample_respond:
  obtains c' m' where "respond_to_questions sample_send ''u'' ''w'' ''m0'' [sample_answer] sample_card = (c', Some m', None)"
proof -
  have "(case snd (respond_to_questions sample_send ''u'' ''w'' ''m0'' [sample_answer] sample_card) of
     (Some _, None) \<Rightarrow> True | _ \<Rightarrow> False)"
    by code_simp
  then show thesis using that by (cases "respond_to_questions sample_send ''u'' ''w'' ''m0'' [sample_answer] sample_card")
      (auto split: option.splits)
qed

lemma respond_outcome_witness:
  "case respond_to_questions sample_send ''u'' ''w'' ''m0'' [sample_answer] sample_card of
     (c', mo, eo) \<Rightarrow> eo = None \<and> map_option m_answers (ch_msgs c' ''m0'') = Some [sample_answer]"
proof -
  obtain c' m' where r: "respond_to_questions sample_send ''u'' ''w'' ''m0'' [sample_answer] sample_card = (c', Some m', None)"
    using sample_respond .
  from respond_outcome [OF sample_card_keyed r] show ?thesis
    by (auto simp: r sample_send_def answered_def)
qed


lemma sample_check:
  "is_ok (snd (respond_check ''u'' ''w'' ''m0'' [sample_answer] sample_card))"
  "is_ok (snd (respond_check ''u'' ''w'' ''m0'' [sample_answer\<lparr>qa_options := [''A'']\<rparr>]
     (fst (respond_check ''u'' ''w'' ''m0'' [sample_answer] sample_card))))"
  by code_simp+

lemma sample_card_live: "\<not> ch_fails sample_card k"
  by code_simp

lemma answer_race_witness:
  "\<exists>c1 c2 m1 m2. respond_check ''u'' ''w'' ''m0'' [sample_answer] sample_card = (c1, Inr m1)
     \<and> respond_check ''u'' ''w'' ''m0'' [sample_answer\<lparr>qa_options := [''A'']\<rparr>] c1 = (c2, Inr m2)
     \<and> (case respond_commit sample_send ''u'' ''w'' [sample_answer] m1 c2 of
          (c3, mo1, e1) \<Rightarrow> e1 = None \<and> mo1 \<noteq> None \<and> map_option m_answers (ch_msgs c3 ''m0'') = Some [sample_answer])"
proof -
  obtain c1 m1 where 1: "respond_check ''u'' ''w'' ''m0'' [sample_answer] sample_card = (c1, Inr m1)"
    using sample_check(1) by (cases "respond_check ''u'' ''w'' ''m0'' [sample_answer] sample_card")
      (auto simp: is_ok_def split: sum.splits)
  obtain c2 m2 where 2: "respond_check ''u'' ''w'' ''m0'' [sample_answer\<lparr>qa_options := [''A'']\<rparr>] c1 = (c2, Inr m2)"
    using sample_check(2) by (cases "respond_check ''u'' ''w'' ''m0'' [sample_answer\<lparr>qa_options := [''A'']\<rparr>] c1")
      (auto simp: is_ok_def 1 split: sum.splits)
  have s: "\<exists>k ms. sample_send u w v l t c = (c\<lparr>ch_calls := k\<rparr>, Inr ms)" for u w v l t c
    by (intro exI [of _ "ch_calls c"]) (simp add: sample_send_def)
  show ?thesis
    using 1 2 answer_race [OF sample_card_keyed 1 2 sample_card_live, where send = sample_send, OF s] by auto
qed

end
