(* ===== verification/Stream.thy ===== *)
theory Stream
  imports Questions
begin

text \<open>
  The streaming reply of an agent (\<open>chatservice/stream*.go\<close>): a placeholder message is stored,
  the chunks of the runtime's stream are routed to the primary agent or to sub-agents, each with a
  placeholder of its own, and the placeholders are finalised or deleted when the stream ends.

  The runtime is a parameter: the chunks its stream delivers until it closes. The JSON text of tool
  arguments is represented by the object it decodes to, empty if there is none. The map of streams
  is an association list in the order of creation; the loops of \<open>finalize\<close> over it take their order
  as an argument. Costs, the analytics event and the delegation audit table are left out.
\<close>

datatype chunk_type = ChunkText | ChunkThinking | ChunkToolCall | ChunkToolResult | ChunkDone | ChunkUsage | ChunkOther

record stream_chunk =
  sc_type :: chunk_type
  sc_agent :: string
  sc_delta :: string
  sc_tool :: string
  sc_args :: "(string \<times> json) list"
  sc_call :: string
  sc_tokens :: int

record sub_stream =
  st_agent :: agent
  st_placeholder :: chat_message
  st_accumulated :: string
  st_chunks :: nat
  st_first :: bool
  st_done :: bool

record pending_tool =
  pt_tool :: string
  pt_slug :: string
  pt_args :: "(string \<times> json) list"
  pt_query :: string
  pt_message :: string

record stream_session =
  ss_ws :: string
  ss_user :: string
  ss_conv :: conversation
  ss_primary :: agent
  ss_roster :: "agent list"
  ss_streams :: "(string \<times> sub_stream) list"
  ss_pending :: "(string \<times> pending_tool) list"
  ss_user_message :: string
  ss_local :: string
  ss_delivered_once :: bool
  ss_read_once :: bool
  ss_total :: nat
  ss_global_done :: bool
  ss_first :: bool

type_synonym stream_state = "stream_session \<times> chat"

definition by_slug :: "agent list \<Rightarrow> string \<Rightarrow> agent option" where
  "by_slug ags = map_of (rev (map (\<lambda>a. (ag_slug a, a)) ags))"

definition by_id :: "agent list \<Rightarrow> string \<Rightarrow> agent option" where
  "by_id ags = map_of (rev (map (\<lambda>a. (ag_id a, a)) ags))"

definition emits :: "chat_event \<Rightarrow> stream_state \<Rightarrow> stream_state" where
  "emits e s = (fst s, emit e (snd s))"

definition conv_id :: "stream_session \<Rightarrow> string" where "conv_id ss = cv_id (ss_conv ss)"

definition upd_stream :: "string \<Rightarrow> (sub_stream \<Rightarrow> sub_stream) \<Rightarrow> (string \<times> sub_stream) list \<Rightarrow> (string \<times> sub_stream) list" where
  "upd_stream k f = map (\<lambda>(k', st). (k', if k' = k then f st else st))"

definition on_stream :: "string \<Rightarrow> (sub_stream \<Rightarrow> sub_stream) \<Rightarrow> stream_state \<Rightarrow> stream_state" where
  "on_stream k f s = ((fst s)\<lparr>ss_streams := upd_stream k f (ss_streams (fst s))\<rparr>, snd s)"

section \<open>Messages\<close>

definition new_message :: "string \<Rightarrow> msg_role \<Rightarrow> content_type \<Rightarrow> msg_status \<Rightarrow> string option \<Rightarrow> chat \<Rightarrow> chat \<times> chat_message" where
  "new_message conv role ty st ag c =
     (case new_uuid c of (c1, i) \<Rightarrow>
        (c1, \<lparr>m_id = i, m_conv = conv, m_role = role, m_type = ty, m_text = '''', m_tool = '''', m_tool_state = '''',
              m_query = '''', m_args = [], m_from = '''', m_to = '''', m_content_status = '''', m_preview = '''',
              m_turns = [], m_answers = [], m_selected = None, m_status = st, m_agent = ag, m_local = '''',
              m_created = ch_now c, m_updated = ch_now c\<rparr>))"

definition new_placeholder :: "string \<Rightarrow> agent \<Rightarrow> chat \<Rightarrow> chat \<times> chat_message" where
  "new_placeholder conv a = new_message conv RoleAgent CtText MsgPending (Some (ag_id a))"

definition save_placeholder :: "chat_message \<Rightarrow> unit chat_call" where
  "save_placeholder m = with_transaction ''create placeholder'' (message_save m)"

definition taskPreviewMaxRunes :: nat where "taskPreviewMaxRunes = 120"
definition agentSilentResponse :: string where "agentSilentResponse = ''[SILENT]''"

definition truncate_text :: "string \<Rightarrow> nat \<Rightarrow> string" where
  "truncate_text s n = (let rs = go_runes s in if length rs \<le> n then s else of_runes (take n rs) @ ''...'')"

section \<open>Streams\<close>

definition create_sub_agent_stream :: "agent \<Rightarrow> stream_state \<Rightarrow> stream_state \<times> string" where
  "create_sub_agent_stream sub s =
     (let (ss, c) = s; (c1, ph) = new_placeholder (conv_id ss) sub c in
      case save_placeholder ph c1 of
        (c2, Inl e) \<Rightarrow> ((ss, c2), ag_id (ss_primary ss))
      | (c2, Inr _) \<Rightarrow>
          (let trigger = (case map_of (ss_streams ss) (ag_id (ss_primary ss)) of Some p \<Rightarrow> m_id (st_placeholder p) | None \<Rightarrow> '''');
               c3 = emit (EvAgentStatus (ss_ws ss) (ag_id sub) ''thinking'') c2;
               c4 = emit (EvDelegation (ss_ws ss) (ag_id (ss_primary ss)) (ag_id sub) ''running'' trigger) c3;
               c5 = emit (EvAgentStatus (ss_ws ss) (ag_id (ss_primary ss)) ''online'') c4;
               st = \<lparr>st_agent = sub, st_placeholder = ph, st_accumulated = '''', st_chunks = 0, st_first = True, st_done = False\<rparr>
           in ((ss\<lparr>ss_streams := ss_streams ss @ [(ag_id sub, st)]\<rparr>, c5), ag_id sub)))"

text \<open>The key of the stream a chunk belongs to.\<close>

definition resolve_stream :: "string \<Rightarrow> stream_state \<Rightarrow> stream_state \<times> string" where
  "resolve_stream slug s =
     (let ss = fst s; p = ss_primary ss in
      if slug = '''' \<or> slug = ag_slug p then (s, ag_id p)
      else case by_slug (ss_roster ss) slug of
             None \<Rightarrow> (s, ag_id p)
           | Some sub \<Rightarrow>
               if map_of (ss_streams ss) (ag_id sub) \<noteq> None then (s, ag_id sub) else create_sub_agent_stream sub s)"

definition resolve_read_only :: "string \<Rightarrow> stream_session \<Rightarrow> sub_stream option" where
  "resolve_read_only slug ss =
     (let p = ss_primary ss in
      if slug = '''' \<or> slug = ag_slug p then map_of (ss_streams ss) (ag_id p)
      else case by_slug (ss_roster ss) slug of
             None \<Rightarrow> map_of (ss_streams ss) (ag_id p)
           | Some sub \<Rightarrow> map_of (ss_streams ss) (ag_id sub))"

section \<open>Chunks\<close>

definition emit_delivered :: "stream_state \<Rightarrow> stream_state" where
  "emit_delivered s =
     (let (ss, c) = s in
      if ss_user_message ss = '''' \<or> ss_delivered_once ss then s
      else (ss\<lparr>ss_delivered_once := True\<rparr>,
            fst (message_update_status (ss_user_message ss) MsgDelivered
                   (emit (EvMessageStatus (ss_ws ss) (ss_user_message ss) (ss_local ss) MsgDelivered) c))))"

definition emit_read :: "stream_state \<Rightarrow> stream_state" where
  "emit_read s =
     (let (ss, c) = s in
      if ss_user_message ss = '''' \<or> ss_read_once ss then s
      else (ss\<lparr>ss_read_once := True\<rparr>,
            emit (EvMessageStatus (ss_ws ss) (ss_user_message ss) (ss_local ss) MsgRead) c))"

definition note_first_chunk :: "stream_state \<Rightarrow> stream_state" where
  "note_first_chunk s =
     (if ss_first (fst s) then (case emit_read s of (ss, c) \<Rightarrow> (ss\<lparr>ss_first := False\<rparr>, c)) else s)"

definition note_writing :: "string \<Rightarrow> sub_stream \<Rightarrow> stream_state \<Rightarrow> stream_state" where
  "note_writing k st s =
     (if st_first st
      then on_stream k (\<lambda>st. st\<lparr>st_first := False\<rparr>) (emits (EvAgentStatus (ss_ws (fst s)) (ag_id (st_agent st)) ''writing'') s)
      else s)"

definition append_chunk :: "stream_chunk \<Rightarrow> string \<Rightarrow> stream_state \<Rightarrow> stream_state" where
  "append_chunk ch k s =
     (case map_of (ss_streams (fst s)) k of
        None \<Rightarrow> s
      | Some st \<Rightarrow>
          (case on_stream k (\<lambda>st. st\<lparr>st_accumulated := st_accumulated st @ sc_delta ch, st_chunks := Suc (st_chunks st)\<rparr>)
                  (note_writing k st s) of
             (ss, c) \<Rightarrow> (ss\<lparr>ss_total := Suc (ss_total ss)\<rparr>,
                         emit (EvMessageChunk (ss_ws ss) (m_id (st_placeholder st)) (ag_id (st_agent st)) (sc_delta ch)) c)))"

definition handle_text :: "stream_chunk \<Rightarrow> stream_state \<Rightarrow> stream_state" where
  "handle_text ch s = (case resolve_stream (sc_agent ch) s of (s1, k) \<Rightarrow> append_chunk ch k (note_first_chunk s1))"

definition all_streams_done :: "(string \<times> sub_stream) list \<Rightarrow> bool" where
  "all_streams_done sts = list_all (\<lambda>(k, st). st_done st) sts"

definition handle_done :: "stream_chunk \<Rightarrow> stream_state \<Rightarrow> stream_state" where
  "handle_done ch s =
     (if sc_agent ch = ''''
      then ((fst s)\<lparr>ss_global_done := True, ss_streams := map (\<lambda>(k, st). (k, st\<lparr>st_done := True\<rparr>)) (ss_streams (fst s))\<rparr>, snd s)
      else (let (s1, k) = resolve_stream (sc_agent ch) s;
                (ss, c) = on_stream k (\<lambda>st. st\<lparr>st_done := True\<rparr>) s1
            in (ss\<lparr>ss_global_done := all_streams_done (ss_streams ss)\<rparr>, c)))"

definition handle_usage :: "stream_chunk \<Rightarrow> stream_state \<Rightarrow> stream_state" where
  "handle_usage ch s =
     (let (ss, c) = s; st = resolve_read_only (sc_agent ch) ss;
          mid = (case st of Some x \<Rightarrow> m_id (st_placeholder x) | None \<Rightarrow> '''');
          agent_id = (case st of Some x \<Rightarrow> ag_id (st_agent x) | None \<Rightarrow> '''');
          c1 = emit (EvUsage (ss_ws ss) (sc_agent ch) mid (sc_tokens ch)) c;
          c2 = fst (stmt ''increment usage'' (\<lambda>c. ())
                 (\<lambda>c. c\<lparr>ch_user_tokens := (ch_user_tokens c)(ss_user ss := ch_user_tokens c (ss_user ss) + sc_tokens ch)\<rparr>) c1);
          c3 = (if agent_id = '''' then c2
                else fst (stmt ''increment agent usage'' (\<lambda>c. ())
                  (\<lambda>c. c\<lparr>ch_agent_tokens := (ch_agent_tokens c)(agent_id := ch_agent_tokens c agent_id + sc_tokens ch)\<rparr>) c2))
      in (ss, c3))"

section \<open>Tools\<close>

definition ToolTransferToAgent :: string where "ToolTransferToAgent = ''transfer_to_agent''"
definition ToolTransferToAgentArgField :: string where "ToolTransferToAgentArgField = ''agent_name''"

definition tool_query_fields :: "string \<Rightarrow> string list" where
  "tool_query_fields tool =
     (if tool = ''web_search_tool'' then [''query'']
      else if tool = ''web_fetch'' then [''url'']
      else if tool = ''http_request'' then [''url'']
      else if tool = ''glob_search'' then [''pattern'']
      else if tool = ''content_search'' then [''query'', ''pattern'']
      else if tool = ''calculator'' then [''expression'']
      else if tool = ''weather'' then [''location'']
      else if tool = ''shell'' then [''command'']
      else if tool = ''search_past_messages'' then [''query'']
      else [])"

definition tool_query :: "string \<Rightarrow> (string \<times> json) list \<Rightarrow> string" where
  "tool_query tool args =
     (case find (\<lambda>f. str_field args f \<noteq> '''') (tool_query_fields tool) of Some f \<Rightarrow> str_field args f | None \<Rightarrow> '''')"

definition is_web_tool :: "string \<Rightarrow> bool" where
  "is_web_tool tool \<longleftrightarrow> tool = ''web_fetch'' \<or> tool = ''http_request''"

definition build_wire_args :: "string \<Rightarrow> (string \<times> json) list \<Rightarrow> (string \<times> string) list" where
  "build_wire_args tool args =
     (let d = trim_space (str_field args ''description''); u = trim_space (str_field args ''url'') in
      (if d \<noteq> '''' then [(''description'', d)] else []) @ (if is_web_tool tool \<and> u \<noteq> '''' then [(''url'', u)] else []))"

definition resolve_tool_agent_id :: "stream_session \<Rightarrow> string \<Rightarrow> string" where
  "resolve_tool_agent_id ss slug =
     (if slug \<noteq> '''' then (case by_slug (ss_roster ss) slug of Some a \<Rightarrow> ag_id a | None \<Rightarrow> ag_id (ss_primary ss))
      else ag_id (ss_primary ss))"

definition new_tool_status_message ::
  "stream_session \<Rightarrow> string \<Rightarrow> string \<Rightarrow> (string \<times> json) list \<Rightarrow> chat \<Rightarrow> chat \<times> chat_message" where
  "new_tool_status_message ss ag tool args c =
     (case new_message (conv_id ss) RoleAgent CtToolStatus MsgDelivered (Some ag) c of
        (c1, m) \<Rightarrow> (c1, m\<lparr>m_tool := tool, m_tool_state := ''running'', m_query := tool_query tool args,
                           m_args := build_wire_args tool args\<rparr>))"

definition handle_tool_call :: "stream_chunk \<Rightarrow> stream_state \<Rightarrow> stream_state" where
  "handle_tool_call ch s =
     (let (ss, c) = s;
          ag = resolve_tool_agent_id ss (sc_agent ch);
          (c1, mid) =
            (if sc_tool ch = ToolTransferToAgent then (c, '''')
             else (case new_tool_status_message ss ag (sc_tool ch) (sc_args ch) c of
                     (ca, m) \<Rightarrow>
                       (case save_placeholder m ca of
                          (cb, Inl _) \<Rightarrow> (cb, '''')
                        | (cb, Inr _) \<Rightarrow> (emit (EvMessageNew (ss_ws ss) m (by_id (ss_roster ss) ag)) cb, m_id m))));
          entry = \<lparr>pt_tool = sc_tool ch, pt_slug = sc_agent ch, pt_args = sc_args ch,
                   pt_query = tool_query (sc_tool ch) (sc_args ch), pt_message = mid\<rparr>;
          ss1 = (if sc_call ch \<noteq> '''' then ss\<lparr>ss_pending := (sc_call ch, entry) # ss_pending ss\<rparr> else ss)
      in (ss1, emit (EvAgentTool (ss_ws ss) ag (sc_tool ch) ''running'' (sc_call ch)
                       (tool_query (sc_tool ch) (sc_args ch)) (build_wire_args (sc_tool ch) (sc_args ch))) c1))"

definition resolve_tool_result_agent_id :: "stream_session \<Rightarrow> string \<Rightarrow> string \<Rightarrow> string" where
  "resolve_tool_result_agent_id ss matched_slug slug =
     (case (if matched_slug \<noteq> '''' then by_slug (ss_roster ss) matched_slug else None) of
        Some a \<Rightarrow> ag_id a
      | None \<Rightarrow>
          (case (if slug \<noteq> '''' then by_slug (ss_roster ss) slug else None) of
             Some a \<Rightarrow> ag_id a | None \<Rightarrow> ag_id (ss_primary ss)))"

definition no_pending_tool :: pending_tool where
  "no_pending_tool = \<lparr>pt_tool = '''', pt_slug = '''', pt_args = [], pt_query = '''', pt_message = ''''\<rparr>"

definition handle_transfer_to_agent :: "pending_tool \<Rightarrow> stream_state \<Rightarrow> stream_state" where
  "handle_transfer_to_agent t s =
     (case by_slug (ss_roster (fst s)) (str_field (pt_args t) ToolTransferToAgentArgField) of
        None \<Rightarrow> s
      | Some del \<Rightarrow> emits (EvAgentStatus (ss_ws (fst s)) (ag_id del) ''online'') s)"

definition handle_tool_result :: "stream_chunk \<Rightarrow> stream_state \<Rightarrow> stream_state" where
  "handle_tool_result ch s =
     (let (ss, c) = s;
          found = (if sc_call ch \<noteq> '''' then map_of (ss_pending ss) (sc_call ch) else None);
          t = (case found of Some x \<Rightarrow> x | None \<Rightarrow> no_pending_tool);
          ss1 = (if found \<noteq> None then ss\<lparr>ss_pending := filter (\<lambda>(k, x). k \<noteq> sc_call ch) (ss_pending ss)\<rparr> else ss);
          ag = resolve_tool_result_agent_id ss (pt_slug t) (sc_agent ch);
          c1 = emit (EvAgentTool (ss_ws ss) ag (pt_tool t) ''done'' (sc_call ch) (pt_query t)
                       (build_wire_args (pt_tool t) (pt_args t))) c;
          c2 = (if pt_message t \<noteq> '''' then fst (message_update_tool_state (pt_message t) ''completed'' c1) else c1)
      in if pt_tool t = ToolTransferToAgent then handle_transfer_to_agent t (ss1, c2) else (ss1, c2))"

definition handle_chunk :: "stream_chunk \<Rightarrow> stream_state \<Rightarrow> stream_state" where
  "handle_chunk ch s = (case sc_type ch of
     ChunkText \<Rightarrow> handle_text ch s
   | ChunkThinking \<Rightarrow> handle_text ch s
   | ChunkToolCall \<Rightarrow> handle_tool_call ch (fst (resolve_stream (sc_agent ch) s))
   | ChunkToolResult \<Rightarrow> handle_tool_result ch s
   | ChunkDone \<Rightarrow> handle_done ch s
   | ChunkUsage \<Rightarrow> handle_usage ch s
   | ChunkOther \<Rightarrow> s)"

definition process_stream :: "stream_chunk list \<Rightarrow> stream_state \<Rightarrow> stream_state" where
  "process_stream chunks s = fold handle_chunk chunks s"

section \<open>Finalisation\<close>

text \<open>Message and conversation are saved in one transaction; a failure is logged and gives no reply.\<close>

definition finalize_message :: "stream_session \<Rightarrow> chat_message \<Rightarrow> string \<Rightarrow> msg_status \<Rightarrow> chat \<Rightarrow> chat \<times> chat_message option" where
  "finalize_message ss ph txt0 st c =
     (let m = ph\<lparr>m_text := txt0, m_status := st, m_updated := ch_now c\<rparr>;
          cv = (ss_conv ss)\<lparr>cv_updated := ch_now c\<rparr>
      in case with_transaction ''finalize stream message''
                (chat_bind (message_save m) (\<lambda>_. chat_bind (conversation_save cv) (\<lambda>_ c. (c, Inr ())))) c of
           (c1, Inl e) \<Rightarrow> (c1, None)
         | (c1, Inr _) \<Rightarrow>
             (emit (EvMessageNew (ss_ws ss) m (case m_agent m of Some a \<Rightarrow> by_id (ss_roster ss) a | None \<Rightarrow> None)) c1, Some m))"

definition final_status :: "stream_session \<Rightarrow> sub_stream \<Rightarrow> string \<Rightarrow> msg_status" where
  "final_status ss st t =
     (if t = agentSilentResponse then MsgSilent
      else if \<not> (st_done st \<or> ss_global_done ss) then MsgIncomplete else MsgDelivered)"

definition finalize_stream :: "stream_session \<Rightarrow> sub_stream \<Rightarrow> chat \<Rightarrow> chat \<times> chat_message option" where
  "finalize_stream ss st c =
     (let t = trim_space (st_accumulated st); i = m_id (st_placeholder st); a = ag_id (st_agent st) in
      if t = '''' then
        (let c1 = fst (message_delete i c);
             c2 = emit (EvMessageDone (ss_ws ss) i a MsgSilent) c1
         in (emit (EvAgentStatus (ss_ws ss) a ''online'') c2, None))
      else
        (let status = final_status ss st t;
             (c1, reply) = finalize_message ss (st_placeholder st) (if status = MsgSilent then '''' else t) status c;
             c2 = emit (EvMessageDone (ss_ws ss) i a status) c1
         in (emit (EvAgentStatus (ss_ws ss) a ''online'') c2, reply)))"

definition first_sub_agent :: "stream_session \<Rightarrow> agent option" where
  "first_sub_agent ss =
     (case find (\<lambda>k. k \<noteq> ag_id (ss_primary ss)) (sort (map fst (ss_streams ss))) of
        None \<Rightarrow> None
      | Some k \<Rightarrow> map_option st_agent (map_of (ss_streams ss) k))"

definition finalize_primary_delegation :: "stream_session \<Rightarrow> sub_stream \<Rightarrow> chat \<Rightarrow> chat \<times> chat_message option" where
  "finalize_primary_delegation ss st c =
     (let t = trim_space (st_accumulated st);
          ph = (st_placeholder st)\<lparr>m_type := CtDelegation, m_from := ag_id (ss_primary ss),
                 m_to := (case first_sub_agent ss of Some a \<Rightarrow> ag_id a | None \<Rightarrow> ''''),
                 m_content_status := ''completed'', m_preview := truncate_text t taskPreviewMaxRunes\<rparr>;
          (c1, reply) = finalize_message ss ph t MsgDelegated c
      in (emit (EvAgentStatus (ss_ws ss) (ag_id (ss_primary ss)) ''online'') c1, reply))"

definition with_reply :: "(chat \<Rightarrow> chat \<times> chat_message option) \<Rightarrow> chat \<times> chat_message list \<Rightarrow> chat \<times> chat_message list" where
  "with_reply f cr = (case f (fst cr) of (c, r) \<Rightarrow> (c, snd cr @ (case r of None \<Rightarrow> [] | Some m \<Rightarrow> [m])))"

text \<open>\<open>ord\<close> and \<open>ord'\<close> are the orders in which the two loops see the map of streams.\<close>

definition finalize ::
  "stream_session \<Rightarrow> (string \<times> sub_stream) list \<Rightarrow> (string \<times> sub_stream) list \<Rightarrow> chat \<Rightarrow> chat \<times> chat_message list" where
  "finalize ss ord ord' c =
     (let p = ag_id (ss_primary ss); many = (1 < length (ss_streams ss));
          s1 = (case map_of (ss_streams ss) p of
                  Some st \<Rightarrow> if many then with_reply (finalize_primary_delegation ss st) (c, []) else (c, [])
                | None \<Rightarrow> (c, []));
          s2 = fold (\<lambda>(k, st) cr. if ag_id (st_agent st) = p \<and> many then cr else with_reply (finalize_stream ss st) cr) ord s1;
          c3 = fold (\<lambda>(k, st) c. if ag_id (st_agent st) = p then c
                      else emit (EvDelegation (ss_ws ss) p (ag_id (st_agent st)) ''completed'' (m_id (st_placeholder st))) c)
                 ord' (fst s2)
      in (c3, snd s2))"

section \<open>A call\<close>

record stream_call =
  sl_ws :: string
  sl_user :: string
  sl_conv :: conversation
  sl_roster :: "agent list"
  sl_user_message :: string
  sl_local :: string
  sl_delivered_once :: bool
  sl_read_once :: bool

definition new_stream_session :: "stream_call \<Rightarrow> agent \<Rightarrow> chat_message \<Rightarrow> stream_session" where
  "new_stream_session so ag ph =
     \<lparr>ss_ws = sl_ws so, ss_user = sl_user so, ss_conv = sl_conv so, ss_primary = ag, ss_roster = sl_roster so,
      ss_streams = [(ag_id ag, \<lparr>st_agent = ag, st_placeholder = ph, st_accumulated = '''', st_chunks = 0,
                                 st_first = True, st_done = False\<rparr>)],
      ss_pending = [], ss_user_message = sl_user_message so, ss_local = sl_local so,
      ss_delivered_once = sl_delivered_once so, ss_read_once = sl_read_once so,
      ss_total = 0, ss_global_done = False, ss_first = True\<rparr>"

text \<open>\<open>order\<close> picks the orders of the two loops of \<^const>\<open>finalize\<close>.\<close>

definition call_agent_streaming ::
  "(gerror + stream_chunk list) \<Rightarrow> ((string \<times> sub_stream) list \<Rightarrow> (string \<times> sub_stream) list \<times> (string \<times> sub_stream) list)
   \<Rightarrow> stream_call \<Rightarrow> agent option \<Rightarrow> (chat_message list) chat_call" where
  "call_agent_streaming runtime order so ago c =
     (case ago of
        None \<Rightarrow> (c, Inl ErrAgentNotFound)
      | Some ag \<Rightarrow>
          (let c1 = emit (EvAgentStatus (sl_ws so) (ag_id ag) ''thinking'') c;
               (c2, ph) = new_placeholder (cv_id (sl_conv so)) ag c1
           in case save_placeholder ph c2 of
                (c3, Inl e) \<Rightarrow> (emit (EvAgentStatus (sl_ws so) (ag_id ag) ''error'') c3, Inl e)
              | (c3, Inr _) \<Rightarrow>
                  (case runtime of
                     Inl e \<Rightarrow>
                       (emit (EvAgentStatus (sl_ws so) (ag_id ag) ''error'') (fst (message_delete (m_id ph) c3)), Inl e)
                   | Inr chunks \<Rightarrow>
                       (let (ss, c4) = process_stream chunks (emit_delivered (new_stream_session so ag ph, c3));
                            (c5, replies) = finalize ss (fst (order (ss_streams ss))) (snd (order (ss_streams ss))) c4
                        in (c5, Inr replies)))))"

end
