(* ===== verification/Stream_Props.thy ===== *)
theory Stream_Props
  imports Stream
begin

text \<open>
  What the streaming reply guarantees: the text a client sees streaming is the text that is stored,
  and no placeholder is left pending when no statement fails.
\<close>

section \<open>The bookkeeping of the streams\<close>

definition pid :: "sub_stream \<Rightarrow> string" where "pid st = m_id (st_placeholder st)"

fun chunk_of :: "string \<Rightarrow> chat_event \<Rightarrow> string" where
  "chunk_of i (EvMessageChunk ws j a d) = (if j = i then d else '''')"
| "chunk_of i e = ''''"

text \<open>The text the client has seen streaming into message \<open>i\<close>.\<close>

definition streamed :: "string \<Rightarrow> chat_event list \<Rightarrow> string" where
  "streamed i evs = concat (map (chunk_of i) evs)"

definition no_chunk :: "chat_event \<Rightarrow> bool" where "no_chunk e \<longleftrightarrow> (\<forall>i. chunk_of i e = '''')"

lemma no_chunk_simps [simp]:
  "no_chunk (EvMessageNew a m found)" "no_chunk (EvMessageStatus a b i st)" "no_chunk (EvMessageDone a b i st)"
  "no_chunk (EvAgentStatus a b i)" "no_chunk (EvAgentTool a b i d e f g)" "no_chunk (EvDelegation a b i d e)"
  "no_chunk (EvUsage a b i n)"
  by (simp_all add: no_chunk_def)

lemma streamed_append [simp]: "streamed i (xs @ ys) = streamed i xs @ streamed i ys"
  by (simp add: streamed_def)

lemma streamed_one [simp]: "no_chunk e \<Longrightarrow> streamed i [e] = ''''" "streamed i [] = ''''"
  by (simp_all add: streamed_def no_chunk_def)

lemma streamed_chunk [simp]: "streamed i [EvMessageChunk ws j a d] = (if j = i then d else '''')"
  by (simp add: streamed_def)

text \<open>
  The invariant: one stream per agent, the primary among them, each with a placeholder of its own
  whose id was drawn before, and what was streamed since \<open>E\<close> to a placeholder is what its stream
  has accumulated; nothing was streamed to another message.
\<close>

definition sound_parts ::
  "chat_event list \<Rightarrow> string \<Rightarrow> (string \<times> sub_stream) list \<Rightarrow> nat \<Rightarrow> (nat \<Rightarrow> string) \<Rightarrow> chat_event list \<Rightarrow> bool" where
  "sound_parts E p sts u us ev \<longleftrightarrow>
     distinct (map fst sts) \<and> distinct (map (pid \<circ> snd) sts) \<and> map (ag_id \<circ> st_agent \<circ> snd) sts = map fst sts
     \<and> p \<in> fst ` set sts \<and> (pid \<circ> snd) ` set sts \<subseteq> us ` {..<u} \<and> inj us
     \<and> (\<exists>evs. ev = E @ evs \<and> (\<forall>x \<in> set sts. streamed (pid (snd x)) evs = st_accumulated (snd x))
          \<and> (\<forall>i. i \<notin> (pid \<circ> snd) ` set sts \<longrightarrow> streamed i evs = ''''))"

definition sound :: "chat \<Rightarrow> stream_state \<Rightarrow> bool" where
  "sound E s \<longleftrightarrow> ch_uuids (snd s) = ch_uuids E \<and> sound_parts (ch_events E) (ag_id (ss_primary (fst s))) (ss_streams (fst s)) (ch_uuid (snd s)) (ch_uuids E) (ch_events (snd s))"

lemma sound_partsE:
  assumes "sound_parts E p sts u us ev"
  obtains evs where "ev = E @ evs" "\<And>x. x \<in> set sts \<Longrightarrow> streamed (pid (snd x)) evs = st_accumulated (snd x)"
    "\<And>i. i \<notin> (pid \<circ> snd) ` set sts \<Longrightarrow> streamed i evs = ''''"
  using assms unfolding sound_parts_def by blast

lemma sound_partsI:
  assumes "sound_parts E p sts u us ev"
    and "map fst sts' = map fst sts" "map (pid \<circ> snd) sts' = map (pid \<circ> snd) sts"
    and "map (ag_id \<circ> st_agent \<circ> snd) sts' = map (ag_id \<circ> st_agent \<circ> snd) sts"
    and "ev' = E @ evs'" "\<And>x. x \<in> set sts' \<Longrightarrow> streamed (pid (snd x)) evs' = st_accumulated (snd x)"
    and "\<And>i. i \<notin> (pid \<circ> snd) ` set sts \<Longrightarrow> streamed i evs' = ''''"
  shows "sound_parts E p sts' u us ev'"
proof -
  have img: "(pid \<circ> snd) ` set sts' = (pid \<circ> snd) ` set sts" "fst ` set sts' = fst ` set sts"
    using assms(2,3) by (metis list.set_map)+
  show ?thesis
    using assms(1) unfolding sound_parts_def assms(2-4) img using assms(5-7) by blast
qed

lemma sound_event:
  assumes "sound_parts E p sts u us ev" "no_chunk e"
  shows "sound_parts E p sts u us (ev @ [e])"
proof -
  obtain evs where e: "ev = E @ evs" "\<And>x. x \<in> set sts \<Longrightarrow> streamed (pid (snd x)) evs = st_accumulated (snd x)"
    "\<And>i. i \<notin> (pid \<circ> snd) ` set sts \<Longrightarrow> streamed i evs = ''''"
    using sound_partsE [OF assms(1)] by blast
  show ?thesis
    by (rule sound_partsI [OF assms(1), of _ _ "evs @ [e]"]) (use e assms(2) in auto)
qed

lemma sound_event2:
  "sound_parts E p sts u us ev \<Longrightarrow> no_chunk e \<Longrightarrow> no_chunk e' \<Longrightarrow> sound_parts E p sts u us (ev @ [e, e'])"
  using sound_event [OF sound_event] by fastforce

lemma sound_draw: "sound_parts E p sts u us ev \<Longrightarrow> sound_parts E p sts (Suc u) us ev"
  unfolding sound_parts_def lessThan_Suc by blast

lemma upd_stream_fst [simp]: "map fst (upd_stream k f xs) = map fst xs"
  by (induction xs) (auto simp: upd_stream_def)

lemma upd_stream_map: "(\<And>st. g (f st) = g st) \<Longrightarrow> map (g \<circ> snd) (upd_stream k f xs) = map (g \<circ> snd) xs"
  by (induction xs) (auto simp: upd_stream_def)

lemma upd_stream_memE:
  assumes "x \<in> set (upd_stream k f xs)"
  obtains st where "(fst x, st) \<in> set xs" "snd x = (if fst x = k then f st else st)"
  using assms by (force simp: upd_stream_def)

text \<open>Updates of the flags and counters.\<close>

lemma sound_upd:
  assumes f: "\<And>st. st_agent (f st) = st_agent st \<and> st_placeholder (f st) = st_placeholder st \<and> st_accumulated (f st) = st_accumulated st"
    and s: "sound_parts E p sts u us ev"
  shows "sound_parts E p (upd_stream k f sts) u us ev"
proof -
  obtain evs where e: "ev = E @ evs" "\<And>x. x \<in> set sts \<Longrightarrow> streamed (pid (snd x)) evs = st_accumulated (snd x)"
    "\<And>i. i \<notin> (pid \<circ> snd) ` set sts \<Longrightarrow> streamed i evs = ''''"
    using sound_partsE [OF s] by blast
  have "streamed (pid (snd x)) evs = st_accumulated (snd x)" if x: "x \<in> set (upd_stream k f sts)" for x
  proof -
    obtain st where st: "(fst x, st) \<in> set sts" "snd x = (if fst x = k then f st else st)" by (rule upd_stream_memE [OF x])
    then show ?thesis using e(2) [OF st(1)] f by (simp add: pid_def)
  qed
  moreover have "pid (f st) = pid st" "(ag_id \<circ> st_agent) (f st) = (ag_id \<circ> st_agent) st" for st using f by (simp_all add: pid_def)
  ultimately show ?thesis
    using e by (intro sound_partsI [OF s, where evs' = evs] upd_stream_fst upd_stream_map) auto
qed

text \<open>A chunk: its text goes to one stream and is streamed to that stream's placeholder.\<close>

lemma sound_chunk:
  assumes s: "sound_parts E p sts u us ev" and k: "map_of sts k = Some st"
    and f: "\<And>st. st_agent (f st) = st_agent st \<and> st_placeholder (f st) = st_placeholder st
        \<and> st_accumulated (f st) = st_accumulated st @ d"
  shows "sound_parts E p (upd_stream k f sts) u us (ev @ [EvMessageChunk ws (pid st) a d])"
proof -
  have m: "(k, st) \<in> set sts" using k by (rule map_of_SomeD)
  have d: "distinct (map fst sts)" "inj_on (pid \<circ> snd) (set sts)" using s by (auto simp: sound_parts_def distinct_map)
  have one: "pid st' \<noteq> pid st" if "(k', st') \<in> set sts" "k' \<noteq> k" for k' st'
    using inj_onD [OF d(2), of "(k', st')" "(k, st)"] that m by auto
  have same: "st' = st" if "(k, st') \<in> set sts" for st' using d(1) that m by (meson eq_key_imp_eq_value)
  obtain evs where e: "ev = E @ evs" "\<And>x. x \<in> set sts \<Longrightarrow> streamed (pid (snd x)) evs = st_accumulated (snd x)"
    "\<And>i. i \<notin> (pid \<circ> snd) ` set sts \<Longrightarrow> streamed i evs = ''''"
    using sound_partsE [OF s] by blast
  let ?e = "evs @ [EvMessageChunk ws (pid st) a d]"
  have "streamed (pid (snd x)) ?e = st_accumulated (snd x)" if x: "x \<in> set (upd_stream k f sts)" for x
  proof -
    obtain st' where st': "(fst x, st') \<in> set sts" "snd x = (if fst x = k then f st' else st')"
      by (rule upd_stream_memE [OF x])
    show ?thesis
    proof (cases "fst x = k")
      case True
      then show ?thesis using st' same e(2) [OF st'(1)] f by (simp add: pid_def)
    next
      case False
      then show ?thesis using st' one [OF st'(1) False] e(2) [OF st'(1)] by simp
    qed
  qed
  moreover have "streamed i ?e = ''''" if "i \<notin> (pid \<circ> snd) ` set sts" for i
  proof -
    have "pid st \<noteq> i" using that m by force
    then show ?thesis using e(3) [OF that] by simp
  qed
  moreover have "pid (f st) = pid st" "(ag_id \<circ> st_agent) (f st) = (ag_id \<circ> st_agent) st" for st using f by (simp_all add: pid_def)
  ultimately show ?thesis
    using e(1) by (intro sound_partsI [OF s, where evs' = ?e] upd_stream_fst upd_stream_map) auto
qed

text \<open>A new stream whose placeholder has a fresh id.\<close>

lemma sound_create:
  assumes s: "sound_parts E p sts u us ev" and new: "k \<notin> fst ` set sts"
    and st: "ag_id (st_agent st) = k" "pid st = us u" "st_accumulated st = ''''"
  shows "sound_parts E p (sts @ [(k, st)]) (Suc u) us ev"
proof -
  obtain evs where e: "ev = E @ evs" "\<And>x. x \<in> set sts \<Longrightarrow> streamed (pid (snd x)) evs = st_accumulated (snd x)"
    "\<And>i. i \<notin> (pid \<circ> snd) ` set sts \<Longrightarrow> streamed i evs = ''''"
    using sound_partsE [OF s] by blast
  have i: "inj us" and old: "(pid \<circ> snd) ` set sts \<subseteq> us ` {..<u}" using s by (auto simp: sound_parts_def)
  have fresh: "us u \<notin> (pid \<circ> snd) ` set sts"
    using old i by (auto simp: inj_def)
  then have "streamed (us u) evs = ''''" using e(3) by blast
  then have "\<exists>evs. ev = E @ evs \<and> (\<forall>x \<in> set (sts @ [(k, st)]). streamed (pid (snd x)) evs = st_accumulated (snd x))
          \<and> (\<forall>i. i \<notin> (pid \<circ> snd) ` set (sts @ [(k, st)]) \<longrightarrow> streamed i evs = '''')"
    using e st by (intro exI [of _ evs]) auto
  moreover have "(pid \<circ> snd) ` set (sts @ [(k, st)]) \<subseteq> us ` {..<Suc u}"
    using old st(2) by (auto simp: lessThan_Suc)
  moreover have "distinct (map (pid \<circ> snd) (sts @ [(k, st)]))" "distinct (map fst (sts @ [(k, st)]))"
    using s new fresh st(2) by (auto simp: sound_parts_def)
  moreover have "map (ag_id \<circ> st_agent \<circ> snd) (sts @ [(k, st)]) = map fst (sts @ [(k, st)])"
    using s st(1) by (simp add: sound_parts_def)
  moreover have "p \<in> fst ` set (sts @ [(k, st)])" "inj us" using s by (auto simp: sound_parts_def)
  ultimately show ?thesis unfolding sound_parts_def by blast
qed

section \<open>Statements draw no id and broadcast nothing\<close>

definition same_ev :: "chat \<Rightarrow> chat \<Rightarrow> bool" where
  "same_ev c c' \<longleftrightarrow> ch_events c' = ch_events c \<and> ch_uuid c' = ch_uuid c \<and> ch_uuids c' = ch_uuids c"

lemma same_ev_trans: "same_ev a b \<Longrightarrow> same_ev b c \<Longrightarrow> same_ev a c"
  by (simp add: same_ev_def)

lemma same_ev_stmt:
  "(\<And>c. ch_events (f c) = ch_events c \<and> ch_uuid (f c) = ch_uuid c \<and> ch_uuids (f c) = ch_uuids c)
   \<Longrightarrow> same_ev c (fst (stmt m q f c))"
  by (simp add: stmt_def Let_def same_ev_def)

lemma same_ev_ops [simp]:
  "same_ev c (fst (message_save m c))" "same_ev c (fst (conversation_save v c))" "same_ev c (fst (message_delete i c))"
  "same_ev c (fst (message_update_status i st c))" "same_ev c (fst (message_update_tool_state i t c))"
  by (auto simp: message_save_def conversation_save_def message_delete_def message_update_status_def
      message_update_tool_state_def update_where_def stmt_def Let_def same_ev_def)

lemma same_ev_transaction:
  assumes "\<And>c. same_ev c (fst (fn c))"
  shows "same_ev c (fst (with_transaction op fn c))"
proof -
  define bm cm where msgs: "bm = ''begin '' @ op @ '' transaction''" "cm = ''commit '' @ op @ '' transaction''"
  obtain c1 r1 where b: "stmt bm (\<lambda>c. ()) id c = (c1, r1)" by fastforce
  obtain c2 r2 where f: "fn c1 = (c2, r2)" by fastforce
  obtain c3 r3 where m: "stmt cm (\<lambda>c. ()) id c2 = (c3, r3)" by fastforce
  have s: "same_ev c c1" "same_ev c1 c2" "same_ev c2 c3"
    using same_ev_stmt [of id c bm "\<lambda>c. ()"] same_ev_stmt [of id c2 cm "\<lambda>c. ()"] assms [of c1] by (simp_all add: b f m)
  show ?thesis
    unfolding with_transaction_def msgs [symmetric] using s
    by (cases r1; cases r2; cases r3) (simp_all add: b f m same_ev_def rollback_def)
qed

lemma same_ev_placeholder [simp]: "same_ev c (fst (save_placeholder m c))"
  unfolding save_placeholder_def by (rule same_ev_transaction) simp

lemma same_ev_fst: "same_ev c (fst p) \<Longrightarrow> p = (c', r) \<Longrightarrow> same_ev c c'"
  by simp

lemma sound_same_ev: "sound E (ss, c) \<Longrightarrow> same_ev c c' \<Longrightarrow> sound E (ss, c')"
  by (simp add: sound_def same_ev_def)

lemma sound_emit: "sound E (ss, c) \<Longrightarrow> no_chunk e \<Longrightarrow> sound E (ss, emit e c)"
  by (simp add: sound_def emit_def sound_event)

lemma sound_emits: "sound E s \<Longrightarrow> no_chunk e \<Longrightarrow> sound E (emits e s)"
  by (cases s) (simp add: emits_def sound_emit)

lemma sound_session:
  "sound E (ss, c) \<Longrightarrow> ss_streams ss' = ss_streams ss \<Longrightarrow> ss_primary ss' = ss_primary ss \<Longrightarrow> sound E (ss', c)"
  by (simp add: sound_def)

lemma sound_new_message:
  assumes "sound E (ss, c)" "new_message conv role ty st ag c = (c', m)"
  shows "sound E (ss, c')" "m_id m = ch_uuids c (ch_uuid c)" "ch_uuid c' = Suc (ch_uuid c)" "ch_uuids c' = ch_uuids c"
    "ch_events c' = ch_events c" "m_conv m = conv" "m_status m = st" "m_agent m = ag"
  using assms by (auto simp: new_message_def new_uuid_def sound_def sound_draw)

lemma resolve_stream_sound:
  assumes "sound E s" "resolve_stream slug s = (s', k)"
  shows "sound E s' \<and> k \<in> fst ` set (ss_streams (fst s')) \<and> ss_primary (fst s') = ss_primary (fst s)"
proof -
  obtain ss c where s: "s = (ss, c)" by fastforce
  have p: "ag_id (ss_primary ss) \<in> fst ` set (ss_streams ss)" using assms(1) by (simp add: s sound_def sound_parts_def)
  show ?thesis
  proof (cases "slug = '''' \<or> slug = ag_slug (ss_primary ss) \<or> by_slug (ss_roster ss) slug = None")
    case True
    then have "s' = s \<and> k = ag_id (ss_primary ss)"
      using assms(2) by (auto simp: resolve_stream_def s Let_def split: if_splits)
    then show ?thesis using assms(1) p s by simp
  next
    case False
    then obtain sub where sub: "by_slug (ss_roster ss) slug = Some sub" by blast
    show ?thesis
    proof (cases "map_of (ss_streams ss) (ag_id sub) = None")
      case False
      then have "ag_id sub \<in> fst ` set (ss_streams ss)" by (simp add: map_of_eq_None_iff)
      moreover have "s' = s \<and> k = ag_id sub"
        using assms(2) False \<open>\<not> (_ \<or> _)\<close> sub by (auto simp: resolve_stream_def s Let_def)
      ultimately show ?thesis using assms(1) s by simp
    next
      case True
      obtain c1 ph where n: "new_placeholder (conv_id ss) sub c = (c1, ph)" by fastforce
      obtain c2 r where sv: "save_placeholder ph c1 = (c2, r)" by fastforce
      have cr: "create_sub_agent_stream sub s = (s', k)"
        using assms(2) \<open>\<not> (_ \<or> _)\<close> sub True by (simp add: resolve_stream_def s Let_def)
      note nm = sound_new_message [OF assms(1) [unfolded s] n [unfolded new_placeholder_def]]
      have s2: "sound E (ss, c2)" using sound_same_ev [OF nm(1) same_ev_fst [OF same_ev_placeholder sv]] .
      have new: "ag_id sub \<notin> fst ` set (ss_streams ss)" using True by (simp add: map_of_eq_None_iff)
      define st where "st = \<lparr>st_agent = sub, st_placeholder = ph, st_accumulated = '''', st_chunks = 0, st_first = True, st_done = False\<rparr>"
      have "sound_parts (ch_events E) (ag_id (ss_primary ss)) (ss_streams ss @ [(ag_id sub, st)]) (Suc (ch_uuid c)) (ch_uuids E) (ch_events c)"
        using assms(1) new nm(2) by (intro sound_create) (simp_all add: s sound_def st_def pid_def)
      then have s3: "sound E (ss\<lparr>ss_streams := ss_streams ss @ [(ag_id sub, st)]\<rparr>, c2)"
        using same_ev_fst [OF same_ev_placeholder sv] nm by (simp add: sound_def same_ev_def)
      show ?thesis
      proof (cases r)
        case (Inl e)
        then show ?thesis using cr s2 p by (auto simp: create_sub_agent_stream_def s n sv Let_def)
      next
        case (Inr x)
        then show ?thesis
          using cr s3 by (auto simp: create_sub_agent_stream_def s n sv Let_def st_def [symmetric] sound_emit)
      qed
    qed
  qed
qed

lemma emit_read_sound: "sound E s \<Longrightarrow> sound E (emit_read s)"
  by (cases s) (auto simp: emit_read_def Let_def sound_def emit_def sound_event)

lemma emit_delivered_sound: "sound E s \<Longrightarrow> sound E (emit_delivered s)"
  by (cases s) (auto simp: emit_delivered_def Let_def intro!: sound_same_ev [OF _ same_ev_ops(4)] sound_emit intro: sound_session)

lemma note_first_chunk_sound: "sound E s \<Longrightarrow> sound E (note_first_chunk s)"
  using emit_read_sound [of E s] by (auto simp: note_first_chunk_def split: prod.splits intro: sound_session)

lemma upd_stream_lookup: "map_of (upd_stream k f xs) k = map_option f (map_of xs k)"
  by (induction xs) (auto simp: upd_stream_def)

lemma note_writing_sound:
  assumes "sound E s" "map_of (ss_streams (fst s)) k = Some st"
  shows "sound E (note_writing k st s)"
    "\<exists>st'. map_of (ss_streams (fst (note_writing k st s))) k = Some st' \<and> pid st' = pid st"
    "ss_ws (fst (note_writing k st s)) = ss_ws (fst s)"
  using assms sound_upd [of "\<lambda>st. st\<lparr>st_first := False\<rparr>"] sound_emits [OF assms(1)]
  by (auto simp: note_writing_def on_stream_def sound_def emits_def upd_stream_lookup pid_def)

lemma append_chunk_sound:
  assumes "sound E s"
  shows "sound E (append_chunk ch k s)"
proof (cases "map_of (ss_streams (fst s)) k")
  case None
  then show ?thesis using assms by (simp add: append_chunk_def)
next
  case (Some st)
  define w where "w = note_writing k st s"
  obtain st' where w: "sound E w" "map_of (ss_streams (fst w)) k = Some st'" "pid st' = pid st"
    using note_writing_sound [OF assms Some] w_def by auto
  have "sound_parts (ch_events E) (ag_id (ss_primary (fst w)))
     (upd_stream k (\<lambda>st. st\<lparr>st_accumulated := st_accumulated st @ sc_delta ch, st_chunks := Suc (st_chunks st)\<rparr>) (ss_streams (fst w)))
     (ch_uuid (snd w)) (ch_uuids E) (ch_events (snd w) @ [EvMessageChunk (ss_ws (fst w)) (pid st') (ag_id (st_agent st)) (sc_delta ch)])"
    using w by (intro sound_chunk) (auto simp: sound_def)
  then show ?thesis
    using w(1,3) by (simp add: append_chunk_def Some w_def [symmetric] on_stream_def sound_def emit_def pid_def)
qed

lemma handle_text_sound: "sound E s \<Longrightarrow> sound E (handle_text ch s)"
  by (cases "resolve_stream (sc_agent ch) s")
    (simp add: handle_text_def append_chunk_sound note_first_chunk_sound resolve_stream_sound)

lemma handle_done_sound: 
  assumes "sound E s"
  shows "sound E (handle_done ch s)"
proof (cases "sc_agent ch = ''''")
  case True
  have "sound_parts F p (map (\<lambda>(k, st). (k, st\<lparr>st_done := True\<rparr>)) sts) u us ev" if q: "sound_parts F p sts u us ev" for F p sts u us ev
  proof -
    obtain evs where e: "ev = F @ evs" "\<And>x. x \<in> set sts \<Longrightarrow> streamed (pid (snd x)) evs = st_accumulated (snd x)"
      "\<And>i. i \<notin> (pid \<circ> snd) ` set sts \<Longrightarrow> streamed i evs = ''''"
      using sound_partsE [OF q] by blast
    show ?thesis
      by (rule sound_partsI [OF q, where evs' = evs]) (use e in \<open>auto simp: pid_def comp_def case_prod_beta\<close>)
  qed
  then show ?thesis using assms True by (simp add: handle_done_def sound_def)
next
  case False
  obtain s1 k where r: "resolve_stream (sc_agent ch) s = (s1, k)" by fastforce
  have "sound E s1" using resolve_stream_sound [OF assms r] by simp
  then show ?thesis
    using False sound_upd [of "\<lambda>st. st\<lparr>st_done := True\<rparr>"] by (auto simp: handle_done_def r Let_def on_stream_def sound_def)
qed

lemma handle_usage_sound: "sound E s \<Longrightarrow> sound E (handle_usage ch s)"
  by (cases s) (auto simp: handle_usage_def Let_def sound_def stmt_def emit_def sound_event)

lemma handle_tool_call_sound:
  assumes "sound E s"
  shows "sound E (handle_tool_call ch s)"
proof -
  obtain ss c where s: "s = (ss, c)" by fastforce
  obtain ca m where n: "new_tool_status_message ss (resolve_tool_agent_id ss (sc_agent ch)) (sc_tool ch) (sc_args ch) c = (ca, m)"
    by fastforce
  obtain cb r where sv: "save_placeholder m ca = (cb, r)" by fastforce
  obtain m0 where n0: "new_message (conv_id ss) RoleAgent CtToolStatus MsgDelivered (Some (resolve_tool_agent_id ss (sc_agent ch))) c = (ca, m0)"
    using n by (auto simp: new_tool_status_message_def split: prod.splits)
  have a: "sound E (ss, cb)"
    using sound_same_ev [OF sound_new_message(1) [OF assms [unfolded s] n0] same_ev_fst [OF same_ev_placeholder sv]] .
  show ?thesis
    using assms a by (cases r) (auto simp: handle_tool_call_def s n sv Let_def sound_def emit_def sound_event sound_event2)
qed

lemma handle_tool_result_sound: "sound E s \<Longrightarrow> sound E (handle_tool_result ch s)"
proof -
  assume a: "sound E s"
  obtain ss c where s: "s = (ss, c)" by fastforce
  have b: "sound E (ss', fst (message_update_tool_state i t (emit e c)))" "sound E (ss', emit e c)"
    if "no_chunk e" "ss_streams ss' = ss_streams ss" "ss_primary ss' = ss_primary ss" for e i t ss'
    using sound_same_ev [OF sound_session [OF sound_emit [OF a [unfolded s] that(1)] that(2,3)] same_ev_ops(5)]
      sound_session [OF sound_emit [OF a [unfolded s] that(1)] that(2,3)] by simp_all
  have t: "sound E (handle_transfer_to_agent t s)" if "sound E s" for t s
    using sound_emits [OF that] that by (auto simp: handle_transfer_to_agent_def split: option.splits)
  show ?thesis
    unfolding handle_tool_result_def s Let_def prod.case
    by (simp only: split: if_splits) (auto intro!: t b)
qed

lemma process_stream_sound: "sound E s \<Longrightarrow> sound E (process_stream chunks s)"
proof -
  have "sound E (handle_chunk ch s)" if "sound E s" for ch s
    using that handle_text_sound handle_done_sound handle_usage_sound handle_tool_result_sound
      handle_tool_call_sound [of E "fst (resolve_stream (sc_agent ch) s)" ch] resolve_stream_sound [of E s "sc_agent ch"]
    by (auto simp: handle_chunk_def split: chunk_type.splits) (metis prod.collapse)
  then show "sound E s \<Longrightarrow> sound E (process_stream chunks s)"
    using fold_invariant_list [of "sound E" s chunks handle_chunk] by (simp add: process_stream_def)
qed

section \<open>What finalisation does to the tables\<close>

definition quiet :: "chat \<Rightarrow> chat \<Rightarrow> bool" where
  "quiet c c' \<longleftrightarrow> (\<exists>es. ch_events c' = ch_events c @ es \<and> list_all no_chunk es)"

lemma quiet_refl [simp]: "quiet c c"
  by (auto simp: quiet_def)

lemma quiet_trans: "quiet a b \<Longrightarrow> quiet b c \<Longrightarrow> quiet a c"
  by (fastforce simp: quiet_def)

lemma quiet_emit: "quiet a b \<Longrightarrow> no_chunk e \<Longrightarrow> quiet a (emit e b)"
  by (fastforce simp: quiet_def emit_def)

lemma quiet_same_ev: "quiet a b \<Longrightarrow> same_ev b c \<Longrightarrow> quiet a c"
  by (simp add: quiet_def same_ev_def)

lemma streamed_no_chunks: "list_all no_chunk es \<Longrightarrow> streamed i es = ''''"
  by (induction es) (auto simp: streamed_def no_chunk_def)

lemma quiet_streamed: "quiet c c' \<Longrightarrow> streamed i (ch_events c') = streamed i (ch_events c)"
  by (auto simp: quiet_def streamed_no_chunks)

definition save_final :: "chat_message \<Rightarrow> conversation \<Rightarrow> unit chat_call" where
  "save_final m cv = chat_bind (message_save m) (\<lambda>_. chat_bind (conversation_save cv) (\<lambda>_ c. (c, Inr ())))"

lemma save_final_same_ev: "same_ev c (fst (save_final m cv c))"
proof -
  obtain c1 r1 where 1: "message_save m c = (c1, r1)" by fastforce
  obtain c2 r2 where 2: "conversation_save cv c1 = (c2, r2)" by fastforce
  have "same_ev c c1" "same_ev c1 c2" using same_ev_ops(1) [of c m] same_ev_ops(2) [of c1 cv] 1 2 by simp_all
  then show ?thesis by (cases r1; cases r2) (auto simp: save_final_def chat_bind_def 1 2 same_ev_def)
qed

lemma save_final_ok:
  assumes "save_final m cv c = (c', Inr ())"
  shows "ch_msgs c' = (ch_msgs c)(m_id m \<mapsto> upserted m (ch_msgs c (m_id m)))"
proof -
  obtain c1 r1 where 1: "message_save m c = (c1, r1)" by fastforce
  obtain x where r: "r1 = Inr x" using assms by (cases r1) (auto simp: save_final_def chat_bind_def 1)
  have "ch_msgs c' = ch_msgs c1"
    using assms by (auto simp: save_final_def chat_bind_def 1 r conversation_save_def stmt_def Let_def split: if_splits)
  then show ?thesis using save_cases(2) [OF 1 [unfolded r]] by simp
qed

text \<open>The row of a reply holds its text and status.\<close>

definition stored :: "chat_message \<Rightarrow> chat \<Rightarrow> bool" where
  "stored r c \<longleftrightarrow> (\<exists>r'. ch_msgs c (m_id r) = Some r' \<and> m_text r' = m_text r \<and> m_status r' = m_status r)"

lemma finalize_message_props:
  assumes "finalize_message ss ph t st c = (c', r)"
  shows "quiet c c'" "j \<noteq> m_id ph \<Longrightarrow> ch_msgs c' j = ch_msgs c j"
    "r = Some m \<Longrightarrow> m_id m = m_id ph \<and> m_text m = t \<and> m_status m = st \<and> m_agent m = m_agent ph \<and> stored m c'"
proof -
  let ?m = "ph\<lparr>m_text := t, m_status := st, m_updated := ch_now c\<rparr>"
  let ?cv = "(ss_conv ss)\<lparr>cv_updated := ch_now c\<rparr>"
  obtain c1 q where w: "with_transaction ''finalize stream message'' (save_final ?m ?cv) c = (c1, q)" by fastforce
  have e: "same_ev c c1"
    using same_ev_transaction [of "save_final ?m ?cv" c "''finalize stream message''"] save_final_same_ev by (simp add: w)
  note f = assms [unfolded finalize_message_def Let_def, folded save_final_def, unfolded w]
  show "quiet c c'"
    using f quiet_same_ev [OF quiet_refl e] by (cases q) (auto intro: quiet_emit)
  have ok: "ch_msgs c1 = (ch_msgs c)(m_id ph \<mapsto> upserted ?m (ch_msgs c (m_id ph)))" if q: "q = Inr u" for u
  proof -
    obtain a b where "same_data c a" "save_final ?m ?cv a = (b, Inr u)" "same_data b c1"
      using with_transaction_ok [OF w [unfolded q]] .
    then show ?thesis using save_final_ok [of ?m ?cv a b] by (simp add: same_data_def)
  qed
  show "ch_msgs c' j = ch_msgs c j" if "j \<noteq> m_id ph"
    using f that ok with_transaction_fails [of "''finalize stream message''" "save_final ?m ?cv" c c1] w
    by (cases q) (auto simp: emit_def)
  show "m_id m = m_id ph \<and> m_text m = t \<and> m_status m = st \<and> m_agent m = m_agent ph \<and> stored m c'" if "r = Some m"
    using f that ok by (cases q) (auto simp: emit_def stored_def upserted_def split: option.splits)
qed

definition text_ok :: "sub_stream \<Rightarrow> chat_message \<Rightarrow> bool" where
  "text_ok st r \<longleftrightarrow> (let t = trim_space (st_accumulated st) in
     m_id r = pid st \<and> m_status r \<in> {MsgDelivered, MsgIncomplete, MsgSilent, MsgDelegated}
     \<and> (if m_status r = MsgSilent then t = agentSilentResponse \<and> m_text r = '''' else m_text r = t))"

lemma finalize_stream_props:
  assumes "finalize_stream ss st c = (c', r)"
  shows "quiet c c'" "j \<noteq> pid st \<Longrightarrow> ch_msgs c' j = ch_msgs c j"
    "r = Some m \<Longrightarrow> text_ok st m \<and> stored m c'"
proof -
  let ?t = "trim_space (st_accumulated st)"
  let ?s = "final_status ss st ?t"
  obtain c1 q where f: "finalize_message ss (st_placeholder st) (if ?s = MsgSilent then '''' else ?t) ?s c = (c1, q)" by fastforce
  note p = finalize_message_props [OF f]
  have d: "quiet c (fst (message_delete (m_id (st_placeholder st)) c))"
    using quiet_same_ev [OF quiet_refl same_ev_ops(3)] .
  show "quiet c c'"
    using assms d p(1) by (auto simp: finalize_stream_def Let_def f split: if_splits intro!: quiet_emit)
  show "ch_msgs c' j = ch_msgs c j" if "j \<noteq> pid st"
    using assms that p(2) [of j] by (auto simp: finalize_stream_def Let_def f pid_def emit_def message_delete_def stmt_def split: if_splits)
  have st: "?s \<in> {MsgDelivered, MsgIncomplete, MsgSilent, MsgDelegated}" "?s = MsgSilent \<longleftrightarrow> ?t = agentSilentResponse"
    by (auto simp: final_status_def)
  show "text_ok st m \<and> stored m c'" if r: "r = Some m"
  proof -
    have n: "?t \<noteq> ''''" using assms r by (auto simp: finalize_stream_def Let_def)
    have a: "ch_msgs c' = ch_msgs c1" "q = Some m"
      using assms r n by (auto simp: finalize_stream_def Let_def f emit_def)
    from p(3) [OF a(2)] have "m_id m = pid st" "m_text m = (if ?s = MsgSilent then '''' else ?t)" "m_status m = ?s" "stored m c1"
      by (simp_all add: pid_def)
    then show ?thesis using st a(1) by (simp add: text_ok_def Let_def stored_def)
  qed
qed

lemma finalize_primary_props:
  assumes "finalize_primary_delegation ss st c = (c', r)"
  shows "quiet c c'" "j \<noteq> pid st \<Longrightarrow> ch_msgs c' j = ch_msgs c j"
    "r = Some m \<Longrightarrow> text_ok st m \<and> stored m c'"
proof -
  let ?t = "trim_space (st_accumulated st)"
  let ?ph = "(st_placeholder st)\<lparr>m_type := CtDelegation, m_from := ag_id (ss_primary ss),
                 m_to := (case first_sub_agent ss of Some a \<Rightarrow> ag_id a | None \<Rightarrow> ''''),
                 m_content_status := ''completed'', m_preview := truncate_text ?t taskPreviewMaxRunes\<rparr>"
  obtain c1 q where f: "finalize_message ss ?ph ?t MsgDelegated c = (c1, q)" by fastforce
  note p = finalize_message_props [OF f]
  note a = assms [unfolded finalize_primary_delegation_def Let_def f prod.case]
  show "quiet c c'" using a p(1) by (auto intro: quiet_emit)
  show "ch_msgs c' j = ch_msgs c j" if "j \<noteq> pid st" using a that p(2) [of j] by (auto simp: pid_def emit_def)
  show "text_ok st m \<and> stored m c'" if "r = Some m"
    using a that p(3) [of m] by (auto simp: pid_def emit_def stored_def text_ok_def Let_def)
qed

lemma with_reply_props:
  "fst (with_reply f cr) = fst (f (fst cr))"
  "set (snd (with_reply f cr)) = set (snd cr) \<union> set_option (snd (f (fst cr)))"
  by (auto simp: with_reply_def split: prod.splits option.splits)

text \<open>
  The loop over the streams: it keeps the rows of the replies collected before, and every reply it
  adds is the finished text of one of the streams.
\<close>

lemma finalize_loop:
  assumes "distinct (map (pid \<circ> snd) xs)"
    and "\<And>r. r \<in> set rs \<Longrightarrow> stored r c \<and> m_id r \<notin> (pid \<circ> snd) ` set xs"
    and "fold (\<lambda>(k, st). with_reply (finalize_stream ss st)) xs (c, rs) = (c', rs')"
  shows "quiet c c' \<and> (\<forall>r \<in> set rs'. stored r c') \<and> (\<forall>r \<in> set rs' - set rs. \<exists>x \<in> set xs. text_ok (snd x) r)"
  using assms
proof (induction xs arbitrary: c rs)
  case Nil
  then show ?case by auto
next
  case (Cons x xs)
  obtain k st where x: "x = (k, st)" by fastforce
  obtain c1 r where f: "finalize_stream ss st c = (c1, r)" by fastforce
  note p = finalize_stream_props [OF f]
  have wr: "with_reply (finalize_stream ss st) (c, rs) = (c1, rs @ (case r of None \<Rightarrow> [] | Some m \<Rightarrow> [m]))"
    by (simp add: with_reply_def f)
    let ?rs = "rs @ (case r of None \<Rightarrow> [] | Some m \<Rightarrow> [m])"
    have "stored q c1 \<and> m_id q \<notin> (pid \<circ> snd) ` set xs" if q: "q \<in> set ?rs" for q
    proof (cases "q \<in> set rs")
      case True
      then have "m_id q \<noteq> pid st" "stored q c" "m_id q \<notin> (pid \<circ> snd) ` set xs" using Cons.prems(2) [of q] by (auto simp: x)
      then show ?thesis using p(2) [of "m_id q"] by (simp add: stored_def)
    next
      case False
      then have "r = Some q" using q by (auto split: option.splits)
      then show ?thesis using p(3) [of q] Cons.prems(1) by (auto simp: x text_ok_def Let_def)
    qed
    then have ih: "quiet c1 c' \<and> (\<forall>r \<in> set rs'. stored r c') \<and> (\<forall>r \<in> set rs' - set ?rs. \<exists>x \<in> set xs. text_ok (snd x) r)"
      using Cons.IH [of ?rs c1] Cons.prems(1,3) by (simp add: x wr)
    have "\<exists>y \<in> set (x # xs). text_ok (snd y) q" if "q \<in> set rs' - set rs" for q
    proof (cases "q \<in> set ?rs")
      case True
      then have "r = Some q" using that by (auto split: option.splits)
      then show ?thesis using p(3) [of q] by (simp add: x)
    next
      case False
      then show ?thesis using ih that by auto
    qed
    then show ?case using ih quiet_trans [OF p(1)] by blast
qed

lemma quiet_loop:
  "quiet c (fold (\<lambda>(k, st) c. if P st then c else emit (EvDelegation w p (f st) s (g st)) c) xs c)"
proof (induction xs arbitrary: c)
  case (Cons x xs)
  obtain k st where "x = (k, st)" by fastforce
  then show ?case using Cons.IH [of c] quiet_trans [OF quiet_emit [OF quiet_refl] Cons.IH] by simp
qed simp

lemma fold_msgs:
  "ch_msgs (fold (\<lambda>(k, st) c. if P st then c else emit (EvDelegation w p (f st) s (g st)) c) xs c) = ch_msgs c"
proof (induction xs arbitrary: c)
  case (Cons x xs)
  then show ?case by (cases x) (simp add: emit_def)
qed simp

text \<open>
  The streams handed to the loop when there is more than one do not revisit the primary one, which
  has been finalised as a delegation.
\<close>

lemma finalize_props:
  assumes s: "sound E (ss, c)" and o: "mset ord = mset (ss_streams ss)"
    and f: "finalize ss ord ord' c = (c', rs)"
  shows "quiet c c' \<and> (\<forall>r \<in> set rs. stored r c' \<and> (\<exists>x \<in> set (ss_streams ss). text_ok (snd x) r))"
proof -
  let ?p = "ag_id (ss_primary ss)"
  define many where "many = (1 < length (ss_streams ss))"
  have parts: "distinct (map fst (ss_streams ss))" "distinct (map (pid \<circ> snd) (ss_streams ss))"
    "map (ag_id \<circ> st_agent \<circ> snd) (ss_streams ss) = map fst (ss_streams ss)" "?p \<in> fst ` set (ss_streams ss)"
    using s by (auto simp: sound_def sound_parts_def)
  have seto: "set ord = set (ss_streams ss)" using o by (metis set_mset_mset)
  have keys: "ag_id (st_agent (snd x)) = fst x" if "x \<in> set (ss_streams ss)" for x
    using parts(3) that by (simp add: map_eq_conv)
  obtain st where st: "map_of (ss_streams ss) ?p = Some st" using parts(4) by (metis map_of_eq_None_iff not_None_eq)
  have mem: "(?p, st) \<in> set (ss_streams ss)" using st by (rule map_of_SomeD)
  obtain c1 rs1 where s1: "(if many then with_reply (finalize_primary_delegation ss st) (c, []) else (c, [])) = (c1, rs1)" by fastforce
  obtain c2 rs2 where s2: "fold (\<lambda>(k, st) cr. if ag_id (st_agent st) = ?p \<and> many then cr else with_reply (finalize_stream ss st) cr) ord (c1, rs1) = (c2, rs2)"
    by fastforce
  define xs where "xs = filter (\<lambda>x. \<not> (ag_id (st_agent (snd x)) = ?p \<and> many)) ord"
  have drop: "fold (\<lambda>(k, st) cr. if ag_id (st_agent st) = ?p \<and> many then cr else with_reply (finalize_stream ss st) cr) ys z
      = fold (\<lambda>(k, st). with_reply (finalize_stream ss st))
          (filter (\<lambda>x. \<not> (ag_id (st_agent (snd x)) = ?p \<and> many)) ys) z" for ys z
    by (induction ys arbitrary: z) auto
  have d: "distinct (map (pid \<circ> snd) ord)"
  proof -
    have "mset (map (pid \<circ> snd) ord) = mset (map (pid \<circ> snd) (ss_streams ss))" by (simp only: mset_map o)
    from mset_eq_imp_distinct_iff [OF this] parts(2) show ?thesis by blast
  qed
  have dx: "distinct (map (pid \<circ> snd) xs)" unfolding xs_def using d by (rule distinct_map_filter)
  have r1: "quiet c c1 \<and> (\<forall>r \<in> set rs1. stored r c1 \<and> text_ok st r \<and> many)"
  proof (cases many)
    case True
    obtain ca r where fp: "finalize_primary_delegation ss st c = (ca, r)" by fastforce
    show ?thesis using s1 True finalize_primary_props [OF fp] by (auto simp: with_reply_def fp split: option.splits)
  qed (use s1 in auto)
  have "stored r c1 \<and> m_id r \<notin> (pid \<circ> snd) ` set xs" if "r \<in> set rs1" for r
  proof -
    have m: "many" "m_id r = pid st" "stored r c1" using r1 that by (auto simp: text_ok_def Let_def)
    have "pid (snd x) \<noteq> pid st" if x: "x \<in> set xs" for x
    proof
      assume "pid (snd x) = pid st"
      moreover have "x \<in> set (ss_streams ss)" "ag_id (st_agent (snd x)) \<noteq> ?p" using x m(1) seto by (auto simp: xs_def)
      ultimately have "x = (?p, st)"
        using parts(2) mem inj_onD [of "pid \<circ> snd" "set (ss_streams ss)" x "(?p, st)"] by (simp add: distinct_map)
      then show False using keys [OF mem] \<open>ag_id (st_agent (snd x)) \<noteq> ?p\<close> by simp
    qed
    then have "m_id r \<notin> (pid \<circ> snd) ` set xs" unfolding m(2) by force
    then show ?thesis using m by blast
  qed
  then have r2: "quiet c1 c2 \<and> (\<forall>r \<in> set rs2. stored r c2) \<and> (\<forall>r \<in> set rs2 - set rs1. \<exists>x \<in> set xs. text_ok (snd x) r)"
    using finalize_loop [OF dx, of rs1 c1 ss c2 rs2] s2 [unfolded drop, folded xs_def] by simp
  have c': "c' = fold (\<lambda>(k, st) c. if ag_id (st_agent st) = ?p then c
        else emit (EvDelegation (ss_ws ss) ?p (ag_id (st_agent st)) ''completed'' (m_id (st_placeholder st))) c) ord' c2" "rs = rs2"
    using f s1 s2 by (simp_all add: finalize_def Let_def st many_def)
  have "quiet c c'"
    unfolding c' using quiet_trans [OF quiet_trans [OF conjunct1 [OF r1] conjunct1 [OF r2]] quiet_loop] .
  moreover have "stored r c' \<and> (\<exists>x \<in> set (ss_streams ss). text_ok (snd x) r)" if r: "r \<in> set rs" for r
  proof -
    have "stored r c'" using r2 r unfolding c' by (simp add: stored_def fold_msgs)
    moreover have "\<exists>x \<in> set (ss_streams ss). text_ok (snd x) r"
    proof (cases "r \<in> set rs1")
      case True
      then show ?thesis using r1 mem by force
    next
      case False
      then obtain x where "x \<in> set xs" "text_ok (snd x) r" using r2 r c'(2) by blast
      then show ?thesis using seto by (auto simp: xs_def)
    qed
    ultimately show ?thesis ..
  qed
  ultimately show ?thesis by blast
qed

lemma sound_init:
  assumes "inj (ch_uuids c)" "m_id ph = ch_uuids c n" "n < ch_uuid c"
  shows "sound c (new_stream_session so ag ph, c)"
  using assms by (auto simp: sound_def sound_parts_def new_stream_session_def pid_def)

text \<open>
  C7. A reply is what was streamed: whatever the chunks, the failing statements and the order in
  which the loops see the streams, every message \<open>callAgentStreaming\<close> returns is stored under its
  id with the same text and status, and its text is the trimmed concatenation of the chunks the
  client received for that id, or empty if that was exactly \<open>[SILENT]\<close>.
\<close>

theorem replies_as_streamed:
  assumes "inj (ch_uuids c)" and ord: "\<And>xs. mset (fst (order xs)) = mset xs"
    and run: "call_agent_streaming runtime order so ago c = (c', Inr rs)"
  shows "\<exists>evs. ch_events c' = ch_events c @ evs \<and>
    (\<forall>r \<in> set rs. let t = trim_space (streamed (m_id r) evs) in
       (\<exists>row. ch_msgs c' (m_id r) = Some row \<and> m_text row = m_text r \<and> m_status row = m_status r)
       \<and> m_status r \<in> {MsgDelivered, MsgIncomplete, MsgSilent, MsgDelegated}
       \<and> (if m_status r = MsgSilent then t = ''[SILENT]'' \<and> m_text r = '''' else m_text r = t))"
proof -
  obtain ag where ag: "ago = Some ag" using run by (auto simp: call_agent_streaming_def split: option.splits)
  define e1 where "e1 = EvAgentStatus (sl_ws so) (ag_id ag) ''thinking''"
  obtain c2 ph where n: "new_placeholder (cv_id (sl_conv so)) ag (emit e1 c) = (c2, ph)" by fastforce
  obtain c3 r3 where sv: "save_placeholder ph c2 = (c3, r3)" by fastforce
  obtain u where r3: "r3 = Inr u" using run by (cases r3) (auto simp: call_agent_streaming_def ag Let_def n [unfolded e1_def] sv)
  obtain chunks where rt: "runtime = Inr chunks"
    using run by (cases runtime) (auto simp: call_agent_streaming_def ag Let_def n [unfolded e1_def] sv r3)
  let ?s0 = "(new_stream_session so ag ph, c3)"
  obtain ss c4 where ps: "process_stream chunks (emit_delivered ?s0) = (ss, c4)" by fastforce
  have fin: "finalize ss (fst (order (ss_streams ss))) (snd (order (ss_streams ss))) c4 = (c', rs)"
    using run by (simp add: call_agent_streaming_def ag Let_def n [unfolded e1_def] sv r3 rt ps case_prod_beta prod_eq_iff)
  have c2: "ch_events c2 = ch_events c @ [e1]" "ch_uuids c2 = ch_uuids c" "ch_uuid c2 = Suc (ch_uuid c)" "m_id ph = ch_uuids c (ch_uuid c)"
    using n by (auto simp: new_placeholder_def new_message_def new_uuid_def emit_def)
  have c3: "same_ev c2 c3" using same_ev_fst [OF same_ev_placeholder sv] .
  have "sound c3 (ss, c4)"
    unfolding ps [symmetric] using assms(1) c2 c3
    by (intro process_stream_sound emit_delivered_sound sound_init [of _ _ "ch_uuid c"]) (auto simp: same_ev_def)
  note snd4 = this
  obtain evs where evs: "ch_events c4 = ch_events c3 @ evs" "\<And>x. x \<in> set (ss_streams ss) \<Longrightarrow> streamed (pid (snd x)) evs = st_accumulated (snd x)"
    using sound_partsE [OF conjunct2 [OF snd4 [unfolded sound_def]]] by (metis (no_types, lifting) fst_conv snd_conv)
  note fp = finalize_props [OF snd4 ord fin]
  obtain es where es: "ch_events c' = ch_events c4 @ es" "list_all no_chunk es" using fp by (auto simp: quiet_def)
  have all: "ch_events c' = ch_events c @ (e1 # evs @ es)" using c2 c3 evs(1) es(1) by (simp add: same_ev_def)
  have str: "streamed (pid (snd x)) (e1 # evs @ es) = st_accumulated (snd x)" if "x \<in> set (ss_streams ss)" for x
    using evs(2) [OF that] streamed_no_chunks [OF es(2)] by (simp add: streamed_def e1_def)
  show ?thesis
  proof (rule exI [of _ "e1 # evs @ es"], intro conjI ballI)
    show "ch_events c' = ch_events c @ e1 # evs @ es" using all .
    fix r assume "r \<in> set rs"
    then obtain x where x: "stored r c'" "x \<in> set (ss_streams ss)" "text_ok (snd x) r" using fp by blast
    have id: "m_id r = pid (snd x)" using x(3) by (simp add: text_ok_def Let_def)
    show "let t = trim_space (streamed (m_id r) (e1 # evs @ es)) in
       (\<exists>row. ch_msgs c' (m_id r) = Some row \<and> m_text row = m_text r \<and> m_status row = m_status r)
       \<and> m_status r \<in> {MsgDelivered, MsgIncomplete, MsgSilent, MsgDelegated}
       \<and> (if m_status r = MsgSilent then t = ''[SILENT]'' \<and> m_text r = '''' else m_text r = t)"
      using x(1,3) str [OF x(2)] unfolding id
      by (simp add: Let_def text_ok_def stored_def agentSilentResponse_def id)
  qed
qed

section \<open>No placeholder is left pending\<close>

definition live :: "chat \<Rightarrow> bool" where "live c \<longleftrightarrow> (\<forall>k. \<not> ch_fails c k)"

definition pend_in :: "string set \<Rightarrow> chat \<Rightarrow> bool" where
  "pend_in S c \<longleftrightarrow> live c \<and> (\<forall>i m. ch_msgs c i = Some m \<longrightarrow> m_status m = MsgPending \<longrightarrow> i \<in> S)"

definition pids :: "stream_session \<Rightarrow> string set" where "pids ss = (pid \<circ> snd) ` set (ss_streams ss)"

lemma pend_in_cong: "ch_msgs c' = ch_msgs c \<Longrightarrow> ch_fails c' = ch_fails c \<Longrightarrow> pend_in S c' = pend_in S c"
  by (simp add: pend_in_def live_def)

lemma pend_in_emit [simp]: "pend_in S (emit e c) = pend_in S c"
  by (rule pend_in_cong) (simp_all add: emit_def)

lemma pend_in_mono: "pend_in S c \<Longrightarrow> S \<subseteq> T \<Longrightarrow> pend_in T c"
  by (auto simp: pend_in_def)

lemma stmt_live: "live c \<Longrightarrow> stmt msg q f c = (f (c\<lparr>ch_calls := Suc (ch_calls c)\<rparr>), Inr (q c))"
  by (simp add: stmt_def live_def)

lemma transaction_live:
  assumes "live c" and "\<And>c. live c \<Longrightarrow> \<exists>k. fn c = (g c\<lparr>ch_calls := k\<rparr>, Inr a) \<and> live (g c)"
    and "\<And>c k. g (c\<lparr>ch_calls := k\<rparr>) = g c\<lparr>ch_calls := k\<rparr>"
  shows "\<exists>k. with_transaction op fn c = (g c\<lparr>ch_calls := k\<rparr>, Inr a)"
proof -
  define bm cm where msgs: "bm = ''begin '' @ op @ '' transaction''" "cm = ''commit '' @ op @ '' transaction''"
  let ?c = "c\<lparr>ch_calls := Suc (ch_calls c)\<rparr>"
  have l: "live ?c" using assms(1) by (simp add: live_def)
  obtain k where k: "fn ?c = (g ?c\<lparr>ch_calls := k\<rparr>, Inr a)" "live (g ?c)" using assms(2) [OF l] by blast
  then have lg: "live (g c\<lparr>ch_calls := k\<rparr>)" by (simp add: live_def assms(3))
  show ?thesis
    unfolding with_transaction_def msgs [symmetric] using assms(3)
    by (auto simp: stmt_live [OF assms(1)] k(1) stmt_live [OF lg])
qed

lemma message_save_live:
  "live c \<Longrightarrow> message_save m c =
     (c\<lparr>ch_msgs := (ch_msgs c)(m_id m \<mapsto> upserted m (ch_msgs c (m_id m))), ch_calls := Suc (ch_calls c)\<rparr>, Inr ())"
  by (simp add: message_save_def stmt_live)

lemma save_placeholder_live:
  assumes "live c"
  shows "\<exists>k. save_placeholder m c = (c\<lparr>ch_msgs := (ch_msgs c)(m_id m \<mapsto> upserted m (ch_msgs c (m_id m))), ch_calls := k\<rparr>, Inr ())"
  unfolding save_placeholder_def using transaction_live [OF assms, of "message_save m"
      "\<lambda>c. c\<lparr>ch_msgs := (ch_msgs c)(m_id m \<mapsto> upserted m (ch_msgs c (m_id m)))\<rparr>"]
  by (fastforce simp: message_save_live live_def)

lemma upserted_status [simp]: "m_status (upserted m old) = m_status m" "m_text (upserted m old) = m_text m"
  by (simp_all add: upserted_def split: option.splits)

lemma pend_in_save:
  assumes "pend_in S c" "m_status m = MsgPending \<longrightarrow> m_id m \<in> T" "S \<subseteq> T" "save_placeholder m c = (c', r)"
  shows "pend_in T c' \<and> r = Inr ()"
proof -
  have "live c" using assms(1) by (simp add: pend_in_def)
  then obtain k where k: "save_placeholder m c = (c\<lparr>ch_msgs := (ch_msgs c)(m_id m \<mapsto> upserted m (ch_msgs c (m_id m))), ch_calls := k\<rparr>, Inr ())"
    using save_placeholder_live by blast
  have "pend_in T c'"
    unfolding pend_in_def
  proof (intro conjI allI impI)
    show "live c'" using k assms(4) \<open>live c\<close> by (auto simp: live_def)
    fix i q assume q: "ch_msgs c' i = Some q" "m_status q = MsgPending"
    show "i \<in> T"
    proof (cases "i = m_id m")
      case True
      then show ?thesis using q k assms(2,4) by auto
    next
      case False
      then have "ch_msgs c i = Some q" using q(1) k assms(4) by auto
      then show ?thesis using q(2) assms(1,3) by (auto simp: pend_in_def)
    qed
  qed
  then show ?thesis using k assms(4) by simp
qed

lemma pend_in_update:
  assumes "pend_in S c" "\<And>m. m_status (f m) = MsgPending \<Longrightarrow> m_status m = MsgPending"
  shows "pend_in S (update_where p f c)"
  using assms by (auto simp: pend_in_def live_def update_where_def split: if_splits)

lemma pend_in_calls [simp]: "pend_in S (c\<lparr>ch_calls := k\<rparr>) = pend_in S c"
  by (rule pend_in_cong) simp_all

lemma pend_in_status: "pend_in S c \<Longrightarrow> pend_in S (fst (message_update_status i MsgDelivered c))"
  by (auto simp: message_update_status_def stmt_def Let_def intro!: pend_in_update)

lemma pend_in_tool_state: "pend_in S c \<Longrightarrow> pend_in S (fst (message_update_tool_state i t c))"
  by (auto simp: message_update_tool_state_def stmt_def Let_def intro!: pend_in_update)

lemma pend_in_stmt:
  assumes "pend_in S c" "\<And>c. ch_msgs (f c) = ch_msgs c \<and> ch_fails (f c) = ch_fails c"
  shows "pend_in S (fst (stmt m q f c))"
  using assms pend_in_cong [of "f (c\<lparr>ch_calls := Suc (ch_calls c)\<rparr>)" c S] by (simp add: stmt_def Let_def)

definition settled :: "string set \<Rightarrow> stream_state \<Rightarrow> bool" where
  "settled S s \<longleftrightarrow> pend_in (S \<union> pids (fst s)) (snd s)"

lemma settled_emits [simp]: "settled S (emits e s) = settled S s"
  by (simp add: settled_def emits_def)

lemma pids_upd [simp]: "(\<And>st. pid (f st) = pid st) \<Longrightarrow> pids (ss\<lparr>ss_streams := upd_stream k f (ss_streams ss)\<rparr>) = pids ss"
  using arg_cong [OF upd_stream_map [of pid f k "ss_streams ss"], of set] by (simp add: pids_def)

lemma settled_on_stream: "(\<And>st. pid (f st) = pid st) \<Longrightarrow> settled S (on_stream k f s) = settled S s"
  by (simp add: settled_def on_stream_def)

lemma pids_session [simp]: "pids (ss\<lparr>ss_first := b\<rparr>) = pids ss" "pids (ss\<lparr>ss_read_once := b\<rparr>) = pids ss"
  "pids (ss\<lparr>ss_delivered_once := b\<rparr>) = pids ss" "pids (ss\<lparr>ss_total := n\<rparr>) = pids ss"
  "pids (ss\<lparr>ss_global_done := b\<rparr>) = pids ss" "pids (ss\<lparr>ss_pending := xs\<rparr>) = pids ss"
  by (simp_all add: pids_def)

lemma new_message_tables:
  "new_message conv role ty st ag c = (c', m) \<Longrightarrow> ch_msgs c' = ch_msgs c \<and> ch_fails c' = ch_fails c \<and> m_status m = st"
  by (auto simp: new_message_def new_uuid_def)

lemma resolve_stream_settled:
  assumes "settled S s"
  shows "settled S (fst (resolve_stream slug s))"
proof -
  obtain ss c where s: "s = (ss, c)" by fastforce
  have "settled S (fst (create_sub_agent_stream sub s))" for sub
  proof -
    obtain c1 ph where n: "new_placeholder (conv_id ss) sub c = (c1, ph)" by fastforce
    obtain c2 r where sv: "save_placeholder ph c1 = (c2, r)" by fastforce
    have "pend_in (S \<union> pids ss) c1"
      using assms new_message_tables [OF n [unfolded new_placeholder_def]] pend_in_cong [of c1 c] by (simp add: settled_def s)
    then have "pend_in (insert (m_id ph) (S \<union> pids ss)) c2 \<and> r = Inr ()" using sv by (intro pend_in_save) auto
    then show ?thesis
      by (simp add: create_sub_agent_stream_def s n sv Let_def settled_def) (simp add: pids_def pid_def insert_commute Un_commute)
  qed
  then show ?thesis using assms by (simp add: resolve_stream_def Let_def split: option.splits)
qed

lemma append_chunk_settled: "settled S s \<Longrightarrow> settled S (append_chunk ch k s)"
proof -
  assume a: "settled S s"
  have w: "settled S (note_writing k st s)" for st
    using a by (simp add: note_writing_def settled_on_stream pid_def)
  show ?thesis
  proof (cases "map_of (ss_streams (fst s)) k")
    case (Some st)
    let ?f = "\<lambda>st. st\<lparr>st_accumulated := st_accumulated st @ sc_delta ch, st_chunks := Suc (st_chunks st)\<rparr>"
    have "settled S (on_stream k ?f (note_writing k st s))"
      using w by (subst settled_on_stream) (simp_all add: pid_def)
    then show ?thesis
      by (cases "on_stream k ?f (note_writing k st s)") (simp add: append_chunk_def Some settled_def)
  qed (simp add: a append_chunk_def)
qed

lemma handle_text_settled: "settled S s \<Longrightarrow> settled S (handle_text ch s)"
proof -
  assume a: "settled S s"
  obtain s1 k where r: "resolve_stream (sc_agent ch) s = (s1, k)" by fastforce
  have "settled S s1" using resolve_stream_settled [OF a, of "sc_agent ch"] r by simp
  then have "settled S (note_first_chunk s1)"
    by (cases s1) (auto simp: note_first_chunk_def emit_read_def Let_def settled_def)
  then show ?thesis by (simp add: handle_text_def r append_chunk_settled)
qed

lemma handle_done_settled: "settled S s \<Longrightarrow> settled S (handle_done ch s)"
proof -
  assume a: "settled S s"
  obtain s1 k where r: "resolve_stream (sc_agent ch) s = (s1, k)" by fastforce
  have s1: "settled S s1" using resolve_stream_settled [OF a, of "sc_agent ch"] r by simp
  let ?f = "\<lambda>st. st\<lparr>st_done := True\<rparr>"
  have "settled S (on_stream k ?f s1)" using s1 by (subst settled_on_stream) (simp_all add: pid_def)
  moreover have "pids ((fst s)\<lparr>ss_global_done := True, ss_streams := map (\<lambda>(k, st). (k, st\<lparr>st_done := True\<rparr>)) (ss_streams (fst s))\<rparr>)
      = pids (fst s)"
    by (force simp: pids_def pid_def image_iff)
  ultimately show ?thesis
    using a by (cases "on_stream k ?f s1") (auto simp: handle_done_def r Let_def settled_def)
qed

lemma handle_usage_settled: "settled S s \<Longrightarrow> settled S (handle_usage ch s)"
  by (cases s) (auto simp: handle_usage_def Let_def settled_def intro!: pend_in_stmt)

lemma handle_tool_call_settled: "settled S s \<Longrightarrow> settled S (handle_tool_call ch s)"
proof -
  assume a: "settled S s"
  obtain ss c where s: "s = (ss, c)" by fastforce
  obtain ca m where n: "new_tool_status_message ss (resolve_tool_agent_id ss (sc_agent ch)) (sc_tool ch) (sc_args ch) c = (ca, m)"
    by fastforce
  obtain cb r where sv: "save_placeholder m ca = (cb, r)" by fastforce
  have t: "ch_msgs ca = ch_msgs c \<and> ch_fails ca = ch_fails c \<and> m_status m = MsgDelivered"
    using n by (auto simp: new_tool_status_message_def dest: new_message_tables split: prod.splits)
  then have "pend_in (S \<union> pids ss) ca" using a pend_in_cong [of ca c] by (simp add: settled_def s)
  then have "pend_in (S \<union> pids ss) cb \<and> r = Inr ()" using sv t by (intro pend_in_save) auto
  then show ?thesis using a by (auto simp: handle_tool_call_def s n sv Let_def settled_def)
qed

lemma handle_tool_result_settled: "settled S s \<Longrightarrow> settled S (handle_tool_result ch s)"
proof -
  assume a: "settled S s"
  have t: "settled S (handle_transfer_to_agent t s)" if "settled S s" for t s
    using that by (auto simp: handle_transfer_to_agent_def split: option.splits)
  show ?thesis
    using a by (cases s) (auto simp: handle_tool_result_def Let_def settled_def intro!: t [unfolded settled_def] pend_in_tool_state)
qed

lemma process_stream_settled: "settled S s \<Longrightarrow> settled S (process_stream chunks s)"
proof -
  have "settled S (handle_chunk ch s)" if "settled S s" for ch s
    using that handle_text_settled handle_done_settled handle_usage_settled handle_tool_result_settled
      handle_tool_call_settled resolve_stream_settled
    by (auto simp: handle_chunk_def split: chunk_type.splits)
  then show "settled S s \<Longrightarrow> settled S (process_stream chunks s)"
    using fold_invariant_list [of "settled S" s chunks handle_chunk] by (simp add: process_stream_def)
qed

lemma save_final_live:
  assumes "live c"
  shows "\<exists>k. save_final m cv c =
     (c\<lparr>ch_msgs := (ch_msgs c)(m_id m \<mapsto> upserted m (ch_msgs c (m_id m))),
        ch_convs := (ch_convs c)(cv_id cv \<mapsto>
          (case ch_convs c (cv_id cv) of None \<Rightarrow> cv | Some old \<Rightarrow> old\<lparr>cv_updated := cv_updated cv\<rparr>)), ch_calls := k\<rparr>, Inr ())"
proof -
  let ?c = "c\<lparr>ch_msgs := (ch_msgs c)(m_id m \<mapsto> upserted m (ch_msgs c (m_id m))), ch_calls := Suc (ch_calls c)\<rparr>"
  have "live ?c" using assms by (simp add: live_def)
  then show ?thesis
    by (intro exI [of _ "Suc (Suc (ch_calls c))"])
      (simp add: save_final_def chat_bind_def message_save_live [OF assms] conversation_save_def stmt_live)
qed

lemma finalize_message_settles:
  assumes "pend_in S c" "st \<noteq> MsgPending" "finalize_message ss ph t st c = (c', r)"
  shows "pend_in (S - {m_id ph}) c'"
proof -
  let ?m = "ph\<lparr>m_text := t, m_status := st, m_updated := ch_now c\<rparr>"
  let ?cv = "(ss_conv ss)\<lparr>cv_updated := ch_now c\<rparr>"
  let ?g = "\<lambda>c. c\<lparr>ch_msgs := (ch_msgs c)(m_id ?m \<mapsto> upserted ?m (ch_msgs c (m_id ?m))),
        ch_convs := (ch_convs c)(cv_id ?cv \<mapsto>
          (case ch_convs c (cv_id ?cv) of None \<Rightarrow> ?cv | Some old \<Rightarrow> old\<lparr>cv_updated := cv_updated ?cv\<rparr>))\<rparr>"
  have l: "live c" using assms(1) by (simp add: pend_in_def)
  have sf: "\<exists>k. save_final ?m ?cv d = (?g d\<lparr>ch_calls := k\<rparr>, Inr ()) \<and> live (?g d)" if "live d" for d
    using save_final_live [OF that, of ?m ?cv] that by (auto simp: live_def)
  have "\<exists>k. with_transaction ''finalize stream message'' (save_final ?m ?cv) c = (?g c\<lparr>ch_calls := k\<rparr>, Inr ())"
    by (rule transaction_live [OF l sf]) simp_all
  then obtain k where w: "with_transaction ''finalize stream message'' (save_final ?m ?cv) c = (?g c\<lparr>ch_calls := k\<rparr>, Inr ())" ..
  have "pend_in (S - {m_id ph}) (?g c\<lparr>ch_calls := k\<rparr>)"
    using assms(1,2) by (auto simp: pend_in_def live_def)
  then show ?thesis
    using assms(3) [unfolded finalize_message_def Let_def, folded save_final_def, unfolded w] by auto
qed

lemma finalize_stream_settles:
  assumes "pend_in S c" "pid st \<noteq> ''''" "finalize_stream ss st c = (c', r)"
  shows "pend_in (S - {pid st}) c'"
proof -
  let ?t = "trim_space (st_accumulated st)"
  let ?s = "final_status ss st ?t"
  obtain c1 q where f: "finalize_message ss (st_placeholder st) (if ?s = MsgSilent then '''' else ?t) ?s c = (c1, q)" by fastforce
  have s: "?s \<noteq> MsgPending" by (simp add: final_status_def)
  have "pend_in (S - {pid st}) (fst (message_delete (pid st) c))"
    using assms(1,2) by (auto simp: message_delete_def stmt_def pend_in_def live_def)
  then show ?thesis
    using assms(3) finalize_message_settles [OF assms(1) s f]
    by (auto simp: finalize_stream_def Let_def f pid_def split: if_splits)
qed

lemma finalize_primary_settles:
  assumes "pend_in S c" "finalize_primary_delegation ss st c = (c', r)"
  shows "pend_in (S - {pid st}) c'"
proof -
  let ?t = "trim_space (st_accumulated st)"
  let ?ph = "(st_placeholder st)\<lparr>m_type := CtDelegation, m_from := ag_id (ss_primary ss),
                 m_to := (case first_sub_agent ss of Some a \<Rightarrow> ag_id a | None \<Rightarrow> ''''),
                 m_content_status := ''completed'', m_preview := truncate_text ?t taskPreviewMaxRunes\<rparr>"
  obtain c1 q where f: "finalize_message ss ?ph ?t MsgDelegated c = (c1, q)" by fastforce
  show ?thesis
    using assms(2) [unfolded finalize_primary_delegation_def Let_def f prod.case]
      finalize_message_settles [OF assms(1) _ f] by (auto simp: pid_def)
qed

lemma finalize_loop_settles:
  assumes "pend_in S c" "\<And>x. x \<in> set xs \<Longrightarrow> pid (snd x) \<noteq> ''''"
    and "fold (\<lambda>(k, st) cr. if P st then cr else with_reply (finalize_stream ss st) cr) xs (c, rs) = (c', rs')"
  shows "pend_in (S - {pid (snd x) |x. x \<in> set xs \<and> \<not> P (snd x)}) c'"
  using assms
proof (induction xs arbitrary: c rs S)
  case (Cons x xs)
  obtain k st where x: "x = (k, st)" by fastforce
  show ?case
  proof (cases "P st")
    case True
    have "pend_in (S - {pid (snd y) |y. y \<in> set xs \<and> \<not> P (snd y)}) c'"
      by (rule Cons.IH [of S c rs]) (use Cons.prems True x in auto)
    then show ?thesis using True x by (rule_tac pend_in_mono) auto
  next
    case False
    obtain c1 r where f: "finalize_stream ss st c = (c1, r)" by fastforce
    have "pend_in (S - {pid st}) c1" using finalize_stream_settles [OF Cons.prems(1) _ f] Cons.prems(2) [of x] x by simp
    then have "pend_in (S - {pid st} - {pid (snd y) |y. y \<in> set xs \<and> \<not> P (snd y)}) c'"
      by (rule Cons.IH [of _ c1 "rs @ (case r of None \<Rightarrow> [] | Some m \<Rightarrow> [m])"])
        (use Cons.prems False x f in \<open>auto simp: with_reply_def\<close>)
    then show ?thesis by (rule pend_in_mono) (use x in auto)
  qed
qed simp

lemma finalize_settles:
  assumes s: "settled S (ss, c)" and ne: "'''' \<notin> pids ss" and o: "mset ord = mset (ss_streams ss)"
    and d: "distinct (map fst (ss_streams ss))" "map (ag_id \<circ> st_agent \<circ> snd) (ss_streams ss) = map fst (ss_streams ss)"
      "ag_id (ss_primary ss) \<in> fst ` set (ss_streams ss)"
    and f: "finalize ss ord ord' c = (c', rs)"
  shows "pend_in S c'"
proof -
  let ?p = "ag_id (ss_primary ss)"
  define many where "many = (1 < length (ss_streams ss))"
  have seto: "set ord = set (ss_streams ss)" using o by (metis set_mset_mset)
  have keys: "ag_id (st_agent (snd x)) = fst x" if "x \<in> set (ss_streams ss)" for x
    using d(2) that by (simp add: map_eq_conv)
  obtain st where st: "map_of (ss_streams ss) ?p = Some st" using d(3) by (metis map_of_eq_None_iff not_None_eq)
  obtain c1 rs1 where s1: "(if many then with_reply (finalize_primary_delegation ss st) (c, []) else (c, [])) = (c1, rs1)" by fastforce
  obtain c2 rs2 where s2: "fold (\<lambda>(k, st) cr. if ag_id (st_agent st) = ?p \<and> many then cr else with_reply (finalize_stream ss st) cr) ord (c1, rs1) = (c2, rs2)"
    by fastforce
  let ?S = "S \<union> pids ss - (if many then {pid st} else {})"
  have 1: "pend_in ?S c1"
  proof (cases many)
    case True
    obtain ca r where fp: "finalize_primary_delegation ss st c = (ca, r)" by fastforce
    show ?thesis using s1 True finalize_primary_settles [OF s [unfolded settled_def, simplified] fp] by (auto simp: with_reply_def fp)
  qed (use s s1 in \<open>auto simp: settled_def\<close>)
  have 2: "pend_in (?S - {pid (snd x) |x. x \<in> set ord \<and> \<not> (ag_id (st_agent (snd x)) = ?p \<and> many)}) c2"
    by (rule finalize_loop_settles [OF 1 _ s2]) (use ne seto in \<open>force simp: pids_def\<close>)
  have "?S - {pid (snd x) |x. x \<in> set ord \<and> \<not> (ag_id (st_agent (snd x)) = ?p \<and> many)} \<subseteq> S"
  proof
    fix i assume i: "i \<in> ?S - {pid (snd x) |x. x \<in> set ord \<and> \<not> (ag_id (st_agent (snd x)) = ?p \<and> many)}"
    show "i \<in> S"
    proof (rule ccontr)
      assume "i \<notin> S"
      then obtain x where x: "x \<in> set (ss_streams ss)" "i = pid (snd x)" using i by (auto simp: pids_def)
      have "\<not> (x \<in> set ord \<and> \<not> (ag_id (st_agent (snd x)) = ?p \<and> many))" using i x(2) by blast
      then have m: "ag_id (st_agent (snd x)) = ?p" "many" using x(1) seto by auto
      then have "x = (?p, snd x)" using keys [OF x(1)] by (cases x) simp
      then have "snd x = st" using st x(1) d(1) by (metis map_of_eq_Some_iff option.inject)
      then show False using i m(2) x(2) by simp
    qed
  qed
  then have "pend_in S c2" by (rule pend_in_mono [OF 2])
  moreover have "c' = fold (\<lambda>(k, st) c. if ag_id (st_agent st) = ?p then c
        else emit (EvDelegation (ss_ws ss) ?p (ag_id (st_agent st)) ''completed'' (m_id (st_placeholder st))) c) ord' c2"
    using f s1 s2 by (simp add: finalize_def Let_def st many_def)
  moreover have "pend_in S (fold (\<lambda>(k, st) c. if P st then c else emit (g st) c) xs c)" if "pend_in S c" for P g xs c
    using that by (induction xs arbitrary: c) auto
  ultimately show ?thesis by simp
qed

text \<open>
  C27. No placeholder is left behind: when no statement fails, whatever the runtime delivers (an error
  when the stream is opened, any chunks for any agents, a stream cut short) and whatever the orders
  of the loops, a message that is pending after \<open>callAgentStreaming\<close> was pending before it.
\<close>

theorem no_pending_left:
  assumes "inj (ch_uuids c)" and ids: "\<And>n. ch_uuids c n \<noteq> ''''" and live: "\<And>k. \<not> ch_fails c k"
    and ord: "\<And>xs. mset (fst (order xs)) = mset xs"
    and run: "call_agent_streaming runtime order so ago c = (c', r)"
    and m: "ch_msgs c' i = Some m" "m_status m = MsgPending"
  shows "\<exists>m0. ch_msgs c i = Some m0 \<and> m_status m0 = MsgPending"
proof (cases ago)
  case None
  then show ?thesis using run m by (simp add: call_agent_streaming_def)
next
  case (Some ag)
  define S where "S = {i. \<exists>m0. ch_msgs c i = Some m0 \<and> m_status m0 = MsgPending}"
  define e1 where "e1 = EvAgentStatus (sl_ws so) (ag_id ag) ''thinking''"
  have S: "pend_in S c" using live by (auto simp: pend_in_def live_def S_def)
  obtain c2 ph where n: "new_placeholder (cv_id (sl_conv so)) ag (emit e1 c) = (c2, ph)" by fastforce
  have c2: "ch_uuids c2 = ch_uuids c" "ch_uuid c2 = Suc (ch_uuid c)" "m_id ph = ch_uuids c (ch_uuid c)" "pend_in S c2"
    using n S pend_in_cong [of c2 c] new_message_tables [OF n [unfolded new_placeholder_def]]
    by (auto simp: new_placeholder_def new_message_def new_uuid_def emit_def)
  obtain c3 r3 where sv: "save_placeholder ph c2 = (c3, r3)" by fastforce
  have c3: "pend_in (insert (m_id ph) S) c3" "r3 = Inr ()"
    using pend_in_save [OF c2(4) _ _ sv, of "insert (m_id ph) S"] by auto
  have ev: "same_ev c2 c3" using same_ev_fst [OF same_ev_placeholder sv] .
  have "pend_in S c'"
  proof (cases runtime)
    case (Inl e)
    have "pend_in S (fst (message_delete (m_id ph) c3))"
      using c3(1) ids c2(3) by (auto simp: message_delete_def stmt_def pend_in_def live_def)
    then show ?thesis
      using run Inl by (auto simp: call_agent_streaming_def Some Let_def n [unfolded e1_def] sv c3(2))
  next
    case (Inr chunks)
    let ?s0 = "(new_stream_session so ag ph, c3)"
    obtain ss c4 where ps: "process_stream chunks (emit_delivered ?s0) = (ss, c4)" by fastforce
    obtain rs where fin: "finalize ss (fst (order (ss_streams ss))) (snd (order (ss_streams ss))) c4 = (c', rs)"
      using run by (auto simp: call_agent_streaming_def Some Let_def n [unfolded e1_def] sv c3(2) Inr ps split: prod.splits)
    have snd: "sound c3 (ss, c4)"
      unfolding ps [symmetric] using assms(1) c2 ev
      by (intro process_stream_sound emit_delivered_sound sound_init [of _ _ "ch_uuid c"]) (auto simp: same_ev_def)
    have uu: "ch_uuids c4 = ch_uuids c" using snd ev c2(1) by (simp add: same_ev_def sound_def)
    have "settled S ?s0" using c3(1) by (simp add: settled_def pids_def new_stream_session_def pid_def)
    then have "settled S (emit_delivered ?s0)"
      by (auto simp: emit_delivered_def Let_def settled_def intro!: pend_in_status)
    then have st: "settled S (ss, c4)" unfolding ps [symmetric] by (rule process_stream_settled)
    have "'''' \<notin> pids ss"
    proof
      assume "'''' \<in> pids ss"
      then have "'''' \<in> range (ch_uuids c4)" using snd by (auto simp: sound_def sound_parts_def pids_def)
      then show False using ids uu by (metis rangeE)
    qed
    then show ?thesis
      using snd by (intro finalize_settles [OF st _ ord _ _ _ fin]) (auto simp: sound_def sound_parts_def)
  qed
  then show ?thesis using m by (auto simp: pend_in_def S_def)
qed

section \<open>Interrupted sub-agents\<close>

definition done_chunk :: "string \<Rightarrow> stream_chunk" where
  "done_chunk slug = \<lparr>sc_type = ChunkDone, sc_agent = slug, sc_delta = '''', sc_tool = '''', sc_args = [], sc_call = '''', sc_tokens = 0\<rparr>"

definition text_chunk :: "string \<Rightarrow> string \<Rightarrow> stream_chunk" where
  "text_chunk slug d = \<lparr>sc_type = ChunkText, sc_agent = slug, sc_delta = d, sc_tool = '''', sc_args = [], sc_call = '''', sc_tokens = 0\<rparr>"

lemma handle_done_primary:
  assumes "ag_slug (ss_primary ss) \<noteq> ''''"
  shows "handle_chunk (done_chunk (ag_slug (ss_primary ss))) (ss, c) =
    (let sts = upd_stream (ag_id (ss_primary ss)) (\<lambda>st. st\<lparr>st_done := True\<rparr>) (ss_streams ss)
     in (ss\<lparr>ss_streams := sts, ss_global_done := all_streams_done sts\<rparr>, c))"
  using assms by (simp add: handle_chunk_def done_chunk_def handle_done_def resolve_stream_def on_stream_def Let_def)

lemma handle_text_new_sub:
  assumes sub: "by_slug (ss_roster ss) slug = Some sub" "slug \<noteq> ''''" "slug \<noteq> ag_slug (ss_primary ss)"
    and new: "map_of (ss_streams ss) (ag_id sub) = None" and l: "live c"
  shows "\<exists>ph ss' c' st. handle_chunk (text_chunk slug d) (ss, c) = (ss', c')
     \<and> ss_streams ss' = ss_streams ss @ [(ag_id sub, st)] \<and> st_accumulated st = d \<and> \<not> st_done st \<and> st_agent st = sub
     \<and> ss_global_done ss' = ss_global_done ss \<and> ss_primary ss' = ss_primary ss \<and> st_placeholder st = ph"
proof -
  obtain c1 ph where n: "new_placeholder (conv_id ss) sub c = (c1, ph)" by fastforce
  have "live c1" using l new_message_tables [OF n [unfolded new_placeholder_def]] by (simp add: live_def)
  then obtain k where sv: "save_placeholder ph c1 = (c1\<lparr>ch_msgs := (ch_msgs c1)(m_id ph \<mapsto> upserted ph (ch_msgs c1 (m_id ph))), ch_calls := k\<rparr>, Inr ())"
    using save_placeholder_live by blast
  define st where "st = \<lparr>st_agent = sub, st_placeholder = ph, st_accumulated = '''', st_chunks = 0, st_first = True, st_done = False\<rparr>"
  define ss2 where "ss2 = ss\<lparr>ss_streams := ss_streams ss @ [(ag_id sub, st)]\<rparr>"
  obtain c2 where r: "resolve_stream slug (ss, c) = ((ss2, c2), ag_id sub)"
    using sub new by (simp add: resolve_stream_def create_sub_agent_stream_def n sv Let_def ss2_def st_def)
  obtain ss3 c3 where nf: "note_first_chunk (ss2, c2) = (ss3, c3)" by fastforce
  have s3: "ss_streams ss3 = ss_streams ss @ [(ag_id sub, st)]" "ss_global_done ss3 = ss_global_done ss"
    "ss_primary ss3 = ss_primary ss"
    using nf by (auto simp: note_first_chunk_def emit_read_def Let_def ss2_def split: if_splits)
  have upd: "upd_stream (ag_id sub) f (ss_streams ss) = ss_streams ss" for f
    using new by (auto simp: upd_stream_def map_of_eq_None_iff intro!: map_idI) force
  have upd2: "upd_stream k f (xs @ ys) = upd_stream k f xs @ upd_stream k f ys" for k f xs ys
    by (simp add: upd_stream_def)
  have upd1: "upd_stream k f [(k, x)] = [(k, f x)]" for k f x by (simp add: upd_stream_def)
  have look: "map_of (ss_streams (fst (ss3, c3))) (ag_id sub) = Some st" using new by (simp add: s3 map_add_Some_iff)
  have "handle_chunk (text_chunk slug d) (ss, c) = append_chunk (text_chunk slug d) (ag_id sub) (ss3, c3)"
    by (simp add: handle_chunk_def handle_text_def r nf text_chunk_def)
  moreover have "st_first st" by (simp add: st_def)
  ultimately have h: "handle_chunk (text_chunk slug d) (ss, c) =
     (case on_stream (ag_id sub) (\<lambda>st. st\<lparr>st_accumulated := st_accumulated st @ d, st_chunks := Suc (st_chunks st)\<rparr>)
        (on_stream (ag_id sub) (\<lambda>st. st\<lparr>st_first := False\<rparr>)
           (emits (EvAgentStatus (ss_ws ss3) (ag_id sub) ''writing'') (ss3, c3))) of
      (ss, c) \<Rightarrow> (ss\<lparr>ss_total := Suc (ss_total ss)\<rparr>, emit (EvMessageChunk (ss_ws ss) (m_id ph) (ag_id sub) d) c))"
    unfolding append_chunk_def look option.case note_writing_def
    by (simp add: text_chunk_def) (simp add: st_def)
  show ?thesis
    unfolding h by (auto simp: on_stream_def emits_def s3 upd upd2 upd1) (simp add: st_def)+
qed

text \<open>The status of an interrupted sub-agent depends on the order of the chunks. When the stream
  breaks before a sub-agent's done event, its text is finalised as delivered if the primary agent
  was done before the sub-agent's first chunk, and as incomplete if it was done after it.
\<close>

theorem interrupted_sub_agent:
  assumes p: "ss_streams ss = [(ag_id (ss_primary ss), st)]" "ag_slug (ss_primary ss) \<noteq> ''''"
    and sub: "by_slug (ss_roster ss) slug = Some sub" "slug \<noteq> ''''" "slug \<noteq> ag_slug (ss_primary ss)"
      "ag_id sub \<noteq> ag_id (ss_primary ss)"
    and live: "\<And>k. \<not> ch_fails c k" and loud: "trim_space d \<noteq> ''[SILENT]''"
  shows "(case process_stream [done_chunk (ag_slug (ss_primary ss)), text_chunk slug d] (ss, c) of
      (ss1, c1) \<Rightarrow> \<exists>st1. map_of (ss_streams ss1) (ag_id sub) = Some st1 \<and> \<not> st_done st1
        \<and> st_accumulated st1 = d \<and> final_status ss1 st1 (trim_space d) = MsgDelivered)
    \<and> (case process_stream [text_chunk slug d, done_chunk (ag_slug (ss_primary ss))] (ss\<lparr>ss_global_done := False\<rparr>, c) of
      (ss1, c1) \<Rightarrow> \<exists>st1. map_of (ss_streams ss1) (ag_id sub) = Some st1 \<and> \<not> st_done st1
        \<and> st_accumulated st1 = d \<and> final_status ss1 st1 (trim_space d) = MsgIncomplete)"
proof
  let ?p = "ag_id (ss_primary ss)"
  have l: "live c" using live by (simp add: live_def)
  let ?sd = "ss\<lparr>ss_streams := [(?p, st\<lparr>st_done := True\<rparr>)], ss_global_done := True\<rparr>"
  have h1: "handle_chunk (done_chunk (ag_slug (ss_primary ss))) (ss, c) = (?sd, c)"
    using p by (simp add: handle_done_primary Let_def upd_stream_def all_streams_done_def)
  obtain ss' c' st' where h2: "handle_chunk (text_chunk slug d) (?sd, c) = (ss', c')"
    "ss_streams ss' = ss_streams ?sd @ [(ag_id sub, st')]" "st_accumulated st' = d" "\<not> st_done st'" "ss_global_done ss'"
    using handle_text_new_sub [of ?sd slug sub c d] sub l by auto
  show "case process_stream [done_chunk (ag_slug (ss_primary ss)), text_chunk slug d] (ss, c) of
      (ss1, c1) \<Rightarrow> \<exists>st1. map_of (ss_streams ss1) (ag_id sub) = Some st1 \<and> \<not> st_done st1
        \<and> st_accumulated st1 = d \<and> final_status ss1 st1 (trim_space d) = MsgDelivered"
    using h1 h2 sub(4) loud by (simp add: process_stream_def final_status_def agentSilentResponse_def)
  let ?so = "ss\<lparr>ss_global_done := False\<rparr>"
  obtain ss2 c2 st2 where h3: "handle_chunk (text_chunk slug d) (?so, c) = (ss2, c2)"
    "ss_streams ss2 = [(?p, st), (ag_id sub, st2)]" "st_accumulated st2 = d" "\<not> st_done st2" "ss_primary ss2 = ss_primary ss"
    using handle_text_new_sub [of ?so slug sub c d] sub l p by auto
  have h4: "handle_chunk (done_chunk (ag_slug (ss_primary ss))) (ss2, c2)
      = (ss2\<lparr>ss_streams := [(?p, st\<lparr>st_done := True\<rparr>), (ag_id sub, st2)], ss_global_done := False\<rparr>, c2)"
    using handle_done_primary [of ss2 c2] p(2) h3 sub(4) by (simp add: Let_def upd_stream_def all_streams_done_def)
  show "case process_stream [text_chunk slug d, done_chunk (ag_slug (ss_primary ss))] (?so, c) of
      (ss1, c1) \<Rightarrow> \<exists>st1. map_of (ss_streams ss1) (ag_id sub) = Some st1 \<and> \<not> st_done st1
        \<and> st_accumulated st1 = d \<and> final_status ss1 st1 (trim_space d) = MsgIncomplete"
    using h3 h4 sub(4) loud by (simp add: process_stream_def final_status_def agentSilentResponse_def)
qed

section \<open>Witnesses\<close>

definition sample_agents :: "agent list" where
  "sample_agents = [\<lparr>ag_id = ''a1'', ag_slug = ''manager'', ag_name = ''Manager'', ag_manager = True\<rparr>,
                    \<lparr>ag_id = ''a2'', ag_slug = ''wally'', ag_name = ''Wally'', ag_manager = False\<rparr>]"

definition sample_call :: stream_call where
  "sample_call = \<lparr>sl_ws = ''w'', sl_user = ''u'', sl_conv = \<lparr>cv_id = ''v'', cv_ws = ''w'', cv_updated = 0\<rparr>,
     sl_roster = sample_agents, sl_user_message = '''', sl_local = '''', sl_delivered_once = False, sl_read_once = False\<rparr>"

definition sample_order :: "(string \<times> sub_stream) list \<Rightarrow> (string \<times> sub_stream) list \<times> (string \<times> sub_stream) list" where
  "sample_order xs = (xs, xs)"

definition sample_run :: "chat \<times> (gerror + chat_message list)" where
  "sample_run = call_agent_streaming (Inr [text_chunk ''manager'' ''Hi '', done_chunk '''']) sample_order sample_call (Some (hd sample_agents)) sample_chat"

definition sample_replies :: "chat_message list" where
  "sample_replies = (case snd sample_run of Inr rs \<Rightarrow> rs | Inl e \<Rightarrow> [])"

lemma sample_replies_texts:
  "map (\<lambda>r. (m_id r, m_text r, m_status r)) sample_replies =
     [(''m0'', ''Hi'', MsgDelivered)]"
  by code_simp

lemma sample_run_ok: "is_ok (snd sample_run)"
  by code_simp

lemma sample_inj: "inj (ch_uuids sample_chat)"
  by (simp add: inj_def sample_chat_def show_nat_inj)

lemma sample_run_eq: "call_agent_streaming (Inr [text_chunk ''manager'' ''Hi '', done_chunk '''']) sample_order sample_call (Some (hd sample_agents)) sample_chat
   = (fst sample_run, Inr sample_replies)"
  using sample_run_ok by (cases sample_run) (auto simp: sample_run_def sample_replies_def is_ok_def split: sum.splits)

lemma replies_as_streamed_witness:
  "\<exists>evs. ch_events (fst sample_run) = evs \<and> trim_space (streamed ''m0'' evs) = ''Hi''"
proof -
  have o: "mset (fst (sample_order xs)) = mset xs" for xs by (simp add: sample_order_def)
  obtain evs where e: "ch_events (fst sample_run) = ch_events sample_chat @ evs"
    "\<forall>r \<in> set sample_replies. let t = trim_space (streamed (m_id r) evs) in
       (\<exists>row. ch_msgs (fst sample_run) (m_id r) = Some row \<and> m_text row = m_text r \<and> m_status row = m_status r)
       \<and> m_status r \<in> {MsgDelivered, MsgIncomplete, MsgSilent, MsgDelegated}
       \<and> (if m_status r = MsgSilent then t = ''[SILENT]'' \<and> m_text r = '''' else m_text r = t)"
    using replies_as_streamed [OF sample_inj o sample_run_eq] by blast
  have "\<exists>r \<in> set sample_replies. m_id r = ''m0'' \<and> m_text r = ''Hi'' \<and> m_status r = MsgDelivered"
  proof -
    obtain z where z: "sample_replies = [z]" "m_id z = ''m0''" "m_text z = ''Hi''" "m_status z = MsgDelivered"
      using sample_replies_texts by (auto simp: map_eq_Cons_conv)
    show ?thesis unfolding z(1) using z(2-4) by simp
  qed
  then show ?thesis using e by (auto simp: Let_def sample_chat_def)
qed

lemma no_pending_left_witness:
  "\<not> (\<exists>i m. ch_msgs (fst sample_run) i = Some m \<and> m_status m = MsgPending)"
proof
  assume "\<exists>i m. ch_msgs (fst sample_run) i = Some m \<and> m_status m = MsgPending"
  then obtain i m where m: "ch_msgs (fst sample_run) i = Some m" "m_status m = MsgPending" by blast
  have o: "mset (fst (sample_order xs)) = mset xs" for xs by (simp add: sample_order_def)
  have ids: "ch_uuids sample_chat n \<noteq> ''''" for n by (simp add: sample_chat_def)
  have l: "\<not> ch_fails sample_chat k" for k by (simp add: sample_chat_def)
  from no_pending_left [OF sample_inj ids l o sample_run_eq m] show False by (simp add: sample_fresh)
qed

lemma interrupted_sub_agent_witness:
  "\<exists>ss1 st1. \<not> st_done st1 \<and> st_accumulated st1 = ''half'' \<and> final_status ss1 st1 (trim_space ''half'') = MsgDelivered"
proof -
  define ph where "ph = question_message ''m0'' ''v'' ''a1'' [] 0"
  define ss where "ss = new_stream_session sample_call (hd sample_agents) ph"
  have 1: "ss_streams ss = [(ag_id (ss_primary ss), snd (hd (ss_streams ss)))]" "ag_slug (ss_primary ss) \<noteq> ''''"
    by (simp_all add: ss_def new_stream_session_def sample_agents_def)
  have 2: "by_slug (ss_roster ss) ''wally'' = Some (sample_agents ! 1)" "''wally'' \<noteq> ''''"
    "''wally'' \<noteq> ag_slug (ss_primary ss)" "ag_id (sample_agents ! 1) \<noteq> ag_id (ss_primary ss)"
    by (simp_all add: ss_def new_stream_session_def sample_agents_def sample_call_def by_slug_def)
  have l: "\<not> ch_fails sample_chat k" for k by (simp add: sample_chat_def)
  have t: "trim_space ''half'' \<noteq> ''[SILENT]''" by code_simp
  show ?thesis using interrupted_sub_agent [OF 1 2 l t] by (auto split: prod.splits)
qed

end
