(* ===== verification/Palace_Graph.thy ===== *)
theory Palace_Graph
  imports Memory_Types
begin

text \<open>
  \<open>memory/repo/palacegraphrepo\<close>: the graph whose nodes are the rooms of a workspace's
  drawers and whose edges join rooms that share a wing. \<open>buildNodes\<close> aggregates the rows
  or takes the aggregation from the Redis cache, \<open>Traverse\<close> is a breadth-first search up to
  a number of hops, \<open>FindTunnels\<close> and \<open>GraphStats\<close> read the same nodes.
  The order in which Go ranges over the node map and in which \<open>sort.Slice\<close> leaves equal
  elements are arguments (\<open>any_order\<close>, \<open>sort_slice\<close> in the prelude).
\<close>

section \<open>Nodes\<close>

definition maxGraphResults :: nat where "maxGraphResults = 50"
definition graphCacheTTL :: int where "graphCacheTTL = 300"
definition graphCacheKeyPrefix :: string where "graphCacheKeyPrefix = ''memory:palace:graph:''"

record room_node =
  rn_room :: string
  rn_wings :: "string list"
  rn_halls :: "string list"
  rn_count :: nat

record drawer_meta =
  dm_room :: string
  dm_wing :: string
  dm_hall :: string
  dm_cnt :: nat

type_synonym node_map = "(string \<times> room_node) list"

definition contains_str :: "string list \<Rightarrow> string \<Rightarrow> bool" where
  "contains_str ss s = List.member ss s"

definition to_set :: "string list \<Rightarrow> string set" where
  "to_set ss = set ss"

definition intersect :: "string set \<Rightarrow> string set \<Rightarrow> string set" where
  "intersect a b = {k \<in> a. k \<in> b}"

definition set_to_sorted :: "string set \<Rightarrow> string list" where
  "set_to_sorted m = sorted_list_of_set m"

text \<open>The grouped rows of the query, \<open>GROUP BY room, wing, hall\<close>.\<close>

definition in_graph :: "string \<Rightarrow> drawer \<Rightarrow> bool" where
  "in_graph ws d = (d_ws d = ws \<and> d_room d \<noteq> '''' \<and> d_room d \<noteq> ''general'')"

definition meta_rows :: "string \<Rightarrow> drawer list \<Rightarrow> drawer_meta list" where
  "meta_rows ws ds =
     (let ks = map (\<lambda>d. (d_room d, d_wing d, d_hall d)) (filter (in_graph ws) ds) in
      map (\<lambda>k. \<lparr>dm_room = fst k, dm_wing = fst (snd k), dm_hall = snd (snd k), dm_cnt = count_list ks k\<rparr>)
        (remdups ks))"

text \<open>One row of the aggregation loop, then the sorts.\<close>

definition add_row :: "drawer_meta \<Rightarrow> room_node \<Rightarrow> room_node" where
  "add_row r n =
     n\<lparr>rn_wings := (if contains_str (rn_wings n) (dm_wing r) then rn_wings n else rn_wings n @ [dm_wing r]),
       rn_halls := (if dm_hall r \<noteq> '''' \<and> \<not> contains_str (rn_halls n) (dm_hall r)
                    then rn_halls n @ [dm_hall r] else rn_halls n),
       rn_count := rn_count n + dm_cnt r\<rparr>"

fun upsert_node :: "drawer_meta \<Rightarrow> node_map \<Rightarrow> node_map" where
  "upsert_node r [] =
     [(dm_room r, add_row r \<lparr>rn_room = dm_room r, rn_wings = [], rn_halls = [], rn_count = 0\<rparr>)]"
| "upsert_node r ((k, n) # m) =
     (if k = dm_room r then (k, add_row r n) # m else (k, n) # upsert_node r m)"

definition sort_node :: "room_node \<Rightarrow> room_node" where
  "sort_node n = n\<lparr>rn_wings := sort (rn_wings n), rn_halls := sort (rn_halls n)\<rparr>"

definition aggregate :: "drawer_meta list \<Rightarrow> node_map" where
  "aggregate rows = map (\<lambda>(k, n). (k, sort_node n)) (fold upsert_node rows [])"

section \<open>The cache\<close>

text \<open>
  A Redis entry is its payload and the second at which it expires. \<open>enc\<close> and \<open>dec\<close> are
  \<open>json.Marshal\<close> and \<open>json.Unmarshal\<close> on node maps; the flags say whether the
  connection exists, whether the read fails and whether the write fails.
\<close>

record redis_link =
  has_redis :: bool
  get_fails :: bool
  set_fails :: bool

record palace =
  pg_drawers :: "drawer list"
  pg_now :: int
  pg_redis :: "string \<Rightarrow> (string \<times> int) option"

definition graph_cache_key :: "string \<Rightarrow> string" where
  "graph_cache_key ws = graphCacheKeyPrefix @ ws"

definition redis_get :: "palace \<Rightarrow> string \<Rightarrow> string" where
  "redis_get s k = (case pg_redis s k of None \<Rightarrow> '''' | Some (v, e) \<Rightarrow> if pg_now s < e then v else '''')"

definition cache_get ::
  "(string \<Rightarrow> node_map option) \<Rightarrow> redis_link \<Rightarrow> palace \<Rightarrow> string \<Rightarrow> node_map option" where
  "cache_get dec l s ws =
     (if \<not> has_redis l then None
      else if get_fails l then None
      else let raw = redis_get s (graph_cache_key ws) in
        if raw = '''' then None else dec raw)"

definition cache_set ::
  "(node_map \<Rightarrow> string option) \<Rightarrow> redis_link \<Rightarrow> string \<Rightarrow> node_map \<Rightarrow> palace \<Rightarrow> palace" where
  "cache_set enc l ws nodes s =
     (if \<not> has_redis l then s
      else case enc nodes of
        None \<Rightarrow> s
      | Some p \<Rightarrow> if set_fails l then s
          else s\<lparr>pg_redis := (pg_redis s)(graph_cache_key ws \<mapsto> (p, pg_now s + graphCacheTTL))\<rparr>)"

definition cache_invalidate :: "redis_link \<Rightarrow> string \<Rightarrow> palace \<Rightarrow> palace" where
  "cache_invalidate l ws s =
     (if \<not> has_redis l \<or> set_fails l then s
      else s\<lparr>pg_redis := (pg_redis s)(graph_cache_key ws := None)\<rparr>)"

text \<open>\<open>db\<close> is the error of the aggregation query, if it fails.\<close>

definition build_nodes ::
  "(node_map \<Rightarrow> string option) \<Rightarrow> (string \<Rightarrow> node_map option) \<Rightarrow> redis_link \<Rightarrow> string option
   \<Rightarrow> string \<Rightarrow> palace \<Rightarrow> node_map go_result \<times> palace" where
  "build_nodes enc dec l db ws s =
     (case cache_get dec l s ws of
        Some nodes \<Rightarrow> (Inr nodes, s)
      | None \<Rightarrow>
          (case db of
             Some e \<Rightarrow> (Inl (''graph: build nodes: '' @ e), s)
           | None \<Rightarrow>
               let nodes = aggregate (meta_rows ws (pg_drawers s)) in
               (Inr nodes, cache_set enc l ws nodes s)))"

section \<open>Breadth-first traversal\<close>

record traversal_result =
  tr_room :: string
  tr_wings :: "string list"
  tr_halls :: "string list"
  tr_count :: nat
  tr_hop :: nat
  tr_via :: "string list"

type_synonym frontier = "string \<times> nat"

record bfs =
  bf_visited :: "string set"
  bf_results :: "traversal_result list"
  bf_queue :: "frontier list"

text \<open>One iteration of the loop of \<open>expandFrontier\<close>.\<close>

definition visit_room :: "string set \<Rightarrow> nat \<Rightarrow> nat \<Rightarrow> string \<times> room_node \<Rightarrow> bfs \<Rightarrow> bfs" where
  "visit_room curWings depth maxHops rn b =
     (let room = fst rn; node = snd rn in
      if room \<in> bf_visited b then b
      else
        let shared = intersect curWings (to_set (rn_wings node)) in
        if shared = {} then b
        else
          b\<lparr>bf_visited := insert room (bf_visited b),
            bf_results := bf_results b @ [\<lparr>tr_room = room, tr_wings = rn_wings node, tr_halls = rn_halls node,
              tr_count = rn_count node, tr_hop = depth + 1, tr_via = set_to_sorted shared\<rparr>],
            bf_queue := (if depth + 1 < maxHops then bf_queue b @ [(room, depth + 1)] else bf_queue b)\<rparr>)"

text \<open>A missing key of the map would be a nil pointer; the queue holds keys only.\<close>

definition node_of :: "node_map \<Rightarrow> string \<Rightarrow> room_node" where
  "node_of nodes room =
     (case map_of nodes room of
        Some n \<Rightarrow> n
      | None \<Rightarrow> \<lparr>rn_room = '''', rn_wings = [], rn_halls = [], rn_count = 0\<rparr>)"

definition expand_frontier ::
  "(node_map \<Rightarrow> node_map) \<Rightarrow> node_map \<Rightarrow> frontier \<Rightarrow> nat \<Rightarrow> bfs \<Rightarrow> bfs" where
  "expand_frontier f nodes cur maxHops b =
     fold (visit_room (to_set (rn_wings (node_of nodes (fst cur)))) (snd cur) maxHops)
       (any_order f nodes) b"

text \<open>A visit takes a room out of the unvisited ones and puts at most that room in the queue.\<close>

definition bfs_measure :: "node_map \<Rightarrow> bfs \<Rightarrow> nat" where
  "bfs_measure nodes b = card (fst ` set nodes - bf_visited b) + length (bf_queue b)"

lemma visit_room_measure:
  assumes "rn \<in> set nodes"
  shows "bfs_measure nodes (visit_room w d h rn b) \<le> bfs_measure nodes b"
proof (cases "fst rn \<in> bf_visited b \<or> intersect w (to_set (rn_wings (snd rn))) = {}")
  case True
  then show ?thesis by (auto simp: visit_room_def Let_def)
next
  case False
  let ?A = "fst ` set nodes - bf_visited b"
  have "card (fst ` set nodes - insert (fst rn) (bf_visited b)) = card (?A - {fst rn})"
    by (rule arg_cong [where f = card]) auto
  moreover have "card (?A - {fst rn}) < card ?A"
    using assms False by (intro card_Diff1_less) auto
  ultimately show ?thesis
    using False by (auto simp: visit_room_def Let_def bfs_measure_def)
qed

lemma expand_measure:
  "bfs_measure nodes (expand_frontier f nodes cur h b) \<le> bfs_measure nodes b"
proof -
  have "bfs_measure nodes (fold (visit_room w d h) rs b) \<le> bfs_measure nodes b"
    if "set rs \<subseteq> set nodes" for rs w d
    using that
  proof (induction rs arbitrary: b)
    case (Cons r rs)
    then show ?case
      using visit_room_measure [of r nodes w d h b] Cons.IH [of "visit_room w d h r b"]
      by (auto intro: order_trans)
  qed simp
  then show ?thesis by (simp add: expand_frontier_def)
qed

text \<open>\<open>ord n\<close> is the order of the \<open>n\<close>-th range over the map.\<close>

function bfs_loop ::
  "(nat \<Rightarrow> node_map \<Rightarrow> node_map) \<Rightarrow> node_map \<Rightarrow> nat \<Rightarrow> nat \<Rightarrow> bfs \<Rightarrow> bfs" where
  "bfs_loop ord nodes maxHops n b =
     (case bf_queue b of
        [] \<Rightarrow> b
      | cur # q \<Rightarrow>
          let b' = b\<lparr>bf_queue := q\<rparr> in
          if snd cur \<ge> maxHops then bfs_loop ord nodes maxHops n b'
          else bfs_loop ord nodes maxHops (Suc n) (expand_frontier (ord n) nodes cur maxHops b'))"
  by pat_completeness auto

termination
proof (relation "measure (\<lambda>(ord, nodes, h, n, b). bfs_measure nodes b)", goal_cases)
  case (2 ord nodes h n b cur q b')
  then show ?case by (simp add: bfs_measure_def)
next
  case (3 ord nodes h n b cur q b')
  then have "bfs_measure nodes b' < bfs_measure nodes b" by (simp add: bfs_measure_def)
  then show ?case using expand_measure [of nodes "ord n" cur h b'] by simp
qed simp

declare bfs_loop.simps [simp del]

definition result_less :: "traversal_result \<Rightarrow> traversal_result \<Rightarrow> bool" where
  "result_less a b = (if tr_hop a \<noteq> tr_hop b then tr_hop a < tr_hop b else tr_count a > tr_count b)"

definition start_state :: "node_map \<Rightarrow> string \<Rightarrow> room_node \<Rightarrow> bfs" where
  "start_state nodes startRoom start =
     \<lparr>bf_visited = {startRoom},
      bf_results = [\<lparr>tr_room = startRoom, tr_wings = rn_wings start, tr_halls = rn_halls start,
        tr_count = rn_count start, tr_hop = 0, tr_via = []\<rparr>],
      bf_queue = [(startRoom, 0)]\<rparr>"

text \<open>
  \<open>start_hops\<close> is the default of \<open>maxHops\<close>; \<open>quote\<close> is the \<open>%q\<close> of
  \<open>fmt.Errorf\<close>.
\<close>

definition start_hops :: "int \<Rightarrow> nat" where
  "start_hops maxHops = (if maxHops \<le> 0 then 2 else nat maxHops)"

definition traverse_nodes ::
  "(string \<Rightarrow> string) \<Rightarrow> (nat \<Rightarrow> node_map \<Rightarrow> node_map)
   \<Rightarrow> (traversal_result list \<Rightarrow> traversal_result list) \<Rightarrow> node_map \<Rightarrow> string \<Rightarrow> int \<Rightarrow> traversal_result list go_result" where
  "traverse_nodes quote ord srt nodes startRoom maxHops =
     (case map_of nodes startRoom of
        None \<Rightarrow> Inl (''graph: room '' @ quote startRoom @ '' not found'')
      | Some start \<Rightarrow>
          let rs = sort_slice srt result_less
                (bf_results (bfs_loop ord nodes (start_hops maxHops) 0 (start_state nodes startRoom start))) in
          Inr (if length rs > maxGraphResults then take maxGraphResults rs else rs))"

definition traverse ::
  "(string \<Rightarrow> string) \<Rightarrow> (node_map \<Rightarrow> string option) \<Rightarrow> (string \<Rightarrow> node_map option) \<Rightarrow> redis_link
   \<Rightarrow> string option \<Rightarrow> (nat \<Rightarrow> node_map \<Rightarrow> node_map)
   \<Rightarrow> (traversal_result list \<Rightarrow> traversal_result list) \<Rightarrow> string \<Rightarrow> string \<Rightarrow> int \<Rightarrow> palace
   \<Rightarrow> traversal_result list go_result \<times> palace" where
  "traverse quote enc dec l db ord srt ws startRoom maxHops s =
     (case build_nodes enc dec l db ws s of
        (Inl e, s') \<Rightarrow> (Inl e, s')
      | (Inr nodes, s') \<Rightarrow> (traverse_nodes quote ord srt nodes startRoom maxHops, s'))"

section \<open>Tunnels and statistics\<close>

record tunnel =
  tn_room :: string
  tn_wings :: "string list"
  tn_halls :: "string list"
  tn_count :: nat

definition tunnel_of :: "room_node \<Rightarrow> tunnel" where
  "tunnel_of n = \<lparr>tn_room = rn_room n, tn_wings = rn_wings n, tn_halls = rn_halls n, tn_count = rn_count n\<rparr>"

definition is_tunnel :: "string \<Rightarrow> string \<Rightarrow> room_node \<Rightarrow> bool" where
  "is_tunnel wingA wingB n =
     (if length (rn_wings n) < 2 then False
      else if wingA \<noteq> '''' \<and> \<not> contains_str (rn_wings n) wingA then False
      else if wingB \<noteq> '''' \<and> \<not> contains_str (rn_wings n) wingB then False
      else True)"

definition tunnels_in ::
  "(node_map \<Rightarrow> node_map) \<Rightarrow> (tunnel list \<Rightarrow> tunnel list) \<Rightarrow> string \<Rightarrow> string \<Rightarrow> node_map \<Rightarrow> tunnel list" where
  "tunnels_in f srt wingA wingB nodes =
     (let ts = sort_slice srt (\<lambda>a b. tn_count a > tn_count b)
            (map tunnel_of (filter (is_tunnel wingA wingB) (map snd (any_order f nodes)))) in
      if length ts > maxGraphResults then take maxGraphResults ts else ts)"

definition find_tunnels ::
  "(node_map \<Rightarrow> string option) \<Rightarrow> (string \<Rightarrow> node_map option) \<Rightarrow> redis_link \<Rightarrow> string option
   \<Rightarrow> (node_map \<Rightarrow> node_map) \<Rightarrow> (tunnel list \<Rightarrow> tunnel list) \<Rightarrow> string \<Rightarrow> string \<Rightarrow> string \<Rightarrow> palace
   \<Rightarrow> tunnel list go_result \<times> palace" where
  "find_tunnels enc dec l db f srt ws wingA wingB s =
     (case build_nodes enc dec l db ws s of
        (Inl e, s') \<Rightarrow> (Inl e, s')
      | (Inr nodes, s') \<Rightarrow> (Inr (tunnels_in f srt wingA wingB nodes), s'))"

definition add_wing_counts :: "(string \<Rightarrow> nat option) \<Rightarrow> string list \<Rightarrow> string \<Rightarrow> nat option" where
  "add_wing_counts counts wings =
     fold (\<lambda>w c. c(w \<mapsto> (case c w of None \<Rightarrow> 1 | Some n \<Rightarrow> n + 1))) wings counts"

definition wing_edges :: "nat \<Rightarrow> nat" where
  "wing_edges wingCount = (if wingCount < 2 then 0 else wingCount * (wingCount - 1) div 2)"

record palace_stats =
  gs_rooms :: nat
  gs_tunnels :: nat
  gs_edges :: nat
  gs_per_wing :: "string \<Rightarrow> nat option"
  gs_top :: "tunnel list"

definition stats_step :: "room_node \<Rightarrow> palace_stats \<Rightarrow> palace_stats" where
  "stats_step n g =
     (let g = g\<lparr>gs_per_wing := add_wing_counts (gs_per_wing g) (rn_wings n),
                gs_edges := gs_edges g + wing_edges (length (rn_wings n))\<rparr> in
      if length (rn_wings n) < 2 then g
      else g\<lparr>gs_tunnels := gs_tunnels g + 1, gs_top := gs_top g @ [tunnel_of n]\<rparr>)"

definition stats_of ::
  "(node_map \<Rightarrow> node_map) \<Rightarrow> (tunnel list \<Rightarrow> tunnel list) \<Rightarrow> node_map \<Rightarrow> palace_stats" where
  "stats_of f srt nodes =
     (let g = fold stats_step (map snd (any_order f nodes))
            \<lparr>gs_rooms = length nodes, gs_tunnels = 0, gs_edges = 0, gs_per_wing = Map.empty, gs_top = []\<rparr>;
          top = sort_slice srt (\<lambda>a b. length (tn_wings a) > length (tn_wings b)) (gs_top g) in
      g\<lparr>gs_top := (if length top > 10 then take 10 top else top)\<rparr>)"

definition graph_stats ::
  "(node_map \<Rightarrow> string option) \<Rightarrow> (string \<Rightarrow> node_map option) \<Rightarrow> redis_link \<Rightarrow> string option
   \<Rightarrow> (node_map \<Rightarrow> node_map) \<Rightarrow> (tunnel list \<Rightarrow> tunnel list) \<Rightarrow> string \<Rightarrow> palace
   \<Rightarrow> palace_stats go_result \<times> palace" where
  "graph_stats enc dec l db f srt ws s =
     (case build_nodes enc dec l db ws s of
        (Inl e, s') \<Rightarrow> (Inl e, s')
      | (Inr nodes, s') \<Rightarrow> (Inr (stats_of f srt nodes), s'))"

end
