(* ===== verification/Palace_Graph_Props.thy ===== *)
theory Palace_Graph_Props
  imports Palace_Graph
begin

text \<open>
  The traversal against a reference definition: \<open>within_hops nodes s k\<close> is the set of rooms
  that some chain of at most \<open>k\<close> shared wings joins to the start. The loop invariant
  \<open>bfs_inv\<close> is that of breadth-first search: the queue holds the visited rooms that are not
  expanded yet, in the order of their hops, which span two levels at most.
\<close>

section \<open>The reference\<close>

definition linked :: "node_map \<Rightarrow> string \<Rightarrow> string \<Rightarrow> bool" where
  "linked nodes a b = (b \<in> fst ` set nodes \<and>
     intersect (to_set (rn_wings (node_of nodes a))) (to_set (rn_wings (node_of nodes b))) \<noteq> {})"

fun within_hops :: "node_map \<Rightarrow> string \<Rightarrow> nat \<Rightarrow> string set" where
  "within_hops nodes s 0 = {s}"
| "within_hops nodes s (Suc k) =
     within_hops nodes s k \<union> {r \<in> fst ` set nodes. \<exists>p \<in> within_hops nodes s k. linked nodes p r}"

definition hops_to :: "node_map \<Rightarrow> string \<Rightarrow> string \<Rightarrow> nat \<Rightarrow> bool" where
  "hops_to nodes s r k = (r \<in> within_hops nodes s k \<and> (\<forall>j < k. r \<notin> within_hops nodes s j))"

lemma hops_to_unique: "hops_to nodes s r k \<Longrightarrow> hops_to nodes s r k' \<Longrightarrow> k = k'"
  unfolding hops_to_def by (meson linorder_neqE_nat)

lemma within_hops_mono: "j \<le> k \<Longrightarrow> within_hops nodes s j \<subseteq> within_hops nodes s k"
  by (rule lift_Suc_mono_le [of "within_hops nodes s"]) auto

lemma hops_to_le: "hops_to nodes s r k \<Longrightarrow> r \<in> within_hops nodes s j \<Longrightarrow> k \<le> j"
  unfolding hops_to_def by (meson not_le)

lemma node_of_entry:
  "distinct (map fst nodes) \<Longrightarrow> rn \<in> set nodes \<Longrightarrow> node_of nodes (fst rn) = snd rn"
  by (cases rn) (simp add: node_of_def)

section \<open>One expansion in closed form\<close>

definition found_by :: "node_map \<Rightarrow> node_map \<Rightarrow> string \<Rightarrow> bfs \<Rightarrow> node_map" where
  "found_by rs nodes c b = filter (\<lambda>rn. fst rn \<notin> bf_visited b \<and>
     intersect (to_set (rn_wings (node_of nodes c))) (to_set (rn_wings (snd rn))) \<noteq> {}) rs"

definition result_for :: "node_map \<Rightarrow> string \<Rightarrow> nat \<Rightarrow> string \<times> room_node \<Rightarrow> traversal_result" where
  "result_for nodes c d rn =
     \<lparr>tr_room = fst rn, tr_wings = rn_wings (snd rn), tr_halls = rn_halls (snd rn),
      tr_count = rn_count (snd rn), tr_hop = d + 1,
      tr_via = set_to_sorted (intersect (to_set (rn_wings (node_of nodes c))) (to_set (rn_wings (snd rn))))\<rparr>"

lemma result_for_simps [simp]:
  "tr_room (result_for nodes c d rn) = fst rn" "tr_hop (result_for nodes c d rn) = Suc d"
  "tr_wings (result_for nodes c d rn) = rn_wings (snd rn)"
  "tr_halls (result_for nodes c d rn) = rn_halls (snd rn)"
  "tr_count (result_for nodes c d rn) = rn_count (snd rn)"
  by (simp_all add: result_for_def)

lemma fold_visit_room:
  assumes "distinct (map fst rs)"
  shows "fold (visit_room (to_set (rn_wings (node_of nodes c))) d h) rs b =
    (let new = found_by rs nodes c b in
     b\<lparr>bf_visited := bf_visited b \<union> fst ` set new,
       bf_results := bf_results b @ map (result_for nodes c d) new,
       bf_queue := bf_queue b @ (if d + 1 < h then map (\<lambda>rn. (fst rn, d + 1)) new else [])\<rparr>)"
  using assms
proof (induction rs arbitrary: b)
  case Nil
  then show ?case by (simp add: found_by_def)
next
  case (Cons r rs)
  let ?w = "to_set (rn_wings (node_of nodes c))"
  let ?b = "visit_room ?w d h r b"
  have same: "found_by rs nodes c ?b = found_by rs nodes c b"
    using Cons.prems by (auto simp: found_by_def visit_room_def Let_def image_iff intro!: filter_cong)
  show ?case
  proof (cases "fst r \<in> bf_visited b \<or> intersect ?w (to_set (rn_wings (snd r))) = {}")
    case True
    then have "?b = b" "found_by (r # rs) nodes c b = found_by rs nodes c b"
      by (auto simp: visit_room_def Let_def found_by_def)
    then show ?thesis using Cons by simp
  next
    case False
    then have "found_by (r # rs) nodes c b = r # found_by rs nodes c b"
      by (simp add: found_by_def)
    then show ?thesis
      using False Cons same
      by (simp add: Let_def) (simp add: visit_room_def Let_def result_for_def)
  qed
qed

lemma expand_frontier_eq:
  assumes "distinct (map fst nodes)"
  shows "expand_frontier f nodes (c, d) h b =
    (let new = found_by (any_order f nodes) nodes c b in
     b\<lparr>bf_visited := bf_visited b \<union> fst ` set new,
       bf_results := bf_results b @ map (result_for nodes c d) new,
       bf_queue := bf_queue b @ (if d + 1 < h then map (\<lambda>rn. (fst rn, d + 1)) new else [])\<rparr>)"
  using fold_visit_room [of "any_order f nodes" nodes c d h b] assms
  by (simp add: expand_frontier_def)

lemma found_rooms:
  assumes "distinct (map fst nodes)"
  shows "fst ` set (found_by (any_order f nodes) nodes c b) = {r. linked nodes c r} - bf_visited b"
  using node_of_entry [OF assms] by (force simp: found_by_def linked_def)

lemma found_distinct:
  "distinct (map fst nodes) \<Longrightarrow> distinct (map fst (found_by (any_order f nodes) nodes c b))"
  by (simp add: found_by_def distinct_map_filter)

section \<open>The loop invariant\<close>

definition describes :: "node_map \<Rightarrow> traversal_result \<Rightarrow> bool" where
  "describes nodes x = (tr_wings x = rn_wings (node_of nodes (tr_room x)) \<and>
     tr_halls x = rn_halls (node_of nodes (tr_room x)) \<and>
     tr_count x = rn_count (node_of nodes (tr_room x)))"

definition explained :: "traversal_result list \<Rightarrow> traversal_result \<Rightarrow> bool" where
  "explained rs x = (tr_hop x = 0 \<or> (\<exists>p \<in> set rs. tr_hop x = Suc (tr_hop p) \<and> tr_via x \<noteq> [] \<and>
     set (tr_via x) = set (tr_wings p) \<inter> set (tr_wings x)))"

definition bfs_inv :: "node_map \<Rightarrow> string \<Rightarrow> nat \<Rightarrow> bfs \<Rightarrow> bool" where
  "bfs_inv nodes s h b = (distinct (map tr_room (bf_results b)) \<and>
     tr_room ` set (bf_results b) = bf_visited b \<and> s \<in> bf_visited b \<and>
     (\<forall>x \<in> set (bf_results b). hops_to nodes s (tr_room x) (tr_hop x) \<and> tr_hop x \<le> h \<and>
        describes nodes x \<and> explained (bf_results b) x) \<and>
     sorted (map snd (bf_queue b)) \<and>
     (\<forall>q \<in> set (bf_queue b). snd q < h \<and> snd q \<le> Suc (snd (hd (bf_queue b))) \<and>
        q \<in> (\<lambda>x. (tr_room x, tr_hop x)) ` set (bf_results b)) \<and>
     (\<forall>x \<in> set (bf_results b). tr_hop x < h \<longrightarrow> (tr_room x, tr_hop x) \<notin> set (bf_queue b) \<longrightarrow>
        {r. linked nodes (tr_room x) r} \<subseteq> bf_visited b))"

text \<open>Rooms no farther than the front of the queue are all visited.\<close>

lemma level_visited:
  assumes b: "bfs_inv nodes s h b" and q: "\<forall>q \<in> set (bf_queue b). k \<le> snd q" and k: "k \<le> h"
  shows "j \<le> k \<Longrightarrow> within_hops nodes s j \<subseteq> bf_visited b"
proof (induction j)
  case 0
  then show ?case using b by (simp add: bfs_inv_def)
next
  case (Suc j)
  have "r \<in> bf_visited b" if p: "p \<in> within_hops nodes s j" "linked nodes p r" for p r
  proof -
    have "p \<in> tr_room ` set (bf_results b)" using Suc p b by (auto simp: bfs_inv_def)
    then obtain x where x: "x \<in> set (bf_results b)" "tr_room x = p" by auto
    then have "tr_hop x \<le> j" using b p hops_to_le unfolding bfs_inv_def by blast
    then have "tr_hop x < h" "(tr_room x, tr_hop x) \<notin> set (bf_queue b)"
      using Suc.prems k q by auto
    then show ?thesis using b x p unfolding bfs_inv_def by blast
  qed
  then show ?case using Suc by auto
qed

lemma explained_append: "explained rs x \<Longrightarrow> explained (rs @ rs') x"
  by (auto simp: explained_def)

text \<open>One turn of the loop: pop the front of the queue and expand it.\<close>

lemma bfs_inv_expand:
  assumes dist: "distinct (map fst nodes)" and b: "bfs_inv nodes s h b"
    and q: "bf_queue b = (c, d) # q"
  shows "bfs_inv nodes s h (expand_frontier f nodes (c, d) h (b\<lparr>bf_queue := q\<rparr>))"
proof -
  let ?new = "found_by (any_order f nodes) nodes c (b\<lparr>bf_queue := q\<rparr>)"
  let ?rs = "bf_results b" and ?V = "bf_visited b"
  let ?b' = "expand_frontier f nodes (c, d) h (b\<lparr>bf_queue := q\<rparr>)"
  have b': "bf_visited ?b' = ?V \<union> fst ` set ?new"
    "bf_results ?b' = ?rs @ map (result_for nodes c d) ?new"
    "bf_queue ?b' = q @ (if Suc d < h then map (\<lambda>rn. (fst rn, Suc d)) ?new else [])"
    by (simp_all add: expand_frontier_eq [OF dist] Let_def)
  have new: "fst ` set ?new = {r. linked nodes c r} - ?V" and fresh: "distinct (map fst ?new)"
    using found_rooms [OF dist, of f c "b\<lparr>bf_queue := q\<rparr>"] found_distinct [OF dist] by simp_all
  have dh: "d < h" and cR: "(c, d) \<in> (\<lambda>x. (tr_room x, tr_hop x)) ` set ?rs"
    using b q by (auto simp: bfs_inv_def)
  then obtain p where p: "p \<in> set ?rs" "tr_room p = c" "tr_hop p = d" by auto
  have low: "\<forall>e \<in> set (bf_queue b). d \<le> snd e" and high: "\<forall>e \<in> set q. snd e \<le> Suc d"
    and srt: "sorted (map snd q)"
    using b q by (auto simp: bfs_inv_def)
  have hopc: "hops_to nodes s c d" using b p by (auto simp: bfs_inv_def)
  have seen: "within_hops nodes s j \<subseteq> ?V" if "j \<le> d" for j
    using level_visited [OF b low _ that] dh by simp
  have hopn: "hops_to nodes s r (Suc d)" if "r \<in> fst ` set ?new" for r
  proof -
    have "linked nodes c r" "r \<notin> ?V" using that new by auto
    then have "r \<in> within_hops nodes s (Suc d)"
      using hopc by (auto simp: hops_to_def linked_def)
    moreover have "r \<notin> within_hops nodes s j" if "j < Suc d" for j
      using seen [of j] that \<open>r \<notin> ?V\<close> by auto
    ultimately show ?thesis by (simp add: hops_to_def)
  qed
  have inV: "tr_room ` set ?rs = ?V" and sV: "s \<in> ?V" and dR: "distinct (map tr_room ?rs)"
    using b by (simp_all add: bfs_inv_def)
  have old: "hops_to nodes s (tr_room x) (tr_hop x)" "tr_hop x \<le> h" "describes nodes x" "explained ?rs x"
    if "x \<in> set ?rs" for x using b that by (simp_all add: bfs_inv_def)
  have newR: "hops_to nodes s (fst rn) (Suc d)" "tr_hop (result_for nodes c d rn) \<le> h" "describes nodes (result_for nodes c d rn)"
    "explained (?rs @ l) (result_for nodes c d rn)" if rn: "rn \<in> set ?new" for rn l
  proof -
    have "rn \<in> set nodes" and ne: "intersect (to_set (rn_wings (node_of nodes c))) (to_set (rn_wings (snd rn))) \<noteq> {}"
      using rn by (auto simp: found_by_def)
    then show "describes nodes (result_for nodes c d rn)"
      using node_of_entry [OF dist] by (simp add: describes_def)
    have "tr_wings p = rn_wings (node_of nodes c)"
      using old(3) [OF p(1)] p by (simp add: describes_def)
    then show "explained (?rs @ l) (result_for nodes c d rn)"
      using ne p by (auto simp: explained_def result_for_def set_to_sorted_def intersect_def to_set_def)
  qed (use dh hopn rn in simp_all)
  have queue_bound: "snd e \<le> Suc (snd (hd (bf_queue ?b')))" if "e \<in> set (bf_queue ?b')" for e
  proof -
    have range: "d \<le> snd e \<and> snd e \<le> Suc d" if "e \<in> set (bf_queue ?b')" for e
      using that high low q unfolding b' by (auto split: if_splits)
    moreover have "hd (bf_queue ?b') \<in> set (bf_queue ?b')"
      using that by (intro hd_in_set) auto
    ultimately show ?thesis using that by (meson Suc_le_mono order_trans)
  qed
  show ?thesis
    unfolding bfs_inv_def
  proof (intro conjI ballI)
    show "distinct (map tr_room (bf_results ?b'))"
      using dR fresh new inV by (auto simp: b' comp_def)
    show "tr_room ` set (bf_results ?b') = bf_visited ?b'"
      using inV by (simp add: b' image_Un image_image)
    show "s \<in> bf_visited ?b'" using sV by (simp add: b')
    show "sorted (map snd (bf_queue ?b'))"
      using srt high by (auto simp: b' sorted_append comp_def map_replicate_const)
  next
    fix x assume x: "x \<in> set (bf_results ?b')"
    show "hops_to nodes s (tr_room x) (tr_hop x)" "tr_hop x \<le> h" "describes nodes x"
      "explained (bf_results ?b') x"
      using x old newR explained_append unfolding b' by auto
    show "tr_hop x < h \<longrightarrow> (tr_room x, tr_hop x) \<notin> set (bf_queue ?b') \<longrightarrow>
        {r. linked nodes (tr_room x) r} \<subseteq> bf_visited ?b'"
    proof (intro impI)
      assume lt: "tr_hop x < h" and notin: "(tr_room x, tr_hop x) \<notin> set (bf_queue ?b')"
      have "x \<in> set ?rs"
      proof (rule ccontr)
        assume "x \<notin> set ?rs"
        then obtain rn where rn: "rn \<in> set ?new" "x = result_for nodes c d rn"
          using x by (auto simp: b')
        then have "(fst rn, Suc d) \<in> (\<lambda>rn. (fst rn, Suc d)) ` set ?new" by simp
        then show False using notin lt rn by (simp add: b')
      qed
      moreover have "(tr_room x, tr_hop x) \<notin> set q" using notin by (auto simp: b')
      ultimately show "{r. linked nodes (tr_room x) r} \<subseteq> bf_visited ?b'"
        using b q lt new by (cases "(tr_room x, tr_hop x) = (c, d)") (auto simp: b' bfs_inv_def)
    qed
  next
    fix e assume e: "e \<in> set (bf_queue ?b')"
    show "snd e \<le> Suc (snd (hd (bf_queue ?b')))" using e by (rule queue_bound)
    show "snd e < h" using e b q by (auto simp: b' bfs_inv_def split: if_splits)
    show "e \<in> (\<lambda>x. (tr_room x, tr_hop x)) ` set (bf_results ?b')"
    proof (cases "e \<in> set q")
      case True
      then show ?thesis using b q by (auto simp: b' bfs_inv_def)
    next
      case False
      then obtain rn where rn: "rn \<in> set ?new" "e = (fst rn, Suc d)"
        using e by (auto simp: b' split: if_splits)
      then have "result_for nodes c d rn \<in> set (bf_results ?b')" by (simp add: b')
      then show ?thesis using rn by (intro image_eqI) simp_all
    qed
  qed
qed

lemma bfs_loop_inv:
  shows "distinct (map fst nodes) \<Longrightarrow> bfs_inv nodes s h b \<Longrightarrow>
    bfs_inv nodes s h (bfs_loop ord nodes h n b) \<and> bf_queue (bfs_loop ord nodes h n b) = []"
proof (induction ord nodes h n b rule: bfs_loop.induct [case_names loop])
  case (loop ord nodes h n b)
  show ?case
  proof (cases "bf_queue b")
    case Nil
    then show ?thesis using loop.prems by (simp add: bfs_loop.simps)
  next
    case (Cons cur q)
    have lt: "snd cur < h" using loop.prems Cons by (auto simp: bfs_inv_def)
    have "bfs_inv nodes s h (expand_frontier (ord n) nodes cur h (b\<lparr>bf_queue := q\<rparr>))"
      using bfs_inv_expand [OF loop.prems] Cons by (cases cur) simp
    then show ?thesis
      using loop.IH(2) [OF Cons refl _ loop.prems(1)] lt Cons
      by (simp add: bfs_loop.simps [of ord nodes h n b])
  qed
qed

lemma bfs_inv_start:
  assumes "map_of nodes s = Some start" and "0 < h"
  shows "bfs_inv nodes s h (start_state nodes s start)"
  using assms by (auto simp: bfs_inv_def start_state_def hops_to_def describes_def explained_def node_of_def)

lemma bfs_results:
  assumes "distinct (map fst nodes)" and "map_of nodes s = Some start" and "0 < h"
    and rs_def: "rs = bf_results (bfs_loop ord nodes h 0 (start_state nodes s start))"
  shows "distinct (map tr_room rs)" and "tr_room ` set rs = within_hops nodes s h"
    and "\<forall>x \<in> set rs. hops_to nodes s (tr_room x) (tr_hop x) \<and> describes nodes x \<and> explained rs x"
proof -
  let ?b = "bfs_loop ord nodes h 0 (start_state nodes s start)"
  have b: "bfs_inv nodes s h ?b" and q: "bf_queue ?b = []"
    using bfs_loop_inv [OF assms(1) bfs_inv_start [OF assms(2,3)]] by blast+
  show "distinct (map tr_room rs)"
    and *: "\<forall>x \<in> set rs. hops_to nodes s (tr_room x) (tr_hop x) \<and> describes nodes x \<and> explained rs x"
    using b by (simp_all add: rs_def bfs_inv_def)
  have V: "tr_room ` set rs = bf_visited ?b" using b by (simp add: rs_def bfs_inv_def)
  have "within_hops nodes s h \<subseteq> bf_visited ?b"
    using level_visited [OF b _ order_refl order_refl] q by simp
  moreover have "tr_room x \<in> within_hops nodes s h" if "x \<in> set rs" for x
    using b that within_hops_mono [of "tr_hop x" h nodes s]
    by (auto simp: rs_def bfs_inv_def hops_to_def)
  ultimately show "tr_room ` set rs = within_hops nodes s h" unfolding V [symmetric] by auto
qed

lemma result_less_weak: "weak_order result_less"
  by (auto simp: weak_order_def result_less_def split: if_splits)

lemma explained_set: "set rs = set rs' \<Longrightarrow> explained rs x = explained rs' x"
  by (simp add: explained_def)

lemma take_if: "(if length xs > n then take n xs else xs) = take n xs"
  by simp

section \<open>What the aggregation computes\<close>

lemma add_rows:
  "set (rn_wings (fold add_row rs n)) = set (rn_wings n) \<union> dm_wing ` set rs"
  "set (rn_halls (fold add_row rs n)) = set (rn_halls n) \<union> (dm_hall ` set rs - {''''})"
  "rn_count (fold add_row rs n) = rn_count n + sum_list (map dm_cnt rs)"
  "rn_room (fold add_row rs n) = rn_room n"
  "distinct (rn_wings n) \<Longrightarrow> distinct (rn_wings (fold add_row rs n))"
  "distinct (rn_halls n) \<Longrightarrow> distinct (rn_halls (fold add_row rs n))"
  by (induction rs arbitrary: n) (auto simp: add_row_def contains_str_def)

lemma map_of_upsert:
  "map_of (upsert_node r m) k =
     (if k = dm_room r
      then Some (add_row r (case map_of m k of
             None \<Rightarrow> \<lparr>rn_room = k, rn_wings = [], rn_halls = [], rn_count = 0\<rparr> | Some n \<Rightarrow> n))
      else map_of m k)"
  by (induction r m rule: upsert_node.induct) auto

lemma keys_upsert: "fst ` set (upsert_node r m) = insert (dm_room r) (fst ` set m)"
  by (induction r m rule: upsert_node.induct) auto

lemma distinct_upsert: "distinct (map fst m) \<Longrightarrow> distinct (map fst (upsert_node r m))"
proof (induction r m rule: upsert_node.induct)
  case (2 r k n m)
  then show ?case using keys_upsert [of r m] by (auto simp: image_iff)
qed simp

lemma map_of_upserts:
  "map_of (fold upsert_node rows m) k =
     (let rs = filter (\<lambda>r. dm_room r = k) rows in
      if rs = [] then map_of m k
      else Some (fold add_row rs (case map_of m k of
             None \<Rightarrow> \<lparr>rn_room = k, rn_wings = [], rn_halls = [], rn_count = 0\<rparr> | Some n \<Rightarrow> n)))"
  by (induction rows arbitrary: m) (auto simp: map_of_upsert Let_def)

lemma distinct_upserts:
  "distinct (map fst m) \<Longrightarrow> distinct (map fst (fold upsert_node rows m))"
  by (induction rows arbitrary: m) (auto simp: distinct_upsert)

lemma aggregate_distinct: "distinct (map fst (aggregate rows))"
  using distinct_upserts [of "[]" rows] by (simp add: aggregate_def comp_def case_prod_beta)

lemma map_of_aggregate:
  "map_of (aggregate rows) k =
     (let rs = filter (\<lambda>r. dm_room r = k) rows in
      if rs = [] then None
      else Some (sort_node (fold add_row rs \<lparr>rn_room = k, rn_wings = [], rn_halls = [], rn_count = 0\<rparr>)))"
  using map_of_upserts [of rows "[]" k]
  by (simp add: aggregate_def Let_def map_of_map [unfolded comp_def])

lemma sum_count_filter:
  "(\<Sum>k \<leftarrow> filter P (remdups ks). count_list ks k) = length (filter P ks)"
proof -
  have same: "P k \<Longrightarrow> count_list (filter P ks) k = count_list ks k" for k by (induction ks) auto
  have "(\<Sum>k \<leftarrow> filter P (remdups ks). count_list ks k) = (\<Sum>k \<in> set (filter P ks). count_list ks k)"
    by (simp add: sum_list_distinct_conv_sum_set)
  also have "\<dots> = (\<Sum>k \<in> set (filter P ks). count_list (filter P ks) k)"
    by (rule sum.cong [OF refl]) (simp add: same)
  also have "\<dots> = length (filter P ks)" by (rule sum_count_set) simp_all
  finally show ?thesis .
qed

definition room_drawers :: "string \<Rightarrow> drawer list \<Rightarrow> string \<Rightarrow> drawer list" where
  "room_drawers ws ds r = filter (\<lambda>d. in_graph ws d \<and> d_room d = r) ds"

lemma rows_of_room:
  fixes ws ds
  defines "rows \<equiv> meta_rows ws ds"
  shows "dm_wing ` set (filter (\<lambda>r. dm_room r = k) rows) = d_wing ` set (room_drawers ws ds k)"
    and "dm_hall ` set (filter (\<lambda>r. dm_room r = k) rows) = d_hall ` set (room_drawers ws ds k)"
    and "sum_list (map dm_cnt (filter (\<lambda>r. dm_room r = k) rows)) = length (room_drawers ws ds k)"
    and "filter (\<lambda>r. dm_room r = k) rows = [] \<longleftrightarrow> room_drawers ws ds k = []"
proof -
  let ?ks = "map (\<lambda>d. (d_room d, d_wing d, d_hall d)) (filter (in_graph ws) ds)"
  let ?mk = "\<lambda>t. \<lparr>dm_room = fst t, dm_wing = fst (snd t), dm_hall = snd (snd t), dm_cnt = count_list ?ks t\<rparr>"
  have rows: "filter (\<lambda>r. dm_room r = k) rows = map ?mk (filter (\<lambda>t. fst t = k) (remdups ?ks))"
    unfolding rows_def meta_rows_def Let_def filter_map by (simp add: comp_def)
  have ks: "filter (\<lambda>t. fst t = k) ?ks = map (\<lambda>d. (d_room d, d_wing d, d_hall d)) (room_drawers ws ds k)"
    by (simp add: room_drawers_def filter_map comp_def conj_commute)
  have set: "set (filter (\<lambda>t. fst t = k) (remdups ?ks)) =
      (\<lambda>d. (d_room d, d_wing d, d_hall d)) ` set (room_drawers ws ds k)"
    using arg_cong [OF ks, of set] by simp
  have cnt: "map dm_cnt (map ?mk xs) = map (count_list ?ks) xs" for xs by simp
  show "dm_wing ` set (filter (\<lambda>r. dm_room r = k) rows) = d_wing ` set (room_drawers ws ds k)"
    "dm_hall ` set (filter (\<lambda>r. dm_room r = k) rows) = d_hall ` set (room_drawers ws ds k)"
    unfolding rows set_map set by (simp_all add: image_image)
  show "sum_list (map dm_cnt (filter (\<lambda>r. dm_room r = k) rows)) = length (room_drawers ws ds k)"
    unfolding rows cnt sum_count_filter ks by simp
  show "filter (\<lambda>r. dm_room r = k) rows = [] \<longleftrightarrow> room_drawers ws ds k = []"
    unfolding rows map_is_Nil_conv using arg_cong [OF set, of "\<lambda>A. A = {}"]
    by (simp only: set_empty image_is_empty)
qed

lemma aggregate_node:
  assumes "map_of (aggregate (meta_rows ws ds)) r = Some n"
  shows "rn_room n = r"
    and "rn_wings n = sorted_list_of_set (d_wing ` set (room_drawers ws ds r))"
    and "rn_halls n = sorted_list_of_set (d_hall ` set (room_drawers ws ds r) - {''''})"
    and "rn_count n = length (room_drawers ws ds r)"
proof -
  let ?rs = "filter (\<lambda>x. dm_room x = r) (meta_rows ws ds)"
  let ?e = "\<lparr>rn_room = r, rn_wings = [], rn_halls = [], rn_count = 0\<rparr>"
  have n: "n = sort_node (fold add_row ?rs ?e)"
    using assms by (simp add: map_of_aggregate Let_def split: if_splits)
  have srt: "sort xs = sorted_list_of_set (set xs)" if "distinct xs" for xs :: "string list"
    using that by (simp add: sorted_list_of_set_sort_remdups distinct_remdups_id)
  show "rn_room n = r" "rn_count n = length (room_drawers ws ds r)"
    by (simp_all add: n sort_node_def add_rows rows_of_room)
  show "rn_wings n = sorted_list_of_set (d_wing ` set (room_drawers ws ds r))"
    "rn_halls n = sorted_list_of_set (d_hall ` set (room_drawers ws ds r) - {''''})"
    using rows_of_room(1,2) [where k = r and ws = ws and ds = ds]
    by (simp_all add: n sort_node_def srt add_rows)
qed

lemma aggregate_rooms: "fst ` set (aggregate (meta_rows ws ds)) = d_room ` set (filter (in_graph ws) ds)"
proof -
  have "r \<in> fst ` set (aggregate (meta_rows ws ds)) \<longleftrightarrow> r \<in> d_room ` set (filter (in_graph ws) ds)" for r
  proof -
    have "r \<in> fst ` set (aggregate (meta_rows ws ds)) \<longleftrightarrow> map_of (aggregate (meta_rows ws ds)) r \<noteq> None"
      by (simp add: map_of_eq_None_iff)
    also have "\<dots> \<longleftrightarrow> room_drawers ws ds r \<noteq> []"
      by (simp add: map_of_aggregate Let_def rows_of_room(4))
    also have "\<dots> \<longleftrightarrow> r \<in> d_room ` set (filter (in_graph ws) ds)"
      by (auto simp: room_drawers_def filter_empty_conv)
    finally show ?thesis .
  qed
  then show ?thesis by blast
qed

section \<open>Properties\<close>

definition bfs_step :: "(node_map \<Rightarrow> node_map) \<Rightarrow> node_map \<Rightarrow> nat \<Rightarrow> bfs \<Rightarrow> bfs" where
  "bfs_step f nodes h b =
     (case bf_queue b of
        [] \<Rightarrow> b
      | cur # q \<Rightarrow> if snd cur \<ge> h then b\<lparr>bf_queue := q\<rparr>
          else expand_frontier f nodes cur h (b\<lparr>bf_queue := q\<rparr>))"

lemma bfs_step_measure:
  "bf_queue b \<noteq> [] \<Longrightarrow> bfs_measure nodes (bfs_step f nodes h b) < bfs_measure nodes b"
proof (cases "bf_queue b")
  case (Cons cur q)
  have "bfs_measure nodes (b\<lparr>bf_queue := q\<rparr>) < bfs_measure nodes b"
    using Cons by (simp add: bfs_measure_def)
  then show ?thesis
    using Cons expand_measure [of nodes f cur h "b\<lparr>bf_queue := q\<rparr>"] by (auto simp: bfs_step_def)
qed simp

text \<open>The loop with a bound on its turns; \<open>None\<close> when the bound is reached too early.\<close>

fun bfs_turns :: "nat \<Rightarrow> (nat \<Rightarrow> node_map \<Rightarrow> node_map) \<Rightarrow> node_map \<Rightarrow> nat \<Rightarrow> nat \<Rightarrow> bfs \<Rightarrow> bfs option" where
  "bfs_turns t ord nodes h n b =
     (if bf_queue b = [] then Some b
      else case t of
        0 \<Rightarrow> None
      | Suc t \<Rightarrow> bfs_turns t ord nodes h (if snd (hd (bf_queue b)) \<ge> h then n else Suc n)
          (bfs_step (ord n) nodes h b))"

declare bfs_turns.simps [simp del]

lemma bfs_turns_enough:
  "bfs_measure nodes b \<le> t \<Longrightarrow> bfs_turns t ord nodes h n b = Some (bfs_loop ord nodes h n b)"
proof (induction t arbitrary: n b)
  case 0
  then have "bf_queue b = []" by (simp add: bfs_measure_def)
  then show ?case by (simp add: bfs_turns.simps bfs_loop.simps)
next
  case (Suc t)
  show ?case
  proof (cases "bf_queue b")
    case Nil
    then show ?thesis by (simp add: bfs_turns.simps bfs_loop.simps)
  next
    case (Cons cur q)
    have "bfs_measure nodes (bfs_step (ord n) nodes h b) \<le> t"
      using bfs_step_measure [of b nodes "ord n" h] Cons Suc.prems by simp
    then show ?thesis
      using Suc.IH Cons
      by (simp add: bfs_turns.simps [of "Suc t"] bfs_loop.simps [of ord nodes h n b] bfs_step_def Let_def)
  qed
qed

lemma start_measure:
  assumes "map_of nodes s = Some start"
  shows "bfs_measure nodes (start_state nodes s start) \<le> length nodes"
proof -
  have "s \<in> fst ` set nodes" using map_of_SomeD [OF assms] by force
  then have "Suc (card (fst ` set nodes - {s})) = card (fst ` set nodes)"
    by (intro card_Suc_Diff1) simp_all
  moreover have "card (fst ` set nodes) \<le> length nodes"
    using card_length [of "map fst nodes"] by simp
  ultimately show ?thesis by (simp add: bfs_measure_def start_state_def)
qed

text \<open>C1. The traversal returns exactly the rooms within the hop limit of the start room, each
  once, with the smallest number of hops and a link to a room one hop nearer, nearer rooms first
  and fuller rooms first among equals, cut to \<open>maxGraphResults\<close>; whatever the order of the
  map and of equal elements.\<close>

theorem traverse_exact:
  assumes "distinct (map fst nodes)" and "map_of nodes startRoom = Some start"
  shows "\<exists>rs. traverse_nodes quote ord srt nodes startRoom maxHops = Inr (take maxGraphResults rs) \<and>
    distinct (map tr_room rs) \<and> tr_room ` set rs = within_hops nodes startRoom (start_hops maxHops) \<and>
    (\<forall>x \<in> set rs. hops_to nodes startRoom (tr_room x) (tr_hop x) \<and> describes nodes x \<and> explained rs x) \<and>
    sorted_wrt (\<lambda>a b. \<not> result_less b a) rs"
proof -
  let ?h = "start_hops maxHops"
  let ?bs = "bf_results (bfs_loop ord nodes ?h 0 (start_state nodes startRoom start))"
  let ?rs = "sort_slice srt result_less ?bs"
  have "0 < ?h" by (simp add: start_hops_def)
  note bs = bfs_results [OF assms this refl, of ord]
  have "traverse_nodes quote ord srt nodes startRoom maxHops = Inr (take maxGraphResults ?rs)"
    by (simp add: traverse_nodes_def assms(2) Let_def)
  moreover have "explained ?rs x" if "explained ?bs x" for x
    using that explained_set [of ?rs ?bs] by simp
  ultimately show ?thesis
    using bs sorted_sort_slice [OF result_less_weak, of srt ?bs] by (intro exI [of _ ?rs]) simp
qed

text \<open>C29. The loop of the traversal stops after at most as many turns as there are rooms.\<close>

theorem traverse_terminates:
  assumes "map_of nodes startRoom = Some start" and "length nodes \<le> t"
  shows "bfs_turns t ord nodes h 0 (start_state nodes startRoom start) =
    Some (bfs_loop ord nodes h 0 (start_state nodes startRoom start))"
  by (rule bfs_turns_enough) (use start_measure [OF assms(1)] assms(2) in simp)

text \<open>When the cache has no answer, the nodes are exactly the rooms of the workspace's drawers
  apart from the unnamed and the \<open>general\<close> one, each once, with its sorted wings, its sorted
  non-empty halls and the number of its drawers.\<close>

theorem build_nodes_exact:
  assumes "cache_get dec l s ws = None"
  shows "\<exists>nodes s'. build_nodes enc dec l None ws s = (Inr nodes, s') \<and>
    distinct (map fst nodes) \<and>
    fst ` set nodes = d_room ` {d \<in> set (pg_drawers s). d_ws d = ws} - {'''', ''general''} \<and>
    (\<forall>rn \<in> set nodes. let ds = room_drawers ws (pg_drawers s) (fst rn) in
       rn_room (snd rn) = fst rn \<and> rn_count (snd rn) = length ds \<and>
       rn_wings (snd rn) = sorted_list_of_set (d_wing ` set ds) \<and>
       rn_halls (snd rn) = sorted_list_of_set (d_hall ` set ds - {''''}))"
proof -
  let ?nodes = "aggregate (meta_rows ws (pg_drawers s))"
  have "map_of ?nodes (fst rn) = Some (snd rn)" if "rn \<in> set ?nodes" for rn
    using aggregate_distinct that by (cases rn) (simp add: map_of_is_SomeI)
  then have "\<forall>rn \<in> set ?nodes. let ds = room_drawers ws (pg_drawers s) (fst rn) in
       rn_room (snd rn) = fst rn \<and> rn_count (snd rn) = length ds \<and>
       rn_wings (snd rn) = sorted_list_of_set (d_wing ` set ds) \<and>
       rn_halls (snd rn) = sorted_list_of_set (d_hall ` set ds - {''''})"
    using aggregate_node unfolding Let_def by blast
  moreover have "fst ` set ?nodes = d_room ` {d \<in> set (pg_drawers s). d_ws d = ws} - {'''', ''general''}"
    unfolding aggregate_rooms by (auto simp: in_graph_def)
  moreover have "build_nodes enc dec l None ws s = (Inr ?nodes, cache_set enc l ws ?nodes s)"
    by (simp add: build_nodes_def assms Let_def)
  ultimately show ?thesis using aggregate_distinct by blast
qed

section \<open>The age of what the cache answers\<close>

text \<open>
  Runs of the store with a history of its contents: drawers change, time passes, reads go
  through the cache over a connection that may fail, entries are dropped.
\<close>

inductive palace_run ::
  "(node_map \<Rightarrow> string option) \<Rightarrow> (string \<Rightarrow> node_map option) \<Rightarrow> (int \<times> drawer list) list \<Rightarrow> palace \<Rightarrow> bool"
  for enc dec where
  start: "palace_run enc dec [(t, ds)] \<lparr>pg_drawers = ds, pg_now = t, pg_redis = Map.empty\<rparr>"
| change: "palace_run enc dec h s \<Longrightarrow> palace_run enc dec ((pg_now s, ds) # h) (s\<lparr>pg_drawers := ds\<rparr>)"
| tick: "palace_run enc dec h s \<Longrightarrow> 0 \<le> n \<Longrightarrow>
    palace_run enc dec ((pg_now s + n, pg_drawers s) # h) (s\<lparr>pg_now := pg_now s + n\<rparr>)"
| read: "palace_run enc dec h s \<Longrightarrow> palace_run enc dec h (snd (build_nodes enc dec l db ws s))"
| drop: "palace_run enc dec h s \<Longrightarrow> palace_run enc dec h (cache_invalidate l ws s)"

definition cache_sound :: "(node_map \<Rightarrow> string option) \<Rightarrow> (int \<times> drawer list) list \<Rightarrow> palace \<Rightarrow> bool" where
  "cache_sound enc h s = ((pg_now s, pg_drawers s) \<in> set h \<and>
     (\<forall>ws v e. pg_redis s (graph_cache_key ws) = Some (v, e) \<longrightarrow>
       (\<exists>x \<in> set h. fst x + graphCacheTTL = e \<and> fst x \<le> pg_now s \<and>
          enc (aggregate (meta_rows ws (snd x))) = Some v)))"

lemma cache_set_sound:
  assumes "cache_sound enc h s"
  shows "cache_sound enc h (cache_set enc l ws (aggregate (meta_rows ws (pg_drawers s))) s)"
  using assms
  by (auto simp: cache_sound_def cache_set_def graph_cache_key_def split: option.split intro!: bexI [of _ "(pg_now s, pg_drawers s)"])

lemma palace_run_sound: "palace_run enc dec h s \<Longrightarrow> cache_sound enc h s"
proof (induction rule: palace_run.induct)
  case (read h s l db ws)
  then show ?case
    using cache_set_sound [OF read.IH]
    by (auto simp: build_nodes_def Let_def split: option.split)
next
  case (drop h s l ws)
  then show ?case by (auto simp: cache_sound_def cache_invalidate_def)
next
  case (tick h s n)
  then show ?case unfolding cache_sound_def by (simp, meson add_increasing2)
next
  case (change h s ds)
  then show ?case unfolding cache_sound_def by simp
qed (simp add: cache_sound_def)


section \<open>Statistics\<close>

definition to_count :: "nat option \<Rightarrow> nat" where
  "to_count c = (case c of None \<Rightarrow> 0 | Some n \<Rightarrow> n)"

lemma to_count_add_wings:
  "to_count (add_wing_counts c ws w) = to_count (c w) + count_list ws w"
  unfolding add_wing_counts_def
  by (induction ws arbitrary: c) (auto simp: to_count_def split: option.split)

definition n_tunnels :: "room_node list \<Rightarrow> nat" where
  "n_tunnels ns = length (filter (\<lambda>n. 2 \<le> length (rn_wings n)) ns)"

lemma wing_edges_choose: "wing_edges n = n choose 2"
  by (cases "n < 2") (auto simp: wing_edges_def choose_two)

lemma fold_stats:
  "to_count (gs_per_wing (fold stats_step ns g) w)
     = to_count (gs_per_wing g w) + (\<Sum>n \<leftarrow> ns. count_list (rn_wings n) w)"
  "gs_edges (fold stats_step ns g) = gs_edges g + (\<Sum>n \<leftarrow> ns. length (rn_wings n) choose 2)"
  "gs_tunnels (fold stats_step ns g) = gs_tunnels g + n_tunnels ns"
  "gs_top (fold stats_step ns g) = gs_top g @ map tunnel_of (filter (\<lambda>n. 2 \<le> length (rn_wings n)) ns)"
  "gs_rooms (fold stats_step ns g) = gs_rooms g"
  by (induction ns arbitrary: g)
    (auto simp: stats_step_def Let_def to_count_add_wings wing_edges_choose n_tunnels_def)

lemma count_rooms:
  assumes "\<forall>n \<in> set ns. distinct (rn_wings n)"
  shows "(\<Sum>n \<leftarrow> ns. count_list (rn_wings n) w) = length (filter (\<lambda>n. w \<in> set (rn_wings n)) ns)"
proof -
  have "count_list xs w = (if w \<in> set xs then 1 else 0)" if "distinct xs" for xs :: "string list"
    using that by (induction xs) auto
  then show ?thesis using assms by (induction ns) auto
qed

lemma mset_sum_any_order: "(\<Sum>x \<leftarrow> any_order f xs. g (x :: 'a)) = (\<Sum>x \<leftarrow> xs. g x :: nat)"
  using mset_any_order [of f xs] by (metis mset_map sum_mset_sum_list)

lemma length_filter_any_order: "length (filter P (map g (any_order f xs))) = length (filter P (map g xs))"
  by (metis mset_any_order mset_filter mset_map size_mset)

lemma weak_order_greater: "weak_order (\<lambda>a b. k a > (k b :: 'k :: linorder))"
  by (auto simp: weak_order_def)

lemma take_best:
  assumes "sorted_wrt (\<lambda>a b. \<not> lt b a) xs" and "x \<in> set (take n xs)" and "y \<in> set (drop n xs)"
  shows "\<not> lt y x"
proof -
  have "sorted_wrt (\<lambda>a b. \<not> lt b a) (take n xs @ drop n xs)" using assms(1) by simp
  then show ?thesis using assms(2,3) unfolding sorted_wrt_append by blast
qed

text \<open>The statistics: the number of rooms, of rooms in two or more wings, of pairs of wings a
  room joins, and of rooms per wing; the top tunnels are the rooms in two or more wings, at most
  ten, and none left out is in more wings than one listed.\<close>

theorem stats_exact:
  assumes "\<forall>rn \<in> set nodes. distinct (rn_wings (snd rn))"
  shows "let g = stats_of f srt nodes; ns = map snd nodes in
    gs_rooms g = length nodes \<and> gs_tunnels g = n_tunnels ns \<and>
    gs_edges g = (\<Sum>n \<leftarrow> ns. length (rn_wings n) choose 2) \<and>
    to_count (gs_per_wing g w) = length (filter (\<lambda>n. w \<in> set (rn_wings n)) ns) \<and>
    (\<exists>rest. mset (gs_top g @ rest) = mset (map tunnel_of (filter (\<lambda>n. 2 \<le> length (rn_wings n)) ns)) \<and>
       length (gs_top g) = min 10 (n_tunnels ns) \<and>
       (\<forall>x \<in> set (gs_top g). \<forall>y \<in> set rest. length (tn_wings y) \<le> length (tn_wings x)))"
proof -
  let ?os = "map snd (any_order f nodes)" and ?ns = "map snd nodes"
  let ?two = "\<lambda>n. 2 \<le> length (rn_wings n)"
  let ?lt = "\<lambda>a b. length (tn_wings a) > length (tn_wings b)"
  let ?top = "sort_slice srt ?lt (map tunnel_of (filter ?two ?os))"
  have g: "gs_top (stats_of f srt nodes) = take 10 ?top"
    "gs_rooms (stats_of f srt nodes) = length nodes"
    "gs_tunnels (stats_of f srt nodes) = n_tunnels ?os"
    "gs_edges (stats_of f srt nodes) = (\<Sum>n \<leftarrow> ?os. length (rn_wings n) choose 2)"
    "to_count (gs_per_wing (stats_of f srt nodes) w) = (\<Sum>n \<leftarrow> ?os. count_list (rn_wings n) w)"
    by (simp_all add: stats_of_def Let_def fold_stats) (simp add: to_count_def)
  have two: "n_tunnels ?os = n_tunnels ?ns"
    unfolding n_tunnels_def by (rule length_filter_any_order)
  have wings: "(\<Sum>n \<leftarrow> ?os. count_list (rn_wings n) w) = length (filter (\<lambda>n. w \<in> set (rn_wings n)) ?ns)"
    using assms count_rooms [of ?os w] length_filter_any_order by simp
  have edges: "(\<Sum>n \<leftarrow> ?os. length (rn_wings n) choose 2) = (\<Sum>n \<leftarrow> ?ns. length (rn_wings n) choose 2)"
    using mset_sum_any_order [of "\<lambda>rn. length (rn_wings (snd rn)) choose 2" f nodes] by (simp add: comp_def)
  have top: "mset (take 10 ?top @ drop 10 ?top) = mset (map tunnel_of (filter ?two ?ns))"
    by (simp del: append_take_drop_id mset_append) (simp add: mset_filter)
  have len: "length (take 10 ?top) = min 10 (n_tunnels ?ns)"
    using two by (simp add: n_tunnels_def min.commute)
  have best: "\<forall>x \<in> set (take 10 ?top). \<forall>y \<in> set (drop 10 ?top). length (tn_wings y) \<le> length (tn_wings x)"
    using take_best [OF sorted_sort_slice [OF weak_order_greater [of "\<lambda>t. length (tn_wings t)"]]]
    unfolding not_less by blast
  show ?thesis
    unfolding Let_def g two wings edges using top len best by blast
qed

section \<open>Witnesses\<close>

definition sample_nodes :: node_map where
  "sample_nodes =
     [(''api'', \<lparr>rn_room = ''api'', rn_wings = [''be'', ''dev''], rn_halls = [], rn_count = 4\<rparr>),
      (''ui'', \<lparr>rn_room = ''ui'', rn_wings = [''dev'', ''fe''], rn_halls = [], rn_count = 2\<rparr>),
      (''css'', \<lparr>rn_room = ''css'', rn_wings = [''fe''], rn_halls = [''web''], rn_count = 1\<rparr>),
      (''hr'', \<lparr>rn_room = ''hr'', rn_wings = [''people''], rn_halls = [], rn_count = 3\<rparr>)]"

definition sample_drawer :: "string \<Rightarrow> string \<Rightarrow> string \<Rightarrow> drawer" where
  "sample_drawer i wing room = \<lparr>d_id = i, d_ws = ''w'', d_wing = wing, d_room = room, d_hall = '''',
     d_content = ''c'', d_importance = 3, d_type = ''fact'', d_source_file = '''', d_added_by = '''',
     d_filed_at = 0, d_created_at = 0, d_state = Processed, d_summary = '''', d_agent = '''',
     d_accessed = None, d_access_count = 0, d_superseded = None, d_cluster = None, d_retry = 0,
     d_tier = '''', d_entities = 0, d_triples = 0, d_embedding = None\<rparr>"

definition sample_palace :: palace where
  "sample_palace = \<lparr>pg_drawers = [sample_drawer ''1'' ''be'' ''api'', sample_drawer ''2'' ''dev'' ''api'',
     sample_drawer ''3'' ''dev'' ''general''], pg_now = 1000, pg_redis = Map.empty\<rparr>"

lemma sample_nodes_distinct: "distinct (map fst sample_nodes)"
  by (simp add: sample_nodes_def)

lemma sample_nodes_api:
  "map_of sample_nodes ''api'' = Some \<lparr>rn_room = ''api'', rn_wings = [''be'', ''dev''], rn_halls = [], rn_count = 4\<rparr>"
  by (simp add: sample_nodes_def)

lemma traverse_exact_witness:
  "\<exists>rs. traverse_nodes (\<lambda>r. r) (\<lambda>n. rev) rev sample_nodes ''api'' 1 = Inr (take maxGraphResults rs) \<and>
     distinct (map tr_room rs) \<and> tr_room ` set rs = {''api'', ''ui''}"
proof -
  have "within_hops sample_nodes ''api'' (start_hops 1) = {''api'', ''ui''}"
    by (auto simp: start_hops_def linked_def node_of_def sample_nodes_def intersect_def to_set_def)
  then show ?thesis
    using traverse_exact [OF sample_nodes_distinct sample_nodes_api, of "\<lambda>r. r" "\<lambda>n. rev" rev 1]
    by auto
qed

lemma traverse_terminates_witness:
  "\<exists>b. bfs_turns 4 (\<lambda>n. rev) sample_nodes 2 0 (start_state sample_nodes ''api''
     \<lparr>rn_room = ''api'', rn_wings = [''be'', ''dev''], rn_halls = [], rn_count = 4\<rparr>) = Some b"
  using traverse_terminates [OF sample_nodes_api, of 4 "\<lambda>n. rev" 2] by (simp add: sample_nodes_def)

lemma build_nodes_exact_witness:
  "\<exists>nodes s'. build_nodes (\<lambda>n. None) (\<lambda>r. None) \<lparr>has_redis = False, get_fails = False, set_fails = False\<rparr>
     None ''w'' sample_palace = (Inr nodes, s') \<and>
     fst ` set nodes = d_room ` {d \<in> set (pg_drawers sample_palace). d_ws d = ''w''} - {'''', ''general''}"
proof -
  let ?l = "\<lparr>has_redis = False, get_fails = False, set_fails = False\<rparr>"
  have "cache_get (\<lambda>r. None) ?l sample_palace ''w'' = None" by (simp add: cache_get_def)
  from build_nodes_exact [OF this, of "\<lambda>n. None"] show ?thesis
    by (elim exE conjE) (intro exI conjI)
qed

text \<open>A read one hundred seconds after the drawers are gone: the cache still answers.\<close>

definition sample_json :: "node_map \<Rightarrow> node_map \<Rightarrow> string option" where
  "sample_json N n = (if n = N then Some ''n'' else None)"


lemma stats_exact_witness:
  "gs_edges (stats_of rev rev sample_nodes) = 2 \<and>
   to_count (gs_per_wing (stats_of rev rev sample_nodes) ''dev'') = 2"
  using stats_exact [of sample_nodes rev rev "''dev''"]
  by (simp add: sample_nodes_def Let_def choose_two)

end
