(* ===== verification/Workflow.thy ===== *)
theory Workflow
  imports Chat_Store
begin

text \<open>
  The workflow engine (\<open>service/workflowservice/engine.go\<close>), its tables
  (\<open>repo/workflowrepo\<close>) and the workflow tools of \<open>service/mcpservice/workflows.go\<close>.

  A run is a sequence of moments: a statement, a look at \<open>ctx.Err()\<close>, a call of the agent
  runtime each take one. The environment \<open>wf_env\<close> says at which moments the context is alive,
  which statements the database rejects, what the runtime answers, what the clock shows, and in
  which order Go ranges over the workflow's map. \<open>encoding/json\<close> is given by its functions; a
  map is \<open>None\<close> when it is the nil map. Broadcasts are recorded in order, and
  \<open>wf_spawned\<close> records the goroutines started, by execution and workspace.
\<close>

section \<open>Data\<close>

datatype wf_status = WfPending | WfRunning | WfCompleted | WfFailed | WfWaitingApproval | WfApproved

record wf_step =
  ws_name :: string
  ws_agent :: string
  ws_prompt :: string
  ws_timeout :: int
  ws_approval :: bool
  ws_on_failure :: string
  ws_output_key :: string
  ws_max_retries :: int

definition on_failure_skip :: string where "on_failure_skip = ''skip''"

record wf_definition =
  wd_id :: string
  wd_ws :: string
  wd_name :: string
  wd_description :: string
  wd_steps :: string
  wd_trigger :: string
  wd_active :: bool
  wd_created :: int

record wf_execution =
  we_id :: string
  we_def :: string
  we_ws :: string
  we_conv :: "string option"
  we_status :: wf_status
  we_step :: nat
  we_context :: "string option"
  we_triggered_by :: string
  we_error :: "string option"
  we_started :: "int option"
  we_completed :: "int option"
  we_created :: int

record wf_step_exec =
  se_id :: string
  se_exec :: string
  se_index :: nat
  se_name :: string
  se_agent :: string
  se_status :: wf_status
  se_input :: string
  se_output :: "string option"
  se_duration :: "int option"
  se_started :: "int option"
  se_completed :: "int option"
  se_created :: int

datatype wf_event_name = WfEvStarted | WfEvCompleted | WfEvFailed | WfEvStepStarted | WfEvStepCompleted | WfEvStepApproval

record wf_event =
  ev_ws :: string
  ev_name :: wf_event_name
  ev_workflow :: string
  ev_workflow_name :: string
  ev_exec :: string
  ev_conv :: string
  ev_status :: wf_status
  ev_index :: nat
  ev_step :: string
  ev_agent :: string
  ev_error :: string

type_synonym go_map = "(string \<times> string) list option"

record wf_env =
  env_parse_steps :: "string \<Rightarrow> wf_step list option"
  env_show_steps :: "wf_step list \<Rightarrow> string"
  env_parse_map :: "string \<Rightarrow> bool \<times> go_map"
  env_show_map :: "go_map \<Rightarrow> string"
  env_order :: "nat \<Rightarrow> (string \<times> string) list \<Rightarrow> (string \<times> string) list"
  env_alive :: "nat \<Rightarrow> bool"
  env_fails :: "nat \<Rightarrow> string option"
  env_send :: "nat \<Rightarrow> string \<Rightarrow> string \<Rightarrow> string \<Rightarrow> int \<Rightarrow> string + string list"
  env_time :: "nat \<Rightarrow> int"

record wf =
  wf_defs :: "wf_definition list"
  wf_execs :: "wf_execution list"
  wf_steps :: "wf_step_exec list"
  wf_events :: "wf_event list"
  wf_chat :: chat
  wf_spawned :: "(string \<times> string) list"
  wf_moment :: nat
  wf_uuid :: nat
  wf_uuids :: "nat \<Rightarrow> string"

section \<open>Tables\<close>

type_synonym 'a wf_call = "wf \<Rightarrow> wf \<times> (gerror + 'a)"

definition ErrWorkflowNotFound :: gerror where
  "ErrWorkflowNotFound = biz ''Workflow definition not found'' ''WFL0001''"
definition ErrWorkflowExecutionNotFound :: gerror where
  "ErrWorkflowExecutionNotFound = biz ''Workflow execution not found'' ''WFL0002''"
definition ErrWorkflowStepNotFound :: gerror where
  "ErrWorkflowStepNotFound = biz ''Workflow step execution not found'' ''WFL0003''"

definition tick_wf :: "wf \<Rightarrow> wf" where
  "tick_wf w = w\<lparr>wf_moment := Suc (wf_moment w)\<rparr>"

text \<open>A statement under the run's context (\<open>ctx\<close>) or under a context that is not cancelled.\<close>

definition wf_stmt :: "wf_env \<Rightarrow> bool \<Rightarrow> string \<Rightarrow> (wf \<Rightarrow> 'a) \<Rightarrow> (wf \<Rightarrow> wf) \<Rightarrow> 'a wf_call" where
  "wf_stmt e ctx op q f w =
     (let n = wf_moment w; w' = tick_wf w in
      if ctx \<and> \<not> env_alive e n then (w', Inl (srv (op @ '': context canceled'')))
      else (case env_fails e n of
              Some x \<Rightarrow> (w', Inl (srv (op @ '': '' @ x)))
            | None \<Rightarrow> (f w', Inr (q w'))))"

definition wf_new_uuid :: "wf \<Rightarrow> wf \<times> string" where
  "wf_new_uuid w = (w\<lparr>wf_uuid := Suc (wf_uuid w)\<rparr>, wf_uuids w (wf_uuid w))"

definition create_definition :: "wf_env \<Rightarrow> wf_definition \<Rightarrow> unit wf_call" where
  "create_definition e row = wf_stmt e True ''insert workflow definition'' (\<lambda>w. ())
     (\<lambda>w. if wd_id row \<in> wd_id ` set (wf_defs w) then w else w\<lparr>wf_defs := wf_defs w @ [row]\<rparr>)"

definition get_definition :: "wf_env \<Rightarrow> string \<Rightarrow> string \<Rightarrow> wf_definition wf_call" where
  "get_definition e ws i w =
     (if blank ws \<or> blank i then (w, Inl ErrInvalidInput)
      else case wf_stmt e True ''select workflow definition by id''
             (\<lambda>w. find (\<lambda>d. wd_ws d = ws \<and> wd_id d = i) (wf_defs w)) id w of
             (w1, Inl x) \<Rightarrow> (w1, Inl x)
           | (w1, Inr None) \<Rightarrow> (w1, Inl ErrWorkflowNotFound)
           | (w1, Inr (Some d)) \<Rightarrow> (w1, Inr d))"

text \<open>Newest first; rows created at the same time stay in insertion order.\<close>

definition list_definitions :: "wf_env \<Rightarrow> string \<Rightarrow> wf_definition list wf_call" where
  "list_definitions e ws w =
     (if blank ws then (w, Inl ErrInvalidInput)
      else wf_stmt e True ''list workflow definitions''
        (\<lambda>w. sort_key (\<lambda>d. - wd_created d) (filter (\<lambda>d. wd_ws d = ws) (wf_defs w))) id w)"

definition create_execution :: "wf_env \<Rightarrow> wf_execution \<Rightarrow> unit wf_call" where
  "create_execution e row = wf_stmt e True ''insert workflow execution'' (\<lambda>w. ())
     (\<lambda>w. if we_id row \<in> we_id ` set (wf_execs w) then w else w\<lparr>wf_execs := wf_execs w @ [row]\<rparr>)"

definition get_execution :: "wf_env \<Rightarrow> string \<Rightarrow> wf_execution wf_call" where
  "get_execution e i w =
     (if blank i then (w, Inl ErrInvalidInput)
      else case wf_stmt e True ''select workflow execution by id''
             (\<lambda>w. find (\<lambda>x. we_id x = i) (wf_execs w)) id w of
             (w1, Inl x) \<Rightarrow> (w1, Inl x)
           | (w1, Inr None) \<Rightarrow> (w1, Inl ErrWorkflowExecutionNotFound)
           | (w1, Inr (Some x)) \<Rightarrow> (w1, Inr x))"

text \<open>The columns \<open>UpdateExecution\<close> writes.\<close>

definition exec_columns :: "wf_execution \<Rightarrow> wf_execution \<Rightarrow> wf_execution" where
  "exec_columns row old = old\<lparr>we_status := we_status row, we_step := we_step row, we_context := we_context row,
     we_error := we_error row, we_started := we_started row, we_completed := we_completed row\<rparr>"

definition update_execution :: "wf_env \<Rightarrow> bool \<Rightarrow> wf_execution \<Rightarrow> unit wf_call" where
  "update_execution e ctx row = wf_stmt e ctx ''update workflow execution'' (\<lambda>w. ())
     (\<lambda>w. w\<lparr>wf_execs := map (\<lambda>x. if we_id x = we_id row then exec_columns row x else x) (wf_execs w)\<rparr>)"

definition list_active_executions :: "wf_env \<Rightarrow> string \<Rightarrow> wf_execution list wf_call" where
  "list_active_executions e ws w =
     (if blank ws then (w, Inl ErrInvalidInput)
      else wf_stmt e True ''list active workflow executions''
        (\<lambda>w. sort_key (\<lambda>x. - we_created x)
           (filter (\<lambda>x. we_ws x = ws \<and> we_status x \<in> {WfPending, WfRunning}) (wf_execs w))) id w)"

definition create_step_execution :: "wf_env \<Rightarrow> wf_step_exec \<Rightarrow> unit wf_call" where
  "create_step_execution e row = wf_stmt e True ''insert workflow step execution'' (\<lambda>w. ())
     (\<lambda>w. if se_id row \<in> se_id ` set (wf_steps w) then w else w\<lparr>wf_steps := wf_steps w @ [row]\<rparr>)"

definition step_columns :: "wf_step_exec \<Rightarrow> wf_step_exec \<Rightarrow> wf_step_exec" where
  "step_columns row old = old\<lparr>se_status := se_status row, se_output := se_output row,
     se_duration := se_duration row, se_started := se_started row, se_completed := se_completed row\<rparr>"

definition update_step_execution :: "wf_env \<Rightarrow> wf_step_exec \<Rightarrow> unit wf_call" where
  "update_step_execution e row = wf_stmt e True ''update workflow step execution'' (\<lambda>w. ())
     (\<lambda>w. w\<lparr>wf_steps := map (\<lambda>x. if se_id x = se_id row then step_columns row x else x) (wf_steps w)\<rparr>)"

text \<open>Several rows may match after a second run of one execution; the first inserted is taken.\<close>

definition get_step_execution :: "wf_env \<Rightarrow> string \<Rightarrow> nat \<Rightarrow> wf_step_exec wf_call" where
  "get_step_execution e i k w =
     (if blank i then (w, Inl ErrInvalidInput)
      else case wf_stmt e True ''select workflow step execution''
             (\<lambda>w. find (\<lambda>x. se_exec x = i \<and> se_index x = k) (wf_steps w)) id w of
             (w1, Inl x) \<Rightarrow> (w1, Inl x)
           | (w1, Inr None) \<Rightarrow> (w1, Inl ErrWorkflowStepNotFound)
           | (w1, Inr (Some x)) \<Rightarrow> (w1, Inr x))"

section \<open>The emitter\<close>

record emitter =
  em_ws :: string
  em_workflow :: string
  em_name :: string
  em_exec :: string
  em_conv :: string

definition new_workflow_emitter :: "string \<Rightarrow> wf_definition \<Rightarrow> wf_execution \<Rightarrow> emitter" where
  "new_workflow_emitter ws d x = \<lparr>em_ws = ws, em_workflow = wd_id d, em_name = wd_name d, em_exec = we_id x,
     em_conv = (case we_conv x of None \<Rightarrow> '''' | Some c \<Rightarrow> c)\<rparr>"

definition emit_wf ::
  "emitter \<Rightarrow> wf_event_name \<Rightarrow> wf_status \<Rightarrow> nat \<Rightarrow> string \<Rightarrow> string \<Rightarrow> string \<Rightarrow> wf \<Rightarrow> wf" where
  "emit_wf em name st i step agent reason w =
     w\<lparr>wf_events := wf_events w @ [\<lparr>ev_ws = em_ws em, ev_name = name, ev_workflow = em_workflow em,
        ev_workflow_name = em_name em, ev_exec = em_exec em, ev_conv = em_conv em, ev_status = st,
        ev_index = i, ev_step = step, ev_agent = agent, ev_error = reason\<rparr>]\<rparr>"

definition emit_started :: "emitter \<Rightarrow> wf \<Rightarrow> wf" where
  "emit_started em = emit_wf em WfEvStarted WfRunning 0 '''' '''' ''''"

definition emit_completed :: "emitter \<Rightarrow> wf \<Rightarrow> wf" where
  "emit_completed em = emit_wf em WfEvCompleted WfCompleted 0 '''' '''' ''''"

definition emit_failed :: "emitter \<Rightarrow> nat \<Rightarrow> string \<Rightarrow> string \<Rightarrow> wf \<Rightarrow> wf" where
  "emit_failed em i step reason = emit_wf em WfEvFailed WfFailed i step '''' reason"

definition emit_step_started :: "emitter \<Rightarrow> nat \<Rightarrow> string \<Rightarrow> string \<Rightarrow> wf \<Rightarrow> wf" where
  "emit_step_started em i step agent = emit_wf em WfEvStepStarted WfRunning i step agent ''''"

definition emit_step_completed :: "emitter \<Rightarrow> nat \<Rightarrow> string \<Rightarrow> string \<Rightarrow> wf \<Rightarrow> wf" where
  "emit_step_completed em i step agent = emit_wf em WfEvStepCompleted WfCompleted i step agent ''''"

definition emit_waiting :: "emitter \<Rightarrow> nat \<Rightarrow> string \<Rightarrow> string \<Rightarrow> wf \<Rightarrow> wf" where
  "emit_waiting em i step agent = emit_wf em WfEvStepApproval WfWaitingApproval i step agent ''''"

section \<open>The engine\<close>

text \<open>
  What one step leaves to the loop: the next step, the end of the run, or the panic of an
  assignment to an entry of the nil map. A failing write is only logged.
\<close>

datatype step_end = StepGoOn | StepStop | StepPanic

definition wf_logged :: "unit wf_call \<Rightarrow> wf \<Rightarrow> wf" where
  "wf_logged m w = fst (m w)"

definition fill_prompt :: "((string \<times> string) list \<Rightarrow> (string \<times> string) list) \<Rightarrow> go_map \<Rightarrow> string \<Rightarrow> string" where
  "fill_prompt f m template =
     fold (\<lambda>kv p. replace_all p (''{{'' @ fst kv @ ''}}'') (snd kv))
       (any_order f (case m of None \<Rightarrow> [] | Some kvs \<Rightarrow> kvs)) template"

fun map_put :: "string \<Rightarrow> string \<Rightarrow> (string \<times> string) list \<Rightarrow> (string \<times> string) list" where
  "map_put k v [] = [(k, v)]"
| "map_put k v ((k', v') # m) = (if k' = k then (k, v) # m else (k', v') # map_put k v m)"

definition go_map_assign :: "string \<Rightarrow> string \<Rightarrow> go_map \<Rightarrow> go_map option" where
  "go_map_assign k v m = (case m of None \<Rightarrow> None | Some kvs \<Rightarrow> Some (Some (map_put k v kvs)))"

definition handle_step_approval :: "wf_env \<Rightarrow> nat \<Rightarrow> wf_step \<Rightarrow> emitter \<Rightarrow> wf_step_exec \<Rightarrow> wf \<Rightarrow> wf_step_exec \<times> wf" where
  "handle_step_approval e i step em row w =
     (let row1 = row\<lparr>se_status := WfWaitingApproval\<rparr>;
          w1 = emit_waiting em i (ws_name step) (ws_agent step) (wf_logged (update_step_execution e row1) w);
          row2 = row1\<lparr>se_status := WfApproved\<rparr> in
      (row2, wf_logged (update_step_execution e row2) w1))"

definition handle_step_failure ::
  "wf_env \<Rightarrow> nat \<Rightarrow> wf_step \<Rightarrow> emitter \<Rightarrow> wf_step_exec \<Rightarrow> wf_execution \<Rightarrow> string \<Rightarrow> int \<Rightarrow> int \<Rightarrow> wf
   \<Rightarrow> wf \<times> wf_execution \<times> step_end" where
  "handle_step_failure e i step em row x errMsg dur at w =
     (let row1 = row\<lparr>se_status := WfFailed, se_output := Some errMsg, se_duration := Some dur, se_completed := Some at\<rparr>;
          w1 = wf_logged (update_step_execution e row1) w in
      if ws_on_failure step = on_failure_skip then (w1, x, StepGoOn)
      else
        let x1 = x\<lparr>we_status := WfFailed, we_error := Some errMsg, we_completed := Some at\<rparr>;
            w2 = wf_logged (update_execution e False x1) w1 in
        (emit_failed em i (ws_name step) errMsg w2, x1, StepStop))"

definition step_timeout :: "wf_step \<Rightarrow> int" where
  "step_timeout step = (if ws_timeout step = 0 then 300 else ws_timeout step)"

definition step_session :: "string \<Rightarrow> nat \<Rightarrow> string" where
  "step_session i k = ''workflow:'' @ i @ '':step:'' @ show_nat k"

definition execute_step ::
  "wf_env \<Rightarrow> nat \<Rightarrow> wf_step \<Rightarrow> emitter \<Rightarrow> wf \<Rightarrow> wf_execution \<Rightarrow> go_map
   \<Rightarrow> wf \<times> wf_execution \<times> go_map \<times> step_end" where
  "execute_step e i step em w x m =
     (let prompt = fill_prompt (env_order e (wf_moment w)) m (ws_prompt step);
          stepNow = env_time e (wf_moment w);
          (w0, uid) = wf_new_uuid w;
          row = \<lparr>se_id = uid, se_exec = we_id x, se_index = i, se_name = ws_name step, se_agent = ws_agent step,
                 se_status = WfRunning, se_input = prompt, se_output = None, se_duration = None,
                 se_started = Some stepNow, se_completed = None, se_created = stepNow\<rparr>;
          w1 = emit_step_started em i (ws_name step) (ws_agent step) (wf_logged (create_step_execution e row) w0);
          (row, w2) = (if ws_approval step then handle_step_approval e i step em row w1 else (row, w1));
          start = env_time e (wf_moment w2);
          answer = env_send e (wf_moment w2) (step_session (we_id x) i) (ws_agent step) prompt (step_timeout step);
          w3 = tick_wf w2;
          at = env_time e (wf_moment w3) in
      case answer of
        Inl errMsg \<Rightarrow>
          (let (w4, x1, r) = handle_step_failure e i step em row x errMsg (at - start) at w3 in (w4, x1, m, r))
      | Inr turns \<Rightarrow>
          let response = join [CHR 0x0A] (filter (\<lambda>t. t \<noteq> '''') turns);
              row1 = row\<lparr>se_status := WfCompleted, se_output := Some response, se_duration := Some (at - start),
                         se_completed := Some at\<rparr>;
              w4 = wf_logged (update_step_execution e row1) w3 in
          (case (if ws_output_key step \<noteq> '''' then go_map_assign (ws_output_key step) response m else Some m) of
             None \<Rightarrow> (w4, x, m, StepPanic)
           | Some m1 \<Rightarrow>
               let x1 = x\<lparr>we_context := Some (env_show_map e m1), we_step := i + 1\<rparr>;
                   w5 = wf_logged (update_execution e True x1) w4 in
               (emit_step_completed em i (ws_name step) (ws_agent step) w5, x1, m1, StepGoOn)))"

text \<open>The loop over the steps; it looks at the context before each.\<close>

fun run_steps ::
  "wf_env \<Rightarrow> emitter \<Rightarrow> nat \<Rightarrow> wf_step list \<Rightarrow> wf \<Rightarrow> wf_execution \<Rightarrow> go_map
   \<Rightarrow> wf \<times> wf_execution \<times> go_map \<times> step_end" where
  "run_steps e em i [] w x m = (w, x, m, StepGoOn)"
| "run_steps e em i (step # steps) w x m =
     (if \<not> env_alive e (wf_moment w) then (tick_wf w, x, m, StepGoOn)
      else case execute_step e i step em (tick_wf w) x m of
             (w1, x1, m1, StepGoOn) \<Rightarrow> run_steps e em (Suc i) steps w1 x1 m1
           | r \<Rightarrow> r)"

definition initial_map :: "wf_env \<Rightarrow> wf_execution \<Rightarrow> go_map" where
  "initial_map e x = (case we_context x of None \<Rightarrow> Some [] | Some raw \<Rightarrow> snd (env_parse_map e raw))"

definition run_workflow ::
  "wf_env \<Rightarrow> emitter \<Rightarrow> wf_step list \<Rightarrow> wf_execution \<Rightarrow> wf \<Rightarrow> wf \<times> step_end" where
  "run_workflow e em steps x0 w =
     (let x1 = x0\<lparr>we_status := WfRunning, we_started := Some (env_time e (wf_moment w))\<rparr>;
          w1 = emit_started em (wf_logged (update_execution e True x1) w);
          (w2, x2, m2, r) = run_steps e em 0 steps w1 x1 (initial_map e x1) in
      case r of
        StepGoOn \<Rightarrow>
          let x3 = x2\<lparr>we_status := WfCompleted, we_completed := Some (env_time e (wf_moment w2))\<rparr> in
          (emit_completed em (wf_logged (update_execution e True x3) w2), StepGoOn)
      | _ \<Rightarrow> (w2, r))"

text \<open>
  \<open>env_alive\<close> is the context after \<open>context.WithTimeout\<close>; the result tells a return
  from a panic.
\<close>

definition execute_workflow :: "wf_env \<Rightarrow> string \<Rightarrow> string \<Rightarrow> wf \<Rightarrow> wf \<times> step_end" where
  "execute_workflow e executionID workspaceID w =
     (case get_execution e executionID w of
        (w1, Inl _) \<Rightarrow> (w1, StepStop)
      | (w1, Inr x) \<Rightarrow>
          (case get_definition e workspaceID (we_def x) w1 of
             (w2, Inl _) \<Rightarrow> (w2, StepStop)
           | (w2, Inr d) \<Rightarrow>
               (case env_parse_steps e (wd_steps d) of
                  None \<Rightarrow> (w2, StepStop)
                | Some steps \<Rightarrow> run_workflow e (new_workflow_emitter workspaceID d x) steps x w2)))"

section \<open>The tools\<close>

definition step_incomplete :: "wf_step \<Rightarrow> bool" where
  "step_incomplete s = (ws_name s = '''' \<or> ws_agent s = '''' \<or> ws_prompt s = '''')"

fun first_incomplete :: "nat \<Rightarrow> wf_step list \<Rightarrow> nat option" where
  "first_incomplete i [] = None"
| "first_incomplete i (s # ss) = (if step_incomplete s then Some i else first_incomplete (Suc i) ss)"

definition create_workflow ::
  "wf_env \<Rightarrow> string \<Rightarrow> string \<Rightarrow> string \<Rightarrow> string \<Rightarrow> wf \<Rightarrow> wf \<times> (string + string \<times> nat)" where
  "create_workflow e ws name description stepsJson w =
     (case env_parse_steps e stepsJson of
        None \<Rightarrow> (w, Inl ''invalid steps JSON'')
      | Some steps \<Rightarrow>
          if steps = [] then (w, Inl ''steps array must not be empty'')
          else (case first_incomplete 0 steps of
            Some i \<Rightarrow> (w, Inl (''step '' @ show_nat i @ '': name, agent_slug, and prompt_template are required''))
          | None \<Rightarrow>
              let now = env_time e (wf_moment w);
                  (w1, i) = wf_new_uuid w;
                  row = \<lparr>wd_id = i, wd_ws = ws, wd_name = name, wd_description = description,
                         wd_steps = env_show_steps e steps, wd_trigger = ''manual'', wd_active = True, wd_created = now\<rparr> in
              (case create_definition e row w1 of
                 (w2, Inl x) \<Rightarrow> (w2, Inl (''create workflow: '' @ error_text (Some x)))
               | (w2, Inr _) \<Rightarrow> (w2, Inr (i, length steps)))))"

text \<open>The fields of the card the message model has; the manager is looked up for its slug.\<close>

definition workflow_message :: "string \<Rightarrow> string \<Rightarrow> agent option \<Rightarrow> int \<Rightarrow> chat_message" where
  "workflow_message i conv manager now =
     \<lparr>m_id = i, m_conv = conv, m_role = RoleAgent, m_type = CtWorkflow, m_text = '''', m_tool = '''',
      m_tool_state = '''', m_query = '''', m_args = [], m_from = '''', m_to = '''',
      m_content_status = ''pending'', m_preview = '''', m_turns = [], m_answers = [], m_selected = None,
      m_status = MsgDelivered, m_agent = map_option ag_id manager, m_local = '''', m_created = now, m_updated = now\<rparr>"

definition persist_workflow_message :: "string \<Rightarrow> string option \<Rightarrow> chat \<Rightarrow> chat" where
  "persist_workflow_message ws conv c =
     (case conv of
        None \<Rightarrow> c
      | Some cv \<Rightarrow>
          if cv = '''' then c
          else
            let (c1, r) = agent_list ws c;
                manager = (case r of Inl _ \<Rightarrow> None | Inr agents \<Rightarrow> find ag_manager agents);
                (c2, i) = new_uuid c1;
                msg = workflow_message i cv manager (ch_now c2) in
            (case message_save msg c2 of
               (c3, Inl _) \<Rightarrow> c3
             | (c3, Inr _) \<Rightarrow> emit (EvMessageNew ws msg manager) c3))"

text \<open>
  \<open>client\<close> is \<open>EnsureRuntime\<close> of the configured client: \<open>Some x\<close> its error.
\<close>

definition trigger_workflow ::
  "wf_env \<Rightarrow> gerror option option \<Rightarrow> bool \<Rightarrow> string \<Rightarrow> string \<Rightarrow> string \<Rightarrow> string \<Rightarrow> wf
   \<Rightarrow> wf \<times> (string + string \<times> string)" where
  "trigger_workflow e client hasExec ws workflowId conversationId initialContext w =
     (case get_definition e ws workflowId w of
        (w1, Inl x) \<Rightarrow> (w1, Inl (''workflow not found: '' @ error_text (Some x)))
      | (w1, Inr d) \<Rightarrow>
          if \<not> wd_active d then (w1, Inl ''workflow is inactive'')
          else if initialContext \<noteq> '''' \<and> \<not> fst (env_parse_map e initialContext)
          then (w1, Inl ''invalid initial_context JSON'')
          else
            let (w2, i) = wf_new_uuid w1;
                conv = (if conversationId \<noteq> '''' then Some conversationId else None);
                row = \<lparr>we_id = i, we_def = workflowId, we_ws = ws, we_conv = conv, we_status = WfPending, we_step = 0,
                       we_context = (if initialContext \<noteq> '''' then Some initialContext else None),
                       we_triggered_by = ''agent'', we_error = None, we_started = None, we_completed = None,
                       we_created = env_time e (wf_moment w2)\<rparr> in
            (case create_execution e row w2 of
               (w3, Inl x) \<Rightarrow> (w3, Inl (''create execution: '' @ error_text (Some x)))
             | (w3, Inr _) \<Rightarrow>
                 let w4 = w3\<lparr>wf_chat := persist_workflow_message ws conv (wf_chat w3)\<rparr> in
                 (case client of
                    None \<Rightarrow> (w4, Inl ''runtime client not configured'')
                  | Some (Some x) \<Rightarrow> (w4, Inl (''runtime not ready: '' @ error_text (Some x)))
                  | Some None \<Rightarrow>
                      ((if hasExec then w4\<lparr>wf_spawned := wf_spawned w4 @ [(i, ws)]\<rparr> else w4),
                       Inr (i, wd_name d)))))"

record step_brief =
  sb_index :: nat
  sb_name :: string
  sb_agent :: string
  sb_status :: wf_status
  sb_duration :: "int option"

record wf_report =
  wr_id :: string
  wr_status :: wf_status
  wr_step :: nat
  wr_error :: string
  wr_steps :: "step_brief list"

text \<open>The loop skips the steps that have no row yet or whose row cannot be read.\<close>

fun step_briefs :: "wf_env \<Rightarrow> string \<Rightarrow> nat \<Rightarrow> nat \<Rightarrow> wf \<Rightarrow> wf \<times> step_brief list" where
  "step_briefs e i k 0 w = (w, [])"
| "step_briefs e i k (Suc n) w =
     (case get_step_execution e i k w of
        (w1, Inl _) \<Rightarrow> step_briefs e i (Suc k) n w1
      | (w1, Inr r) \<Rightarrow>
          let (w2, bs) = step_briefs e i (Suc k) n w1 in
          (w2, \<lparr>sb_index = se_index r, sb_name = se_name r, sb_agent = se_agent r, sb_status = se_status r,
                sb_duration = se_duration r\<rparr> # bs))"

definition check_workflow_status :: "wf_env \<Rightarrow> string \<Rightarrow> string \<Rightarrow> wf \<Rightarrow> wf \<times> (string + wf_report)" where
  "check_workflow_status e ws executionID w =
     (case get_execution e executionID w of
        (w1, Inl x) \<Rightarrow> (w1, Inl (''execution not found: '' @ error_text (Some x)))
      | (w1, Inr x) \<Rightarrow>
          if we_ws x \<noteq> ws then (w1, Inl ''execution not found in this workspace'')
          else (case get_definition e ws (we_def x) w1 of
             (w2, Inl _) \<Rightarrow> (w2, Inl ''definition not found'')
           | (w2, Inr d) \<Rightarrow>
               let steps = (case env_parse_steps e (wd_steps d) of None \<Rightarrow> [] | Some ss \<Rightarrow> ss);
                   (w3, bs) = step_briefs e executionID 0 (length steps) w2 in
               (w3, Inr \<lparr>wr_id = we_id x, wr_status = we_status x, wr_step = we_step x,
                         wr_error = (case we_error x of None \<Rightarrow> '''' | Some s \<Rightarrow> s), wr_steps = bs\<rparr>)))"

record wf_brief =
  wb_id :: string
  wb_name :: string
  wb_description :: string
  wb_active :: bool
  wb_steps :: nat
  wb_created :: int

definition list_workflows :: "wf_env \<Rightarrow> string \<Rightarrow> string \<Rightarrow> wf \<Rightarrow> wf \<times> (string + wf_brief list)" where
  "list_workflows e user ws w =
     (let (c, r) = workspace_get user ws (wf_chat w); w0 = w\<lparr>wf_chat := c\<rparr> in
      case r of
        Inl _ \<Rightarrow> (w0, Inl ''workspace not found'')
      | Inr _ \<Rightarrow>
          (case list_definitions e ws w0 of
             (w1, Inl x) \<Rightarrow> (w1, Inl (''list workflows: '' @ error_text (Some x)))
           | (w1, Inr rows) \<Rightarrow>
               (w1, Inr (map (\<lambda>d. \<lparr>wb_id = wd_id d, wb_name = wd_name d, wb_description = wd_description d,
                    wb_active = wd_active d,
                    wb_steps = (case env_parse_steps e (wd_steps d) of None \<Rightarrow> 0 | Some ss \<Rightarrow> length ss),
                    wb_created = wd_created d\<rparr>) rows))))"

end
