(* ===== verification/Workflow_Props.thy ===== *)
theory Workflow_Props
  imports Workflow
begin

text \<open>
  What a run of a workflow reports and stores. \<open>wf_protocol\<close> is the abstract machine of a run,
  the order in which its events may appear; the engine refines it, and while the context lives and
  the statements succeed the stored row agrees with the last event. A run that is cancelled breaks
  both: it reports completion and stores nothing.
\<close>

section \<open>The abstract machine\<close>

type_synonym wf_mark = "wf_event_name \<times> nat"

definition ev_mark :: "wf_event \<Rightarrow> wf_mark" where
  "ev_mark v = (ev_name v, ev_index v)"

definition step_head :: "wf_step \<Rightarrow> nat \<Rightarrow> wf_mark list" where
  "step_head s i = (WfEvStepStarted, i) # (if ws_approval s then [(WfEvStepApproval, i)] else [])"

text \<open>\<open>wf_trace ss i t\<close>: the marks of a run from step \<open>i\<close> on, the remaining steps \<open>ss\<close>.\<close>

inductive wf_trace :: "wf_step list \<Rightarrow> nat \<Rightarrow> wf_mark list \<Rightarrow> bool" where
  finished: "wf_trace [] i [(WfEvCompleted, 0)]"
| completed: "wf_trace ss (Suc i) t \<Longrightarrow> wf_trace (s # ss) i (step_head s i @ (WfEvStepCompleted, i) # t)"
| skipped: "wf_trace ss (Suc i) t \<Longrightarrow> ws_on_failure s = on_failure_skip \<Longrightarrow> wf_trace (s # ss) i (step_head s i @ t)"
| failed: "ws_on_failure s \<noteq> on_failure_skip \<Longrightarrow> wf_trace (s # ss) i (step_head s i @ [(WfEvFailed, i)])"

definition wf_protocol :: "wf_step list \<Rightarrow> wf_mark list \<Rightarrow> bool" where
  "wf_protocol ss t = (\<exists>t'. t = (WfEvStarted, 0) # t' \<and> wf_trace ss 0 t')"

section \<open>What one operation does\<close>

lemma wf_stmt_other [simp]:
  assumes "\<And>w. wf_events (f w) = wf_events w" "\<And>w. wf_moment (f w) = wf_moment w"
  shows "wf_events (fst (wf_stmt e ctx op q f w)) = wf_events w"
    and "wf_moment (fst (wf_stmt e ctx op q f w)) = Suc (wf_moment w)"
  using assms by (simp_all add: wf_stmt_def Let_def tick_wf_def split: option.split)

lemma wf_write_other [simp]:
  "wf_events (wf_logged (update_execution e ctx x) w) = wf_events w"
  "wf_moment (wf_logged (update_execution e ctx x) w) = Suc (wf_moment w)"
  "wf_events (wf_logged (update_step_execution e r) w) = wf_events w"
  "wf_moment (wf_logged (update_step_execution e r) w) = Suc (wf_moment w)"
  "wf_events (wf_logged (create_step_execution e r) w) = wf_events w"
  "wf_moment (wf_logged (create_step_execution e r) w) = Suc (wf_moment w)"
  by (simp_all add: wf_logged_def update_execution_def update_step_execution_def create_step_execution_def)

lemma wf_write_execs [simp]:
  "wf_execs (wf_logged (update_step_execution e r) w) = wf_execs w"
  "wf_execs (wf_logged (create_step_execution e r) w) = wf_execs w"
  by (simp_all add: wf_logged_def wf_stmt_def Let_def tick_wf_def update_step_execution_def
        create_step_execution_def split: option.split)

lemma tick_wf_other [simp]:
  "wf_events (tick_wf w) = wf_events w" "wf_execs (tick_wf w) = wf_execs w"
  "wf_steps (tick_wf w) = wf_steps w" "wf_moment (tick_wf w) = Suc (wf_moment w)"
  by (simp_all add: tick_wf_def)

lemma new_uuid_other [simp]:
  "wf_events (fst (wf_new_uuid w)) = wf_events w" "wf_execs (fst (wf_new_uuid w)) = wf_execs w"
  "wf_moment (fst (wf_new_uuid w)) = wf_moment w"
  by (simp_all add: wf_new_uuid_def)

lemmas emit_defs = emit_started_def emit_completed_def emit_failed_def emit_step_started_def
  emit_step_completed_def emit_waiting_def emit_wf_def

lemma emit_other [simp]:
  "wf_execs (emit_wf em nm st i s a t w) = wf_execs w"
  "wf_steps (emit_wf em nm st i s a t w) = wf_steps w"
  "wf_moment (emit_wf em nm st i s a t w) = wf_moment w"
  "map ev_mark (wf_events (emit_wf em nm st i s a t w)) = map ev_mark (wf_events w) @ [(nm, i)]"
  by (simp_all add: emit_wf_def ev_mark_def)

lemma update_execution_effect:
  "wf_execs (wf_logged (update_execution e ctx row) w) =
     (if ctx \<and> \<not> env_alive e (wf_moment w) \<or> env_fails e (wf_moment w) \<noteq> None then wf_execs w
      else map (\<lambda>x. if we_id x = we_id row then exec_columns row x else x) (wf_execs w))"
  by (simp add: wf_logged_def update_execution_def wf_stmt_def Let_def tick_wf_def split: option.split)

lemma approval_other:
  assumes "handle_step_approval e i s em row w = (row', w')"
  shows "map ev_mark (wf_events w') = map ev_mark (wf_events w) @ [(WfEvStepApproval, i)]"
    and "wf_execs w' = wf_execs w" and "wf_moment w \<le> wf_moment w'"
  using assms by (auto simp: handle_step_approval_def Let_def emit_waiting_def)

definition written :: "wf_execution \<Rightarrow> wf_execution list \<Rightarrow> wf_execution list" where
  "written row xs = map (\<lambda>x. if we_id x = we_id row then exec_columns row x else x) xs"

text \<open>How a step ends; \<open>tail\<close> are its marks after those of \<open>step_head\<close>.\<close>

definition step_tail :: "wf_step \<Rightarrow> nat \<Rightarrow> go_map \<Rightarrow> step_end \<Rightarrow> wf_mark list \<Rightarrow> bool" where
  "step_tail s i m r tail = (case r of
     StepGoOn \<Rightarrow> tail = [(WfEvStepCompleted, i)] \<or> tail = [] \<and> ws_on_failure s = on_failure_skip
   | StepStop \<Rightarrow> tail = [(WfEvFailed, i)] \<and> ws_on_failure s \<noteq> on_failure_skip
   | StepPanic \<Rightarrow> tail = [] \<and> m = None \<and> ws_output_key s \<noteq> '''')"

lemma failure_effect:
  assumes "handle_step_failure e i s em row x msg d at w = (w1, x1, r)"
  shows "\<exists>tail. map ev_mark (wf_events w1) = map ev_mark (wf_events w) @ tail \<and> step_tail s i m r tail"
    and "wf_moment w < wf_moment w1" and "we_id x1 = we_id x" and "r \<noteq> StepPanic"
    and "we_status x1 = (if r = StepStop then WfFailed else we_status x)"
    and "wf_execs w1 = (if r = StepStop \<and> env_fails e (Suc (wf_moment w)) = None
       then written x1 (wf_execs w) else wf_execs w)"
  using assms
  by (auto simp: handle_step_failure_def Let_def step_tail_def emit_failed_def written_def
      update_execution_effect split: if_splits)

lemma execute_step_effect:
  assumes "execute_step e i s em w x m = (w1, x1, m1, r)"
  shows "\<exists>tail. map ev_mark (wf_events w1) = map ev_mark (wf_events w) @ step_head s i @ tail \<and> step_tail s i m r tail"
    and "wf_moment w < wf_moment w1" and "we_id x1 = we_id x" and "m \<noteq> None \<longrightarrow> m1 \<noteq> None"
    and "we_status x1 = (if r = StepStop then WfFailed else we_status x)"
    and "wf_execs w1 = wf_execs w \<or> wf_execs w1 = written x1 (wf_execs w)"
    and "r = StepStop \<Longrightarrow> (\<forall>n. env_fails e n = None) \<Longrightarrow> wf_execs w1 = written x1 (wf_execs w)"
proof -
  define w0 where "w0 = fst (wf_new_uuid w)"
  define uid where "uid = snd (wf_new_uuid w)"
  define prompt where "prompt = fill_prompt (env_order e (wf_moment w)) m (ws_prompt s)"
  define row where "row = \<lparr>se_id = uid, se_exec = we_id x, se_index = i, se_name = ws_name s, se_agent = ws_agent s,
      se_status = WfRunning, se_input = prompt, se_output = None, se_duration = None,
      se_started = Some (env_time e (wf_moment w)), se_completed = None, se_created = env_time e (wf_moment w)\<rparr>"
  define wb where "wb = emit_step_started em i (ws_name s) (ws_agent s) (wf_logged (create_step_execution e row) w0)"
  obtain row2 wc where c: "(if ws_approval s then handle_step_approval e i s em row wb else (row, wb)) = (row2, wc)"
    by fastforce
  define at where "at = env_time e (wf_moment (tick_wf wc))"
  define dur where "dur = at - env_time e (wf_moment wc)"
  define answer where "answer = env_send e (wf_moment wc) (step_session (we_id x) i) (ws_agent s) prompt (step_timeout s)"
  have uuid: "wf_new_uuid w = (w0, uid)" by (simp add: w0_def uid_def)
  have wb: "map ev_mark (wf_events wb) = map ev_mark (wf_events w) @ [(WfEvStepStarted, i)]"
      "wf_execs wb = wf_execs w" "wf_moment w < wf_moment wb"
    by (simp_all add: wb_def w0_def emit_step_started_def)
  then have wc: "map ev_mark (wf_events wc) = map ev_mark (wf_events w) @ step_head s i"
      "wf_execs wc = wf_execs w" "wf_moment w < wf_moment wc"
    using c approval_other [of e i s em row wb row2 wc] by (auto simp: step_head_def split: if_splits)
  have run: "execute_step e i s em w x m = (case answer of
      Inl errMsg \<Rightarrow>
        (let (w4, x1, r) = handle_step_failure e i s em row2 x errMsg dur at (tick_wf wc) in (w4, x1, m, r))
    | Inr turns \<Rightarrow>
        let response = join [CHR 0x0A] (filter (\<lambda>t. t \<noteq> '''') turns);
            row3 = row2\<lparr>se_status := WfCompleted, se_output := Some response, se_duration := Some dur,
                       se_completed := Some at\<rparr>;
            w4 = wf_logged (update_step_execution e row3) (tick_wf wc) in
        (case (if ws_output_key s \<noteq> '''' then go_map_assign (ws_output_key s) response m else Some m) of
           None \<Rightarrow> (w4, x, m, StepPanic)
         | Some m1 \<Rightarrow>
             let x1 = x\<lparr>we_context := Some (env_show_map e m1), we_step := i + 1\<rparr>;
                 w5 = wf_logged (update_execution e True x1) w4 in
             (emit_step_completed em i (ws_name s) (ws_agent s) w5, x1, m1, StepGoOn)))"
    unfolding execute_step_def Let_def uuid prompt_def [symmetric] case_prod_conv
      row_def [symmetric] wb_def [symmetric] c answer_def at_def dur_def ..
  have all: "(\<exists>tail. map ev_mark (wf_events w1) = map ev_mark (wf_events w) @ step_head s i @ tail \<and> step_tail s i m r tail)
    \<and> wf_moment w < wf_moment w1 \<and> we_id x1 = we_id x \<and> (m \<noteq> None \<longrightarrow> m1 \<noteq> None)
    \<and> we_status x1 = (if r = StepStop then WfFailed else we_status x)
    \<and> (wf_execs w1 = wf_execs w \<or> wf_execs w1 = written x1 (wf_execs w))
    \<and> (r = StepStop \<longrightarrow> (\<forall>n. env_fails e n = None) \<longrightarrow> wf_execs w1 = written x1 (wf_execs w))"
  proof (cases answer)
    case (Inl errMsg)
    then obtain y where f: "handle_step_failure e i s em row2 x errMsg dur at (tick_wf wc) = (w1, x1, r)"
        and m1: "m1 = m"
      using assms run by (auto simp: Let_def split: prod.splits)
    from failure_effect(1) [OF f, of m] failure_effect(2-6) [OF f] show ?thesis using wc m1 by auto
  next
    case (Inr turns)
    then show ?thesis
      using assms run wc
      by (auto simp: Let_def step_tail_def emit_step_completed_def go_map_assign_def written_def
          update_execution_effect split: option.splits if_splits)
  qed
  then show "\<exists>tail. map ev_mark (wf_events w1) = map ev_mark (wf_events w) @ step_head s i @ tail \<and> step_tail s i m r tail"
    "wf_moment w < wf_moment w1" "we_id x1 = we_id x" "m \<noteq> None \<longrightarrow> m1 \<noteq> None"
    "we_status x1 = (if r = StepStop then WfFailed else we_status x)"
    "wf_execs w1 = wf_execs w \<or> wf_execs w1 = written x1 (wf_execs w)"
    "r = StepStop \<Longrightarrow> (\<forall>n. env_fails e n = None) \<Longrightarrow> wf_execs w1 = written x1 (wf_execs w)"
    by blast+
qed

section \<open>The loop\<close>

lemma run_steps_moment:
  "run_steps e em i ss w x m = (w1, x1, m1, r) \<Longrightarrow> wf_moment w \<le> wf_moment w1"
proof (induction e em i ss w x m arbitrary: w1 x1 m1 r rule: run_steps.induct)
  case (2 e em i s ss w x m)
  show ?case
  proof (cases "env_alive e (wf_moment w)")
    case True
    obtain w2 x2 m2 r2 where st: "execute_step e i s em (tick_wf w) x m = (w2, x2, m2, r2)"
      by (metis prod_cases4)
    have "wf_moment w \<le> wf_moment w2" using execute_step_effect(2) [OF st] by simp
    then show ?thesis using 2 True st by (cases r2) fastforce+
  qed (use 2 in auto)
qed simp

lemma run_steps_trace:
  assumes "\<And>n. env_alive e n"
  shows "run_steps e em i ss w x m = (w1, x1, m1, r) \<Longrightarrow> m \<noteq> None \<Longrightarrow>
    r \<noteq> StepPanic \<and> (\<exists>t. map ev_mark (wf_events w1) = map ev_mark (wf_events w) @ t \<and>
      wf_trace ss i (if r = StepGoOn then t @ [(WfEvCompleted, 0)] else t) \<and>
      (r = StepStop \<longrightarrow> fst (last t) = WfEvFailed))"
proof (induction ss arbitrary: i w x m)
  case Nil
  then show ?case by (auto intro: wf_trace.finished)
next
  case (Cons s ss)
  obtain w2 x2 m2 r2 where st: "execute_step e i s em (tick_wf w) x m = (w2, x2, m2, r2)"
    by (metis prod_cases4)
  from execute_step_effect(1) [OF st] obtain tail
    where ev: "map ev_mark (wf_events w2) = map ev_mark (wf_events w) @ step_head s i @ tail"
      and tail: "step_tail s i m r2 tail" by auto
  show ?case
  proof (cases r2)
    case StepGoOn
    then have run: "run_steps e em (Suc i) ss w2 x2 m2 = (w1, x1, m1, r)" and "m2 \<noteq> None"
      using Cons.prems assms st execute_step_effect(4) [OF st] by auto
    from Cons.IH [OF this] obtain t where r: "r \<noteq> StepPanic"
      and t: "map ev_mark (wf_events w1) = map ev_mark (wf_events w2) @ t"
      "wf_trace ss (Suc i) (if r = StepGoOn then t @ [(WfEvCompleted, 0)] else t)"
      "r = StepStop \<longrightarrow> fst (last t) = WfEvFailed" by blast
    have ne: "r = StepStop \<longrightarrow> t \<noteq> []" using t(2) by (auto elim: wf_trace.cases simp: step_head_def)
    have "wf_trace (s # ss) i (step_head s i @ tail @ (if r = StepGoOn then t @ [(WfEvCompleted, 0)] else t))"
      using tail StepGoOn wf_trace.completed [OF t(2), of s] wf_trace.skipped [OF t(2), of s]
      by (auto simp: step_tail_def)
    then show ?thesis
      using r t(1,3) ne ev by (intro conjI exI [of _ "step_head s i @ tail @ t"]) (auto split: if_splits)
  next
    case StepStop
    then have "r = StepStop" "w1 = w2" using Cons.prems assms st by auto
    then show ?thesis
      using ev tail StepStop wf_trace.failed [of s ss i]
      by (auto simp: step_tail_def intro!: exI [of _ "step_head s i @ tail"])
  next
    case StepPanic
    then show ?thesis using tail Cons.prems by (simp add: step_tail_def)
  qed
qed

lemma written_ids [simp]: "map we_id (written row xs) = map we_id xs"
  by (simp add: written_def exec_columns_def)

lemma written_status:
  "y \<in> set (written row xs) \<Longrightarrow> we_id y = we_id row \<Longrightarrow> we_status y = we_status row"
  by (auto simp: written_def exec_columns_def split: if_splits)

lemma run_steps_execs:
  "run_steps e em i ss w x m = (w1, x1, m1, r) \<Longrightarrow>
    we_id x1 = we_id x \<and> map we_id (wf_execs w1) = map we_id (wf_execs w) \<and>
    we_status x1 = (if r = StepStop then WfFailed else we_status x) \<and>
    ((\<forall>y \<in> set (wf_execs w). we_id y = we_id x \<longrightarrow> we_status y = we_status x) \<longrightarrow> r \<noteq> StepStop \<longrightarrow>
       (\<forall>y \<in> set (wf_execs w1). we_id y = we_id x \<longrightarrow> we_status y = we_status x)) \<and>
    (r = StepStop \<longrightarrow> (\<forall>n. env_fails e n = None) \<longrightarrow> (\<exists>xs. wf_execs w1 = written x1 xs))"
proof (induction e em i ss w x m arbitrary: w1 x1 m1 r rule: run_steps.induct)
  case (2 e em i s ss w x m)
  obtain w2 x2 m2 r2 where st: "execute_step e i s em (tick_wf w) x m = (w2, x2, m2, r2)"
    by (metis prod_cases4)
  note eff = execute_step_effect(3,5-7) [OF st]
  show ?case
  proof (cases "env_alive e (wf_moment w)")
    case False
    then show ?thesis using "2.prems" by auto
  next
    case True
    have ids: "map we_id (wf_execs w2) = map we_id (wf_execs w)" using eff(3) by auto
    have keep: "\<forall>y \<in> set (wf_execs w2). we_id y = we_id x \<longrightarrow> we_status y = we_status x"
      if "\<forall>y \<in> set (wf_execs w). we_id y = we_id x \<longrightarrow> we_status y = we_status x" "r2 \<noteq> StepStop"
      using that eff(1-3) written_status [of _ x2 "wf_execs w"] by auto
    show ?thesis
    proof (cases r2)
      case StepGoOn
      then have run: "run_steps e em (Suc i) ss w2 x2 m2 = (w1, x1, m1, r)"
        using "2.prems" True st by auto
      have "\<not> \<not> env_alive e (wf_moment w)" using True by simp
      note IH = "2.IH" [OF this st [symmetric] refl refl StepGoOn run]
      have same: "we_id x2 = we_id x" "we_status x2 = we_status x" using eff(1,2) StepGoOn by simp_all
      have keep': "\<forall>y \<in> set (wf_execs w2). we_id y = we_id x \<longrightarrow> we_status y = we_status x"
        if "\<forall>y \<in> set (wf_execs w). we_id y = we_id x \<longrightarrow> we_status y = we_status x"
        using keep [OF that] StepGoOn by simp
      note IH' = IH [unfolded same ids]
      show ?thesis using IH' keep' by blast
    next
      case StepStop
      then show ?thesis using "2.prems" True st eff ids by auto
    next
      case StepPanic
      then have eqs: "w1 = w2" "x1 = x2" "r = r2" and ne: "r2 \<noteq> StepStop"
        using "2.prems" True st by auto
      have "we_id x2 = we_id x" "we_status x2 = we_status x" using eff(1,2) ne by simp_all
      then show ?thesis unfolding eqs if_not_P [OF ne] using keep ids ne by blast
    qed
  qed
qed simp

section \<open>Properties\<close>


lemma run_steps_append:
  assumes "run_steps e em i pre w x m = (w2, x2, m2, StepGoOn)" and "\<forall>n < wf_moment w2. env_alive e n"
  shows "run_steps e em i (pre @ post) w x m = run_steps e em (i + length pre) post w2 x2 m2"
  using assms
proof (induction pre arbitrary: i w x m)
  case (Cons s pre)
  obtain w1 x1 m1 r1 where st: "execute_step e i s em (tick_wf w) x m = (w1, x1, m1, r1)"
    by (metis prod_cases4)
  have "env_alive e (wf_moment w)"
  proof (rule ccontr)
    assume dead: "\<not> env_alive e (wf_moment w)"
    then have "w2 = tick_wf w" using Cons.prems by simp
    then show False using Cons.prems(2) dead by simp
  qed
  then show ?case using Cons st by (cases r1) auto
qed simp

text \<open>A run whose context is cancelled before its last steps broadcasts completion all the
  same: the remaining steps are not started, no statement after the cancellation takes effect, and
  the stored execution stays running.\<close>

theorem cancelled_run_completes:
  assumes x1: "x1 = x\<lparr>we_status := WfRunning, we_started := Some (env_time e (wf_moment w))\<rparr>"
    and w1: "w1 = emit_started em (wf_logged (update_execution e True x1) w)"
    and pre: "run_steps e em 0 pre w1 x1 (initial_map e x1) = (w2, x2, m2, StepGoOn)"
    and rest: "post \<noteq> []" and cancelled: "\<And>n. env_alive e n \<longleftrightarrow> n < wf_moment w2"
    and db: "\<And>n. env_fails e n = None"
  shows "\<exists>w'. run_workflow e em (pre @ post) x w = (w', StepGoOn) \<and>
    wf_steps w' = wf_steps w2 \<and> wf_execs w' = wf_execs w2 \<and>
    map ev_mark (wf_events w') = map ev_mark (wf_events w2) @ [(WfEvCompleted, 0)] \<and>
    (\<forall>y \<in> set (wf_execs w'). we_id y = we_id x \<longrightarrow> we_status y = WfRunning)"
proof -
  have "run_steps e em 0 (pre @ post) w1 x1 (initial_map e x1) = run_steps e em (length pre) post w2 x2 m2"
    using run_steps_append [OF pre, of post] cancelled by simp
  also have "\<dots> = (tick_wf w2, x2, m2, StepGoOn)"
    using rest cancelled by (cases post) simp_all
  finally have st: "run_steps e em 0 (pre @ post) w1 x1 (initial_map e x1) = (tick_wf w2, x2, m2, StepGoOn)" .
  define x3 where "x3 = x2\<lparr>we_status := WfCompleted, we_completed := Some (env_time e (wf_moment (tick_wf w2)))\<rparr>"
  define w' where "w' = emit_completed em (wf_logged (update_execution e True x3) (tick_wf w2))"
  have run: "run_workflow e em (pre @ post) x w = (w', StepGoOn)"
    using st unfolding run_workflow_def Let_def x1 [symmetric] w1 [symmetric] by (simp add: w'_def x3_def)
  have "wf_steps (wf_logged (update_execution e True x3) u) = wf_steps u" for u
    by (simp add: wf_logged_def update_execution_def wf_stmt_def Let_def split: option.split)
  then have fields: "wf_steps w' = wf_steps w2" "wf_execs w' = wf_execs w2"
    "map ev_mark (wf_events w') = map ev_mark (wf_events w2) @ [(WfEvCompleted, 0)]"
    using cancelled by (simp_all add: w'_def emit_completed_def update_execution_effect)
  have "wf_moment w < wf_moment w2"
    using run_steps_moment [OF pre] by (simp add: w1 emit_started_def)
  then have "wf_execs w1 = written x1 (wf_execs w)"
    using cancelled db by (simp add: w1 emit_started_def update_execution_effect written_def)
  then have "\<forall>y \<in> set (wf_execs w1). we_id y = we_id x1 \<longrightarrow> we_status y = we_status x1"
    using written_status by auto
  then have "\<forall>y \<in> set (wf_execs w2). we_id y = we_id x \<longrightarrow> we_status y = WfRunning"
    using run_steps_execs [OF pre] by (simp add: x1)
  then show ?thesis using run fields by auto
qed

lemma execute_step_nil_map:
  assumes "\<And>n se a p t. \<exists>turns. env_send e n se a p t = Inr turns" and "ws_output_key s \<noteq> ''''"
  shows "snd (snd (snd (execute_step e i s em w x None))) = StepPanic"
proof -
  have answer: "(env_send e n se a p t = Inl y) = False" for n se a p t y
    using assms(1) [of n se a p t] by auto
  show ?thesis
    using assms(2)
    by (auto simp: execute_step_def Let_def go_map_assign_def wf_new_uuid_def answer split: prod.split sum.split)
qed

text \<open>An execution whose context is the JSON value \<open>null\<close> starts with the nil map, and the
  first answered step with an output key panics on it, after the step is started and before any
  final event.\<close>

theorem null_context_panics:
  assumes "we_context x = Some raw" and "env_parse_map e raw = (True, None)"
    and "env_alive e (Suc (wf_moment w))" and "ws_output_key s \<noteq> ''''"
    and "\<And>n se a p t. \<exists>turns. env_send e n se a p t = Inr turns"
  shows "\<exists>w'. run_workflow e em (s # ss) x w = (w', StepPanic) \<and>
    map ev_mark (wf_events w') = map ev_mark (wf_events w) @ (WfEvStarted, 0) # step_head s 0"
proof -
  define x1 where "x1 = x\<lparr>we_status := WfRunning, we_started := Some (env_time e (wf_moment w))\<rparr>"
  define w1 where "w1 = emit_started em (wf_logged (update_execution e True x1) w)"
  have m: "initial_map e x1 = None" using assms(1,2) by (simp add: initial_map_def x1_def)
  have mom: "wf_moment w1 = Suc (wf_moment w)" by (simp add: w1_def emit_started_def)
  obtain w2 x2 m2 r2 where st: "execute_step e 0 s em (tick_wf w1) x1 None = (w2, x2, m2, r2)"
    by (metis prod_cases4)
  have r2: "r2 = StepPanic" using execute_step_nil_map [OF assms(5,4), of 0 em "tick_wf w1" x1] st by simp
  have "run_steps e em 0 (s # ss) w1 x1 (initial_map e x1) = (w2, x2, m2, StepPanic)"
    using assms(3) m mom st r2 by simp
  then have "run_workflow e em (s # ss) x w = (w2, StepPanic)"
    unfolding run_workflow_def Let_def x1_def [symmetric] w1_def [symmetric] by simp
  moreover have "map ev_mark (wf_events w2) = map ev_mark (wf_events w) @ (WfEvStarted, 0) # step_head s 0"
    using execute_step_effect(1) [OF st] r2 by (auto simp: step_tail_def w1_def emit_started_def)
  ultimately show ?thesis by blast
qed

section \<open>The tools\<close>

lemma get_definition_same:
  "get_definition e ws i w = (w', r) \<Longrightarrow>
     wf_execs w' = wf_execs w \<and> wf_steps w' = wf_steps w \<and> wf_spawned w' = wf_spawned w"
  by (auto simp: get_definition_def wf_stmt_def Let_def tick_wf_def split: option.splits if_splits)

lemma get_execution_result:
  "get_execution e i w = (w', r) \<Longrightarrow>
     wf_execs w' = wf_execs w \<and> wf_steps w' = wf_steps w \<and>
     (\<forall>x. r = Inr x \<longrightarrow> find (\<lambda>x. we_id x = i) (wf_execs w) = Some x)"
  by (auto simp: get_execution_def wf_stmt_def Let_def tick_wf_def split: option.splits if_splits)

lemma get_step_result:
  "get_step_execution e i k w = (w', r) \<Longrightarrow>
     wf_execs w' = wf_execs w \<and> wf_steps w' = wf_steps w \<and>
     (\<forall>x. r = Inr x \<longrightarrow> find (\<lambda>x. se_exec x = i \<and> se_index x = k) (wf_steps w) = Some x)"
  by (auto simp: get_step_execution_def wf_stmt_def Let_def tick_wf_def split: option.splits if_splits)

lemma find_member: "find P xs = Some x \<Longrightarrow> x \<in> set xs \<and> P x"
  by (auto simp: find_Some_iff)

definition brief_of :: "wf_step_exec \<Rightarrow> step_brief" where
  "brief_of r = \<lparr>sb_index = se_index r, sb_name = se_name r, sb_agent = se_agent r, sb_status = se_status r,
     sb_duration = se_duration r\<rparr>"

lemma step_briefs_result:
  "step_briefs e i k n w = (w', bs) \<Longrightarrow>
     wf_execs w' = wf_execs w \<and> wf_steps w' = wf_steps w \<and> length bs \<le> n \<and>
     set bs \<subseteq> brief_of ` {r \<in> set (wf_steps w). se_exec r = i}"
proof (induction e i k n w arbitrary: w' bs rule: step_briefs.induct)
  case (2 e i k n w)
  obtain w1 r where g: "get_step_execution e i k w = (w1, r)" by (cases "get_step_execution e i k w")
  note same = get_step_result [OF g]
  obtain w2 bs2 where rec: "step_briefs e i (Suc k) n w1 = (w2, bs2)" by (cases "step_briefs e i (Suc k) n w1")
  show ?case
  proof (cases r)
    case (Inl x)
    then have "w' = w2" "bs = bs2" using "2.prems" g rec by auto
    then show ?thesis using "2.IH"(1) [OF g [symmetric] Inl rec] same by simp
  next
    case (Inr row)
    have "row \<in> {r \<in> set (wf_steps w). se_exec r = i}" using same Inr find_member by fastforce
    moreover have "w' = w2" "bs = brief_of row # bs2"
      using "2.prems" g Inr rec by (auto simp: brief_of_def)
    ultimately show ?thesis using "2.IH"(2) [OF g [symmetric] Inr rec] same by auto
  qed
qed simp

text \<open>A status report is about an execution of the caller's own workspace: it shows the stored
  status, step and error of that row, lists only step rows of that execution, and changes nothing.\<close>

theorem check_isolated:
  assumes "check_workflow_status e ws executionID w = (w', Inr rep)"
  shows "wf_execs w' = wf_execs w \<and> wf_steps w' = wf_steps w \<and>
    (\<exists>x \<in> set (wf_execs w). we_id x = executionID \<and> we_ws x = ws \<and> wr_id rep = executionID \<and>
       wr_status rep = we_status x \<and> wr_step rep = we_step x) \<and>
    set (wr_steps rep) \<subseteq> brief_of ` {r \<in> set (wf_steps w). se_exec r = executionID}"
proof -
  obtain w1 r where g: "get_execution e executionID w = (w1, r)" by (cases "get_execution e executionID w")
  note ex = get_execution_result [OF g]
  obtain x where r: "r = Inr x" and ws: "we_ws x = ws"
    using assms g by (cases r) (auto simp: check_workflow_status_def split: if_splits)
  obtain w2 rd where d: "get_definition e ws (we_def x) w1 = (w2, rd)" by (cases "get_definition e ws (we_def x) w1")
  obtain dd where rd: "rd = Inr dd" using assms g r ws d by (cases rd) (auto simp: check_workflow_status_def)
  let ?n = "length (case env_parse_steps e (wd_steps dd) of None \<Rightarrow> [] | Some ss \<Rightarrow> ss)"
  obtain w3 bs where b: "step_briefs e executionID 0 ?n w2 = (w3, bs)" by (cases "step_briefs e executionID 0 ?n w2")
  have rep: "w' = w3" "wr_steps rep = bs" "wr_status rep = we_status x" "wr_step rep = we_step x" "wr_id rep = we_id x"
    using assms g r ws d rd b by (auto simp: check_workflow_status_def Let_def)
  have "x \<in> set (wf_execs w)" "we_id x = executionID" using ex r find_member by fastforce+
  then show ?thesis
    using rep ws ex get_definition_same [OF d] step_briefs_result [OF b] by auto
qed

text \<open>A trigger either fails before an execution is stored, or stores one pending execution of
  the workflow with the caller's context; it starts the run exactly when the runtime is ready, and
  otherwise reports an error and leaves the pending execution behind with no run to move it.\<close>

theorem trigger_outcome:
  assumes run: "trigger_workflow e client hasExec ws wid cid ictx w = (w', r)"
  shows "(\<exists>msg. r = Inl msg \<and> wf_execs w' = wf_execs w \<and> wf_spawned w' = wf_spawned w) \<or>
    (\<exists>row. we_status row = WfPending \<and> we_ws row = ws \<and> we_def row = wid \<and>
       we_context row = (if ictx = '''' then None else Some ictx) \<and>
       wf_execs w' = (if we_id row \<in> we_id ` set (wf_execs w) then wf_execs w else wf_execs w @ [row]) \<and>
       (case client of
          Some None \<Rightarrow> (\<exists>name. r = Inr (we_id row, name)) \<and>
            wf_spawned w' = wf_spawned w @ (if hasExec then [(we_id row, ws)] else [])
        | _ \<Rightarrow> (\<exists>msg. r = Inl msg) \<and> wf_spawned w' = wf_spawned w))"
proof -
  obtain w1 rd where d: "get_definition e ws wid w = (w1, rd)" by (cases "get_definition e ws wid w")
  note same = get_definition_same [OF d]
  show ?thesis
  proof (cases "\<exists>dd. rd = Inr dd \<and> wd_active dd \<and> (ictx = '''' \<or> fst (env_parse_map e ictx))")
    case False
    then show ?thesis using run d same by (cases rd) (auto simp: trigger_workflow_def split: if_splits)
  next
    case True
    then obtain dd where dd: "rd = Inr dd" "wd_active dd" "ictx = '''' \<or> fst (env_parse_map e ictx)" by blast
    define w2 uid where "w2 = fst (wf_new_uuid w1)" and "uid = snd (wf_new_uuid w1)"
    define conv where "conv = (if cid \<noteq> '''' then Some cid else None)"
    define row where "row = \<lparr>we_id = uid, we_def = wid, we_ws = ws, we_conv = conv,
        we_status = WfPending, we_step = 0, we_context = (if ictx \<noteq> '''' then Some ictx else None),
        we_triggered_by = ''agent'', we_error = None, we_started = None, we_completed = None,
        we_created = env_time e (wf_moment w2)\<rparr>"
    have w2: "wf_new_uuid w1 = (w2, uid)" by (simp add: w2_def uid_def)
    obtain w3 rc where c: "create_execution e row w2 = (w3, rc)" by (cases "create_execution e row w2")
    define w4 where "w4 = w3\<lparr>wf_chat := persist_workflow_message ws conv (wf_chat w3)\<rparr>"
    have idr: "we_id row = uid" by (simp add: row_def)
    have active: "\<not> \<not> wd_active dd" and valid: "\<not> (ictx \<noteq> '''' \<and> \<not> fst (env_parse_map e ictx))"
      using dd by auto
    have go: "trigger_workflow e client hasExec ws wid cid ictx w =
        (case rc of Inl x \<Rightarrow> (w3, Inl (''create execution: '' @ error_text (Some x)))
         | Inr _ \<Rightarrow> (case client of
             None \<Rightarrow> (w4, Inl ''runtime client not configured'')
           | Some (Some x) \<Rightarrow> (w4, Inl (''runtime not ready: '' @ error_text (Some x)))
           | Some None \<Rightarrow> ((if hasExec then w4\<lparr>wf_spawned := wf_spawned w4 @ [(we_id row, ws)]\<rparr> else w4),
                Inr (we_id row, wd_name dd))))"
      unfolding trigger_workflow_def d dd(1) prod.case sum.case if_not_P [OF active] if_not_P [OF valid] Let_def w2
        conv_def [symmetric] row_def [symmetric] c w4_def [symmetric]
      by (simp only: idr)
    have keep: "wf_execs w2 = wf_execs w" "wf_spawned w2 = wf_spawned w"
      using same by (simp_all add: w2_def wf_new_uuid_def)
    show ?thesis
    proof (cases rc)
      case (Inl x)
      then have "wf_execs w3 = wf_execs w2" "wf_spawned w3 = wf_spawned w2"
        using c by (auto simp: create_execution_def wf_stmt_def Let_def tick_wf_def split: option.splits if_splits)
      then show ?thesis using Inl go run keep by auto
    next
      case (Inr u)
      then have "wf_execs w3 = (if we_id row \<in> we_id ` set (wf_execs w2) then wf_execs w2 else wf_execs w2 @ [row])"
        "wf_spawned w3 = wf_spawned w2"
        using c by (auto simp: create_execution_def wf_stmt_def Let_def tick_wf_def split: option.splits if_splits)
      then have "wf_execs w4 = (if we_id row \<in> we_id ` set (wf_execs w) then wf_execs w else wf_execs w @ [row])"
        "wf_spawned w4 = wf_spawned w" using keep by (simp_all add: w4_def)
      then show ?thesis
        using Inr go run by (intro disjI2 exI [of _ row]) (auto simp: row_def split: option.splits)
    qed
  qed
qed

text \<open>What the engine makes of a step that asks for retries: it stops at the first failure.\<close>

lemma retry_is_stop:
  "execute_step e i (s\<lparr>ws_on_failure := ''retry'', ws_max_retries := k\<rparr>) em w x m
     = execute_step e i (s\<lparr>ws_on_failure := ''stop'', ws_max_retries := 0\<rparr>) em w x m"
proof -
  have approval: "handle_step_approval e i (s\<lparr>ws_on_failure := f, ws_max_retries := n\<rparr>) = handle_step_approval e i s"
    for f n by (intro ext) (simp add: handle_step_approval_def Let_def)
  have failure: "handle_step_failure e i (s\<lparr>ws_on_failure := ''retry'', ws_max_retries := k\<rparr>)
      = handle_step_failure e i (s\<lparr>ws_on_failure := ''stop'', ws_max_retries := 0\<rparr>)"
    by (intro ext) (simp add: handle_step_failure_def Let_def on_failure_skip_def)
  have timeout: "step_timeout (s\<lparr>ws_on_failure := f, ws_max_retries := n\<rparr>) = step_timeout s" for f n
    by (simp add: step_timeout_def)
  have fields: "ws_name (s\<lparr>ws_on_failure := f, ws_max_retries := n\<rparr>) = ws_name s"
    "ws_agent (s\<lparr>ws_on_failure := f, ws_max_retries := n\<rparr>) = ws_agent s"
    "ws_prompt (s\<lparr>ws_on_failure := f, ws_max_retries := n\<rparr>) = ws_prompt s"
    "ws_approval (s\<lparr>ws_on_failure := f, ws_max_retries := n\<rparr>) = ws_approval s"
    "ws_output_key (s\<lparr>ws_on_failure := f, ws_max_retries := n\<rparr>) = ws_output_key s" for f n by simp_all
  show ?thesis unfolding execute_step_def approval failure timeout fields ..
qed

text \<open>One template and one map, two prompts: a value that looks like a variable is filled in or
  not with the order of the map.\<close>

lemma prompt_depends_on_order:
  "fill_prompt (\<lambda>kvs. kvs) (Some [(''a'', ''{{b}}''), (''b'', ''1'')]) ''{{a}}'' = ''1'' \<and>
   fill_prompt rev (Some [(''a'', ''{{b}}''), (''b'', ''1'')]) ''{{a}}'' = ''{{b}}''"
  by code_simp

section \<open>Witnesses\<close>

definition sample_step :: "string \<Rightarrow> wf_step" where
  "sample_step k = \<lparr>ws_name = ''s'', ws_agent = ''writer'', ws_prompt = ''p'', ws_timeout = 0, ws_approval = False,
     ws_on_failure = ''stop'', ws_output_key = k, ws_max_retries = 0\<rparr>"

definition sample_env :: "(nat \<Rightarrow> bool) \<Rightarrow> wf_env" where
  "sample_env al = \<lparr>env_parse_steps = (\<lambda>r. Some [sample_step ''a'']), env_show_steps = (\<lambda>ss. ''j''),
     env_parse_map = (\<lambda>r. (True, if r = ''null'' then None else Some [])), env_show_map = (\<lambda>m. ''j''),
     env_order = (\<lambda>n. rev), env_alive = al, env_fails = (\<lambda>n. None),
     env_send = (\<lambda>n se a p t. Inr [''ok'']), env_time = (\<lambda>n. int n)\<rparr>"

definition sample_exec :: "string option \<Rightarrow> wf_execution" where
  "sample_exec c = \<lparr>we_id = ''x'', we_def = ''d'', we_ws = ''w'', we_conv = None, we_status = WfPending, we_step = 0,
     we_context = c, we_triggered_by = ''agent'', we_error = None, we_started = None, we_completed = None,
     we_created = 0\<rparr>"

definition sample_definition :: wf_definition where
  "sample_definition = \<lparr>wd_id = ''d'', wd_ws = ''w'', wd_name = ''n'', wd_description = '''', wd_steps = ''j'',
     wd_trigger = ''manual'', wd_active = True, wd_created = 0\<rparr>"

definition sample_wf_chat :: chat where
  "sample_wf_chat = \<lparr>ch_workspaces = [(''u'', ''w'')], ch_convs = Map.empty, ch_msgs = Map.empty, ch_agents = Map.empty,
     ch_roster = (\<lambda>w. []), ch_events = [], ch_now = 0, ch_uuid = 0, ch_uuids = show_nat, ch_user_tokens = (\<lambda>u. 0),
     ch_agent_tokens = (\<lambda>a. 0), ch_calls = 0, ch_fails = (\<lambda>n. False)\<rparr>"

definition sample_wf :: "string option \<Rightarrow> wf" where
  "sample_wf c = \<lparr>wf_defs = [sample_definition], wf_execs = [sample_exec c], wf_steps = [], wf_events = [],
     wf_chat = sample_wf_chat, wf_spawned = [], wf_moment = 0, wf_uuid = 0, wf_uuids = show_nat\<rparr>"

definition sample_emitter :: emitter where
  "sample_emitter = new_workflow_emitter ''w'' sample_definition (sample_exec None)"

lemmas sample_wf_defs = sample_env_def sample_exec_def sample_definition_def sample_wf_def sample_step_def


lemma cancelled_run_completes_witness:
  "\<exists>w'. run_workflow (sample_env (\<lambda>n. n < 6)) sample_emitter ([sample_step ''a''] @ [sample_step ''b''])
      (sample_exec None) (sample_wf None) = (w', StepGoOn) \<and>
    last (map ev_mark (wf_events w')) = (WfEvCompleted, 0) \<and> map we_status (wf_execs w') = [WfRunning]"
proof -
  let ?e = "sample_env (\<lambda>n. n < 6)" and ?x = "sample_exec None" and ?w = "sample_wf None"
  define x1 where "x1 = ?x\<lparr>we_status := WfRunning, we_started := Some (env_time ?e (wf_moment ?w))\<rparr>"
  define w1 where "w1 = emit_started sample_emitter (wf_logged (update_execution ?e True x1) ?w)"
  obtain w2 x2 m2 r2 where st: "run_steps ?e sample_emitter 0 [sample_step ''a''] w1 x1 (initial_map ?e x1) = (w2, x2, m2, r2)"
    by (metis prod_cases4)
  have run: "wf_moment w2 = 6 \<and> r2 = StepGoOn \<and> map we_id (wf_execs w2) = [''x'']"
    using st unfolding w1_def x1_def
    by (simp add: sample_wf_defs initial_map_def execute_step_def Let_def wf_new_uuid_def wf_logged_def
        wf_stmt_def tick_wf_def update_execution_def update_step_execution_def create_step_execution_def
        emit_defs go_map_assign_def exec_columns_def) auto
  have "\<exists>w'. run_workflow ?e sample_emitter ([sample_step ''a''] @ [sample_step ''b'']) ?x ?w = (w', StepGoOn) \<and>
    wf_steps w' = wf_steps w2 \<and> wf_execs w' = wf_execs w2 \<and>
    map ev_mark (wf_events w') = map ev_mark (wf_events w2) @ [(WfEvCompleted, 0)] \<and>
    (\<forall>y \<in> set (wf_execs w'). we_id y = we_id ?x \<longrightarrow> we_status y = WfRunning)"
    by (rule cancelled_run_completes [OF x1_def w1_def]) (use st run in \<open>simp_all add: sample_env_def\<close>)
  then obtain w' where w': "run_workflow ?e sample_emitter ([sample_step ''a''] @ [sample_step ''b'']) ?x ?w = (w', StepGoOn)"
    "wf_execs w' = wf_execs w2" "map ev_mark (wf_events w') = map ev_mark (wf_events w2) @ [(WfEvCompleted, 0)]"
    "\<forall>y \<in> set (wf_execs w'). we_id y = we_id ?x \<longrightarrow> we_status y = WfRunning" by blast
  have "map we_status (wf_execs w') = [WfRunning]"
    using run w'(2,4) by (auto simp: sample_exec_def)
  then show ?thesis using w' by (intro exI [of _ w']) simp
qed

lemma null_context_panics_witness:
  "\<exists>w'. run_workflow (sample_env (\<lambda>n. True)) sample_emitter [sample_step ''a''] (sample_exec (Some ''null''))
     (sample_wf (Some ''null'')) = (w', StepPanic)"
  using null_context_panics [of "sample_exec (Some ''null'')" "''null''" "sample_env (\<lambda>n. True)"
      "sample_wf (Some ''null'')" "sample_step ''a''" sample_emitter "[]"]
  by (auto simp: sample_wf_defs)

lemma check_isolated_witness:
  "\<exists>rep w'. check_workflow_status (sample_env (\<lambda>n. True)) ''w'' ''x'' (sample_wf None) = (w', Inr rep) \<and>
     wr_status rep = WfPending \<and> wr_id rep = ''x''"
proof -
  have names: "blank ''x'' = False" "blank ''d'' = False" "blank ''w'' = False" by code_simp+
  obtain w' rep where run: "check_workflow_status (sample_env (\<lambda>n. True)) ''w'' ''x'' (sample_wf None) = (w', Inr rep)"
    by (simp add: check_workflow_status_def get_execution_def get_definition_def get_step_execution_def wf_stmt_def
        Let_def tick_wf_def sample_wf_defs names)
  from check_isolated [OF run] show ?thesis
    using run by (auto simp: sample_wf_def sample_exec_def)
qed

lemma trigger_outcome_witness:
  "\<exists>w' r. trigger_workflow (sample_env (\<lambda>n. True)) None True ''w'' ''d'' '''' ''null'' (sample_wf None) = (w', Inl r) \<and>
     wf_spawned w' = []"
proof -
  obtain w' r where run:
    "trigger_workflow (sample_env (\<lambda>n. True)) None True ''w'' ''d'' '''' ''null'' (sample_wf None) = (w', r)"
    by fastforce
  from trigger_outcome [OF run] show ?thesis
    using run by (auto simp: sample_wf_def)
qed

end
