(* ===== verification/Accounts.thy ===== *)
theory Accounts
  imports Chat_Store
begin

text \<open>
  User accounts: \<open>service/authservice/authservice.go\<close> over \<open>repo/userrepo\<close>,
  \<open>repo/rows.go\<close>, \<open>repo/usagequotarepo\<close>, \<open>repo/workspacerepo\<close> and
  \<open>workspaceservice.EnsureDefaultWorkspace\<close>. The tables carry the constraints of the schema
  (primary keys, \<open>users.subject UNIQUE\<close>, foreign keys, one open quota per user and plan); a
  statement that violates one fails, as does every statement whose number \<open>ad_fails\<close> names, and
  a failing statement changes nothing. The clock, the generated ids and the random suffixes are
  sequences of the state; the requests for an agent runtime, whose errors are only logged, are
  recorded in order.
\<close>

section \<open>Data\<close>

record auth_principal =
  ap_subject :: string
  ap_email :: string
  ap_name :: string

record preferences =
  pf_theme :: "string option"
  pf_language :: "string option"
  pf_currency :: "string option"

record user_record =
  us_id :: string
  us_subject :: string
  us_email :: string
  us_nickname :: string
  us_name :: string
  us_surname :: string
  us_avatar :: "string option"
  us_country :: "string option"
  us_birth :: "int option"
  us_banned :: bool
  us_terms :: bool
  us_privacy :: bool
  us_created :: int
  us_updated :: int
  us_deleted :: "int option"

text \<open>The domain model: the columns of the row and the preferences.\<close>

record user = user_record +
  us_prefs :: preferences

record preferences_row =
  pv_user :: string
  pv_theme :: "string option"
  pv_language :: "string option"
  pv_currency :: "string option"
  pv_updated :: int

record push_token_row =
  pt_user :: string
  pt_token :: string
  pt_updated :: int

record workspace =
  wk_id :: string
  wk_user :: string
  wk_name :: string
  wk_created :: int
  wk_updated :: int

record quota_row =
  qr_user :: string
  qr_plan :: string
  qr_effective :: int
  qr_created :: int
  qr_updated :: int

record account_tables =
  tb_users :: "user_record list"
  tb_prefs :: "string \<Rightarrow> preferences_row option"
  tb_tokens :: "string \<Rightarrow> push_token_row option"
  tb_workspaces :: "workspace list"
  tb_quotas :: "quota_row list"

record accounts =
  ad_tables :: account_tables
  ad_order :: "nat \<Rightarrow> user_record list \<Rightarrow> user_record list"
  ad_runtimes :: "(string \<times> string) list"
  ad_clock :: "nat \<Rightarrow> int"
  ad_ticks :: nat
  ad_uuids :: "nat \<Rightarrow> string"
  ad_uuid :: nat
  ad_random :: "nat \<Rightarrow> nat option"
  ad_draws :: nat
  ad_calls :: nat
  ad_fails :: "nat \<Rightarrow> bool"

type_synonym 'a account_call = "accounts \<Rightarrow> accounts \<times> (gerror + 'a)"

definition no_preferences :: preferences where
  "no_preferences = \<lparr>pf_theme = None, pf_language = None, pf_currency = None\<rparr>"

definition new_user_row :: "user \<Rightarrow> user_record" where
  "new_user_row u = user_record.truncate u"

definition to_domain :: "user_record \<Rightarrow> user" where
  "to_domain r = user_record.extend r \<lparr>us_prefs = no_preferences\<rparr>"

definition new_user_preferences_row :: "user \<Rightarrow> preferences_row" where
  "new_user_preferences_row u =
     \<lparr>pv_user = us_id u, pv_theme = pf_theme (us_prefs u), pv_language = pf_language (us_prefs u),
      pv_currency = pf_currency (us_prefs u), pv_updated = us_updated u\<rparr>"

definition apply_to_user :: "preferences_row \<Rightarrow> user \<Rightarrow> user" where
  "apply_to_user r u = u\<lparr>us_prefs := (us_prefs u)\<lparr>pf_theme := pv_theme r, pf_language := pv_language r, pf_currency := pv_currency r\<rparr>\<rparr>"

definition new_user_push_token_row :: "string \<Rightarrow> string \<Rightarrow> int \<Rightarrow> push_token_row" where
  "new_user_push_token_row i t now = \<lparr>pt_user = i, pt_token = t, pt_updated = now\<rparr>"

section \<open>Statements, clock and ids\<close>

definition account_stmt ::
  "string \<Rightarrow> (account_tables \<Rightarrow> bool) \<Rightarrow> (accounts \<Rightarrow> 'a) \<Rightarrow> (account_tables \<Rightarrow> account_tables) \<Rightarrow> 'a account_call" where
  "account_stmt msg ok q f c =
     (let c1 = c\<lparr>ad_calls := Suc (ad_calls c)\<rparr> in
      if ad_fails c (ad_calls c) \<or> \<not> ok (ad_tables c) then (c1, Inl (srv (msg @ '': db error'')))
      else (c1\<lparr>ad_tables := f (ad_tables c)\<rparr>, Inr (q c)))"

definition account_read :: "string \<Rightarrow> (accounts \<Rightarrow> 'a) \<Rightarrow> 'a account_call" where
  "account_read msg q = account_stmt msg (\<lambda>t. True) q (\<lambda>t. t)"

definition account_bind :: "'a account_call \<Rightarrow> ('a \<Rightarrow> 'b account_call) \<Rightarrow> 'b account_call" where
  "account_bind m k c = (case m c of (c1, Inl e) \<Rightarrow> (c1, Inl e) | (c1, Inr a) \<Rightarrow> k a c1)"

definition account_return :: "'a \<Rightarrow> 'a account_call" where
  "account_return a c = (c, Inr a)"

definition account_raise :: "gerror \<Rightarrow> 'a account_call" where
  "account_raise e c = (c, Inl e)"

definition account_wrap :: "string \<Rightarrow> 'a account_call \<Rightarrow> 'a account_call" where
  "account_wrap msg m c = (case m c of
     (c1, Inl e) \<Rightarrow> (c1, Inl (case wrap_server_error (Some e) msg of Some e' \<Rightarrow> e' | None \<Rightarrow> e))
   | (c1, Inr a) \<Rightarrow> (c1, Inr a))"

definition time_now :: "int account_call" where
  "time_now c = (c\<lparr>ad_ticks := Suc (ad_ticks c)\<rparr>, Inr (ad_clock c (ad_ticks c)))"

definition account_uuid :: "string account_call" where
  "account_uuid c = (c\<lparr>ad_uuid := Suc (ad_uuid c)\<rparr>, Inr (ad_uuids c (ad_uuid c)))"

text \<open>\<open>rand.Int(rand.Reader, 10000)\<close>, which fails when the system has no randomness.\<close>

definition nicknameSuffixRange :: nat where "nicknameSuffixRange = 10000"

definition random_suffix :: "nat account_call" where
  "random_suffix c = (let c1 = c\<lparr>ad_draws := Suc (ad_draws c)\<rparr> in
     case ad_random c (ad_draws c) of
       None \<Rightarrow> (c1, Inl (srv ''generate random nickname suffix: rand error''))
     | Some n \<Rightarrow> (c1, Inr (n mod nicknameSuffixRange)))"

text \<open>\<open>database.WithTransaction\<close>.\<close>

definition account_transaction :: "string \<Rightarrow> 'a account_call \<Rightarrow> 'a account_call" where
  "account_transaction op fn c =
     (case account_read (''begin '' @ op @ '' transaction'') (\<lambda>c. ()) c of
        (c1, Inl e) \<Rightarrow> (c1, Inl e)
      | (c1, Inr _) \<Rightarrow>
          (case fn c1 of
             (c2, Inl e) \<Rightarrow> (c2\<lparr>ad_tables := ad_tables c1\<rparr>, Inl e)
           | (c2, Inr a) \<Rightarrow>
               (case account_read (''commit '' @ op @ '' transaction'') (\<lambda>c. ()) c2 of
                  (c3, Inl e) \<Rightarrow> (c3\<lparr>ad_tables := ad_tables c1\<rparr>, Inl e)
                | (c3, Inr _) \<Rightarrow> (c3, Inr a))))"

section \<open>Errors\<close>

definition ErrCodeUserDeleted :: string where "ErrCodeUserDeleted = ''USR0001''"
definition ErrCodeUserNotFound :: string where "ErrCodeUserNotFound = ''USR0002''"
definition ErrCodeUserFirebaseUIDMismatch :: string where "ErrCodeUserFirebaseUIDMismatch = ''USR0004''"
definition ErrCodeUserBanned :: string where "ErrCodeUserBanned = ''USR0006''"
definition ErrCodeLegalVersionMismatch :: string where "ErrCodeLegalVersionMismatch = ''USR0012''"

definition ErrUserDeleted :: gerror where "ErrUserDeleted = biz ''User is deleted'' ErrCodeUserDeleted"
definition ErrUserNotFound :: gerror where "ErrUserNotFound = biz ''User not found'' ErrCodeUserNotFound"
definition ErrUserWrongFirebaseUID :: gerror where
  "ErrUserWrongFirebaseUID = srv ''user found by email but Firebase UID does not match''"
definition ErrUserFirebaseUIDMismatch :: gerror where
  "ErrUserFirebaseUIDMismatch = biz ''Firebase UID mismatch'' ErrCodeUserFirebaseUIDMismatch"
definition ErrUserBanned :: gerror where "ErrUserBanned = biz ''Account is banned'' ErrCodeUserBanned"
definition ErrLegalVersionMismatch :: gerror where
  "ErrLegalVersionMismatch = biz ''Legal document version does not match current version'' ErrCodeLegalVersionMismatch"
definition ErrNilPrincipal :: gerror where "ErrNilPrincipal = srv ''principal is required''"
definition ErrEmptySubject :: gerror where "ErrEmptySubject = srv ''principal subject is required''"
definition ErrEmptyEmail :: gerror where "ErrEmptyEmail = srv ''principal email is required''"
definition ErrNicknameGenerationFailed :: gerror where
  "ErrNicknameGenerationFailed = srv ''failed to generate unique nickname after max attempts''"

text \<open>The classification helpers; that of the wrong uid compares pointers to the variable.\<close>

definition is_err_user_not_found :: "gerror \<Rightarrow> bool" where
  "is_err_user_not_found e \<longleftrightarrow> code e = ErrCodeUserNotFound"

definition is_err_user_wrong_firebase_uid :: "gerror \<Rightarrow> bool" where
  "is_err_user_wrong_firebase_uid e \<longleftrightarrow> e = ErrUserWrongFirebaseUID"

section \<open>The repository of users\<close>

text \<open>The first of the rows that match, in whatever order the database returns them.\<close>

definition select_user :: "(user_record \<Rightarrow> bool) \<Rightarrow> accounts \<Rightarrow> user_record option" where
  "select_user p c =
     (case any_order (ad_order c (ad_calls c)) (filter p (tb_users (ad_tables c))) of [] \<Rightarrow> None | r # rs \<Rightarrow> Some r)"

definition load_preferences :: "user \<Rightarrow> user account_call" where
  "load_preferences u c =
     (case account_read ''select user preferences'' (\<lambda>c. tb_prefs (ad_tables c) (us_id u)) c of
        (c1, Inr (Some r)) \<Rightarrow> (c1, Inr (apply_to_user r u))
      | (c1, _) \<Rightarrow> (c1, Inr u))"

text \<open>\<open>row.ToDomain\<close> and the preferences, for a row that was found.\<close>

definition loaded_user :: "user_record option \<Rightarrow> user account_call" where
  "loaded_user row = (case row of
     None \<Rightarrow> account_raise ErrUserNotFound
   | Some r \<Rightarrow> load_preferences (to_domain r))"

definition get_by_subject :: "string \<Rightarrow> user account_call" where
  "get_by_subject subject =
     (if blank subject then account_raise ErrInvalidInput
      else account_bind (account_read ''select user by subject'' (select_user (\<lambda>r. us_subject r = subject))) loaded_user)"

definition get_user_by_subject :: "string \<Rightarrow> user account_call" where
  "get_user_by_subject subject =
     account_bind (account_read ''select user by subject'' (select_user (\<lambda>r. us_subject r = subject))) loaded_user"

definition get_user_by_email :: "string \<Rightarrow> string \<Rightarrow> user account_call" where
  "get_user_by_email email subject =
     account_bind (account_read ''select user by email'' (select_user (\<lambda>r. us_email r = email)))
       (\<lambda>row. case row of
          None \<Rightarrow> account_raise ErrUserNotFound
        | Some r \<Rightarrow>
            if subject \<noteq> '''' \<and> us_subject r \<noteq> subject then account_raise ErrUserWrongFirebaseUID
            else load_preferences (to_domain r))"

definition get_user :: "string \<Rightarrow> string \<Rightarrow> user account_call" where
  "get_user subject email c =
     (if blank subject \<and> blank email then (c, Inl ErrInvalidInput)
      else
        let by_subject = (if subject \<noteq> '''' then get_user_by_subject subject else account_raise ErrUserNotFound) in
        if email \<noteq> '''' then
          (case get_user_by_email email subject c of
             (c1, Inl e) \<Rightarrow> if is_code (Some e) ErrCodeUserNotFound then by_subject c1 else (c1, Inl e)
           | (c1, Inr u) \<Rightarrow> (c1, Inr u))
        else by_subject c)"

definition is_user_deleted :: "string \<Rightarrow> string \<Rightarrow> bool account_call" where
  "is_user_deleted subject email =
     (if blank subject \<and> blank email then account_raise ErrInvalidInput
      else account_read ''check if user is deleted''
        (\<lambda>c. 0 < length (filter (\<lambda>r. us_deleted r \<noteq> None \<and> (us_subject r = subject \<or> us_email r = email)) (tb_users (ad_tables c)))))"

definition check_nickname_exists :: "string \<Rightarrow> bool account_call" where
  "check_nickname_exists nickname =
     (if blank nickname then account_raise ErrInvalidInput
      else account_read ''check nickname exists''
        (\<lambda>c. 0 < length (filter (\<lambda>r. us_nickname r = nickname) (tb_users (ad_tables c)))))"

text \<open>
  The constraints a row has to meet. \<open>owned\<close> is the foreign key to \<open>users.id\<close>.
\<close>

definition owned :: "string \<Rightarrow> account_tables \<Rightarrow> bool" where
  "owned i t \<longleftrightarrow> i \<in> us_id ` set (tb_users t)"

definition subject_taken :: "string \<Rightarrow> account_tables \<Rightarrow> bool" where
  "subject_taken s t \<longleftrightarrow> s \<in> us_subject ` set (tb_users t)"

text \<open>\<open>INSERT INTO users \<dots> ON CONFLICT (subject) DO UPDATE SET updated_at \<dots> RETURNING id\<close>.\<close>

definition insert_or_touch :: "user_record \<Rightarrow> account_tables \<Rightarrow> account_tables" where
  "insert_or_touch r t =
     (if subject_taken (us_subject r) t
      then t\<lparr>tb_users := map (\<lambda>x. if us_subject x = us_subject r then x\<lparr>us_updated := us_updated r\<rparr> else x) (tb_users t)\<rparr>
      else t\<lparr>tb_users := tb_users t @ [r]\<rparr>)"

definition returned_id :: "user_record \<Rightarrow> account_tables \<Rightarrow> string" where
  "returned_id r t = (case find (\<lambda>x. us_subject x = us_subject r) (tb_users t) of Some x \<Rightarrow> us_id x | None \<Rightarrow> us_id r)"

definition insert_preferences :: "preferences_row \<Rightarrow> account_tables \<Rightarrow> account_tables" where
  "insert_preferences r t =
     (if tb_prefs t (pv_user r) = None then t\<lparr>tb_prefs := (tb_prefs t)(pv_user r \<mapsto> r)\<rparr> else t)"

text \<open>The user comes back with the id of the stored row.\<close>

definition create_user_row :: "user \<Rightarrow> bool \<Rightarrow> user account_call" where
  "create_user_row u agreed =
     (let r = (new_user_row u)\<lparr>us_terms := agreed, us_privacy := agreed, us_deleted := None\<rparr> in
      account_bind
        (account_stmt ''insert user'' (\<lambda>t. subject_taken (us_subject r) t \<or> \<not> owned (us_id r) t)
           (\<lambda>c. returned_id r (ad_tables c)) (insert_or_touch r))
        (\<lambda>i. account_bind
           (account_stmt ''insert user preferences'' (owned i) (\<lambda>c. ())
              (insert_preferences ((new_user_preferences_row u)\<lparr>pv_user := i\<rparr>)))
           (\<lambda>_. account_return (u\<lparr>us_id := i\<rparr>))))"

text \<open>The upsert by id keeps the subject and the time of creation of an existing row.\<close>

definition upsert_user :: "user_record \<Rightarrow> account_tables \<Rightarrow> account_tables" where
  "upsert_user r t =
     (if owned (us_id r) t
      then t\<lparr>tb_users := map (\<lambda>x. if us_id x = us_id r then r\<lparr>us_subject := us_subject x, us_created := us_created x\<rparr> else x) (tb_users t)\<rparr>
      else t\<lparr>tb_users := tb_users t @ [r]\<rparr>)"

definition save_user_row :: "user_record \<Rightarrow> unit account_call" where
  "save_user_row r =
     account_stmt ''upsert user'' (\<lambda>t. owned (us_id r) t \<or> \<not> subject_taken (us_subject r) t) (\<lambda>c. ()) (upsert_user r)"

definition save_user_preferences_row :: "preferences_row \<Rightarrow> unit account_call" where
  "save_user_preferences_row r =
     account_stmt ''upsert user preferences'' (owned (pv_user r)) (\<lambda>c. ())
       (\<lambda>t. t\<lparr>tb_prefs := (tb_prefs t)(pv_user r \<mapsto> r)\<rparr>)"

definition save_user_push_token_row :: "push_token_row \<Rightarrow> unit account_call" where
  "save_user_push_token_row r =
     account_stmt ''upsert user push token'' (owned (pt_user r)) (\<lambda>c. ())
       (\<lambda>t. t\<lparr>tb_tokens := (tb_tokens t)(pt_user r \<mapsto> r)\<rparr>)"

definition user_save :: "user \<Rightarrow> unit account_call" where
  "user_save u = account_bind (save_user_row (new_user_row u))
     (\<lambda>_. save_user_preferences_row (new_user_preferences_row u))"

definition repo_save_push_token :: "string \<Rightarrow> string \<Rightarrow> unit account_call" where
  "repo_save_push_token i token =
     (if blank i \<or> blank token then account_raise ErrInvalidInput
      else account_bind time_now (\<lambda>now. save_user_push_token_row (new_user_push_token_row i token now)))"

definition clear_push_tokens :: "string \<Rightarrow> unit account_call" where
  "clear_push_tokens i =
     (if blank i then account_raise ErrInvalidInput
      else account_stmt ''clear push tokens'' (\<lambda>t. True) (\<lambda>c. ()) (\<lambda>t. t\<lparr>tb_tokens := (tb_tokens t)(i := None)\<rparr>))"

section \<open>Quotas and workspaces\<close>

definition quota_create :: "quota_row \<Rightarrow> unit account_call" where
  "quota_create r =
     account_stmt ''usagequotarepo: create''
       (\<lambda>t. owned (qr_user r) t \<and> (qr_user r, qr_plan r) \<notin> (\<lambda>x. (qr_user x, qr_plan x)) ` set (tb_quotas t))
       (\<lambda>c. ()) (\<lambda>t. t\<lparr>tb_quotas := tb_quotas t @ [r]\<rparr>)"

definition workspaces_of :: "string \<Rightarrow> account_tables \<Rightarrow> workspace list" where
  "workspaces_of i t = sort_key wk_created (filter (\<lambda>w. wk_user w = i) (tb_workspaces t))"

definition workspaces_by_user :: "string \<Rightarrow> workspace list account_call" where
  "workspaces_by_user i =
     (if blank i then account_raise ErrInvalidInput
      else account_read ''list workspaces by user id'' (\<lambda>c. workspaces_of i (ad_tables c)))"

definition upsert_workspace :: "workspace \<Rightarrow> account_tables \<Rightarrow> account_tables" where
  "upsert_workspace w t =
     (if wk_id w \<in> wk_id ` set (tb_workspaces t)
      then t\<lparr>tb_workspaces := map (\<lambda>x. if wk_id x = wk_id w then x\<lparr>wk_name := wk_name w, wk_updated := wk_updated w\<rparr> else x) (tb_workspaces t)\<rparr>
      else t\<lparr>tb_workspaces := tb_workspaces t @ [w]\<rparr>)"

definition save_workspace_row :: "workspace \<Rightarrow> unit account_call" where
  "save_workspace_row w =
     account_stmt ''upsert workspace'' (owned (wk_user w)) (\<lambda>c. ()) (upsert_workspace w)"

definition DefaultWorkspaceName :: string where "DefaultWorkspaceName = ''My Swarm''"

definition request_runtime :: "string \<Rightarrow> string \<Rightarrow> unit account_call" where
  "request_runtime i w c = (c\<lparr>ad_runtimes := ad_runtimes c @ [(i, w)]\<rparr>, Inr ())"

definition ensure_default_workspace :: "string \<Rightarrow> unit account_call" where
  "ensure_default_workspace i =
     (if blank i then account_raise ErrInvalidInput
      else account_bind (workspaces_by_user i)
        (\<lambda>ws. if 0 < length ws then account_return ()
          else account_bind time_now (\<lambda>now. account_bind account_uuid (\<lambda>wid.
            account_bind
              (save_workspace_row \<lparr>wk_id = wid, wk_user = i, wk_name = DefaultWorkspaceName, wk_created = now, wk_updated = now\<rparr>)
              (\<lambda>_. request_runtime i wid)))))"

section \<open>The service\<close>

record legal_documents =
  ld_terms :: string
  ld_privacy :: string
  ld_terms_version :: string
  ld_privacy_version :: string

definition new_legal_documents_config :: "legal_documents option \<Rightarrow> legal_documents" where
  "new_legal_documents_config i =
     (let config = \<lparr>ld_terms = ''https://crawbl.com/terms'', ld_privacy = ''https://crawbl.com/privacy'',
                    ld_terms_version = ''v1'', ld_privacy_version = ''v1''\<rparr>
      in case i of
           None \<Rightarrow> config
         | Some d \<Rightarrow>
             \<lparr>ld_terms = (if ld_terms d \<noteq> '''' then ld_terms d else ld_terms config),
              ld_privacy = (if ld_privacy d \<noteq> '''' then ld_privacy d else ld_privacy config),
              ld_terms_version = (if ld_terms_version d \<noteq> '''' then ld_terms_version d else ld_terms_version config),
              ld_privacy_version = (if ld_privacy_version d \<noteq> '''' then ld_privacy_version d else ld_privacy_version config)\<rparr>)"

definition get_legal_documents :: "legal_documents \<Rightarrow> gerror + legal_documents" where
  "get_legal_documents cfg =
     Inr \<lparr>ld_terms = ld_terms cfg, ld_privacy = ld_privacy cfg,
          ld_terms_version = ld_terms_version cfg, ld_privacy_version = ld_privacy_version cfg\<rparr>"

definition validate_principal :: "auth_principal option \<Rightarrow> gerror + auth_principal" where
  "validate_principal p = (case p of
     None \<Rightarrow> Inl ErrNilPrincipal
   | Some q \<Rightarrow>
       if ap_subject q = '''' then Inl ErrEmptySubject
       else if ap_email q = '''' then Inl ErrEmptyEmail
       else Inr q)"

definition with_principal :: "auth_principal option \<Rightarrow> (auth_principal \<Rightarrow> 'a account_call) \<Rightarrow> 'a account_call" where
  "with_principal p k = (case validate_principal p of Inl e \<Rightarrow> account_raise e | Inr q \<Rightarrow> k q)"

text \<open>\<open>strings.Index(email, "@")\<close> and the part before it, when that is not empty.\<close>

definition email_prefix :: "string \<Rightarrow> string" where
  "email_prefix email =
     (let pre = takeWhile (\<lambda>ch. ch \<noteq> CHR 0x40) email in
      if CHR 0x40 \<in> set email \<and> 0 < length pre then pre else email)"

text \<open>\<open>fmt.Sprintf("%04d", n)\<close>.\<close>

definition pad4 :: "nat \<Rightarrow> string" where
  "pad4 n = replicate (4 - length (show_nat n)) (CHR 0x30) @ show_nat n"

definition maxAttempts :: nat where "maxAttempts = 5"

fun nickname_attempts :: "nat \<Rightarrow> string \<Rightarrow> string account_call" where
  "nickname_attempts 0 prefix = account_raise ErrNicknameGenerationFailed"
| "nickname_attempts (Suc k) prefix =
     account_bind random_suffix (\<lambda>n.
       let nickname = prefix @ ''#'' @ pad4 n in
       account_bind (account_wrap ''check nickname exists'' (check_nickname_exists nickname)) (\<lambda>found.
         if \<not> found then account_return nickname else nickname_attempts k prefix))"

definition generate_unique_nickname :: "string \<Rightarrow> string account_call" where
  "generate_unique_nickname email =
     (if email = '''' then account_raise ErrInvalidInput
      else nickname_attempts maxAttempts (email_prefix email))"

definition save_user :: "user \<Rightarrow> unit account_call" where
  "save_user u = account_transaction ''save user'' (user_save u)"

definition assign_free_plan :: "string \<Rightarrow> int \<Rightarrow> unit account_call" where
  "assign_free_plan i now c =
     (fst (quota_create \<lparr>qr_user = i, qr_plan = ''free'', qr_effective = now, qr_created = now, qr_updated = now\<rparr> c), Inr ())"

definition new_user :: "string \<Rightarrow> auth_principal \<Rightarrow> string \<Rightarrow> int \<Rightarrow> bool \<Rightarrow> user" where
  "new_user i p nickname now agreed =
     \<lparr>us_id = i, us_subject = ap_subject p, us_email = ap_email p, us_nickname = nickname, us_name = ap_name p,
      us_surname = '''', us_avatar = None, us_country = None, us_birth = None, us_banned = False,
      us_terms = agreed, us_privacy = agreed, us_created = now, us_updated = now, us_deleted = None,
      us_prefs = no_preferences\<rparr>"

definition create_user :: "auth_principal \<Rightarrow> bool \<Rightarrow> user account_call" where
  "create_user p agreed =
     account_bind (account_wrap ''generate unique nickname'' (generate_unique_nickname (ap_email p))) (\<lambda>nickname.
     account_bind time_now (\<lambda>now.
     account_bind account_uuid (\<lambda>i.
     account_bind (account_transaction ''create user'' (create_user_row (new_user i p nickname now agreed) agreed)) (\<lambda>u.
     account_bind (assign_free_plan (us_id u) now) (\<lambda>_.
     account_bind (ensure_default_workspace (us_id u)) (\<lambda>_.
     account_return u))))))"

definition refresh_user :: "auth_principal \<Rightarrow> user \<Rightarrow> user account_call" where
  "refresh_user p u =
     (if us_banned u then account_raise ErrUserBanned
      else if us_deleted u \<noteq> None then account_raise ErrUserDeleted
      else account_bind time_now (\<lambda>now.
        let u' = u\<lparr>us_email := ap_email p, us_name := ap_name p, us_updated := now\<rparr> in
        account_bind (save_user u') (\<lambda>_. account_return u')))"

definition register_user :: "auth_principal \<Rightarrow> bool \<Rightarrow> user account_call" where
  "register_user p agreed =
     account_bind (account_wrap ''check deleted user state'' (is_user_deleted (ap_subject p) (ap_email p))) (\<lambda>deleted.
       if deleted then account_raise ErrUserDeleted else create_user p agreed)"

definition sign_in_or_up :: "auth_principal option \<Rightarrow> bool \<Rightarrow> user account_call" where
  "sign_in_or_up raw agreed = with_principal raw (\<lambda>p c.
     case get_user (ap_subject p) (ap_email p) c of
       (c1, Inr u) \<Rightarrow> refresh_user p u c1
     | (c1, Inl e) \<Rightarrow>
         if is_err_user_wrong_firebase_uid e then (c1, Inl ErrUserFirebaseUIDMismatch)
         else if is_err_user_not_found e then register_user p agreed c1
         else account_wrap ''get user from database'' (account_raise e) c1)"

text \<open>The options of a request are a pointer: \<^const>\<open>None\<close> is nil.\<close>

definition sign_in :: "auth_principal option option \<Rightarrow> user account_call" where
  "sign_in opts = (case opts of None \<Rightarrow> account_raise ErrInvalidInput | Some p \<Rightarrow> sign_in_or_up p False)"

definition sign_up :: "auth_principal option option \<Rightarrow> user account_call" where
  "sign_up opts = (case opts of None \<Rightarrow> account_raise ErrInvalidInput | Some p \<Rightarrow> sign_in_or_up p True)"

definition delete_account :: "auth_principal option option \<Rightarrow> unit account_call" where
  "delete_account opts = (case opts of
     None \<Rightarrow> account_raise ErrInvalidInput
   | Some raw \<Rightarrow> with_principal raw (\<lambda>p.
       account_bind (get_by_subject (ap_subject p)) (\<lambda>u.
       account_bind time_now (\<lambda>now.
       account_transaction ''auth delete'' (user_save (u\<lparr>us_deleted := Some now, us_updated := now\<rparr>))))))"

definition account_by_subject :: "string option \<Rightarrow> user account_call" where
  "account_by_subject opts = (case opts of
     None \<Rightarrow> account_raise ErrInvalidInput
   | Some s \<Rightarrow> get_by_subject s)"

record profile_update =
  up_principal :: "auth_principal option"
  up_nickname :: "string option"
  up_name :: "string option"
  up_surname :: "string option"
  up_country :: "string option"
  up_birth :: "int option"
  up_prefs :: "preferences option"

text \<open>The live user of a principal, for the requests that refuse deleted accounts.\<close>

definition live_user :: "auth_principal \<Rightarrow> user account_call" where
  "live_user p = account_bind (get_by_subject (ap_subject p)) (\<lambda>u.
     if us_deleted u \<noteq> None then account_raise ErrUserDeleted else account_return u)"

definition set_opt :: "'a option \<Rightarrow> ('a \<Rightarrow> user \<Rightarrow> user) \<Rightarrow> user \<Rightarrow> user" where
  "set_opt v f u = (case v of None \<Rightarrow> u | Some x \<Rightarrow> f x u)"

definition apply_profile :: "profile_update \<Rightarrow> user \<Rightarrow> user" where
  "apply_profile q u =
     (let u1 = set_opt (up_nickname q) (\<lambda>s u. u\<lparr>us_nickname := trim_space s\<rparr>) u;
          u2 = set_opt (up_name q) (\<lambda>s u. u\<lparr>us_name := trim_space s\<rparr>) u1;
          u3 = set_opt (up_surname q) (\<lambda>s u. u\<lparr>us_surname := trim_space s\<rparr>) u2;
          u4 = set_opt (up_country q)
                 (\<lambda>s u. if trim_space s = '''' then u\<lparr>us_country := None\<rparr> else u\<lparr>us_country := Some (trim_space s)\<rparr>) u3;
          u5 = set_opt (up_birth q) (\<lambda>d u. u\<lparr>us_birth := Some d\<rparr>) u4
      in set_opt (up_prefs q)
           (\<lambda>p u. u\<lparr>us_prefs := (us_prefs u)\<lparr>pf_theme := pf_theme p, pf_language := pf_language p, pf_currency := pf_currency p\<rparr>\<rparr>) u5)"

text \<open>What both profile requests end with: the time of the update, and the save in a transaction.\<close>

definition store_changed :: "string \<Rightarrow> user \<Rightarrow> user account_call" where
  "store_changed op u = account_bind time_now (\<lambda>now.
     let u' = u\<lparr>us_updated := now\<rparr> in
     account_transaction op (account_bind (user_save u') (\<lambda>_. account_return u')))"

definition update_profile :: "profile_update option \<Rightarrow> user account_call" where
  "update_profile opts = (case opts of
     None \<Rightarrow> account_raise ErrInvalidInput
   | Some q \<Rightarrow> with_principal (up_principal q) (\<lambda>p.
       account_bind (live_user p) (\<lambda>u. store_changed ''users update profile'' (apply_profile q u))))"

record legal_acceptance =
  la_principal :: "auth_principal option"
  la_terms :: "string option"
  la_privacy :: "string option"

definition given_version :: "string option \<Rightarrow> string option" where
  "given_version v = (case v of None \<Rightarrow> None | Some s \<Rightarrow> if trim_space s \<noteq> '''' then Some (trim_space s) else None)"

definition apply_acceptance :: "legal_documents \<Rightarrow> legal_acceptance \<Rightarrow> user \<Rightarrow> gerror + user" where
  "apply_acceptance cfg q u =
     (case given_version (la_terms q) of
        Some v \<Rightarrow> if v \<noteq> ld_terms_version cfg then Inl ErrLegalVersionMismatch else
          (case given_version (la_privacy q) of
             Some w \<Rightarrow> if w \<noteq> ld_privacy_version cfg then Inl ErrLegalVersionMismatch
                       else Inr (u\<lparr>us_terms := True, us_privacy := True\<rparr>)
           | None \<Rightarrow> Inr (u\<lparr>us_terms := True\<rparr>))
      | None \<Rightarrow>
          (case given_version (la_privacy q) of
             Some w \<Rightarrow> if w \<noteq> ld_privacy_version cfg then Inl ErrLegalVersionMismatch
                       else Inr (u\<lparr>us_privacy := True\<rparr>)
           | None \<Rightarrow> Inr u))"

definition accept_legal :: "legal_documents \<Rightarrow> legal_acceptance option \<Rightarrow> user account_call" where
  "accept_legal cfg opts = (case opts of
     None \<Rightarrow> account_raise ErrInvalidInput
   | Some q \<Rightarrow> with_principal (la_principal q) (\<lambda>p.
       account_bind (live_user p) (\<lambda>u.
         case apply_acceptance cfg q u of
           Inl e \<Rightarrow> account_raise e
         | Inr u' \<Rightarrow> store_changed ''users accept legal'' u')))"

definition save_push_token :: "(auth_principal option \<times> string) option \<Rightarrow> unit account_call" where
  "save_push_token opts = (case opts of
     None \<Rightarrow> account_raise ErrInvalidInput
   | Some (raw, token) \<Rightarrow> with_principal raw (\<lambda>p.
       account_bind (live_user p) (\<lambda>u.
         account_transaction ''users save push token'' (repo_save_push_token (us_id u) (trim_space token)))))"

definition clear_push_token :: "string option \<Rightarrow> unit account_call" where
  "clear_push_token opts = (case opts of
     None \<Rightarrow> account_raise ErrInvalidInput
   | Some i \<Rightarrow> clear_push_tokens i)"

section \<open>Requests\<close>

datatype account_request =
    SignIn "auth_principal option option"
  | SignUp "auth_principal option option"
  | DeleteAccount "auth_principal option option"
  | UpdateProfile "profile_update option"
  | AcceptLegal "legal_acceptance option"
  | SavePushToken "(auth_principal option \<times> string) option"
  | ClearPushToken "string option"

definition run_request :: "legal_documents \<Rightarrow> account_request \<Rightarrow> accounts \<Rightarrow> accounts" where
  "run_request cfg r c = (case r of
     SignIn p \<Rightarrow> fst (sign_in p c)
   | SignUp p \<Rightarrow> fst (sign_up p c)
   | DeleteAccount p \<Rightarrow> fst (delete_account p c)
   | UpdateProfile q \<Rightarrow> fst (update_profile q c)
   | AcceptLegal q \<Rightarrow> fst (accept_legal cfg q c)
   | SavePushToken q \<Rightarrow> fst (save_push_token q c)
   | ClearPushToken i \<Rightarrow> fst (clear_push_token i c))"

definition run_requests :: "legal_documents \<Rightarrow> account_request list \<Rightarrow> accounts \<Rightarrow> accounts" where
  "run_requests cfg rs c = fold (run_request cfg) rs c"

end
