(* ===== verification/Accounts_Steps.thy ===== *)
theory Accounts_Steps
  imports Accounts
begin

text \<open>
  The lemmas on the account requests: calls that only read, the cases of a transaction, of a save, of
  sign-in and of registration; the locales of relations that every statement respects, interpreted
  on well-formedness and on the ownership of workspaces; and the abstract machine of the users
  table, whose steps the requests take.
\<close>

section \<open>Reads\<close>

text \<open>A call that leaves the tables alone.\<close>

definition quiet :: "'a account_call \<Rightarrow> bool" where
  "quiet m \<longleftrightarrow> (\<forall>c. ad_tables (fst (m c)) = ad_tables c)"

lemma quietD: "quiet m \<Longrightarrow> m c = (c', r) \<Longrightarrow> ad_tables c' = ad_tables c"
  unfolding quiet_def by (metis fst_conv)

lemma quiet_read [simp, intro]: "quiet (account_read msg q)"
  by (simp add: quiet_def account_read_def account_stmt_def Let_def)

lemma quiet_return [simp, intro]: "quiet (account_return a)" "quiet (account_raise e)"
  by (simp_all add: quiet_def account_return_def account_raise_def)

lemma quiet_env [simp, intro]: "quiet time_now" "quiet account_uuid" "quiet random_suffix" "quiet (request_runtime i w)"
  by (simp_all add: quiet_def time_now_def account_uuid_def random_suffix_def request_runtime_def Let_def split: option.split)

lemma quiet_bind [intro]: "quiet m \<Longrightarrow> (\<And>a. quiet (k a)) \<Longrightarrow> quiet (account_bind m k)"
  by (simp add: quiet_def account_bind_def split: prod.split sum.split) (metis fst_conv)

lemma quiet_wrap [intro]: "quiet m \<Longrightarrow> quiet (account_wrap msg m)"
  by (simp add: quiet_def account_wrap_def split: prod.split sum.split) (metis fst_conv)

lemma quiet_load_preferences [simp, intro]: "quiet (load_preferences u)"
  using quiet_read [of "''select user preferences''" "\<lambda>c. tb_prefs (ad_tables c) (us_id u)"]
  by (simp add: quiet_def load_preferences_def split: prod.split sum.split option.split) (metis fst_conv)

lemma quiet_loaded_user [simp, intro]: "quiet (loaded_user row)"
  by (cases row) (simp_all add: loaded_user_def)

lemma quiet_get [simp, intro]: "quiet (get_by_subject s)" "quiet (get_user_by_subject s)" "quiet (get_user_by_email e s)"
  by (auto simp: get_by_subject_def get_user_by_subject_def get_user_by_email_def intro!: quiet_bind split: option.split)

lemma quiet_get_user [simp, intro]: "quiet (get_user s e)"
proof -
  have q: "ad_tables (fst (get_user_by_subject s c)) = ad_tables c" "ad_tables (fst (get_user_by_email e s c)) = ad_tables c"
    "ad_tables (fst (account_raise x c)) = ad_tables c" for c x
    using quiet_get quiet_return unfolding quiet_def by blast+
  show ?thesis
    unfolding quiet_def get_user_def using q(1) q(3) q(2)
    by (auto simp: Let_def split: prod.split sum.split) (metis fst_conv)+
qed

lemma quiet_checks [simp, intro]: "quiet (is_user_deleted s e)" "quiet (check_nickname_exists n)" "quiet (workspaces_by_user i)"
  by (auto simp: is_user_deleted_def check_nickname_exists_def workspaces_by_user_def)

lemma quiet_nickname_attempts [simp, intro]: "quiet (nickname_attempts k p)"
  by (induction k) (auto simp: Let_def intro!: quiet_bind quiet_wrap)

lemma quiet_nickname [simp, intro]: "quiet (generate_unique_nickname e)"
  by (simp add: generate_unique_nickname_def)

lemma quiet_live_user [simp, intro]: "quiet (live_user p)"
  by (auto simp: live_user_def intro!: quiet_bind)

text \<open>The forms of a result.\<close>

lemma bind_Inr:
  assumes "account_bind m k c = (c', Inr b)"
  obtains c1 a where "m c = (c1, Inr a)" "k a c1 = (c', Inr b)"
  using assms by (auto simp: account_bind_def split: prod.splits sum.splits)

lemma read_Inr: "account_read msg q c = (c', Inr a) \<Longrightarrow> a = q c \<and> ad_tables c' = ad_tables c"
  by (auto simp: account_read_def account_stmt_def Let_def split: if_splits)

lemma read_Inl: "account_read msg q c = (c', Inl e) \<Longrightarrow> e = srv (msg @ '': db error'')"
  by (auto simp: account_read_def account_stmt_def Let_def split: if_splits)

lemma select_user_Some: "select_user p c = Some r \<Longrightarrow> r \<in> set (tb_users (ad_tables c)) \<and> p r"
proof -
  assume a: "select_user p c = Some r"
  define us where "us = any_order (ad_order c (ad_calls c)) (filter p (tb_users (ad_tables c)))"
  have "r \<in> set us" using a by (auto simp: select_user_def us_def [symmetric] split: list.splits)
  then show ?thesis unfolding us_def by simp
qed

lemma select_user_None: "select_user p c = None \<longleftrightarrow> (\<forall>r \<in> set (tb_users (ad_tables c)). \<not> p r)"
proof -
  define us where "us = any_order (ad_order c (ad_calls c)) (filter p (tb_users (ad_tables c)))"
  have "select_user p c = None \<longleftrightarrow> set us = {}"
    by (auto simp: select_user_def us_def [symmetric] split: list.splits)
  then show ?thesis unfolding us_def by auto
qed

lemma row_of_domain [simp]: "new_user_row (to_domain r) = r"
  by (simp add: new_user_row_def to_domain_def user_record.defs)

lemma row_of_prefs [simp]: "new_user_row (apply_to_user p u) = new_user_row u"
  by (simp add: new_user_row_def apply_to_user_def user_record.defs)

lemma load_preferences_row: "load_preferences u c = (c', x) \<Longrightarrow> \<exists>u'. x = Inr u' \<and> new_user_row u' = new_user_row u"
  by (auto simp: load_preferences_def split: prod.splits sum.splits option.splits)

lemma loaded_user_cases:
  assumes "loaded_user row c = (c', x)"
  shows "(row = None \<and> x = Inl ErrUserNotFound) \<or> (\<exists>r u. row = Some r \<and> x = Inr u \<and> new_user_row u = r)"
  using assms load_preferences_row by (fastforce simp: loaded_user_def account_raise_def split: option.splits)

lemma row_fields:
  "us_id u = us_id (new_user_row u)" "us_subject u = us_subject (new_user_row u)" "us_email u = us_email (new_user_row u)"
  "us_banned u = us_banned (new_user_row u)" "us_deleted u = us_deleted (new_user_row u)"
  "us_created u = us_created (new_user_row u)" "us_terms u = us_terms (new_user_row u)" "us_privacy u = us_privacy (new_user_row u)"
  by (simp_all add: new_user_row_def user_record.defs)

lemma bind_quiet:
  assumes "account_bind m k c = (c', res)" and "quiet m"
  obtains (error) e where "m c = (c', Inl e)" "res = Inl e" "ad_tables c' = ad_tables c"
  | (ok) a c1 where "m c = (c1, Inr a)" "ad_tables c1 = ad_tables c" "k a c1 = (c', res)"
proof -
  obtain c1 r where m: "m c = (c1, r)" by fastforce
  then have "ad_tables c1 = ad_tables c" using assms(2) quietD by blast
  then show thesis
    using assms(1) m error ok by (cases r) (auto simp: account_bind_def)
qed

lemma account_bind_then: "m c = (c1, Inr a) \<Longrightarrow> account_bind m k c = k a c1"
  and account_bind_error: "m c = (c1, Inl e) \<Longrightarrow> account_bind m k c = (c1, Inl e)"
  by (simp_all add: account_bind_def)

lemma transaction_cases:
  assumes "account_transaction op fn c = (c', res)"
  obtains (error) e where "res = Inl e" "ad_tables c' = ad_tables c"
  | (ok) a c1 c2 where "res = Inr a" "ad_tables c1 = ad_tables c" "fn c1 = (c2, Inr a)" "ad_tables c' = ad_tables c2"
proof -
  define bm cm where msgs: "bm = ''begin '' @ op @ '' transaction''" "cm = ''commit '' @ op @ '' transaction''"
  obtain c1 r1 where b: "account_read bm (\<lambda>c. ()) c = (c1, r1)" by fastforce
  obtain c2 r2 where f: "fn c1 = (c2, r2)" by fastforce
  obtain c3 r3 where m: "account_read cm (\<lambda>c. ()) c2 = (c3, r3)" by fastforce
  have t: "ad_tables c1 = ad_tables c" "ad_tables c3 = ad_tables c2" using quietD [OF quiet_read] b m by blast+
  note a = assms [unfolded account_transaction_def, folded msgs]
  show thesis
  proof (cases "\<exists>x. res = Inr x")
    case True
    then obtain x where x: "res = Inr x" ..
    then have "r2 = Inr x \<and> c' = c3" using a by (cases r1; cases r2; cases r3) (auto simp: b f m)
    then show thesis using ok [OF x t(1)] f t(2) by simp
  next
    case False
    then obtain e where e: "res = Inl e" by (cases res) auto
    have "ad_tables c' = ad_tables c" using a e t by (cases r1; cases r2; cases r3) (auto simp: b f m)
    then show thesis using error [OF e] by simp
  qed
qed

section \<open>A save\<close>

definition stored :: "user \<Rightarrow> account_tables \<Rightarrow> account_tables" where
  "stored u t = (upsert_user (new_user_row u) t)\<lparr>tb_prefs := (tb_prefs t)(us_id u \<mapsto> new_user_preferences_row u)\<rparr>"

lemma stmt_Inr: "account_stmt msg ok q f c = (c', Inr a) \<Longrightarrow> ok (ad_tables c) \<and> a = q c \<and> ad_tables c' = f (ad_tables c)"
  by (auto simp: account_stmt_def Let_def split: if_splits)

lemma stmt_Inl: "account_stmt msg ok q f c = (c', Inl e) \<Longrightarrow> ad_tables c' = ad_tables c"
  by (auto simp: account_stmt_def Let_def split: if_splits)

lemma user_save_Inr: "user_save u c = (c', Inr a) \<Longrightarrow> ad_tables c' = stored u (ad_tables c)"
  unfolding user_save_def save_user_row_def save_user_preferences_row_def
  by (elim bind_Inr) (auto dest!: stmt_Inr simp: stored_def upsert_user_def new_user_preferences_row_def)

lemma transaction_save:
  assumes "account_transaction op (user_save u) c = (c', res)"
  obtains (error) e where "res = Inl e" "ad_tables c' = ad_tables c" | (ok) "res = Inr ()" "ad_tables c' = stored u (ad_tables c)"
  using assms
proof (cases rule: transaction_cases)
  case (ok a c1 c2)
  then show thesis using that(2) user_save_Inr [OF ok(3)] by simp
qed (auto intro: that)

lemma store_changed_cases:
  assumes "store_changed op u c = (c', res)"
  obtains (error) e where "res = Inl e" "ad_tables c' = ad_tables c"
  | (ok) now where "res = Inr (u\<lparr>us_updated := now\<rparr>)" "ad_tables c' = stored (u\<lparr>us_updated := now\<rparr>) (ad_tables c)"
proof (rule bind_quiet [OF assms [unfolded store_changed_def Let_def] quiet_env(1)])
  fix now c1
  let ?u = "u\<lparr>us_updated := now\<rparr>"
  assume t: "ad_tables c1 = ad_tables c"
    and tx: "account_transaction op (account_bind (user_save ?u) (\<lambda>_. account_return ?u)) c1 = (c', res)"
  from tx show thesis
  proof (cases rule: transaction_cases)
    case (ok a c2 c3)
    from ok(3) have "user_save ?u c2 = (c3, Inr ()) \<and> a = ?u"
      by (elim bind_Inr) (auto simp: account_return_def)
    then show thesis using that(2) [of now] user_save_Inr [of ?u c2 c3] ok t by simp
  qed (use that(1) t in simp)
qed (use that(1) in blast)

section \<open>What the reads return\<close>

lemma get_user_by_subject_Inr:
  assumes "get_user_by_subject s c = (c', Inr u)"
  shows "new_user_row u \<in> set (tb_users (ad_tables c)) \<and> us_subject u = s"
proof -
  from assms obtain c1 row where *: "account_read ''select user by subject'' (select_user (\<lambda>r. us_subject r = s)) c = (c1, Inr row)"
    "loaded_user row c1 = (c', Inr u)"
    unfolding get_user_by_subject_def by (auto elim: bind_Inr)
  from loaded_user_cases [OF *(2)] obtain r where "row = Some r" "new_user_row u = r" by auto
  then show ?thesis using read_Inr [OF *(1)] select_user_Some [of "\<lambda>r. us_subject r = s" c r] row_fields(2) [of u] by simp
qed

lemma get_by_subject_eq: "get_by_subject s = (if blank s then account_raise ErrInvalidInput else get_user_by_subject s)"
  by (simp add: get_by_subject_def get_user_by_subject_def)

lemma get_by_subject_Inr:
  "get_by_subject s c = (c', Inr u) \<Longrightarrow> new_user_row u \<in> set (tb_users (ad_tables c)) \<and> us_subject u = s"
  using get_user_by_subject_Inr [of s c c' u] by (simp add: get_by_subject_eq account_raise_def split: if_splits)

lemma live_user_Inr:
  assumes "live_user p c = (c', Inr u)"
  shows "new_user_row u \<in> set (tb_users (ad_tables c)) \<and> us_subject u = ap_subject p \<and> us_deleted u = None"
  using assms unfolding live_user_def
  by (elim bind_Inr) (auto dest!: get_by_subject_Inr simp: account_raise_def account_return_def split: if_splits)

lemma get_user_by_subject_Inl:
  assumes "get_user_by_subject s c = (c', Inl e)" "is_err_user_not_found e"
  shows "\<not> subject_taken s (ad_tables c)"
proof -
  obtain c1 x where *: "account_read ''select user by subject'' (select_user (\<lambda>r. us_subject r = s)) c = (c1, x)" by fastforce
  show ?thesis
  proof (cases x)
    case (Inl y)
    then have "e = srv (''select user by subject'' @ '': db error'')"
      using assms(1) * read_Inl by (fastforce simp: get_user_by_subject_def account_bind_def)
    then show ?thesis using assms(2) by (simp add: is_err_user_not_found_def ErrCodeUserNotFound_def srv_def)
  next
    case (Inr row)
    then have "loaded_user row c1 = (c', Inl e)" using assms(1) * by (simp add: get_user_by_subject_def account_bind_def)
    then have "row = None" using loaded_user_cases by fastforce
    then have "select_user (\<lambda>r. us_subject r = s) c = None" using read_Inr * Inr by metis
    then show ?thesis by (auto simp: select_user_None subject_taken_def)
  qed
qed

lemma server_not_found: "\<not> is_err_user_not_found (srv t)" "\<not> is_err_user_not_found ErrUserWrongFirebaseUID"
  "\<not> is_err_user_not_found ErrInvalidInput"
  by (simp_all add: is_err_user_not_found_def ErrCodeUserNotFound_def srv_def ErrUserWrongFirebaseUID_def ErrInvalidInput_def)

lemma server_not_code: "\<not> is_code (Some (srv t)) cd"
  by (simp add: is_code_def srv_def)

lemma get_user_by_email_cases:
  assumes "get_user_by_email e s c = (c', x)"
  obtains (fails) t where "x = Inl (srv t)"
  | (none) "x = Inl ErrUserNotFound" "\<forall>r \<in> set (tb_users (ad_tables c)). us_email r \<noteq> e"
  | (found) u where "x = Inr u" "new_user_row u \<in> set (tb_users (ad_tables c))" "us_email u = e" "s \<noteq> '''' \<Longrightarrow> us_subject u = s"
proof -
  obtain c1 y where r: "account_read ''select user by email'' (select_user (\<lambda>r. us_email r = e)) c = (c1, y)" by fastforce
  show thesis
  proof (cases y)
    case (Inl z)
    then show thesis using fails assms r read_Inl [of "''select user by email''"] unfolding get_user_by_email_def account_bind_def
      by fastforce
  next
    case (Inr row)
    then have row: "row = select_user (\<lambda>r. us_email r = e) c" using read_Inr r by fastforce
    show thesis
    proof (cases row)
      case None
      then have "x = Inl ErrUserNotFound" using assms r Inr by (simp add: get_user_by_email_def account_bind_def account_raise_def)
      moreover have "\<forall>r \<in> set (tb_users (ad_tables c)). us_email r \<noteq> e" using select_user_None [of "\<lambda>r. us_email r = e" c] None row by metis
      ultimately show thesis by (rule none)
    next
      case (Some q)
      then have q: "q \<in> set (tb_users (ad_tables c))" "us_email q = e" using select_user_Some [of "\<lambda>r. us_email r = e" c q] row by simp_all
      show thesis
      proof (cases "s \<noteq> '''' \<and> us_subject q \<noteq> s")
        case True
        then have "x = Inl (srv ''user found by email but Firebase UID does not match'')"
          using assms r Inr Some by (simp add: get_user_by_email_def account_bind_def account_raise_def ErrUserWrongFirebaseUID_def)
        then show thesis by (rule fails)
      next
        case False
        then have "load_preferences (to_domain q) c1 = (c', x)"
          using assms r Inr Some by (simp add: get_user_by_email_def account_bind_def if_not_P)
        then obtain u where u: "x = Inr u" "new_user_row u = q" using load_preferences_row [of "to_domain q" c1 c' x] by auto
        show thesis using found [OF u(1)] q u(2) row_fields(2,3) [of u] False by auto
      qed
    qed
  qed
qed

lemma get_user_Inr:
  assumes "get_user s e c = (c', Inr u)" "s \<noteq> ''''" "e \<noteq> ''''"
  shows "new_user_row u \<in> set (tb_users (ad_tables c)) \<and> us_subject u = s
    \<and> (us_email u = e \<or> (\<forall>r \<in> set (tb_users (ad_tables c)). us_email r \<noteq> e))"
proof -
  obtain c1 x where g: "get_user_by_email e s c = (c1, x)" by fastforce
  have t: "ad_tables c1 = ad_tables c" using quietD quiet_get(3) g by blast
  show ?thesis
    using g
  proof (cases rule: get_user_by_email_cases)
    case none
    then have "get_user_by_subject s c1 = (c', Inr u)"
      using assms g by (auto simp: get_user_def Let_def is_code_def ErrUserNotFound_def biz_def split: if_splits)
    then show ?thesis using get_user_by_subject_Inr t none by fastforce
  next
    case (found v)
    then show ?thesis using assms g by (auto simp: get_user_def Let_def split: if_splits)
  qed (use assms g server_not_code in \<open>auto simp: get_user_def Let_def split: if_splits\<close>)
qed

lemma get_user_not_found:
  assumes "get_user s e c = (c', Inl x)" "is_err_user_not_found x" "s \<noteq> ''''" "e \<noteq> ''''"
  shows "\<not> subject_taken s (ad_tables c) \<and> (\<forall>r \<in> set (tb_users (ad_tables c)). us_email r \<noteq> e)"
proof -
  obtain c1 y where g: "get_user_by_email e s c = (c1, y)" by fastforce
  have t: "ad_tables c1 = ad_tables c" using quietD quiet_get(3) g by blast
  show ?thesis
    using g
  proof (cases rule: get_user_by_email_cases)
    case none
    then have "get_user_by_subject s c1 = (c', Inl x)"
      using assms g server_not_found
      by (auto simp: get_user_def Let_def is_code_def ErrUserNotFound_def biz_def split: if_splits)
    then show ?thesis using get_user_by_subject_Inl [OF _ assms(2)] t none by fastforce
  qed (use assms g server_not_code server_not_found in \<open>auto simp: get_user_def Let_def split: if_splits\<close>)
qed

lemma validate_Inr: "validate_principal raw = Inr p \<longleftrightarrow> raw = Some p \<and> ap_subject p \<noteq> '''' \<and> ap_email p \<noteq> ''''"
  by (auto simp: validate_principal_def split: option.splits)

lemma sign_in_cases:
  assumes "sign_in_or_up raw agreed c = (c', res)"
  obtains (refuse) e where "res = Inl e" "ad_tables c' = ad_tables c"
  | (refresh) p c1 u where "validate_principal raw = Inr p" "get_user (ap_subject p) (ap_email p) c = (c1, Inr u)"
      "ad_tables c1 = ad_tables c" "refresh_user p u c1 = (c', res)"
  | (register) p c1 e where "validate_principal raw = Inr p" "get_user (ap_subject p) (ap_email p) c = (c1, Inl e)"
      "is_err_user_not_found e" "ad_tables c1 = ad_tables c" "register_user p agreed c1 = (c', res)"
proof (cases "validate_principal raw")
  case (Inl e)
  then show thesis using refuse assms by (auto simp: sign_in_or_up_def with_principal_def account_raise_def)
next
  case (Inr p)
  obtain c1 x where g: "get_user (ap_subject p) (ap_email p) c = (c1, x)" by fastforce
  have t: "ad_tables c1 = ad_tables c" using quietD quiet_get_user g by blast
  note a = assms [unfolded sign_in_or_up_def with_principal_def Inr sum.case g prod.case]
  show thesis
  proof (cases x)
    case (Inl e)
    note a = a [unfolded Inl sum.case]
    consider "is_err_user_wrong_firebase_uid e" | "\<not> is_err_user_wrong_firebase_uid e" "is_err_user_not_found e"
      | "\<not> is_err_user_wrong_firebase_uid e" "\<not> is_err_user_not_found e" by blast
    then show thesis
    proof cases
      case 1
      then show thesis using a refuse t by auto
    next
      case 2
      then show thesis using a register [OF Inr g [unfolded Inl]] t by simp
    next
      case 3
      then show thesis using a refuse t by (auto simp: account_wrap_def account_raise_def)
    qed
  next
    case (Inr u)
    then show thesis using a refresh [OF \<open>validate_principal raw = Inr p\<close> g [unfolded Inr]] t by simp
  qed
qed

section \<open>Relations every statement respects\<close>

text \<open>
  The interface of the tables: a reflexive and transitive relation that each writing statement
  respects, under the constraints the schema checks. The requests respect it too, whatever fails.
\<close>

definition relates :: "(account_tables \<Rightarrow> account_tables \<Rightarrow> bool) \<Rightarrow> 'a account_call \<Rightarrow> bool" where
  "relates R m \<longleftrightarrow> (\<forall>c. R (ad_tables c) (ad_tables (fst (m c))))"

locale saving_relation =
  fixes R :: "account_tables \<Rightarrow> account_tables \<Rightarrow> bool"
  assumes R_refl: "R t t"
    and R_trans: "R t t' \<Longrightarrow> R t' t'' \<Longrightarrow> R t t''"
    and R_upsert: "owned (us_id r) t \<or> \<not> subject_taken (us_subject r) t \<Longrightarrow> R t (upsert_user r t)"
    and R_prefs: "owned (pv_user p) t \<Longrightarrow> R t (t\<lparr>tb_prefs := (tb_prefs t)(pv_user p \<mapsto> p)\<rparr>)"
    and R_token: "owned (pt_user k) t \<Longrightarrow> R t (t\<lparr>tb_tokens := (tb_tokens t)(pt_user k \<mapsto> k)\<rparr>)"
    and R_clear: "R t (t\<lparr>tb_tokens := (tb_tokens t)(i := None)\<rparr>)"
begin

lemma quiet_ok [intro]: "quiet m \<Longrightarrow> relates R m"
  by (simp add: quiet_def relates_def R_refl)

lemma quiet_parts_ok [simp, intro]:
  "relates R (account_return a)" "relates R (account_raise e)" "relates R time_now" "relates R account_uuid"
  "relates R (request_runtime i w)"
  by (auto intro!: quiet_ok)

lemma stmt_ok: "(\<And>t. ok t \<Longrightarrow> R t (f t)) \<Longrightarrow> relates R (account_stmt msg ok q f)"
  by (simp add: relates_def account_stmt_def Let_def R_refl)

lemma bind_ok [intro]: "relates R m \<Longrightarrow> (\<And>a. relates R (k a)) \<Longrightarrow> relates R (account_bind m k)"
  unfolding relates_def
proof
  fix c
  assume m: "\<forall>c. R (ad_tables c) (ad_tables (fst (m c)))" and k: "\<And>a. \<forall>c. R (ad_tables c) (ad_tables (fst (k a c)))"
  obtain c1 r where e: "m c = (c1, r)" by fastforce
  have "R (ad_tables c) (ad_tables c1)" using m [rule_format, of c] e by simp
  then show "R (ad_tables c) (ad_tables (fst (account_bind m k c)))"
    using R_trans k [rule_format] e by (cases r) (auto simp: account_bind_def)
qed

lemma wrap_ok [intro]: "relates R m \<Longrightarrow> relates R (account_wrap msg m)"
  by (simp add: relates_def account_wrap_def split: prod.split sum.split) (metis fst_conv)

lemma transaction_ok [intro]: "relates R fn \<Longrightarrow> relates R (account_transaction op fn)"
  unfolding relates_def
proof
  fix c
  assume f: "\<forall>c. R (ad_tables c) (ad_tables (fst (fn c)))"
  obtain c' r where tx: "account_transaction op fn c = (c', r)" by fastforce
  then show "R (ad_tables c) (ad_tables (fst (account_transaction op fn c)))"
  proof (cases rule: transaction_cases)
    case (ok a c1 c2)
    then show ?thesis using f [rule_format, of c1] tx by simp
  qed (simp add: tx R_refl)
qed

lemma principal_ok [intro]: "(\<And>p. relates R (k p)) \<Longrightarrow> relates R (with_principal raw k)"
  by (auto simp: with_principal_def split: sum.split)

lemma save_ok: "relates R (user_save u)"
  by (auto simp: user_save_def save_user_row_def save_user_preferences_row_def intro!: bind_ok stmt_ok R_upsert R_prefs)

lemma save_token_ok: "relates R (repo_save_push_token i token)"
  by (auto simp: repo_save_push_token_def save_user_push_token_row_def intro!: bind_ok stmt_ok R_token)

lemma clear_ok: "relates R (clear_push_tokens i)"
  by (auto simp: clear_push_tokens_def intro!: stmt_ok R_clear)

lemma store_ok: "relates R (store_changed op u)"
  by (auto simp: store_changed_def Let_def intro!: bind_ok transaction_ok save_ok)

lemma refresh_ok: "relates R (refresh_user p u)"
  by (auto simp: refresh_user_def save_user_def Let_def intro!: bind_ok transaction_ok save_ok)

lemma delete_ok: "relates R (delete_account opts)"
  by (auto simp: delete_account_def intro!: bind_ok principal_ok transaction_ok save_ok split: option.split)

lemma update_ok: "relates R (update_profile opts)"
  by (auto simp: update_profile_def intro!: bind_ok principal_ok store_ok split: option.split)

lemma accept_ok: "relates R (accept_legal cfg opts)"
  by (auto simp: accept_legal_def intro!: bind_ok principal_ok store_ok split: option.split sum.split)

lemma token_ok: "relates R (save_push_token opts)" "relates R (clear_push_token i)"
  by (auto simp: save_push_token_def clear_push_token_def
      intro!: bind_ok principal_ok transaction_ok save_token_ok clear_ok split: option.split)

lemmas saving_ok = delete_ok update_ok accept_ok token_ok

end

text \<open>Registration also inserts users, quotas and workspaces.\<close>

locale table_relation = saving_relation +
  assumes R_insert: "subject_taken (us_subject r) t \<or> \<not> owned (us_id r) t \<Longrightarrow> R t (insert_or_touch r t)"
    and R_insert_prefs: "owned (pv_user p) t \<Longrightarrow> R t (insert_preferences p t)"
    and R_quota: "owned (qr_user q) t \<Longrightarrow> (qr_user q, qr_plan q) \<notin> (\<lambda>x. (qr_user x, qr_plan x)) ` set (tb_quotas t)
        \<Longrightarrow> R t (t\<lparr>tb_quotas := tb_quotas t @ [q]\<rparr>)"
    and R_workspace: "owned (wk_user w) t \<Longrightarrow> R t (upsert_workspace w t)"
begin

lemma create_row_ok: "relates R (create_user_row u agreed)"
  by (auto simp: create_user_row_def Let_def intro!: bind_ok stmt_ok R_insert R_insert_prefs)

lemma quota_ok: "relates R (assign_free_plan i now)"
proof -
  have "relates R (quota_create q)" for q
    by (auto simp: quota_create_def intro!: stmt_ok R_quota)
  then show ?thesis by (simp add: relates_def assign_free_plan_def)
qed

lemma workspace_ok: "relates R (ensure_default_workspace i)"
  by (auto simp: ensure_default_workspace_def save_workspace_row_def intro!: bind_ok stmt_ok R_workspace)

lemma create_ok: "relates R (create_user p agreed)"
  by (auto simp: create_user_def intro!: bind_ok wrap_ok transaction_ok create_row_ok quota_ok workspace_ok)

lemma sign_in_ok: "relates R (sign_in_or_up raw agreed)"
  unfolding relates_def
proof
  fix c
  have g: "relates R (register_user p agreed)" for p
    by (auto simp: register_user_def intro!: bind_ok wrap_ok create_ok)
  obtain c' res where s: "sign_in_or_up raw agreed c = (c', res)" by fastforce
  then have "R (ad_tables c) (ad_tables c')"
  proof (cases rule: sign_in_cases)
    case (refresh p c1 u)
    then show ?thesis using refresh_ok [of p u, unfolded relates_def, rule_format, of c1] by simp
  next
    case (register p c1 e)
    then show ?thesis using g [of p, unfolded relates_def, rule_format, of c1] by simp
  qed (simp_all add: R_refl)
  then show "R (ad_tables c) (ad_tables (fst (sign_in_or_up raw agreed c)))" by (simp add: s)
qed

lemma request_ok: "R (ad_tables c) (ad_tables (run_request cfg r c))"
proof -
  have i: "relates R (sign_in p)" "relates R (sign_up p)" for p
    by (auto simp: sign_in_def sign_up_def intro!: sign_in_ok split: option.split)
  show ?thesis
    using i saving_ok unfolding relates_def by (cases r) (auto simp: run_request_def)
qed

lemma requests_ok: "R (ad_tables c) (ad_tables (run_requests cfg rs c))"
  unfolding run_requests_def
  by (induction rs arbitrary: c) (auto simp: R_refl intro: R_trans request_ok)

end

section \<open>Well-formed tables\<close>

text \<open>
  The typing of the tables: keys are unique, a row is stored under its key, and every preference,
  token, workspace and quota belongs to an existing user.
\<close>

definition user_ids :: "account_tables \<Rightarrow> string set" where
  "user_ids t = us_id ` set (tb_users t)"

definition wf_tables :: "account_tables \<Rightarrow> bool" where
  "wf_tables t \<longleftrightarrow>
     distinct (map us_id (tb_users t)) \<and> distinct (map us_subject (tb_users t))
     \<and> dom (tb_prefs t) \<subseteq> user_ids t \<and> (\<forall>i p. tb_prefs t i = Some p \<longrightarrow> pv_user p = i)
     \<and> dom (tb_tokens t) \<subseteq> user_ids t \<and> (\<forall>i k. tb_tokens t i = Some k \<longrightarrow> pt_user k = i)
     \<and> distinct (map wk_id (tb_workspaces t)) \<and> wk_user ` set (tb_workspaces t) \<subseteq> user_ids t
     \<and> distinct (map (\<lambda>q. (qr_user q, qr_plan q)) (tb_quotas t)) \<and> qr_user ` set (tb_quotas t) \<subseteq> user_ids t"

lemma wfD:
  assumes "wf_tables t"
  shows "distinct (map us_id (tb_users t))" "distinct (map us_subject (tb_users t))"
  using assms unfolding wf_tables_def by blast+

lemma map_update_keys: "(\<And>x. g (f x) = g x) \<Longrightarrow> map g (map f xs) = map g xs" "(\<And>x. g (f x) = g x) \<Longrightarrow> g ` f ` A = g ` A"
  by (simp_all add: image_image)

text \<open>Only the users table changes, and it keeps its ids: the other tables stay well-formed.\<close>

lemma wf_users:
  assumes "wf_tables t" and "distinct (map us_id us)" "distinct (map us_subject us)" "user_ids t \<subseteq> us_id ` set us"
  shows "wf_tables (t\<lparr>tb_users := us\<rparr>)"
proof -
  have "A \<subseteq> us_id ` set us" if "A \<subseteq> user_ids t" for A using that assms(4) by (rule subset_trans)
  then show ?thesis using assms(1-3) unfolding wf_tables_def by (simp add: user_ids_def)
qed

lemma wf_insert_or_touch:
  assumes "wf_tables t" and "subject_taken (us_subject r) t \<or> \<not> owned (us_id r) t"
  shows "wf_tables (insert_or_touch r t)"
proof (cases "subject_taken (us_subject r) t")
  case True
  define f :: "user_record \<Rightarrow> user_record" where "f = (\<lambda>x. if us_subject x = us_subject r then x\<lparr>us_updated := us_updated r\<rparr> else x)"
  have "us_id (f x) = us_id x" "us_subject (f x) = us_subject x" for x by (simp_all add: f_def)
  moreover have "insert_or_touch r t = t\<lparr>tb_users := map f (tb_users t)\<rparr>" using True by (simp add: insert_or_touch_def f_def)
  ultimately show ?thesis
    using wfD [OF assms(1)] by (auto intro!: wf_users [OF assms(1)] simp: comp_def user_ids_def image_image)
next
  case False
  then have "wf_tables (t\<lparr>tb_users := tb_users t @ [r]\<rparr>)"
    using assms(2) wfD [OF assms(1)]
    by (intro wf_users [OF assms(1)]) (auto simp: owned_def subject_taken_def user_ids_def)
  then show ?thesis using False by (simp add: insert_or_touch_def)
qed

lemma wf_upsert_user:
  assumes "wf_tables t" and "owned (us_id r) t \<or> \<not> subject_taken (us_subject r) t"
  shows "wf_tables (upsert_user r t)"
proof (cases "owned (us_id r) t")
  case True
  define f :: "user_record \<Rightarrow> user_record" where "f = (\<lambda>x. if us_id x = us_id r then r\<lparr>us_subject := us_subject x, us_created := us_created x\<rparr> else x)"
  have "us_id (f x) = us_id x" "us_subject (f x) = us_subject x" for x by (simp_all add: f_def)
  moreover have "upsert_user r t = t\<lparr>tb_users := map f (tb_users t)\<rparr>" using True by (simp add: upsert_user_def f_def)
  ultimately show ?thesis
    using wfD [OF assms(1)] by (auto intro!: wf_users [OF assms(1)] simp: comp_def user_ids_def image_image)
next
  case False
  then have "wf_tables (t\<lparr>tb_users := tb_users t @ [r]\<rparr>)"
    using assms(2) wfD [OF assms(1)]
    by (intro wf_users [OF assms(1)]) (auto simp: owned_def subject_taken_def user_ids_def)
  then show ?thesis using False by (simp add: upsert_user_def)
qed

lemma wf_prefs:
  assumes "wf_tables t" "owned (pv_user p) t"
  shows "wf_tables (t\<lparr>tb_prefs := (tb_prefs t)(pv_user p \<mapsto> p)\<rparr>)"
  using assms unfolding wf_tables_def user_ids_def owned_def by auto

lemma wf_insert_preferences: "wf_tables t \<Longrightarrow> owned (pv_user p) t \<Longrightarrow> wf_tables (insert_preferences p t)"
  using wf_prefs [of t p] by (simp add: insert_preferences_def)

lemma wf_tokens:
  assumes "wf_tables t"
  shows "owned (pt_user k) t \<Longrightarrow> wf_tables (t\<lparr>tb_tokens := (tb_tokens t)(pt_user k \<mapsto> k)\<rparr>)"
    and "wf_tables (t\<lparr>tb_tokens := (tb_tokens t)(i := None)\<rparr>)"
  using assms unfolding wf_tables_def user_ids_def owned_def by auto

lemma wf_quota:
  assumes "wf_tables t" "owned (qr_user q) t" "(qr_user q, qr_plan q) \<notin> (\<lambda>x. (qr_user x, qr_plan x)) ` set (tb_quotas t)"
  shows "wf_tables (t\<lparr>tb_quotas := tb_quotas t @ [q]\<rparr>)"
  using assms unfolding wf_tables_def user_ids_def owned_def by simp

lemma wf_workspaces:
  assumes "wf_tables t" "distinct (map wk_id ws)" "wk_user ` set ws \<subseteq> user_ids t"
  shows "wf_tables (t\<lparr>tb_workspaces := ws\<rparr>)"
  using assms unfolding wf_tables_def by (simp add: user_ids_def)

lemma wf_workspace:
  assumes "wf_tables t" "owned (wk_user w) t"
  shows "wf_tables (upsert_workspace w t)"
proof (cases "wk_id w \<in> wk_id ` set (tb_workspaces t)")
  case True
  define f :: "workspace \<Rightarrow> workspace" where "f = (\<lambda>x. if wk_id x = wk_id w then x\<lparr>wk_name := wk_name w, wk_updated := wk_updated w\<rparr> else x)"
  have f: "wk_user (f x) = wk_user x" "wk_id (f x) = wk_id x" for x by (simp_all add: f_def)
  have k: "map wk_id (map f (tb_workspaces t)) = map wk_id (tb_workspaces t)"
    "wk_user ` set (map f (tb_workspaces t)) = wk_user ` set (tb_workspaces t)"
    by (simp_all add: f image_image)
  have "upsert_workspace w t = t\<lparr>tb_workspaces := map f (tb_workspaces t)\<rparr>" using True by (simp add: upsert_workspace_def f_def)
  moreover have "wf_tables (t\<lparr>tb_workspaces := map f (tb_workspaces t)\<rparr>)"
    by (rule wf_workspaces [OF assms(1)]; unfold k) (use assms(1) in \<open>simp_all only: wf_tables_def\<close>)
  ultimately show ?thesis by (simp only:)
next
  case False
  have "wk_user ` set (tb_workspaces t) \<subseteq> user_ids t" "distinct (map wk_id (tb_workspaces t))"
    using assms(1) by (simp_all only: wf_tables_def)
  then have "wf_tables (t\<lparr>tb_workspaces := tb_workspaces t @ [w]\<rparr>)"
    using False assms(2) by (intro wf_workspaces [OF assms(1)]) (auto simp: user_ids_def owned_def)
  then show ?thesis using False by (simp add: upsert_workspace_def)
qed

interpretation typed: table_relation "\<lambda>t t'. wf_tables t \<longrightarrow> wf_tables t'"
  by unfold_locales
    (simp_all add: wf_insert_or_touch wf_insert_preferences wf_upsert_user wf_prefs wf_tokens wf_quota wf_workspace)

section \<open>The abstract machine of the users table\<close>

text \<open>
  What may happen to a stored account: its identity is fixed, the ban is not touched, a deletion and
  a consent are never taken back, and a new email address is one nobody else has.
\<close>

definition evolves :: "user_record list \<Rightarrow> user_record \<Rightarrow> user_record \<Rightarrow> bool" where
  "evolves us r r' \<longleftrightarrow>
     us_id r' = us_id r \<and> us_subject r' = us_subject r \<and> us_created r' = us_created r \<and> us_banned r' = us_banned r
     \<and> (us_deleted r \<noteq> None \<longrightarrow> us_deleted r' \<noteq> None) \<and> (us_terms r \<longrightarrow> us_terms r') \<and> (us_privacy r \<longrightarrow> us_privacy r')
     \<and> (us_email r' = us_email r \<or> us_email r' \<notin> us_email ` set us)"

inductive user_step :: "user_record list \<Rightarrow> user_record list \<Rightarrow> bool" where
  stay: "user_step us us"
| change: "r \<in> set us \<Longrightarrow> evolves us r r' \<Longrightarrow> user_step us (map (\<lambda>x. if us_id x = us_id r then r' else x) us)"
| register: "us_id r \<notin> us_id ` set us \<Longrightarrow> us_subject r \<notin> us_subject ` set us \<Longrightarrow> us_email r \<notin> us_email ` set us
    \<Longrightarrow> \<not> us_banned r \<Longrightarrow> us_deleted r = None \<Longrightarrow> user_step us (us @ [r])"

inductive_cases user_stepE: "user_step us us'"

text \<open>Saving a user read from the table, with some columns changed.\<close>

lemma stored_users:
  assumes "wf_tables t" "new_user_row v \<in> set (tb_users t)" "evolves (tb_users t) (new_user_row v) (new_user_row u)"
  shows "tb_users (stored u t) = map (\<lambda>x. if us_id x = us_id (new_user_row v) then new_user_row u else x) (tb_users t)"
proof -
  let ?r = "new_user_row v" and ?r' = "new_user_row u"
  have id: "us_id ?r' = us_id ?r" "us_subject ?r' = us_subject ?r" "us_created ?r' = us_created ?r"
    using assms(3) by (simp_all add: evolves_def)
  have same: "x = ?r" if "x \<in> set (tb_users t)" "us_id x = us_id ?r" for x
    using that assms(2) wfD(1) [OF assms(1)] by (auto simp: distinct_map dest: inj_onD)
  have "owned (us_id ?r') t" using assms(2) id by (auto simp: owned_def)
  then have "tb_users (stored u t) =
      map (\<lambda>x. if us_id x = us_id ?r' then ?r'\<lparr>us_subject := us_subject x, us_created := us_created x\<rparr> else x) (tb_users t)"
    by (simp add: stored_def upsert_user_def)
  also have "\<dots> = map (\<lambda>x. if us_id x = us_id ?r then ?r' else x) (tb_users t)"
  proof (rule map_cong [OF refl])
    fix x assume x: "x \<in> set (tb_users t)"
    show "(if us_id x = us_id ?r' then ?r'\<lparr>us_subject := us_subject x, us_created := us_created x\<rparr> else x)
        = (if us_id x = us_id ?r then ?r' else x)"
    proof (cases "us_id x = us_id ?r")
      case True
      then have "us_subject x = us_subject ?r'" "us_created x = us_created ?r'" using same [OF x] id by simp_all
      then show ?thesis using True id by simp
    qed (use id in simp)
  qed
  finally show ?thesis .
qed

lemma stored_step:
  assumes "wf_tables t" "new_user_row v \<in> set (tb_users t)" "evolves (tb_users t) (new_user_row v) (new_user_row u)"
  shows "user_step (tb_users t) (tb_users (stored u t))"
  unfolding stored_users [OF assms] by (rule user_step.change [OF assms(2,3)])

lemma stored_member:
  assumes "wf_tables t" "new_user_row v \<in> set (tb_users t)" "evolves (tb_users t) (new_user_row v) (new_user_row u)"
  shows "new_user_row u \<in> set (tb_users (stored u t))"
  unfolding stored_users [OF assms] using assms(2) by force

lemma row_simps [simp]:
  "new_user_row (u\<lparr>us_prefs := p\<rparr>) = new_user_row u"
  "new_user_row (u\<lparr>us_updated := n\<rparr>) = (new_user_row u)\<lparr>us_updated := n\<rparr>"
  "new_user_row (u\<lparr>us_deleted := d\<rparr>) = (new_user_row u)\<lparr>us_deleted := d\<rparr>"
  "new_user_row (u\<lparr>us_email := e\<rparr>) = (new_user_row u)\<lparr>us_email := e\<rparr>"
  "new_user_row (u\<lparr>us_name := e\<rparr>) = (new_user_row u)\<lparr>us_name := e\<rparr>"
  "new_user_row (u\<lparr>us_surname := e\<rparr>) = (new_user_row u)\<lparr>us_surname := e\<rparr>"
  "new_user_row (u\<lparr>us_nickname := e\<rparr>) = (new_user_row u)\<lparr>us_nickname := e\<rparr>"
  "new_user_row (u\<lparr>us_country := v\<rparr>) = (new_user_row u)\<lparr>us_country := v\<rparr>"
  "new_user_row (u\<lparr>us_birth := d\<rparr>) = (new_user_row u)\<lparr>us_birth := d\<rparr>"
  "new_user_row (u\<lparr>us_terms := b\<rparr>) = (new_user_row u)\<lparr>us_terms := b\<rparr>"
  "new_user_row (u\<lparr>us_privacy := b\<rparr>) = (new_user_row u)\<lparr>us_privacy := b\<rparr>"
  by (simp_all add: new_user_row_def user_record.defs)

text \<open>The columns a profile update may write.\<close>

definition fixed_columns :: "user_record \<Rightarrow> user_record \<Rightarrow> bool" where
  "fixed_columns r r' \<longleftrightarrow> us_id r' = us_id r \<and> us_subject r' = us_subject r \<and> us_email r' = us_email r
     \<and> us_banned r' = us_banned r \<and> us_terms r' = us_terms r \<and> us_privacy r' = us_privacy r
     \<and> us_created r' = us_created r \<and> us_deleted r' = us_deleted r"

lemma apply_profile_fixed: "fixed_columns (new_user_row u) (new_user_row (apply_profile q u))"
  by (simp add: fixed_columns_def apply_profile_def set_opt_def Let_def split: option.split)

lemma fixed_evolves: "fixed_columns r r' \<Longrightarrow> evolves us r (r'\<lparr>us_updated := n\<rparr>)"
  by (simp add: fixed_columns_def evolves_def)

lemma acceptance_columns:
  "apply_acceptance cfg q u = Inr u' \<Longrightarrow>
     u' = u\<lparr>us_terms := us_terms u \<or> given_version (la_terms q) \<noteq> None, us_privacy := us_privacy u \<or> given_version (la_privacy q) \<noteq> None\<rparr>
     \<and> given_version (la_terms q) \<in> {None, Some (ld_terms_version cfg)}
     \<and> given_version (la_privacy q) \<in> {None, Some (ld_privacy_version cfg)}"
  by (auto simp: apply_acceptance_def split: option.splits if_splits)

lemma acceptance_evolves:
  "apply_acceptance cfg q u = Inr u' \<Longrightarrow> evolves us (new_user_row u) ((new_user_row u')\<lparr>us_updated := n\<rparr>)"
  using row_fields [of u] by (auto dest!: acceptance_columns simp: evolves_def)

section \<open>What sign-in and registration do\<close>

lemma refresh_cases:
  assumes "refresh_user p u c = (c', res)"
  obtains (refuse) e where "res = Inl e" "ad_tables c' = ad_tables c"
  | (ok) now where "\<not> us_banned u" "us_deleted u = None"
      "res = Inr (u\<lparr>us_email := ap_email p, us_name := ap_name p, us_updated := now\<rparr>)"
      "ad_tables c' = stored (u\<lparr>us_email := ap_email p, us_name := ap_name p, us_updated := now\<rparr>) (ad_tables c)"
proof (cases "us_banned u \<or> us_deleted u \<noteq> None")
  case True
  then show thesis using assms refuse by (auto simp: refresh_user_def account_raise_def split: if_splits)
next
  case False
  then have n: "\<not> us_banned u" "us_deleted u = None" by auto
  show thesis
  proof (rule bind_quiet [OF assms [unfolded refresh_user_def if_not_P [OF n(1)] Let_def, unfolded n(2) simp_thms if_False] quiet_env(1)])
    fix now c1
    let ?u = "u\<lparr>us_email := ap_email p, us_name := ap_name p, us_updated := now\<rparr>"
    assume t: "ad_tables c1 = ad_tables c"
      and k: "account_bind (save_user ?u) (\<lambda>_. account_return ?u) c1 = (c', res)"
    obtain c2 x where s: "save_user ?u c1 = (c2, x)" by fastforce
    from s [unfolded save_user_def] show thesis
    proof (cases rule: transaction_save)
      case (error e)
      then show thesis using refuse k s t by (auto simp: account_bind_def)
    next
      case ok
      then show thesis using that(2) [OF n, of now] k s t by (auto simp: account_bind_def account_return_def)
    qed
  qed (use refuse in blast)
qed

lemma workspace_cases:
  assumes "ensure_default_workspace i c = (c', res)"
  obtains "ad_tables c' = ad_tables c"
  | w where "wk_user w = i" "ad_tables c' = upsert_workspace w (ad_tables c)" "res = Inr ()"
proof (cases "blank i")
  case True
  then show thesis using that(1) assms by (simp add: ensure_default_workspace_def account_raise_def)
next
  case False
  show thesis
  proof (rule bind_quiet [OF assms [unfolded ensure_default_workspace_def if_not_P [OF False]] quiet_checks(3)])
    fix ws c1
    assume t: "ad_tables c1 = ad_tables c" and k: "(if 0 < length ws then account_return ()
          else account_bind time_now (\<lambda>now. account_bind account_uuid (\<lambda>wid.
            account_bind
              (save_workspace_row \<lparr>wk_id = wid, wk_user = i, wk_name = DefaultWorkspaceName, wk_created = now, wk_updated = now\<rparr>)
              (\<lambda>_. request_runtime i wid)))) c1 = (c', res)"
    show thesis
    proof (cases "0 < length ws")
      case True
      then show thesis using that(1) k t by (simp add: account_return_def)
    next
      case False
      obtain now c2 wid c3 where e: "time_now c1 = (c2, Inr now)" "account_uuid c2 = (c3, Inr wid)" "ad_tables c3 = ad_tables c"
        using t by (auto simp: time_now_def account_uuid_def)
      let ?w = "\<lparr>wk_id = wid, wk_user = i, wk_name = DefaultWorkspaceName, wk_created = now, wk_updated = now\<rparr>"
      obtain c4 x where s: "save_workspace_row ?w c3 = (c4, x)" by fastforce
      have k4: "account_bind (save_workspace_row ?w) (\<lambda>_. request_runtime i wid) c3 = (c', res)"
        using k False e(1,2) by (simp add: account_bind_def)
      show thesis
      proof (cases x)
        case (Inl e)
        then have "ad_tables c4 = ad_tables c3" using s stmt_Inl unfolding save_workspace_row_def by blast
        then show thesis using that(1) k4 s Inl e(3) by (simp add: account_bind_def)
      next
        case (Inr a)
        then have "ad_tables c4 = upsert_workspace ?w (ad_tables c3)"
          using s stmt_Inr [of _ _ _ _ c3 c4 a] unfolding save_workspace_row_def by blast
        then show thesis using that(2) [of ?w] k4 s Inr e(3) by (auto simp: account_bind_def request_runtime_def)
      qed
    qed
  qed (use that(1) in blast)
qed

lemma quota_frame:
  "tb_users (ad_tables (fst (assign_free_plan i now c))) = tb_users (ad_tables c)"
  "tb_workspaces (ad_tables (fst (assign_free_plan i now c))) = tb_workspaces (ad_tables c)"
  "\<exists>c1. assign_free_plan i now c = (c1, Inr ())"
  by (simp_all add: assign_free_plan_def quota_create_def account_stmt_def Let_def)

definition workspace_ids :: "string \<Rightarrow> account_tables \<Rightarrow> string list" where
  "workspace_ids j t = map wk_id (filter (\<lambda>w. wk_user w = j) (tb_workspaces t))"

lemma upsert_workspace_users [simp]: "tb_users (upsert_workspace w t) = tb_users t"
  by (simp add: upsert_workspace_def)

lemma upsert_workspace_others:
  assumes "j \<noteq> wk_user w"
  shows "workspace_ids j (upsert_workspace w t) = workspace_ids j t"
proof -
  define f :: "workspace \<Rightarrow> workspace" where "f = (\<lambda>x. if wk_id x = wk_id w then x\<lparr>wk_name := wk_name w, wk_updated := wk_updated w\<rparr> else x)"
  have f: "wk_user (f x) = wk_user x" "wk_id (f x) = wk_id x" for x by (simp_all add: f_def)
  have "filter (\<lambda>w. wk_user w = j) (map f ws) = map f (filter (\<lambda>w. wk_user w = j) ws)" for ws
    by (rule filter_map_eq) (simp add: f)
  then have "map wk_id (filter (\<lambda>w. wk_user w = j) (map f ws)) = map wk_id (filter (\<lambda>w. wk_user w = j) ws)" for ws
    by (simp add: comp_def f)
  moreover have "upsert_workspace w t = (if wk_id w \<in> wk_id ` set (tb_workspaces t)
      then t\<lparr>tb_workspaces := map f (tb_workspaces t)\<rparr> else t\<lparr>tb_workspaces := tb_workspaces t @ [w]\<rparr>)"
    by (simp add: upsert_workspace_def f_def)
  ultimately show ?thesis using assms by (simp add: workspace_ids_def)
qed

lemma create_row_Inr:
  assumes "create_user_row u agreed c = (c', Inr v)" "us_terms u = agreed" "us_privacy u = agreed" "us_deleted u = None"
    and "\<not> subject_taken (us_subject u) (ad_tables c)"
  shows "v = u \<and> \<not> owned (us_id u) (ad_tables c) \<and> tb_users (ad_tables c') = tb_users (ad_tables c) @ [new_user_row u]
    \<and> tb_workspaces (ad_tables c') = tb_workspaces (ad_tables c)"
proof -
  have r: "(new_user_row u)\<lparr>us_terms := agreed, us_privacy := agreed, us_deleted := None\<rparr> = new_user_row u"
    using assms(2-4) by (simp add: new_user_row_def user_record.defs)
  have s: "\<not> subject_taken (us_subject (new_user_row u)) (ad_tables c)" using assms(5) row_fields(2) [of u] by simp
  have "find (\<lambda>x. us_subject x = us_subject (new_user_row u)) (tb_users (ad_tables c)) = None"
    using s by (simp add: find_None_iff subject_taken_def) (metis imageI)
  then have i: "returned_id (new_user_row u) (ad_tables c) = us_id u" using row_fields(1) [of u] by (simp add: returned_id_def)
  from assms(1) [unfolded create_user_row_def Let_def r] obtain c1 j where
    1: "account_stmt ''insert user'' (\<lambda>t. subject_taken (us_subject (new_user_row u)) t \<or> \<not> owned (us_id (new_user_row u)) t)
           (\<lambda>c. returned_id (new_user_row u) (ad_tables c)) (insert_or_touch (new_user_row u)) c = (c1, Inr j)"
    and 2: "account_bind
           (account_stmt ''insert user preferences'' (owned j) (\<lambda>c. ())
              (insert_preferences ((new_user_preferences_row u)\<lparr>pv_user := j\<rparr>)))
           (\<lambda>_. account_return (u\<lparr>us_id := j\<rparr>)) c1 = (c', Inr v)"
    by (rule bind_Inr)
  have t1: "\<not> owned (us_id u) (ad_tables c)" "j = us_id u" "ad_tables c1 = insert_or_touch (new_user_row u) (ad_tables c)"
    using stmt_Inr [OF 1] s i row_fields(1) [of u] by auto
  from 2 obtain c2 where 3: "account_stmt ''insert user preferences'' (owned j) (\<lambda>c. ())
              (insert_preferences ((new_user_preferences_row u)\<lparr>pv_user := j\<rparr>)) c1 = (c2, Inr ())"
    and "v = u\<lparr>us_id := j\<rparr>" "c' = c2"
    by (elim bind_Inr) (auto simp: account_return_def)
  then show ?thesis
    using t1 stmt_Inr [OF 3] s by (simp add: insert_or_touch_def insert_preferences_def)
qed

lemma create_user_cases:
  assumes "create_user p agreed c = (c', res)" "\<not> subject_taken (ap_subject p) (ad_tables c)"
  obtains (refuse) e where "res = Inl e" "ad_tables c' = ad_tables c"
  | (created) i nickname now where "\<not> owned i (ad_tables c)"
      "tb_users (ad_tables c') = tb_users (ad_tables c) @ [new_user_row (new_user i p nickname now agreed)]"
      "\<And>j. j \<noteq> i \<Longrightarrow> workspace_ids j (ad_tables c') = workspace_ids j (ad_tables c)"
      "res = Inr (new_user i p nickname now agreed) \<or> (\<exists>e. res = Inl e) \<and> workspace_ids i (ad_tables c') = workspace_ids i (ad_tables c)"
proof -
  have q1: "quiet (account_wrap ''generate unique nickname'' (generate_unique_nickname (ap_email p)))"
    by (intro quiet_wrap quiet_nickname)
  show thesis
  proof (rule bind_quiet [OF assms(1) [unfolded create_user_def] q1])
    fix nickname c1
    let ?rest = "\<lambda>now i u. account_bind (assign_free_plan (us_id u) now) (\<lambda>_.
      account_bind (ensure_default_workspace (us_id u)) (\<lambda>_. account_return u))"
    assume t1: "ad_tables c1 = ad_tables c" and k: "account_bind time_now (\<lambda>now. account_bind account_uuid (\<lambda>i.
      account_bind (account_transaction ''create user'' (create_user_row (new_user i p nickname now agreed) agreed))
        (\<lambda>u. ?rest now i u))) c1 = (c', res)"
    obtain now c2 i c3 where e: "time_now c1 = (c2, Inr now)" "account_uuid c2 = (c3, Inr i)" "ad_tables c3 = ad_tables c"
      using t1 by (auto simp: time_now_def account_uuid_def)
    let ?u = "new_user i p nickname now agreed"
    obtain c4 x where tx: "account_transaction ''create user'' (create_user_row ?u agreed) c3 = (c4, x)" by fastforce
    have k4: "(case x of Inl e \<Rightarrow> (c4, Inl e) | Inr u \<Rightarrow> ?rest now i u c4) = (c', res)"
      using k unfolding account_bind_then [of time_now, OF e(1)] account_bind_then [of account_uuid, OF e(2)]
      by (cases x) (auto simp: account_bind_error account_bind_then tx)
    from tx show thesis
    proof (cases rule: transaction_cases)
      case (error e)
      then show thesis using refuse k4 \<open>ad_tables c3 = ad_tables c\<close> by auto
    next
      case (ok v c5 c6)
      have "v = ?u \<and> \<not> owned i (ad_tables c5) \<and> tb_users (ad_tables c6) = tb_users (ad_tables c5) @ [new_user_row ?u]
          \<and> tb_workspaces (ad_tables c6) = tb_workspaces (ad_tables c5)"
        using create_row_Inr [OF ok(3)] assms(2) ok(2) e(3) by (simp add: new_user_def)
      then have v: "v = ?u" "\<not> owned i (ad_tables c)" "tb_users (ad_tables c4) = tb_users (ad_tables c) @ [new_user_row ?u]"
        "tb_workspaces (ad_tables c4) = tb_workspaces (ad_tables c)"
        using ok(2,4) e(3) by auto
      obtain c7 where a: "assign_free_plan i now c4 = (c7, Inr ())" using quota_frame(3) by blast
      have f: "tb_users (ad_tables c7) = tb_users (ad_tables c4)" "tb_workspaces (ad_tables c7) = tb_workspaces (ad_tables c4)"
        using quota_frame(1,2) [of i now c4] by (simp_all add: a)
      obtain c8 y where w: "ensure_default_workspace i c7 = (c8, y)" by fastforce
      have i: "us_id ?u = i" by (simp add: new_user_def)
      have r: "c' = c8" "res = (case y of Inl e \<Rightarrow> Inl e | Inr _ \<Rightarrow> Inr ?u)"
        using k4 ok(1) v(1) a w i by (auto simp: account_bind_def account_return_def split: sum.splits)
      have u: "tb_users (ad_tables c') = tb_users (ad_tables c) @ [new_user_row ?u]"
        using w r f v by (cases rule: workspace_cases) auto
      have ids: "workspace_ids j (ad_tables c7) = workspace_ids j (ad_tables c)" for j
        using f v by (simp add: workspace_ids_def)
      have n: "workspace_ids j (ad_tables c') = workspace_ids j (ad_tables c)" if "j \<noteq> i" for j
        using w
      proof (cases rule: workspace_cases)
        case (2 x)
        then show ?thesis using upsert_workspace_others [of j x "ad_tables c7"] that ids r by simp
      qed (use ids r in simp)
      have "\<exists>e. res = Inl e \<Longrightarrow> ad_tables c' = ad_tables c7"
        using w r by (cases rule: workspace_cases) auto
      then show thesis
        using created [OF v(2) u n] r(2) ids by (cases y) auto
    qed
  qed (use refuse in blast)
qed

lemma register_cases:
  assumes "register_user p agreed c = (c', res)"
  obtains (refuse) e where "res = Inl e" "ad_tables c' = ad_tables c"
  | (create) c1 where "ad_tables c1 = ad_tables c" "create_user p agreed c1 = (c', res)"
      "\<forall>r \<in> set (tb_users (ad_tables c)). us_deleted r = None \<or> us_subject r \<noteq> ap_subject p \<and> us_email r \<noteq> ap_email p"
proof -
  let ?m = "account_wrap ''check deleted user state'' (is_user_deleted (ap_subject p) (ap_email p))"
  have q: "quiet ?m" by (intro quiet_wrap quiet_checks)
  show thesis
  proof (rule bind_quiet [OF assms [unfolded register_user_def] q])
    fix deleted c1
    assume m: "?m c = (c1, Inr deleted)" and t: "ad_tables c1 = ad_tables c"
      and k: "(if deleted then account_raise ErrUserDeleted else create_user p agreed) c1 = (c', res)"
    show thesis
    proof (cases deleted)
      case True
      then show thesis using refuse k t by (auto simp: account_raise_def)
    next
      case False
      from m have "is_user_deleted (ap_subject p) (ap_email p) c = (c1, Inr False)"
        using False by (auto simp: account_wrap_def split: prod.splits sum.splits)
      then have "filter (\<lambda>r. us_deleted r \<noteq> None \<and> (us_subject r = ap_subject p \<or> us_email r = ap_email p)) (tb_users (ad_tables c)) = []"
        using read_Inr by (fastforce simp: is_user_deleted_def account_raise_def split: if_splits)
      then have "\<forall>r \<in> set (tb_users (ad_tables c)). us_deleted r = None \<or> us_subject r \<noteq> ap_subject p \<and> us_email r \<noteq> ap_email p"
        by (auto simp: filter_empty_conv)
      then show thesis using create [OF t] k False by simp
    qed
  qed (use refuse in blast)
qed

section \<open>Every request is a step\<close>

lemma user_step_eq: "us' = us \<Longrightarrow> user_step us us'"
  using user_step.stay by simp

lemma refresh_evolves:
  assumes "new_user_row u \<in> set (tb_users t)" "us_email u = e \<or> (\<forall>r \<in> set (tb_users t). us_email r \<noteq> e)"
  shows "evolves (tb_users t) (new_user_row u) (new_user_row (u\<lparr>us_email := e, us_name := n, us_updated := d\<rparr>))"
  using assms row_fields(3) [of u] by (auto simp: evolves_def)

lemma sign_in_step:
  assumes "wf_tables (ad_tables c)" "sign_in_or_up raw agreed c = (c', res)"
  shows "user_step (tb_users (ad_tables c)) (tb_users (ad_tables c'))"
  using assms(2)
proof (cases rule: sign_in_cases)
  case (refuse e)
  then show ?thesis by (simp add: user_step.stay)
next
  case (refresh p c1 u)
  have p: "ap_subject p \<noteq> ''''" "ap_email p \<noteq> ''''" using refresh(1) by (simp_all add: validate_Inr)
  have g: "new_user_row u \<in> set (tb_users (ad_tables c))"
    "us_email u = ap_email p \<or> (\<forall>r \<in> set (tb_users (ad_tables c)). us_email r \<noteq> ap_email p)"
    using get_user_Inr [OF refresh(2) p] by auto
  from refresh(4) show ?thesis
  proof (cases rule: refresh_cases)
    case (refuse e)
    then show ?thesis using refresh(3) by (simp add: user_step.stay)
  next
    case (ok now)
    then show ?thesis using stored_step [OF assms(1) g(1) refresh_evolves [OF g]] ok(4) refresh(3) by simp
  qed
next
  case (register p c1 e)
  have p: "ap_subject p \<noteq> ''''" "ap_email p \<noteq> ''''" using register(1) by (simp_all add: validate_Inr)
  have nf: "\<not> subject_taken (ap_subject p) (ad_tables c)" "ap_email p \<notin> us_email ` set (tb_users (ad_tables c))"
    using get_user_not_found [OF register(2,3) p] by auto
  from register(5) show ?thesis
  proof (cases rule: register_cases)
    case (refuse e)
    then show ?thesis using register(4) by (simp add: user_step.stay)
  next
    case (create c2)
    have t: "ad_tables c2 = ad_tables c" using create(1) register(4) by simp
    from create(2) nf(1) [folded t] show ?thesis
    proof (cases rule: create_user_cases)
      case (refuse e)
      then show ?thesis using t by (simp add: user_step.stay)
    next
      case (created i nickname now)
      let ?r = "new_user_row (new_user i p nickname now agreed)"
      have r: "us_id ?r = i" "us_subject ?r = ap_subject p" "us_email ?r = ap_email p" "\<not> us_banned ?r" "us_deleted ?r = None"
        by (simp_all add: new_user_row_def new_user_def user_record.defs)
      have "user_step (tb_users (ad_tables c)) (tb_users (ad_tables c) @ [?r])"
        by (rule user_step.register) (use created(1) nf r t in \<open>auto simp: owned_def subject_taken_def\<close>)
      then show ?thesis using created(2) t by simp
    qed
  qed
qed

definition steps_from :: "account_tables \<Rightarrow> 'a account_call \<Rightarrow> bool" where
  "steps_from t m \<longleftrightarrow> (\<forall>c c' res. ad_tables c = t \<longrightarrow> m c = (c', res) \<longrightarrow> user_step (tb_users t) (tb_users (ad_tables c')))"

lemma steps_quiet: "quiet m \<Longrightarrow> steps_from t m"
  unfolding steps_from_def using quietD user_step.stay by metis

lemmas steps_raise = steps_quiet [OF quiet_return(2)]

lemma steps_bind:
  assumes "quiet m" and "\<And>a c c1. ad_tables c = t \<Longrightarrow> m c = (c1, Inr a) \<Longrightarrow> steps_from t (k a)"
  shows "steps_from t (account_bind m k)"
  unfolding steps_from_def
proof (intro allI impI)
  fix c c' res
  assume t: "ad_tables c = t" and b: "account_bind m k c = (c', res)"
  from b assms(1) show "user_step (tb_users t) (tb_users (ad_tables c'))"
  proof (cases rule: bind_quiet)
    case (ok a c1)
    have "steps_from t (k a)" using assms(2) [OF t ok(1)] .
    then show ?thesis using ok(2,3) t unfolding steps_from_def by metis
  qed (simp add: t user_step.stay)
qed

lemma steps_principal: "(\<And>p. steps_from t (k p)) \<Longrightarrow> steps_from t (with_principal raw k)"
  using steps_quiet [OF quiet_return(2)] by (auto simp: with_principal_def split: sum.split)

lemma steps_save:
  assumes "wf_tables t" "new_user_row v \<in> set (tb_users t)" "evolves (tb_users t) (new_user_row v) (new_user_row u)"
  shows "steps_from t (account_transaction op (user_save u))"
  unfolding steps_from_def
proof (intro allI impI)
  fix c c' res
  assume t: "ad_tables c = t" and b: "account_transaction op (user_save u) c = (c', res)"
  from b show "user_step (tb_users t) (tb_users (ad_tables c'))"
    by (cases rule: transaction_save) (simp_all add: t user_step.stay stored_step [OF assms])
qed

lemma steps_store:
  assumes "wf_tables t" "new_user_row v \<in> set (tb_users t)"
    and "\<And>n. evolves (tb_users t) (new_user_row v) ((new_user_row u)\<lparr>us_updated := n\<rparr>)"
  shows "steps_from t (store_changed op u)"
  unfolding steps_from_def
proof (intro allI impI)
  fix c c' res
  assume t: "ad_tables c = t" and b: "store_changed op u c = (c', res)"
  from b show "user_step (tb_users t) (tb_users (ad_tables c'))"
    using stored_step [OF assms(1,2)] assms(3)
    by (cases rule: store_changed_cases) (simp_all add: t user_step.stay)
qed

lemma delete_step: "wf_tables t \<Longrightarrow> steps_from t (delete_account opts)"
proof -
  assume w: "wf_tables t"
  have "steps_from t (account_transaction ''auth delete'' (user_save (u\<lparr>us_deleted := Some now, us_updated := now\<rparr>)))"
    if "new_user_row u \<in> set (tb_users t)" for u now
    by (rule steps_save [OF w that]) (simp add: evolves_def)
  then show ?thesis
    unfolding delete_account_def using get_by_subject_Inr
    by (auto split: option.split intro!: steps_principal steps_bind steps_raise)
qed

lemma profile_step: "wf_tables t \<Longrightarrow> steps_from t (update_profile opts)"
proof -
  assume w: "wf_tables t"
  have "steps_from t (store_changed ''users update profile'' (apply_profile q u))"
    if "new_user_row u \<in> set (tb_users t)" for u q
    by (rule steps_store [OF w that]) (rule fixed_evolves [OF apply_profile_fixed])
  then show ?thesis
    unfolding update_profile_def using live_user_Inr
    by (auto split: option.split intro!: steps_principal steps_bind steps_raise)
qed

lemma legal_step: "wf_tables t \<Longrightarrow> steps_from t (accept_legal cfg opts)"
proof -
  assume w: "wf_tables t"
  have "steps_from t (store_changed ''users accept legal'' u')"
    if "new_user_row u \<in> set (tb_users t)" "apply_acceptance cfg q u = Inr u'" for u u' q
    by (rule steps_store [OF w that(1)]) (rule acceptance_evolves [OF that(2)])
  then show ?thesis
    unfolding accept_legal_def using live_user_Inr
    by (auto split: option.split sum.split intro!: steps_principal steps_bind steps_raise) blast
qed

text \<open>The token requests do not write the users table.\<close>

lemma steps_tokens: "steps_from t (clear_push_tokens i)" "steps_from t (repo_save_push_token i token)"
  by (auto simp: steps_from_def clear_push_tokens_def repo_save_push_token_def save_user_push_token_row_def account_raise_def
      account_bind_def time_now_def account_stmt_def Let_def intro!: user_step_eq split: if_splits)

lemma steps_transaction: "(\<And>c c' res. fn c = (c', res) \<Longrightarrow> tb_users (ad_tables c') = tb_users (ad_tables c))
    \<Longrightarrow> steps_from t (account_transaction op fn)"
  unfolding steps_from_def
proof (intro allI impI)
  fix c c' res
  assume f: "\<And>c c' res. fn c = (c', res) \<Longrightarrow> tb_users (ad_tables c') = tb_users (ad_tables c)"
    and t: "ad_tables c = t" and b: "account_transaction op fn c = (c', res)"
  from b show "user_step (tb_users t) (tb_users (ad_tables c'))"
    by (cases rule: transaction_cases) (use f t in \<open>auto intro!: user_step_eq\<close>)
qed

lemma token_step: "steps_from t (save_push_token opts)" "steps_from t (clear_push_token i)"
proof -
  have "tb_users (ad_tables c') = tb_users (ad_tables c)" if "repo_save_push_token i token c = (c', res)" for i token c c' res
    using that by (auto simp: repo_save_push_token_def save_user_push_token_row_def account_raise_def
        account_bind_def time_now_def account_stmt_def Let_def split: if_splits)
  then show "steps_from t (save_push_token opts)"
    by (auto simp: save_push_token_def split: option.split intro!: steps_principal steps_bind steps_raise steps_transaction)
  show "steps_from t (clear_push_token i)"
    by (auto simp: clear_push_token_def split: option.split intro!: steps_raise steps_tokens)
qed

lemma request_step:
  assumes "wf_tables (ad_tables c)"
  shows "user_step (tb_users (ad_tables c)) (tb_users (ad_tables (run_request cfg r c)))"
proof -
  have s: "user_step (tb_users (ad_tables c)) (tb_users (ad_tables (fst (m c))))" if "steps_from (ad_tables c) m" for m :: "'b account_call"
    using that unfolding steps_from_def by (metis prod.collapse)
  have i: "steps_from (ad_tables c) (sign_in_or_up raw agreed)" for raw agreed
    unfolding steps_from_def using sign_in_step assms by metis
  have i: "steps_from (ad_tables c) (sign_in p)" "steps_from (ad_tables c) (sign_up p)" for p
    using i by (auto simp: sign_in_def sign_up_def split: option.split intro!: steps_raise)
  show ?thesis
    using s [OF i(1)] s [OF i(2)] s [OF delete_step [OF assms]] s [OF profile_step [OF assms]] s [OF legal_step [OF assms]]
      s [OF token_step(1)] s [OF token_step(2)]
    by (cases r) (simp_all add: run_request_def)
qed

lemma requests_steps:
  "wf_tables (ad_tables c) \<Longrightarrow> user_step\<^sup>*\<^sup>* (tb_users (ad_tables c)) (tb_users (ad_tables (run_requests cfg rs c)))"
proof (induction rs arbitrary: c)
  case (Cons r rs)
  have "wf_tables (ad_tables (run_request cfg r c))" using typed.request_ok Cons.prems by blast
  from Cons.IH [OF this] request_step [OF Cons.prems, of cfg r] show ?case
    by (simp add: run_requests_def)
qed (simp add: run_requests_def)

section \<open>Ownership of workspaces\<close>

text \<open>No request but a registration touches the workspaces or removes a user.\<close>

lemma upsert_ids: "user_ids t \<subseteq> user_ids (upsert_user r t)"
proof (cases "owned (us_id r) t")
  case True
  define f :: "user_record \<Rightarrow> user_record" where "f = (\<lambda>x. if us_id x = us_id r then r\<lparr>us_subject := us_subject x, us_created := us_created x\<rparr> else x)"
  have "us_id (f x) = us_id x" for x by (simp add: f_def)
  moreover have "upsert_user r t = t\<lparr>tb_users := map f (tb_users t)\<rparr>" using True by (simp add: upsert_user_def f_def)
  ultimately show ?thesis by (simp add: user_ids_def image_image)
qed (auto simp: user_ids_def upsert_user_def)

interpretation saving: saving_relation "\<lambda>t t'. tb_workspaces t' = tb_workspaces t \<and> user_ids t \<subseteq> user_ids t'"
proof unfold_locales
  show "tb_workspaces (upsert_user r t) = tb_workspaces t \<and> user_ids t \<subseteq> user_ids (upsert_user r t)" for r t
    using upsert_ids by (simp add: upsert_user_def)
qed (auto simp: user_ids_def)

lemma workspaces_kept:
  assumes "wf_tables (ad_tables c)" "owned j (ad_tables c)"
  shows "workspace_ids j (ad_tables (run_request cfg r c)) = workspace_ids j (ad_tables c)"
proof -
  have s: "workspace_ids j (ad_tables (fst (m c))) = workspace_ids j (ad_tables c)"
    if "relates (\<lambda>t t'. tb_workspaces t' = tb_workspaces t \<and> user_ids t \<subseteq> user_ids t') m" for m :: "'b account_call"
    using that by (simp add: relates_def workspace_ids_def)
  have i: "workspace_ids j (ad_tables (fst (sign_in_or_up raw agreed c))) = workspace_ids j (ad_tables c)" for raw agreed
  proof -
    obtain c' res where x: "sign_in_or_up raw agreed c = (c', res)" by fastforce
    then have "workspace_ids j (ad_tables c') = workspace_ids j (ad_tables c)"
    proof (cases rule: sign_in_cases)
      case (refresh p c1 u)
      then show ?thesis using saving.refresh_ok [of p u, unfolded relates_def, rule_format, of c1] by (simp add: workspace_ids_def)
    next
      case (register p c1 e)
      have "ap_subject p \<noteq> ''''" "ap_email p \<noteq> ''''" using register(1) by (simp_all add: validate_Inr)
      then have nf: "\<not> subject_taken (ap_subject p) (ad_tables c)" using get_user_not_found [OF register(2,3)] by blast
      from register(5) show ?thesis
      proof (cases rule: register_cases)
        case (create c2)
        have t: "ad_tables c2 = ad_tables c" using create(1) register(4) by simp
        from create(2) nf [folded t] show ?thesis
        proof (cases rule: create_user_cases)
          case (created i nickname now)
          then show ?thesis using assms(2) t by (cases "j = i") auto
        qed (simp add: t)
      qed (simp add: register(4))
    qed simp
    then show ?thesis by (simp add: x)
  qed
  have si: "workspace_ids j (ad_tables (fst (sign_in p c))) = workspace_ids j (ad_tables c)"
    "workspace_ids j (ad_tables (fst (sign_up p c))) = workspace_ids j (ad_tables c)" for p
    using i by (auto simp: sign_in_def sign_up_def account_raise_def split: option.split)
  show ?thesis
    using si s [OF saving.delete_ok] s [OF saving.update_ok] s [OF saving.accept_ok] s [OF saving.token_ok(1)] s [OF saving.token_ok(2)]
    by (cases r) (simp_all add: run_request_def)
qed

lemma step_ids: "user_step us us' \<Longrightarrow> us_id ` set us \<subseteq> us_id ` set us'"
proof (induction rule: user_step.induct)
  case (change r us r')
  define f where "f = (\<lambda>x. if us_id x = us_id r then r' else x)"
  have "us_id (f x) = us_id x" for x using change(2) by (simp add: f_def evolves_def)
  then show ?case unfolding f_def [symmetric] by (simp add: image_image)
qed auto

lemma owned_kept: "wf_tables (ad_tables c) \<Longrightarrow> owned j (ad_tables c) \<Longrightarrow> owned j (ad_tables (run_request cfg r c))"
  using step_ids [OF request_step] unfolding owned_def by blast

lemma workspaces_kept_all:
  "wf_tables (ad_tables c) \<Longrightarrow> owned j (ad_tables c) \<Longrightarrow>
     workspace_ids j (ad_tables (run_requests cfg rs c)) = workspace_ids j (ad_tables c)"
proof (induction rs arbitrary: c)
  case (Cons r rs)
  have "wf_tables (ad_tables (run_request cfg r c))" using typed.request_ok Cons.prems by blast
  from Cons.IH [OF this owned_kept [OF Cons.prems]] workspaces_kept [OF Cons.prems] show ?case
    by (simp add: run_requests_def)
qed (simp add: run_requests_def)

section \<open>Invariants of the steps\<close>

text \<open>What happened to one account after any number of steps.\<close>

definition same_account :: "user_record \<Rightarrow> user_record \<Rightarrow> bool" where
  "same_account r r' \<longleftrightarrow> us_id r' = us_id r \<and> us_subject r' = us_subject r \<and> us_created r' = us_created r
     \<and> us_banned r' = us_banned r \<and> (us_deleted r \<noteq> None \<longrightarrow> us_deleted r' \<noteq> None)
     \<and> (us_terms r \<longrightarrow> us_terms r') \<and> (us_privacy r \<longrightarrow> us_privacy r')"

lemma same_account_refl [simp]: "same_account r r"
  by (simp add: same_account_def)

lemma same_account_trans: "same_account r r1 \<Longrightarrow> same_account r1 r2 \<Longrightarrow> same_account r r2"
  by (auto simp: same_account_def)

lemma step_account:
  "user_step us us' \<Longrightarrow> distinct (map us_id us) \<Longrightarrow> x \<in> set us \<Longrightarrow> \<exists>x' \<in> set us'. same_account x x'"
proof (induction rule: user_step.induct)
  case (change r us r')
  show ?case
  proof (cases "us_id x = us_id r")
    case True
    then have "x = r" using change by (auto simp: distinct_map dest: inj_onD)
    then have "same_account x r'" using change(2) by (simp add: evolves_def same_account_def)
    moreover have "r' \<in> set (map (\<lambda>x. if us_id x = us_id r then r' else x) us)" using change(1) by force
    ultimately show ?thesis by blast
  next
    case False
    then have "x \<in> set (map (\<lambda>x. if us_id x = us_id r then r' else x) us)" using change(4) by force
    then show ?thesis using same_account_refl by blast
  qed
qed (use same_account_refl in \<open>auto, blast+\<close>)

lemma requests_account:
  "wf_tables (ad_tables c) \<Longrightarrow> x \<in> set (tb_users (ad_tables c)) \<Longrightarrow>
     \<exists>x' \<in> set (tb_users (ad_tables (run_requests cfg rs c))). same_account x x'"
proof (induction rs arbitrary: c x)
  case (Cons r rs)
  have w: "wf_tables (ad_tables (run_request cfg r c))" using typed.request_ok Cons.prems(1) by blast
  obtain y where "y \<in> set (tb_users (ad_tables (run_request cfg r c)))" "same_account x y"
    using step_account [OF request_step [OF Cons.prems(1)] wfD(1) [OF Cons.prems(1)] Cons.prems(2)] by blast
  then show ?case using Cons.IH [OF w] same_account_trans by (fastforce simp: run_requests_def)
qed (simp add: run_requests_def, use same_account_refl in blast)

lemma step_emails:
  "user_step us us' \<Longrightarrow> distinct (map us_id us) \<Longrightarrow> distinct (map us_email us) \<Longrightarrow> distinct (map us_email us')"
proof (induction rule: user_step.induct)
  case (change r us r')
  have i: "inj_on us_email (set us)" "inj_on us_id (set us)" "distinct us" using change(3,4) by (simp_all add: distinct_map)
  have "us_email (if us_id x = us_id r then r' else x) = us_email (if us_id y = us_id r then r' else y) \<Longrightarrow> x = y"
    if xy: "x \<in> set us" "y \<in> set us" for x y
  proof -
    assume e: "us_email (if us_id x = us_id r then r' else x) = us_email (if us_id y = us_id r then r' else y)"
    have r: "z = r" if "z \<in> set us" "us_id z = us_id r" for z using that change(1) i(2) by (auto dest: inj_onD)
    have n: "z = r" if "z \<in> set us" "us_email r' = us_email z" for z
      using that change(1,2) i(1) by (auto simp: evolves_def dest: inj_onD)
    show "x = y" using e xy r n i(1) by (auto split: if_splits dest: inj_onD)
  qed
  then show ?case using i(3) by (auto simp: distinct_map comp_def inj_on_def)
qed auto

lemma requests_emails:
  "wf_tables (ad_tables c) \<Longrightarrow> distinct (map us_email (tb_users (ad_tables c))) \<Longrightarrow>
     distinct (map us_email (tb_users (ad_tables (run_requests cfg rs c))))"
proof (induction rs arbitrary: c)
  case (Cons r rs)
  have "wf_tables (ad_tables (run_request cfg r c))" using typed.request_ok Cons.prems(1) by blast
  from Cons.IH [OF this] step_emails [OF request_step wfD(1)] Cons.prems show ?case
    by (simp add: run_requests_def)
qed (simp add: run_requests_def)

section \<open>Statements that succeed\<close>

lemma stmt_succeeds:
  "\<not> ad_fails c (ad_calls c) \<Longrightarrow> ok (ad_tables c) \<Longrightarrow>
     account_stmt msg ok q f c = (c\<lparr>ad_calls := Suc (ad_calls c), ad_tables := f (ad_tables c)\<rparr>, Inr (q c))"
  by (simp add: account_stmt_def Let_def)

lemma read_succeeds:
  "\<not> ad_fails c (ad_calls c) \<Longrightarrow> account_read msg q c = (c\<lparr>ad_calls := Suc (ad_calls c)\<rparr>, Inr (q c))"
  by (simp add: account_read_def account_stmt_def Let_def)

lemma save_succeeds:
  assumes "\<And>k. ad_calls c \<le> k \<Longrightarrow> \<not> ad_fails c k" "owned (us_id u) (ad_tables c)"
  shows "\<exists>c'. save_user u c = (c', Inr ()) \<and> ad_tables c' = stored u (ad_tables c)"
proof -
  define c1 where "c1 = c\<lparr>ad_calls := Suc (ad_calls c)\<rparr>"
  have o: "owned (us_id (new_user_row u)) (ad_tables c)" using assms(2) row_fields(1) [of u] by simp
  define c2 where "c2 = c1\<lparr>ad_calls := Suc (ad_calls c1), ad_tables := upsert_user (new_user_row u) (ad_tables c)\<rparr>"
  have 2: "save_user_row (new_user_row u) c1 = (c2, Inr ())"
    unfolding save_user_row_def c2_def using o assms(1)
    by (subst stmt_succeeds) (simp_all add: c1_def)
  have o2: "owned (pv_user (new_user_preferences_row u)) (ad_tables c2)"
    using upsert_ids [of "ad_tables c" "new_user_row u"] assms(2)
    by (auto simp: user_ids_def owned_def new_user_preferences_row_def c2_def)
  define c3 where "c3 = c2\<lparr>ad_calls := Suc (ad_calls c2), ad_tables := stored u (ad_tables c)\<rparr>"
  have 3: "save_user_preferences_row (new_user_preferences_row u) c2 = (c3, Inr ())"
    unfolding save_user_preferences_row_def c3_def using o2 assms(1)
    by (subst stmt_succeeds) (simp_all add: c2_def c1_def stored_def new_user_preferences_row_def upsert_user_def)
  have "user_save u c1 = (c3, Inr ())"
    by (simp add: user_save_def account_bind_def 2 3)
  moreover have "account_read m (\<lambda>c. ()) c3 = (c3\<lparr>ad_calls := Suc (ad_calls c3)\<rparr>, Inr ())" for m
    using assms(1) by (intro read_succeeds) (simp add: c3_def c2_def c1_def)
  moreover have "account_read m (\<lambda>c. ()) c = (c1, Inr ())" for m
    using assms(1) unfolding c1_def by (intro read_succeeds) simp
  ultimately have "save_user u c = (c3\<lparr>ad_calls := Suc (ad_calls c3)\<rparr>, Inr ())"
    by (simp add: save_user_def account_transaction_def)
  then show ?thesis by (simp add: c3_def)
qed

end
