(* ===== verification/Accounts_Props.thy ===== *)
theory Accounts_Props
  imports Accounts_Steps
begin

text \<open>
  What the account requests guarantee, whichever statements fail: the tables stay well-formed, an
  account keeps its identity, its ban, its deletion and its consents, addresses stay unique,
  deleted and banned users are never signed in, and documents are accepted in their current
  version only; and two errors that lose data: a registration that fails after its commit, and a
  sign-in whose read of the preferences fails.
\<close>

section \<open>An example\<close>

definition ex_row :: "string \<Rightarrow> string \<Rightarrow> string \<Rightarrow> int option \<Rightarrow> user_record" where
  "ex_row i s e d = \<lparr>us_id = i, us_subject = s, us_email = e, us_nickname = ''n'', us_name = ''Ann'', us_surname = '''',
     us_avatar = None, us_country = None, us_birth = None, us_banned = False, us_terms = False, us_privacy = False,
     us_created = 1, us_updated = 1, us_deleted = d\<rparr>"

definition ex_tables :: account_tables where
  "ex_tables = \<lparr>tb_users = [ex_row ''u1'' ''s1'' ''a@x'' None, ex_row ''u2'' ''s2'' ''b@x'' (Some 2)],
     tb_prefs = [''u1'' \<mapsto> \<lparr>pv_user = ''u1'', pv_theme = Some ''dark'', pv_language = None, pv_currency = None, pv_updated = 1\<rparr>],
     tb_tokens = Map.empty, tb_workspaces = [], tb_quotas = []\<rparr>"

definition ex_accounts :: "(nat \<Rightarrow> bool) \<Rightarrow> accounts" where
  "ex_accounts fails = \<lparr>ad_tables = ex_tables, ad_order = (\<lambda>k us. us), ad_runtimes = [], ad_clock = (\<lambda>k. 10 + int k), ad_ticks = 0,
     ad_uuids = (\<lambda>k. ''id'' @ show_nat k), ad_uuid = 0, ad_random = (\<lambda>k. Some (42 + k)), ad_draws = 0, ad_calls = 0, ad_fails = fails\<rparr>"

definition ex_docs :: legal_documents where
  "ex_docs = new_legal_documents_config None"

definition ex_principal :: auth_principal where
  "ex_principal = \<lparr>ap_subject = ''s1'', ap_email = ''a@x'', ap_name = ''Bob''\<rparr>"

lemmas ex_defs = ex_row_def ex_tables_def ex_accounts_def ex_docs_def ex_principal_def

lemma ex_wf [simp]: "wf_tables (ad_tables (ex_accounts fails))"
  by (auto simp: wf_tables_def user_ids_def ex_defs)

section \<open>Invariants\<close>



text \<open>
  C15. An account is never lost or revived: after any sequence of requests its row is still there
  with the same id, subject and time of creation; a ban is neither set nor lifted, a deleted
  account stays deleted, and no consent is withdrawn.
\<close>

theorem deletion_final:
  assumes "wf_tables (ad_tables c)" "x \<in> set (tb_users (ad_tables c))"
  shows "\<exists>x' \<in> set (tb_users (ad_tables (run_requests cfg rs c))). same_account x x'"
  using requests_account assms by blast

theorem deletion_final_witness:
  "\<exists>x' \<in> set (tb_users (ad_tables (run_requests ex_docs
      [SignIn (Some (Some \<lparr>ap_subject = ''s2'', ap_email = ''b@x'', ap_name = ''Eve''\<rparr>))] (ex_accounts (\<lambda>k. False))))).
     same_account (ex_row ''u2'' ''s2'' ''b@x'' (Some 2)) x'"
  by (rule deletion_final [OF ex_wf]) (simp add: ex_accounts_def ex_tables_def)



section \<open>Sign-in\<close>

text \<open>
  C5. Whoever signs in or up is neither banned nor deleted, owns the subject and the address of the
  principal, and the account that is returned is the stored row.
\<close>

theorem signin_safe:
  assumes "wf_tables (ad_tables c)" "sign_in_or_up raw agreed c = (c', Inr u)"
  shows "\<exists>p. raw = Some p \<and> us_subject u = ap_subject p \<and> us_email u = ap_email p \<and> us_name u = ap_name p
    \<and> \<not> us_banned u \<and> us_deleted u = None \<and> new_user_row u \<in> set (tb_users (ad_tables c'))
    \<and> (\<forall>r \<in> set (tb_users (ad_tables c)). us_subject r \<noteq> ap_subject p \<or> (\<not> us_banned r \<and> us_deleted r = None))"
  using assms(2)
proof (cases rule: sign_in_cases)
  case (refresh p c1 v)
  have p: "raw = Some p" "ap_subject p \<noteq> ''''" "ap_email p \<noteq> ''''" using refresh(1) by (simp_all add: validate_Inr)
  have g: "new_user_row v \<in> set (tb_users (ad_tables c))"
    "us_email v = ap_email p \<or> (\<forall>r \<in> set (tb_users (ad_tables c)). us_email r \<noteq> ap_email p)" "us_subject v = ap_subject p"
    using get_user_Inr [OF refresh(2) p(2,3)] by auto
  from refresh(4) show ?thesis
  proof (cases rule: refresh_cases)
    case (ok now)
    then have u: "u = v\<lparr>us_email := ap_email p, us_name := ap_name p, us_updated := now\<rparr>" by simp
    have "us_banned r = us_banned v \<and> us_deleted r = us_deleted v"
      if "r \<in> set (tb_users (ad_tables c))" "us_subject r = ap_subject p" for r
    proof -
      have "r = new_user_row v"
        using that g(1,3) row_fields(2) [of v] wfD(2) [OF assms(1)] by (simp add: distinct_map inj_on_def)
      then show ?thesis using row_fields(4,5) [of v] by simp
    qed
    then show ?thesis
      using p(1) g ok stored_member [OF assms(1) g(1) refresh_evolves [OF g(1,2), where n = "ap_name p" and d = now]] refresh(3)
      unfolding u by auto
  qed simp
next
  case (register p c1 e)
  have p: "raw = Some p" "ap_subject p \<noteq> ''''" "ap_email p \<noteq> ''''" using register(1) by (simp_all add: validate_Inr)
  have nf: "\<not> subject_taken (ap_subject p) (ad_tables c)"
    using get_user_not_found [OF register(2,3) p(2,3)] by auto
  from register(5) show ?thesis
  proof (cases rule: register_cases)
    case (create c2)
    have t: "ad_tables c2 = ad_tables c" using create(1) register(4) by simp
    from create(2) nf [folded t] show ?thesis
    proof (cases rule: create_user_cases)
      case (created i nickname now)
      then have "u = new_user i p nickname now agreed" by auto
      moreover have "\<forall>r \<in> set (tb_users (ad_tables c)). us_subject r \<noteq> ap_subject p"
        using nf unfolding subject_taken_def by (metis imageI)
      ultimately show ?thesis using p(1) created(2) by (simp add: new_user_def)
    qed simp
  qed simp
qed simp

lemma ex_sign_in:
  "case snd (sign_in_or_up (Some ex_principal) False (ex_accounts (\<lambda>k. False))) of Inr u \<Rightarrow> us_name u = ''Bob'' | Inl e \<Rightarrow> False"
  by code_simp

theorem signin_safe_witness:
  "\<exists>c' u p. sign_in_or_up (Some ex_principal) False (ex_accounts (\<lambda>k. False)) = (c', Inr u) \<and> us_name u = ''Bob''
     \<and> Some ex_principal = Some p \<and> us_subject u = ap_subject p \<and> new_user_row u \<in> set (tb_users (ad_tables c'))"
proof -
  obtain c' u where s: "sign_in_or_up (Some ex_principal) False (ex_accounts (\<lambda>k. False)) = (c', Inr u)" "us_name u = ''Bob''"
    using ex_sign_in by (cases "sign_in_or_up (Some ex_principal) False (ex_accounts (\<lambda>k. False))") (auto split: sum.splits)
  from signin_safe [OF ex_wf s(1)] s show ?thesis by blast
qed

section \<open>Legal documents\<close>

text \<open>Accepting legal documents either returns an error and leaves the tables alone, or records
  exactly the consents whose versions were given, each of them the current version, on the live
  account of the principal; no other column but the time of the update changes.
\<close>

theorem accept_legal_outcome:
  assumes "wf_tables (ad_tables c)" "accept_legal cfg (Some q) c = (c', res)"
  shows "case res of
      Inl e \<Rightarrow> ad_tables c' = ad_tables c
    | Inr u \<Rightarrow> \<exists>r \<in> set (tb_users (ad_tables c)). \<exists>n. us_deleted r = None
        \<and> map_option ap_subject (la_principal q) = Some (us_subject r)
        \<and> given_version (la_terms q) \<in> {None, Some (ld_terms_version cfg)}
        \<and> given_version (la_privacy q) \<in> {None, Some (ld_privacy_version cfg)}
        \<and> new_user_row u = r\<lparr>us_terms := us_terms r \<or> given_version (la_terms q) \<noteq> None,
            us_privacy := us_privacy r \<or> given_version (la_privacy q) \<noteq> None, us_updated := n\<rparr>
        \<and> new_user_row u \<in> set (tb_users (ad_tables c'))"
proof (cases "validate_principal (la_principal q)")
  case (Inl e)
  then show ?thesis using assms(2) by (auto simp: accept_legal_def with_principal_def account_raise_def)
next
  case (Inr p)
  have b: "account_bind (live_user p) (\<lambda>u. case apply_acceptance cfg q u of
      Inl e \<Rightarrow> account_raise e | Inr u' \<Rightarrow> store_changed ''users accept legal'' u') c = (c', res)"
    using assms(2) by (simp add: accept_legal_def with_principal_def Inr)
  show ?thesis
  proof (rule bind_quiet [OF b quiet_live_user])
    fix u c1
    assume l: "live_user p c = (c1, Inr u)" and t: "ad_tables c1 = ad_tables c"
      and k: "(case apply_acceptance cfg q u of
        Inl e \<Rightarrow> account_raise e | Inr u' \<Rightarrow> store_changed ''users accept legal'' u') c1 = (c', res)"
    have u: "new_user_row u \<in> set (tb_users (ad_tables c))" "us_subject u = ap_subject p" "us_deleted u = None"
      using live_user_Inr [OF l] by auto
    show ?thesis
    proof (cases "apply_acceptance cfg q u")
      case (Inl e)
      then have "res = Inl e" "c' = c1" using k by (simp_all add: account_raise_def)
      then show ?thesis using t by simp
    next
      case (Inr u')
      have "store_changed ''users accept legal'' u' c1 = (c', res)" using k Inr by simp
      then show ?thesis
      proof (cases rule: store_changed_cases)
        case (ok n)
        have e: "evolves (tb_users (ad_tables c)) (new_user_row u) (new_user_row (u'\<lparr>us_updated := n\<rparr>))"
          using acceptance_evolves [OF Inr] by simp
        have a: "new_user_row (u'\<lparr>us_updated := n\<rparr>) = (new_user_row u)\<lparr>us_terms := us_terms (new_user_row u) \<or> given_version (la_terms q) \<noteq> None,
            us_privacy := us_privacy (new_user_row u) \<or> given_version (la_privacy q) \<noteq> None, us_updated := n\<rparr>"
          using acceptance_columns [OF Inr] row_fields(7,8) [of u] by simp
        have m: "new_user_row (u'\<lparr>us_updated := n\<rparr>) \<in> set (tb_users (ad_tables c'))"
          using stored_member [OF assms(1) u(1) e] ok(2) t by simp
        have p: "map_option ap_subject (la_principal q) = Some (us_subject (new_user_row u))"
          using \<open>validate_principal (la_principal q) = Inr p\<close> u(2) row_fields(2) [of u] by (simp add: validate_Inr)
        have d: "us_deleted (new_user_row u) = None" using u(3) row_fields(5) [of u] by simp
        have g: "given_version (la_terms q) \<in> {None, Some (ld_terms_version cfg)}"
          "given_version (la_privacy q) \<in> {None, Some (ld_privacy_version cfg)}"
          using acceptance_columns [OF Inr] by blast+
        show ?thesis
          unfolding ok(1) sum.case using u(1) d g a m p by blast
      qed (use t in simp)
    qed
  qed simp
qed

theorem accept_legal_outcome_witness:
  "(case accept_legal ex_docs (Some \<lparr>la_principal = Some ex_principal, la_terms = Some '' v1'', la_privacy = None\<rparr>) (ex_accounts (\<lambda>k. False)) of
     (c', Inl e) \<Rightarrow> False
   | (c', Inr u) \<Rightarrow> \<exists>r \<in> set (tb_users ex_tables). us_subject r = ''s1'' \<and> us_terms u \<and> us_privacy u = us_privacy r)"
proof -
  let ?q = "\<lparr>la_principal = Some ex_principal, la_terms = Some '' v1'', la_privacy = None\<rparr>"
  have "case snd (accept_legal ex_docs (Some ?q) (ex_accounts (\<lambda>k. False))) of Inr u \<Rightarrow> us_terms u | Inl e \<Rightarrow> False"
    by code_simp
  then obtain c' u where s: "accept_legal ex_docs (Some ?q) (ex_accounts (\<lambda>k. False)) = (c', Inr u)" "us_terms u"
    by (cases "accept_legal ex_docs (Some ?q) (ex_accounts (\<lambda>k. False))") (auto split: sum.splits)
  have "given_version (la_privacy ?q) = None" by (simp add: given_version_def)
  moreover have "ad_tables (ex_accounts (\<lambda>k. False)) = ex_tables" by (simp add: ex_accounts_def)
  ultimately show ?thesis
    using accept_legal_outcome [OF ex_wf s(1)] s(2) row_fields(8) [of u]
    unfolding s(1) prod.case sum.case by (auto simp: ex_principal_def)
qed

section \<open>Two errors that lose data\<close>

text \<open>When sign-up returns an error although it has stored the account, the account has no workspace,
  and no sequence of further requests gives it one.
\<close>

theorem lost_workspace:
  assumes "wf_tables (ad_tables c)" "sign_in_or_up raw agreed c = (c', Inl e)"
    and "tb_users (ad_tables c') \<noteq> tb_users (ad_tables c)"
  shows "\<exists>r. r \<in> set (tb_users (ad_tables c')) \<and> \<not> owned (us_id r) (ad_tables c)
    \<and> map_option ap_subject raw = Some (us_subject r) \<and> workspace_ids (us_id r) (ad_tables (run_requests cfg rs c')) = []"
  using assms(2)
proof (cases rule: sign_in_cases)
  case (refresh p c1 v)
  from refresh(4) show ?thesis by (cases rule: refresh_cases) (use assms(3) refresh(3) in auto)
next
  case (register p c1 e')
  have p: "raw = Some p" "ap_subject p \<noteq> ''''" "ap_email p \<noteq> ''''" using register(1) by (simp_all add: validate_Inr)
  have nf: "\<not> subject_taken (ap_subject p) (ad_tables c)"
    using get_user_not_found [OF register(2,3) p(2,3)] by auto
  from register(5) show ?thesis
  proof (cases rule: register_cases)
    case (create c2)
    have t: "ad_tables c2 = ad_tables c" using create(1) register(4) by simp
    from create(2) nf [folded t] show ?thesis
    proof (cases rule: create_user_cases)
      case (created i nickname now)
      let ?r = "new_user_row (new_user i p nickname now agreed)"
      have r: "us_id ?r = i" "us_subject ?r = ap_subject p" by (simp_all add: new_user_row_def new_user_def user_record.defs)
      have n: "\<not> owned i (ad_tables c)" using created(1) t by simp
      have w: "wf_tables (ad_tables c')"
        using typed.sign_in_ok assms(1,2) unfolding relates_def by (metis fst_conv)
      have "workspace_ids i (ad_tables c) = []"
        using n assms(1) by (auto simp: wf_tables_def user_ids_def owned_def workspace_ids_def filter_empty_conv)
      then have "workspace_ids i (ad_tables c') = []" using created(4) t by auto
      moreover have "owned i (ad_tables c')" using created(2) r(1) by (force simp: owned_def)
      ultimately have "workspace_ids i (ad_tables (run_requests cfg rs c')) = []"
        using workspaces_kept_all [OF w] by simp
      then show ?thesis using p(1) created(2) r n by (intro exI [of _ ?r]) auto
    qed (use assms(3) t in simp)
  qed (use assms(3) register(4) in simp)
qed (use assms(3) in simp)

theorem lost_workspace_witness:
  "\<exists>c' e r. sign_in_or_up (Some \<lparr>ap_subject = ''s3'', ap_email = ''c@x'', ap_name = ''Eve''\<rparr>) True (ex_accounts (\<lambda>k. k = 9)) = (c', Inl e)
     \<and> us_subject r = ''s3'' \<and> r \<in> set (tb_users (ad_tables c'))
     \<and> workspace_ids (us_id r) (ad_tables (run_requests ex_docs
          [SignIn (Some (Some \<lparr>ap_subject = ''s3'', ap_email = ''c@x'', ap_name = ''Eve''\<rparr>))] c')) = []"
proof -
  let ?p = "\<lparr>ap_subject = ''s3'', ap_email = ''c@x'', ap_name = ''Eve''\<rparr>" and ?c = "ex_accounts (\<lambda>k. k = 9)"
  have "case sign_in_or_up (Some ?p) True ?c of (c, Inl e) \<Rightarrow> length (tb_users (ad_tables c)) = 3 | _ \<Rightarrow> False"
    by code_simp
  then obtain c' e where s: "sign_in_or_up (Some ?p) True ?c = (c', Inl e)" "length (tb_users (ad_tables c')) = 3"
    by (auto split: prod.splits sum.splits)
  have "length (tb_users (ad_tables ?c)) = 2" by (simp add: ex_accounts_def ex_tables_def)
  then have "tb_users (ad_tables c') \<noteq> tb_users (ad_tables ?c)" using s(2) by auto
  from lost_workspace [OF ex_wf s(1) this, of ex_docs "[SignIn (Some (Some ?p))]"] s(1) show ?thesis by auto
qed

text \<open>A sign-in that cannot read the stored preferences succeeds and overwrites them with nothing:
  the error of the read is dropped, and the save writes the empty preferences back.
\<close>

theorem signin_erases_preferences:
  assumes "r \<in> set (tb_users (ad_tables c))" "us_subject r = ap_subject p" "us_email r = ap_email p"
    and "\<And>x. x \<in> set (tb_users (ad_tables c)) \<Longrightarrow> us_email x = ap_email p \<Longrightarrow> x = r"
    and "ap_subject p \<noteq> ''''" "\<not> blank (ap_email p)" "\<not> us_banned r" "us_deleted r = None"
    and "ad_fails c = (\<lambda>k. k = Suc (ad_calls c))"
  shows "\<exists>c' u n. sign_in (Some (Some p)) c = (c', Inr u)
    \<and> tb_prefs (ad_tables c') (us_id r) = Some \<lparr>pv_user = us_id r, pv_theme = None, pv_language = None, pv_currency = None, pv_updated = n\<rparr>"
proof -
  have e: "ap_email p \<noteq> ''''" using assms(6) by (auto simp: blank_def trim_space_def trim_by_def)
  have sel: "select_user (\<lambda>x. us_email x = ap_email p) c = Some r"
  proof (cases "select_user (\<lambda>x. us_email x = ap_email p) c")
    case None
    then show ?thesis using assms(1,3) by (simp only: select_user_None)
  next
    case (Some x)
    then show ?thesis using select_user_Some assms(4) by blast
  qed
  let ?u = "to_domain r"
  have u: "us_banned ?u = us_banned r" "us_deleted ?u = us_deleted r" "us_id ?u = us_id r" "us_prefs ?u = no_preferences"
    by (simp_all add: to_domain_def user_record.defs)
  have "get_user_by_email (ap_email p) (ap_subject p) c = (c\<lparr>ad_calls := Suc (Suc (ad_calls c))\<rparr>, Inr ?u)"
    using assms(2,9) sel
    by (simp add: get_user_by_email_def account_bind_def account_read_def account_stmt_def Let_def load_preferences_def)
  then have g: "get_user (ap_subject p) (ap_email p) c = (c\<lparr>ad_calls := Suc (Suc (ad_calls c))\<rparr>, Inr ?u)"
    using e assms(6) by (simp add: get_user_def Let_def)
  have v: "validate_principal (Some p) = Inr p" using e assms(5) by (simp add: validate_Inr)
  have o: "owned (us_id r) (ad_tables c)" using assms(1) by (simp add: owned_def)
  define u' where "u' = ?u\<lparr>us_email := ap_email p, us_name := ap_name p, us_updated := ad_clock c (ad_ticks c)\<rparr>"
  have i: "us_id (new_user_row u') = us_id r" "us_id u' = us_id r" "us_prefs u' = no_preferences" "us_updated u' = ad_clock c (ad_ticks c)"
    by (simp_all add: u'_def u new_user_row_def user_record.defs)
  define c1 where "c1 = c\<lparr>ad_calls := Suc (Suc (ad_calls c)), ad_ticks := Suc (ad_ticks c)\<rparr>"
  have c1: "ad_tables c1 = ad_tables c" "\<And>k. ad_calls c1 \<le> k \<Longrightarrow> \<not> ad_fails c1 k"
    using assms(9) by (auto simp: c1_def)
  have "\<exists>c2. save_user u' c1 = (c2, Inr ()) \<and> ad_tables c2 = stored u' (ad_tables c)"
    using save_succeeds [of c1 u'] c1 o i(2) by simp
  then obtain c2 where c2: "save_user u' c1 = (c2, Inr ())" "ad_tables c2 = stored u' (ad_tables c)" by blast
  have "refresh_user p ?u (c\<lparr>ad_calls := Suc (Suc (ad_calls c))\<rparr>) = (c2, Inr u')"
    using assms(7,8) c2(1)
    by (simp add: refresh_user_def u account_bind_def time_now_def Let_def account_return_def c1_def u'_def)
  then have "sign_in (Some (Some p)) c = (c2, Inr u')"
    by (simp add: sign_in_def sign_in_or_up_def with_principal_def v g)
  moreover have "tb_prefs (ad_tables c2) (us_id r) = Some (new_user_preferences_row u')"
    using c2(2) i by (simp add: stored_def)
  ultimately show ?thesis
    by (auto simp: new_user_preferences_row_def i no_preferences_def)
qed

theorem signin_erases_preferences_witness:
  "\<exists>c' u n. sign_in (Some (Some ex_principal)) (ex_accounts (\<lambda>k. k = 1)) = (c', Inr u)
    \<and> map_option pv_theme (tb_prefs ex_tables ''u1'') = Some (Some ''dark'')
    \<and> tb_prefs (ad_tables c') ''u1'' = Some \<lparr>pv_user = ''u1'', pv_theme = None, pv_language = None, pv_currency = None, pv_updated = n\<rparr>"
proof -
  let ?r = "ex_row ''u1'' ''s1'' ''a@x'' None" and ?c = "ex_accounts (\<lambda>k. k = 1)"
  have id: "us_id ?r = ''u1''" by (simp add: ex_row_def)
  have b: "\<not> blank (ap_email ex_principal)" by code_simp
  have "\<exists>c' u n. sign_in (Some (Some ex_principal)) ?c = (c', Inr u)
    \<and> tb_prefs (ad_tables c') (us_id ?r) = Some \<lparr>pv_user = us_id ?r, pv_theme = None, pv_language = None, pv_currency = None, pv_updated = n\<rparr>"
    by (rule signin_erases_preferences [OF _ _ _ _ _ b])
      (auto simp: ex_accounts_def ex_tables_def ex_principal_def ex_row_def)
  moreover have "map_option pv_theme (tb_prefs ex_tables ''u1'') = Some (Some ''dark'')" by (simp add: ex_tables_def)
  ultimately show ?thesis unfolding id by blast
qed

text \<open>
  An account deleted between the read and the save of a profile update is live again: the save
  writes the deletion time that was read.
\<close>

lemma stale_save_revives:
  assumes "r \<in> set (tb_users (ad_tables c))" "us_deleted r \<noteq> None" "us_id u = us_id r" "us_deleted u = None"
    and "store_changed op u c = (c', Inr v)"
  shows "\<exists>r' \<in> set (tb_users (ad_tables c')). us_id r' = us_id r \<and> us_deleted r' = None"
  using assms(5)
proof (cases rule: store_changed_cases)
  case (ok n)
  let ?u = "new_user_row (u\<lparr>us_updated := n\<rparr>)"
  define f :: "user_record \<Rightarrow> user_record" where "f = (\<lambda>x. if us_id x = us_id ?u then ?u\<lparr>us_subject := us_subject x, us_created := us_created x\<rparr> else x)"
  have i: "us_id ?u = us_id r" "us_deleted ?u = None"
    using assms(3,4) row_fields(1,5) [of "u\<lparr>us_updated := n\<rparr>"] by simp_all
  have "owned (us_id ?u) (ad_tables c)" using assms(1) i by (simp add: owned_def)
  then have "tb_users (ad_tables c') = map f (tb_users (ad_tables c))"
    unfolding ok(2) stored_def upsert_user_def f_def by simp
  then have "f r \<in> set (tb_users (ad_tables c'))" using assms(1) by simp
  moreover have "us_id (f r) = us_id r" "us_deleted (f r) = None" using i by (simp_all add: f_def)
  ultimately show ?thesis by blast
qed simp

end
