(* ===== verification/Agent_Messages.thy ===== *)
theory Agent_Messages
  imports Chat_Store
begin

text \<open>
  Messages between agents: \<open>mcpservice/agent_messaging.go\<close> and the table
  \<open>agent_messages\<close> (\<open>repo/mcprepo\<close>). The rows of agents, conversations and workspaces are
  those the foreign keys refer to; the empty string is no uuid, and a text column takes valid UTF-8
  without zero bytes. Every statement is numbered and \<open>mg_fails\<close> says which fail. The runtime of
  the user is an argument: it may call the tool again while it works, so a call is split into
  the part before the runtime and the part that settles its result. The memory context put before the
  message is an argument too; durations are left out.
\<close>

section \<open>Data\<close>

datatype am_status = AmPending | AmRunning | AmCompleted | AmFailed

record agent_message =
  am_id :: string
  am_ws :: string
  am_conv :: string
  am_from :: string
  am_from_slug :: string
  am_to :: string
  am_to_slug :: string
  am_request :: string
  am_response :: "string option"
  am_error :: "string option"
  am_state :: am_status
  am_depth :: int

datatype mg_event =
    MgDelegation string "agent option" agent string am_status string string
  | MgAgentStatus string string string string

record messaging =
  mg_rows :: "agent_message list"
  mg_workspaces :: "string list"
  mg_convs :: "string list"
  mg_agents :: "string \<Rightarrow> agent list"
  mg_events :: "mg_event list"
  mg_uuid :: nat
  mg_uuids :: "nat \<Rightarrow> string"
  mg_calls :: nat
  mg_fails :: "nat \<Rightarrow> bool"

record send_params =
  sp_user :: string
  sp_ws :: string
  sp_session :: string
  sp_slug :: string
  sp_text :: string
  sp_conv :: string

record send_result =
  sr_success :: bool
  sr_slug :: string
  sr_response :: string
  sr_id :: string
  sr_error :: string

definition send_error :: "string \<Rightarrow> send_result" where
  "send_error e = \<lparr>sr_success = False, sr_slug = '''', sr_response = '''', sr_id = '''', sr_error = e\<rparr>"

definition maxAgentDepth :: int where "maxAgentDepth = 3"
definition delegationPreviewMaxRunes :: nat where "delegationPreviewMaxRunes = 100"
definition agentMessageMaxStoredBytes :: nat where "agentMessageMaxStoredBytes = 32768"
definition agentMessageTruncatedMarker :: string where "agentMessageTruncatedMarker = nl @ ''[truncated]''"

section \<open>The table\<close>

definition pg_text :: "string \<Rightarrow> bool" where
  "pg_text s \<longleftrightarrow> valid_utf8 s \<and> CHR 0x00 \<notin> set s"

definition mg_stmt ::
  "string \<Rightarrow> (messaging \<Rightarrow> bool) \<Rightarrow> (messaging \<Rightarrow> 'a) \<Rightarrow> (agent_message list \<Rightarrow> agent_message list) \<Rightarrow> messaging \<Rightarrow> messaging \<times> 'a go_result" where
  "mg_stmt msg ok q f c =
     (let c1 = c\<lparr>mg_calls := Suc (mg_calls c)\<rparr> in
      if mg_fails c (mg_calls c) \<or> \<not> ok c then (c1, Inl (msg @ '': db error''))
      else (c1\<lparr>mg_rows := f (mg_rows c)\<rparr>, Inr (q c)))"

definition known_agent :: "messaging \<Rightarrow> string \<Rightarrow> bool" where
  "known_agent c i \<longleftrightarrow> i \<noteq> '''' \<and> (\<exists>w \<in> set (mg_workspaces c). i \<in> ag_id ` set (mg_agents c w))"

text \<open>What an inserted row has to meet.\<close>

definition row_ok :: "agent_message \<Rightarrow> messaging \<Rightarrow> bool" where
  "row_ok r c \<longleftrightarrow> am_id r \<notin> am_id ` set (mg_rows c) \<and> am_ws r \<noteq> '''' \<and> am_ws r \<in> set (mg_workspaces c)
     \<and> am_conv r \<noteq> '''' \<and> am_conv r \<in> set (mg_convs c) \<and> known_agent c (am_from r) \<and> known_agent c (am_to r)
     \<and> pg_text (am_from_slug r) \<and> pg_text (am_to_slug r) \<and> pg_text (am_request r)"

definition create_agent_message :: "agent_message \<Rightarrow> messaging \<Rightarrow> messaging \<times> unit go_result" where
  "create_agent_message r = mg_stmt (''mcprepo: create agent message '' @ am_id r) (row_ok r) (\<lambda>c. ()) (\<lambda>rs. rs @ [r])"

definition finalise_agent_message ::
  "string \<Rightarrow> string \<Rightarrow> string \<Rightarrow> (agent_message \<Rightarrow> agent_message) \<Rightarrow> messaging \<Rightarrow> messaging \<times> unit go_result" where
  "finalise_agent_message label i val f =
     mg_stmt (''mcprepo: '' @ label @ '' '' @ i) (\<lambda>c. i \<noteq> '''' \<and> pg_text val) (\<lambda>c. ())
       (map (\<lambda>r. if am_id r = i then f r else r))"

definition update_agent_message_completed :: "string \<Rightarrow> string \<Rightarrow> messaging \<Rightarrow> messaging \<times> unit go_result" where
  "update_agent_message_completed i t =
     finalise_agent_message ''complete agent message'' i t (\<lambda>r. r\<lparr>am_state := AmCompleted, am_response := Some t\<rparr>)"

definition update_agent_message_failed :: "string \<Rightarrow> string \<Rightarrow> messaging \<Rightarrow> messaging \<times> unit go_result" where
  "update_agent_message_failed i t =
     finalise_agent_message ''fail agent message'' i t (\<lambda>r. r\<lparr>am_state := AmFailed, am_error := Some t\<rparr>)"

definition active_in :: "string \<Rightarrow> string \<Rightarrow> agent_message \<Rightarrow> bool" where
  "active_in ws cv r \<longleftrightarrow> am_ws r = ws \<and> am_conv r = cv \<and> am_state r \<in> {AmPending, AmRunning}"

text \<open>\<open>COALESCE(MAX(depth), -1)\<close> over the active rows.\<close>

definition max_depth :: "agent_message list \<Rightarrow> int" where
  "max_depth rs = (if rs = [] then -1 else Max (set (map am_depth rs)))"

definition get_max_agent_message_depth :: "string \<Rightarrow> string \<Rightarrow> messaging \<Rightarrow> messaging \<times> int go_result" where
  "get_max_agent_message_depth ws cv =
     mg_stmt ''mcprepo: get max agent message depth'' (\<lambda>c. ws \<noteq> '''' \<and> cv \<noteq> '''')
       (\<lambda>c. max_depth (filter (active_in ws cv) (mg_rows c))) (\<lambda>rs. rs)"

text \<open>\<open>agentrepo.ListByWorkspaceID\<close>.\<close>

definition list_agents :: "string \<Rightarrow> messaging \<Rightarrow> messaging \<times> agent list go_result" where
  "list_agents ws c =
     (if blank ws then (c, Inl (error_text (Some ErrInvalidInput)))
      else mg_stmt ''list agents by workspace id'' (\<lambda>c. True) (\<lambda>c. mg_agents c ws) (\<lambda>rs. rs) c)"

section \<open>Helpers\<close>

definition truncate_str :: "string \<Rightarrow> nat \<Rightarrow> string" where
  "truncate_str s n = (let r = go_runes s in if length r \<le> n then s else of_runes (take n r) @ ''...'')"

definition join_turns :: "string list \<Rightarrow> string" where
  "join_turns ts = join (nl @ nl) ts"

definition calling_slug :: "string \<Rightarrow> string" where
  "calling_slug session = (case split_n session '':'' 2 of [a, b] \<Rightarrow> b | _ \<Rightarrow> '''')"

text \<open>The loop keeps the last agent with the slug.\<close>

definition last_with :: "(agent \<Rightarrow> bool) \<Rightarrow> agent list \<Rightarrow> agent option" where
  "last_with p ags = foldl (\<lambda>t a. if p a then Some a else t) None ags"

definition resolve_agents :: "agent list \<Rightarrow> string \<Rightarrow> string \<Rightarrow> (agent \<times> agent option \<times> string) go_result" where
  "resolve_agents ags slug session =
     (let caller = calling_slug session;
          target = last_with (\<lambda>a. ag_slug a = slug) ags;
          from_agent = last_with (\<lambda>a. caller \<noteq> '''' \<and> ag_slug a = caller) ags
      in case target of
           None \<Rightarrow> Inl (''unknown agent '' @ [CHR 0x27] @ slug @ [CHR 0x27] @ ''. Available: ''
                        @ join '', '' (map ag_slug (filter (\<lambda>a. \<not> ag_manager a) ags)))
         | Some t \<Rightarrow> if caller = slug then Inl ''an agent cannot send a message to itself'' else Inr (t, from_agent, caller))"

section \<open>Events\<close>

definition mg_emit :: "bool \<Rightarrow> mg_event list \<Rightarrow> messaging \<Rightarrow> messaging" where
  "mg_emit on es c = (if on then c\<lparr>mg_events := mg_events c @ es\<rparr> else c)"

definition emit_delegation_started ::
  "bool \<Rightarrow> string \<Rightarrow> agent option \<Rightarrow> agent \<Rightarrow> string \<Rightarrow> string \<Rightarrow> string \<Rightarrow> messaging \<Rightarrow> messaging" where
  "emit_delegation_started on ws from_agent to_agent cv i text =
     mg_emit on [MgDelegation ws from_agent to_agent cv AmRunning (truncate_str text delegationPreviewMaxRunes) i,
                 MgAgentStatus ws (ag_id to_agent) ''thinking'' cv]"

definition emit_delegation_done ::
  "bool \<Rightarrow> string \<Rightarrow> agent option \<Rightarrow> agent \<Rightarrow> string \<Rightarrow> string \<Rightarrow> am_status \<Rightarrow> messaging \<Rightarrow> messaging" where
  "emit_delegation_done on ws from_agent to_agent cv i st =
     mg_emit on [MgAgentStatus ws (ag_id to_agent) ''online'' cv, MgDelegation ws from_agent to_agent cv st '''' i]"

section \<open>Sending\<close>

text \<open>What the second part of a call needs of the first.\<close>

record pending_send =
  pd_params :: send_params
  pd_slug :: string
  pd_from :: "agent option"
  pd_target :: agent
  pd_text :: string
  pd_id :: string

definition mg_new_uuid :: "messaging \<Rightarrow> messaging \<times> string" where
  "mg_new_uuid c = (c\<lparr>mg_uuid := Suc (mg_uuid c)\<rparr>, mg_uuids c (mg_uuid c))"

definition depth_error :: "int \<Rightarrow> string" where
  "depth_error d = ''agent chain depth limit reached ('' @ show_int d @ ''/'' @ show_int maxAgentDepth @ ''): cannot delegate further''"

definition prepare_agent_message ::
  "send_params \<Rightarrow> agent option \<Rightarrow> agent \<Rightarrow> string \<Rightarrow> string \<Rightarrow> messaging \<Rightarrow> messaging \<times> string go_result" where
  "prepare_agent_message p from_agent target caller text c =
     (let (c1, d) = get_max_agent_message_depth (sp_ws p) (sp_conv p) c;
          new_depth = (case d of Inl e \<Rightarrow> -1 | Inr n \<Rightarrow> n) + 1
      in if new_depth \<ge> maxAgentDepth then (c1, Inl (depth_error new_depth))
         else
           let (c2, i) = mg_new_uuid c1;
               row = \<lparr>am_id = i, am_ws = sp_ws p, am_conv = sp_conv p,
                      am_from = (case from_agent of Some a \<Rightarrow> ag_id a | None \<Rightarrow> ''''), am_from_slug = caller,
                      am_to = ag_id target, am_to_slug = ag_slug target, am_request = text,
                      am_response = None, am_error = None, am_state = AmRunning, am_depth = new_depth\<rparr>
           in (fst (create_agent_message row c2), Inr i))"

definition start_message ::
  "bool \<Rightarrow> bool \<Rightarrow> send_params \<Rightarrow> messaging \<Rightarrow> messaging \<times> (send_result + pending_send)" where
  "start_message configured on p c =
     (if \<not> configured then (c, Inl (send_error ''agent messaging not configured on this server''))
      else
        let slug = trim_space (sp_slug p); text = trim_space (sp_text p) in
        if slug = '''' \<or> text = '''' then (c, Inl (send_error ''agent_slug and message are required''))
        else case list_agents (sp_ws p) c of
          (c1, Inl e) \<Rightarrow> (c1, Inl (send_error (''failed to list agents: '' @ e)))
        | (c1, Inr ags) \<Rightarrow>
            (case resolve_agents ags slug (sp_session p) of
               Inl e \<Rightarrow> (c1, Inl (send_error e))
             | Inr (target, from_agent, caller) \<Rightarrow>
                 (case prepare_agent_message p from_agent target caller text c1 of
                    (c2, Inl e) \<Rightarrow> (c2, Inl (send_error e))
                  | (c2, Inr i) \<Rightarrow>
                      (emit_delegation_started on (sp_ws p) from_agent target (sp_conv p) i text c2,
                       Inr \<lparr>pd_params = p, pd_slug = slug, pd_from = from_agent, pd_target = target, pd_text = text, pd_id = i\<rparr>))))"

definition build_full_message :: "(send_params \<Rightarrow> messaging \<Rightarrow> string) \<Rightarrow> send_params \<Rightarrow> string \<Rightarrow> messaging \<Rightarrow> string" where
  "build_full_message context p text c =
     (if sp_conv p = '''' then text
      else let x = context p c in if x = '''' then text else x @ nl @ nl @ text)"

text \<open>The runtime is not ready, its call fails, or it returns the texts of its turns.\<close>

datatype runtime_reply = NotReady string | CallFailed string | Turns "string list"

definition fail_agent_message :: "bool \<Rightarrow> pending_send \<Rightarrow> string \<Rightarrow> messaging \<Rightarrow> messaging" where
  "fail_agent_message on pd e c =
     emit_delegation_done on (sp_ws (pd_params pd)) (pd_from pd) (pd_target pd) (sp_conv (pd_params pd)) (pd_id pd) AmFailed
       (fst (update_agent_message_failed (pd_id pd) e c))"

definition stored_text :: "string \<Rightarrow> string" where
  "stored_text t = (if length t > agentMessageMaxStoredBytes
     then take agentMessageMaxStoredBytes t @ agentMessageTruncatedMarker else t)"

definition settle_message :: "bool \<Rightarrow> pending_send \<Rightarrow> runtime_reply \<Rightarrow> messaging \<Rightarrow> messaging \<times> send_result" where
  "settle_message on pd reply c = (case reply of
     NotReady e \<Rightarrow> (fail_agent_message on pd e c,
       \<lparr>sr_success = False, sr_slug = pd_slug pd, sr_response = '''', sr_id = pd_id pd, sr_error = ''runtime not ready: '' @ e\<rparr>)
   | CallFailed e \<Rightarrow> (fail_agent_message on pd e c,
       \<lparr>sr_success = False, sr_slug = pd_slug pd, sr_response = '''', sr_id = pd_id pd, sr_error = e\<rparr>)
   | Turns ts \<Rightarrow>
       let t = join_turns ts;
           c1 = fst (update_agent_message_completed (pd_id pd) (stored_text t) c)
       in (emit_delegation_done on (sp_ws (pd_params pd)) (pd_from pd) (pd_target pd) (sp_conv (pd_params pd)) (pd_id pd) AmCompleted c1,
           \<lparr>sr_success = True, sr_slug = pd_slug pd, sr_response = t, sr_id = pd_id pd, sr_error = ''''\<rparr>))"

text \<open>
  The runtime gets the user, the workspace, the conversation as the session, the slug and the message,
  and may change the tables.
\<close>

type_synonym runtime = "send_params \<Rightarrow> string \<Rightarrow> string \<Rightarrow> messaging \<Rightarrow> messaging \<times> runtime_reply"

definition call_agent_runtime ::
  "(send_params \<Rightarrow> messaging \<Rightarrow> string) \<Rightarrow> runtime \<Rightarrow> bool \<Rightarrow> pending_send \<Rightarrow> messaging \<Rightarrow> messaging \<times> send_result" where
  "call_agent_runtime context rt on pd c =
     (let full = build_full_message context (pd_params pd) (pd_text pd) c;
          (c1, reply) = rt (pd_params pd) (pd_slug pd) full c
      in settle_message on pd reply c1)"

definition send_message_to_agent ::
  "(send_params \<Rightarrow> messaging \<Rightarrow> string) \<Rightarrow> runtime \<Rightarrow> bool \<Rightarrow> bool \<Rightarrow> send_params \<Rightarrow> messaging \<Rightarrow> messaging \<times> send_result" where
  "send_message_to_agent context rt configured on p c =
     (case start_message configured on p c of
        (c1, Inl r) \<Rightarrow> (c1, r)
      | (c1, Inr pd) \<Rightarrow> call_agent_runtime context rt on pd c1)"

end
