(* ===== verification/Agent_Messages_Props.thy ===== *)
theory Agent_Messages_Props
  imports Agent_Messages
begin

text \<open>
  What the depth limit of agent messages guarantees, over every interleaving of starts and
  settlements (\<open>mg_step\<close>), and the two ways around it: a caller that cannot be identified is never
  counted, and a response that cannot be stored is counted for ever.
\<close>

section \<open>Steps\<close>

inductive mg_step :: "messaging \<Rightarrow> messaging \<Rightarrow> bool" where
  start: "start_message configured on p c = (c', r) \<Longrightarrow> mg_step c c'"
| settle: "settle_message on pd reply c = (c', r) \<Longrightarrow> mg_step c c'"

text \<open>The parts no operation writes.\<close>

definition same_frame :: "messaging \<Rightarrow> messaging \<Rightarrow> bool" where
  "same_frame c c' \<longleftrightarrow> mg_workspaces c' = mg_workspaces c \<and> mg_convs c' = mg_convs c \<and> mg_agents c' = mg_agents c
     \<and> mg_fails c' = mg_fails c \<and> mg_uuids c' = mg_uuids c"

lemma same_frame_refl [simp]: "same_frame c c"
  by (simp add: same_frame_def)

lemma same_frame_trans: "same_frame a b \<Longrightarrow> same_frame b c \<Longrightarrow> same_frame a c"
  by (simp add: same_frame_def)

lemma stmt_frame: "same_frame c (fst (mg_stmt msg ok q f c))"
  by (simp add: mg_stmt_def Let_def same_frame_def)

lemma emit_frame [simp]:
  "same_frame c (mg_emit on es c)" "mg_rows (mg_emit on es c) = mg_rows c" "mg_calls (mg_emit on es c) = mg_calls c"
  by (simp_all add: mg_emit_def same_frame_def)

lemma stmt_rows: "mg_rows (fst (mg_stmt msg ok q f c)) = (if mg_fails c (mg_calls c) \<or> \<not> ok c then mg_rows c else f (mg_rows c))"
  by (simp add: mg_stmt_def Let_def)

lemma stmt_result: "snd (mg_stmt msg ok q f c) = (if mg_fails c (mg_calls c) \<or> \<not> ok c then Inl (msg @ '': db error'') else Inr (q c))"
  by (simp add: mg_stmt_def Let_def)

text \<open>The state after the depth was read and the id drawn.\<close>

lemma prepare_cases:
  assumes "prepare_agent_message p from_agent target caller text c = (c', res)"
  obtains (refused) d where "res = Inl (depth_error d)" "mg_rows c' = mg_rows c" "same_frame c c'"
  | (accepted) c2 i row where "res = Inr i" "c' = fst (create_agent_message row c2)" "mg_rows c2 = mg_rows c" "same_frame c c2"
      "am_ws row = sp_ws p" "am_conv row = sp_conv p" "am_state row = AmRunning" "am_id row = i"
      "am_from row = (case from_agent of Some a \<Rightarrow> ag_id a | None \<Rightarrow> '''')"
      "am_depth row = (case snd (get_max_agent_message_depth (sp_ws p) (sp_conv p) c) of Inl e \<Rightarrow> -1 | Inr n \<Rightarrow> n) + 1"
      "am_depth row < maxAgentDepth"
proof -
  obtain c1 d where g: "get_max_agent_message_depth (sp_ws p) (sp_conv p) c = (c1, d)" by fastforce
  define n where "n = (case d of Inl e \<Rightarrow> -1 | Inr n \<Rightarrow> n) + 1"
  have f: "same_frame c c1" "mg_rows c1 = mg_rows c"
    using g by (auto simp: get_max_agent_message_depth_def mg_stmt_def Let_def same_frame_def split: if_splits)
  obtain c2 i where u: "mg_new_uuid c1 = (c2, i)" by fastforce
  have f2: "same_frame c c2" "mg_rows c2 = mg_rows c"
    using f u by (auto simp: mg_new_uuid_def same_frame_def)
  note a = assms [unfolded prepare_agent_message_def Let_def g u prod.case, folded n_def]
  show thesis
  proof (cases "n \<ge> maxAgentDepth")
    case True
    then show thesis using a refused f by auto
  next
    case False
    then show thesis using a by (intro accepted [OF _ _ f2(2) f2(1)]) (auto simp: g n_def)
  qed
qed

lemma start_cases:
  assumes "start_message configured on p c = (c', res)"
  obtains (refused) r where "res = Inl r" "mg_rows c' = mg_rows c" "same_frame c c'"
  | (accepted) c1 c2 ags target from_agent caller i where "configured"
      "list_agents (sp_ws p) c = (c1, Inr ags)" "same_frame c c1" "mg_rows c1 = mg_rows c"
      "resolve_agents ags (trim_space (sp_slug p)) (sp_session p) = Inr (target, from_agent, caller)"
      "prepare_agent_message p from_agent target caller (trim_space (sp_text p)) c1 = (c2, Inr i)"
      "mg_rows c' = mg_rows c2" "same_frame c2 c'" "mg_calls c' = mg_calls c2"
      "res = Inr \<lparr>pd_params = p, pd_slug = trim_space (sp_slug p), pd_from = from_agent, pd_target = target,
          pd_text = trim_space (sp_text p), pd_id = i\<rparr>"
proof -
  consider "\<not> configured" | "configured" "trim_space (sp_slug p) = '''' \<or> trim_space (sp_text p) = ''''"
    | "configured" "\<not> (trim_space (sp_slug p) = '''' \<or> trim_space (sp_text p) = '''')" by blast
  then show thesis
  proof cases
    case 1
    then show thesis using assms refused by (auto simp: start_message_def)
  next
    case 2
    then show thesis using assms refused by (auto simp: start_message_def Let_def)
  next
    case 3
    obtain c1 l where l: "list_agents (sp_ws p) c = (c1, l)" by fastforce
    have f: "same_frame c c1" "mg_rows c1 = mg_rows c"
      using l stmt_frame [of c] by (auto simp: list_agents_def mg_stmt_def Let_def same_frame_def split: if_splits)
    note a = assms [unfolded start_message_def Let_def if_not_P [OF 3(2)] l prod.case]
    show thesis
    proof (cases l)
      case (Inl e)
      then show thesis using a 3(1) refused f by auto
    next
      case (Inr ags)
      note a = a [unfolded Inr sum.case]
      show thesis
      proof (cases "resolve_agents ags (trim_space (sp_slug p)) (sp_session p)")
        case (Inl e)
        then show thesis using a 3(1) refused f by auto
      next
        case r: (Inr x)
        obtain target from_agent caller where x: "x = (target, from_agent, caller)" using prod_cases3 by blast
        obtain c2 y where pr: "prepare_agent_message p from_agent target caller (trim_space (sp_text p)) c1 = (c2, y)" by fastforce
        note a = a [unfolded r x sum.case prod.case pr]
        show thesis
        proof (cases y)
          case (Inl e)
          from pr [unfolded Inl] have "mg_rows c2 = mg_rows c1 \<and> same_frame c1 c2"
            by (cases rule: prepare_cases) auto
          then show thesis using a Inl 3(1) refused [of "send_error e"] f same_frame_trans [of c c1 c2] by auto
        next
          case (Inr i)
          then show thesis
            using a 3(1) by (intro accepted [OF 3(1) l [unfolded \<open>l = Inr ags\<close>] f r [unfolded x] pr [unfolded Inr]])
              (auto simp: emit_delegation_started_def)
        qed
      qed
    qed
  qed
qed

lemma settle_rows:
  "mg_rows (fst (settle_message on pd reply c)) = mg_rows c
   \<or> (\<exists>f. mg_rows (fst (settle_message on pd reply c)) = map (\<lambda>r. if am_id r = pd_id pd then f r else r) (mg_rows c)
        \<and> (\<forall>r. am_state (f r) \<in> {AmCompleted, AmFailed} \<and> am_ws (f r) = am_ws r \<and> am_conv (f r) = am_conv r \<and> am_depth (f r) = am_depth r))"
  by (cases reply) (auto simp: settle_message_def fail_agent_message_def update_agent_message_failed_def
      update_agent_message_completed_def finalise_agent_message_def stmt_rows emit_delegation_done_def Let_def)

lemma settle_frame: "same_frame c (fst (settle_message on pd reply c))"
  by (cases reply) (auto simp: settle_message_def fail_agent_message_def update_agent_message_failed_def
      update_agent_message_completed_def finalise_agent_message_def emit_delegation_done_def Let_def mg_stmt_def mg_emit_def same_frame_def)

section \<open>The depth limit\<close>

definition depths :: "string \<Rightarrow> string \<Rightarrow> messaging \<Rightarrow> int list" where
  "depths ws cv c = map am_depth (filter (active_in ws cv) (mg_rows c))"

text \<open>No statement fails, and the active rows of a conversation have distinct depths below the limit.\<close>

definition depths_ok :: "messaging \<Rightarrow> bool" where
  "depths_ok c \<longleftrightarrow> mg_fails c = (\<lambda>_. False)
     \<and> (\<forall>ws cv. distinct (depths ws cv c) \<and> set (depths ws cv c) \<subseteq> {0..<maxAgentDepth})"

lemma max_depth_bounds:
  assumes "set (map am_depth rs) \<subseteq> {0..}"
  shows "-1 \<le> max_depth rs" and "x \<in> set (map am_depth rs) \<Longrightarrow> x \<le> max_depth rs"
proof -
  show "x \<in> set (map am_depth rs) \<Longrightarrow> x \<le> max_depth rs" by (auto simp: max_depth_def)
  have "Max (set (map am_depth rs)) \<in> set (map am_depth rs)" if "rs \<noteq> []" using that by (intro Max_in) auto
  then show "-1 \<le> max_depth rs" using assms by (fastforce simp: max_depth_def)
qed

lemma distinct_depths_filter:
  "distinct (map am_depth (filter P rs)) \<Longrightarrow> distinct (map am_depth (filter (\<lambda>r. P r \<and> Q r) rs))"
  by (induction rs) (auto split: if_splits)

lemma settle_depths:
  assumes "depths_ok c" "settle_message on pd reply c = (c', r)"
  shows "depths_ok c'"
proof -
  have f: "mg_fails c' = mg_fails c" using settle_frame [of c on pd reply] assms(2) by (simp add: same_frame_def)
  have "distinct (depths ws cv c') \<and> set (depths ws cv c') \<subseteq> set (depths ws cv c)" for ws cv
    using settle_rows [of on pd reply c]
  proof
    assume "mg_rows (fst (settle_message on pd reply c)) = mg_rows c"
    then show ?thesis using assms by (simp add: depths_ok_def depths_def)
  next
    assume "\<exists>f. mg_rows (fst (settle_message on pd reply c)) = map (\<lambda>r. if am_id r = pd_id pd then f r else r) (mg_rows c)
        \<and> (\<forall>r. am_state (f r) \<in> {AmCompleted, AmFailed} \<and> am_ws (f r) = am_ws r \<and> am_conv (f r) = am_conv r \<and> am_depth (f r) = am_depth r)"
    then obtain f where f: "mg_rows c' = map (\<lambda>r. if am_id r = pd_id pd then f r else r) (mg_rows c)"
      "\<And>r. am_state (f r) \<in> {AmCompleted, AmFailed}" using assms(2) by auto
    have n: "\<not> active_in ws cv (f r)" for r using f(2) [of r] by (auto simp: active_in_def)
    have "filter (active_in ws cv) (map (\<lambda>r. if am_id r = pd_id pd then f r else r) rs)
        = filter (\<lambda>r. active_in ws cv r \<and> am_id r \<noteq> pd_id pd) rs" for rs
      by (induction rs) (auto simp: n)
    then have "depths ws cv c' = map am_depth (filter (\<lambda>r. active_in ws cv r \<and> am_id r \<noteq> pd_id pd) (mg_rows c))"
      by (simp add: depths_def f(1))
    moreover have "distinct (depths ws cv c)" using assms(1) by (simp add: depths_ok_def)
    ultimately show ?thesis
      using distinct_depths_filter [of "active_in ws cv" "mg_rows c" "\<lambda>r. am_id r \<noteq> pd_id pd"] by (auto simp: depths_def)
  qed
  then show ?thesis using assms(1) f unfolding depths_ok_def by (metis subset_trans)
qed

lemma create_rows: "mg_rows (fst (create_agent_message r c)) = mg_rows c
    \<or> mg_rows (fst (create_agent_message r c)) = mg_rows c @ [r] \<and> row_ok r c"
  by (auto simp: create_agent_message_def stmt_rows)

lemma read_depth:
  assumes "mg_fails c = (\<lambda>_. False)"
  shows "(case snd (get_max_agent_message_depth ws cv c) of Inl e \<Rightarrow> -1 | Inr n \<Rightarrow> n)
    = (if ws = '''' \<or> cv = '''' then -1 else max_depth (filter (active_in ws cv) (mg_rows c)))"
  using assms by (auto simp: get_max_agent_message_depth_def stmt_result)

lemma start_depths:
  assumes "depths_ok c" "start_message configured on p c = (c', r)"
  shows "depths_ok c'"
  using assms(2)
proof (cases rule: start_cases)
  case (refused r)
  then show ?thesis using assms(1) by (simp add: depths_ok_def depths_def same_frame_def)
next
  case (accepted c1 c2 ags target from_agent caller i)
  have ok1: "depths_ok c1" using assms(1) accepted(3,4) by (simp add: depths_ok_def depths_def same_frame_def)
  from accepted(6) have "depths_ok c2"
  proof (cases rule: prepare_cases)
    case (accepted c3 j row)
    have fr: "same_frame c3 c2" unfolding accepted(2) create_agent_message_def by (rule stmt_frame)
    have fails: "mg_fails c2 = (\<lambda>_. False)" using ok1 accepted(4) fr by (simp add: depths_ok_def same_frame_def)
    consider (kept) "mg_rows c2 = mg_rows c1" | (added) "mg_rows c2 = mg_rows c1 @ [row]" "row_ok row c3"
      using create_rows [of row c3] accepted(2,3) by auto
    then show ?thesis
    proof cases
      case kept
      then show ?thesis using ok1 fails by (simp add: depths_ok_def depths_def)
    next
      case added
      let ?rs = "filter (active_in (sp_ws p) (sp_conv p)) (mg_rows c1)"
      have ne: "sp_ws p \<noteq> ''''" "sp_conv p \<noteq> ''''" using added(2) accepted(5,6) by (simp_all add: row_ok_def)
      have d: "am_depth row = max_depth ?rs + 1"
        using accepted(10) ok1 ne by (simp add: read_depth depths_ok_def)
      have b: "set (map am_depth ?rs) \<subseteq> {0..<maxAgentDepth}" "distinct (map am_depth ?rs)"
        using ok1 by (auto simp: depths_ok_def depths_def)
      then have "set (map am_depth ?rs) \<subseteq> {0..}" by fastforce
      from max_depth_bounds [OF this] have n: "0 \<le> am_depth row" "am_depth row \<notin> set (map am_depth ?rs)"
        using d by force+
      have "distinct (depths ws cv c2) \<and> set (depths ws cv c2) \<subseteq> {0..<maxAgentDepth}" for ws cv
      proof (cases "ws = sp_ws p \<and> cv = sp_conv p")
        case True
        then have "depths ws cv c2 = map am_depth ?rs @ [am_depth row]"
          using added(1) accepted(5-7) by (simp add: depths_def active_in_def)
        then show ?thesis using b n accepted(11) by simp
      next
        case False
        then have "depths ws cv c2 = depths ws cv c1"
          using added(1) accepted(5-7) by (auto simp: depths_def active_in_def)
        then show ?thesis using ok1 by (simp add: depths_ok_def)
      qed
      then show ?thesis using fails by (simp add: depths_ok_def)
    qed
  qed simp
  then show ?thesis using accepted(7,8) by (simp add: depths_ok_def depths_def same_frame_def)
qed

lemma steps_depths: "mg_step\<^sup>*\<^sup>* c c' \<Longrightarrow> depths_ok c \<Longrightarrow> depths_ok c'"
  by (induction rule: rtranclp_induct) (auto elim!: mg_step.cases intro: start_depths settle_depths)


section \<open>When a start is accepted\<close>

lemma prepare_result:
  assumes "mg_fails c = (\<lambda>_. False)"
  shows "\<exists>x. snd (prepare_agent_message p from_agent target caller text c) =
    (if (if sp_ws p = '''' \<or> sp_conv p = '''' then -1 else max_depth (filter (active_in (sp_ws p) (sp_conv p)) (mg_rows c))) + 1
        \<ge> maxAgentDepth
     then Inl x else Inr x)"
proof -
  obtain c1 d where g: "get_max_agent_message_depth (sp_ws p) (sp_conv p) c = (c1, d)" by fastforce
  have "(case d of Inl e \<Rightarrow> -1 | Inr n \<Rightarrow> n) =
      (if sp_ws p = '''' \<or> sp_conv p = '''' then -1 else max_depth (filter (active_in (sp_ws p) (sp_conv p)) (mg_rows c)))"
    using read_depth [OF assms, of "sp_ws p" "sp_conv p"] by (simp only: g snd_conv)
  then show ?thesis
    by (auto simp: prepare_agent_message_def Let_def g mg_new_uuid_def)
qed

lemma start_accepts:
  assumes "mg_fails c = (\<lambda>_. False)"
  shows "(\<exists>pd. snd (start_message configured on p c) = Inr pd) \<longleftrightarrow>
    configured \<and> trim_space (sp_slug p) \<noteq> '''' \<and> trim_space (sp_text p) \<noteq> '''' \<and> \<not> blank (sp_ws p)
    \<and> (\<exists>x. resolve_agents (mg_agents c (sp_ws p)) (trim_space (sp_slug p)) (sp_session p) = Inr x)
    \<and> (if sp_ws p = '''' \<or> sp_conv p = '''' then -1 else max_depth (filter (active_in (sp_ws p) (sp_conv p)) (mg_rows c))) + 1 < maxAgentDepth"
proof (cases "configured \<and> trim_space (sp_slug p) \<noteq> '''' \<and> trim_space (sp_text p) \<noteq> '''' \<and> \<not> blank (sp_ws p)")
  case True
  define c1 where "c1 = c\<lparr>mg_calls := Suc (mg_calls c)\<rparr>"
  have l: "list_agents (sp_ws p) c = (c1, Inr (mg_agents c (sp_ws p)))"
    using True assms by (simp add: list_agents_def mg_stmt_def Let_def c1_def)
  have f1: "mg_fails c1 = (\<lambda>_. False)" "mg_rows c1 = mg_rows c" using assms by (simp_all add: c1_def)
  show ?thesis
  proof (cases "resolve_agents (mg_agents c (sp_ws p)) (trim_space (sp_slug p)) (sp_session p)")
    case (Inl e)
    then show ?thesis using True by (simp add: start_message_def Let_def l)
  next
    case (Inr x)
    obtain target from_agent caller where x: "x = (target, from_agent, caller)" using prod_cases3 by blast
    obtain c2 y where pr: "prepare_agent_message p from_agent target caller (trim_space (sp_text p)) c1 = (c2, y)" by fastforce
    have y: "(\<exists>i. y = Inr i) \<longleftrightarrow> (if sp_ws p = '''' \<or> sp_conv p = '''' then -1
        else max_depth (filter (active_in (sp_ws p) (sp_conv p)) (mg_rows c))) + 1 < maxAgentDepth"
      using prepare_result [OF f1(1), of p from_agent target caller "trim_space (sp_text p)"] pr f1(2) by (auto split: if_splits)
    have "(\<exists>pd. snd (start_message configured on p c) = Inr pd) \<longleftrightarrow> (\<exists>i. y = Inr i)"
      using True by (cases y) (simp_all add: start_message_def Let_def l Inr x pr)
    then show ?thesis using True Inr y by blast
  qed
next
  case False
  then show ?thesis by (auto simp: start_message_def list_agents_def Let_def)
qed

text \<open>A session without a colon names no caller, and the row of the message is refused.\<close>

lemma no_colon_split: "CHR 0x3A \<notin> set s \<Longrightarrow> split_n_acc n '':'' acc s = [rev acc @ s]"
  by (induction n "'':''" acc s rule: split_n_acc.induct) (auto simp: has_prefix_def)

lemma no_colon_caller: "CHR 0x3A \<notin> set s \<Longrightarrow> calling_slug s = ''''"
  by (simp add: calling_slug_def split_n_def no_colon_split)

lemma last_with_none: "(\<And>a. a \<in> set ags \<Longrightarrow> \<not> p a) \<Longrightarrow> last_with p ags = None"
proof -
  assume n: "\<And>a. a \<in> set ags \<Longrightarrow> \<not> p a"
  have "foldl (\<lambda>t a. if p a then Some a else t) t ags = t" for t
    using n by (induction ags arbitrary: t) auto
  then show ?thesis by (simp add: last_with_def)
qed

lemma anonymous_start:
  assumes "CHR 0x3A \<notin> set (sp_session p)" "start_message configured on p c = (c', res)"
  shows "mg_rows c' = mg_rows c \<and> same_frame c c'"
  using assms(2)
proof (cases rule: start_cases)
  case (accepted c1 c2 ags target from_agent caller i)
  have "last_with (\<lambda>a. calling_slug (sp_session p) \<noteq> '''' \<and> ag_slug a = calling_slug (sp_session p)) ags = None"
    by (rule last_with_none) (simp add: no_colon_caller [OF assms(1)])
  then have fr: "from_agent = None"
    using accepted(5) by (auto simp: resolve_agents_def Let_def split: option.splits if_splits)
  from accepted(6) have "mg_rows c2 = mg_rows c1 \<and> same_frame c1 c2"
  proof (cases rule: prepare_cases)
    case (accepted c3 j row)
    have "\<not> row_ok row c3" using accepted(9) fr by (simp add: row_ok_def known_agent_def)
    then have "mg_rows c2 = mg_rows c3" using create_rows [of row c3] accepted(2) by auto
    moreover have "same_frame c3 c2" unfolding accepted(2) create_agent_message_def by (rule stmt_frame)
    ultimately show ?thesis using accepted(3,4) same_frame_trans by simp
  qed simp
  then show ?thesis using accepted(3,4,7,8) same_frame_trans [of c c1 c2] same_frame_trans [of c c2 c'] by simp
qed simp

text \<open>Calls whose session does not name the calling agent after a colon escape the depth limit: once such
  a call is accepted, every further nested call is accepted, any number of times, and none of them is
  recorded.
\<close>

theorem anonymous_unlimited:
  assumes "CHR 0x3A \<notin> set (sp_session p)" "mg_fails c = (\<lambda>_. False)" "start_message configured on p c = (c1, Inr pd)"
  shows "\<exists>pd'. snd (start_message configured on p (((\<lambda>s. fst (start_message configured on p s)) ^^ n) c)) = Inr pd'
    \<and> mg_rows (((\<lambda>s. fst (start_message configured on p s)) ^^ n) c) = mg_rows c"
proof -
  let ?next = "\<lambda>s. fst (start_message configured on p s)"
  define d where "d = (?next ^^ n) c"
  have "mg_rows ((?next ^^ n) c) = mg_rows c \<and> same_frame c ((?next ^^ n) c)"
  proof (induction n)
    case (Suc n)
    obtain s' r where s: "start_message configured on p ((?next ^^ n) c) = (s', r)" by fastforce
    then show ?case using anonymous_start [OF assms(1) s] Suc same_frame_trans [of c "(?next ^^ n) c" s'] by simp
  qed simp
  then have d: "mg_rows d = mg_rows c" "mg_fails d = (\<lambda>_. False)" "mg_agents d = mg_agents c"
    using assms(2) by (simp_all add: same_frame_def flip: d_def)
  have "(\<exists>pd. snd (start_message configured on p d) = Inr pd) = (\<exists>pd. snd (start_message configured on p c) = Inr pd)"
    by (simp only: start_accepts [OF d(2)] start_accepts [OF assms(2)] d)
  then show ?thesis using assms(3) d(1) by (simp flip: d_def)
qed

section \<open>Responses that cannot be stored\<close>

lemma stored_text_cut:
  assumes "length t > agentMessageMaxStoredBytes" "\<not> valid_utf8 (take agentMessageMaxStoredBytes t)"
  shows "\<not> pg_text (stored_text t)"
proof
  assume "pg_text (stored_text t)"
  then have "valid_utf8 (take agentMessageMaxStoredBytes t @ CHR 0x0A # ''[truncated]'')"
    using assms(1) by (simp add: pg_text_def stored_text_def agentMessageTruncatedMarker_def)
  then show False using valid_before_ascii assms(2) by fastforce
qed

lemma blocked:
  assumes "mg_fails c = (\<lambda>_. False)" "r \<in> set (mg_rows c)" "active_in ws cv r" "am_depth r = maxAgentDepth - 1"
    "ws \<noteq> ''''" "cv \<noteq> ''''" "sp_ws p = ws" "sp_conv p = cv"
  shows "\<exists>x. snd (start_message configured on p c) = Inl x"
proof -
  let ?rs = "filter (active_in ws cv) (mg_rows c)"
  have "am_depth r \<in> set (map am_depth ?rs)" "?rs \<noteq> []" using assms(2,3) by (auto simp: filter_empty_conv)
  then have "maxAgentDepth - 1 \<le> max_depth ?rs" using assms(4) Max_ge [of "set (map am_depth ?rs)" "am_depth r"]
    by (simp add: max_depth_def)
  then have "\<not> (\<exists>pd. snd (start_message configured on p c) = Inr pd)"
    unfolding start_accepts [OF assms(1)] using assms(5-8) by simp
  then show ?thesis by (cases "snd (start_message configured on p c)") auto
qed

text \<open>A response over the limit whose cut falls into a character is reported as a success, but its row is not
  completed: it stays active for ever, and when it was the deepest the limit allows, every later message
  of the conversation is refused.
\<close>

theorem lost_completion:
  assumes "mg_fails c = (\<lambda>_. False)" "r \<in> set (mg_rows c)" "active_in ws cv r" "am_depth r = maxAgentDepth - 1"
    and "ws \<noteq> ''''" "cv \<noteq> ''''" "length (join_turns ts) > agentMessageMaxStoredBytes"
    and "\<not> valid_utf8 (take agentMessageMaxStoredBytes (join_turns ts))"
    and "settle_message on pd (Turns ts) c = (c', res)" "sp_ws p = ws" "sp_conv p = cv"
  shows "sr_success res \<and> mg_rows c' = mg_rows c \<and> (\<exists>x. snd (start_message configured on' p c') = Inl x)"
proof -
  have "\<not> pg_text (stored_text (join_turns ts))" using stored_text_cut assms(7,8) by blast
  then have rows: "mg_rows c' = mg_rows c" and s: "sr_success res"
    using assms(9) by (auto simp: settle_message_def Let_def update_agent_message_completed_def finalise_agent_message_def
        emit_delegation_done_def stmt_rows)
  have "mg_fails c' = (\<lambda>_. False)" using settle_frame [of c on pd "Turns ts"] assms(1,9) by (simp add: same_frame_def)
  from blocked [OF this _ assms(3-6,10,11)] rows s assms(2) show ?thesis by simp
qed

section \<open>Witnesses\<close>

definition ex_agents :: "agent list" where
  "ex_agents = [\<lparr>ag_id = ''a1'', ag_slug = ''manager'', ag_name = ''M'', ag_manager = True\<rparr>,
     \<lparr>ag_id = ''a2'', ag_slug = ''writer'', ag_name = ''W'', ag_manager = False\<rparr>]"

definition ex_messaging :: messaging where
  "ex_messaging = \<lparr>mg_rows = [], mg_workspaces = [''w''], mg_convs = [''c''], mg_agents = (\<lambda>w. ex_agents), mg_events = [],
     mg_uuid = 0, mg_uuids = (\<lambda>k. ''id'' @ show_nat k), mg_calls = 0, mg_fails = (\<lambda>_. False)\<rparr>"

definition ex_send :: "string \<Rightarrow> send_params" where
  "ex_send session = \<lparr>sp_user = ''u'', sp_ws = ''w'', sp_session = session, sp_slug = ''writer'', sp_text = ''draft it'', sp_conv = ''c''\<rparr>"


theorem anonymous_unlimited_witness:
  "\<exists>pd. snd (start_message True True (ex_send ''4f2a'')
      (((\<lambda>s. fst (start_message True True (ex_send ''4f2a'') s)) ^^ 100) ex_messaging)) = Inr pd"
proof -
  let ?p = "ex_send ''4f2a''"
  have "\<not> sr_error_result (snd (start_message True True ?p ex_messaging))" if "sr_error_result = (\<lambda>x. case x of Inl _ \<Rightarrow> True | Inr _ \<Rightarrow> False)" for sr_error_result
    unfolding that by code_simp
  then obtain c1 pd where s: "start_message True True ?p ex_messaging = (c1, Inr pd)"
    by (cases "start_message True True ?p ex_messaging") (auto split: sum.splits)
  have "CHR 0x3A \<notin> set (sp_session ?p)" "mg_fails ex_messaging = (\<lambda>_. False)" by (simp_all add: ex_send_def ex_messaging_def)
  from anonymous_unlimited [OF this s] show ?thesis by blast
qed

text \<open>32767 letters and a character of two bytes.\<close>

definition ex_long :: string where
  "ex_long = replicate 32767 (CHR ''a'') @ [CHR 0xC3, CHR 0xA9]"

definition ex_row_deep :: agent_message where
  "ex_row_deep = \<lparr>am_id = ''m'', am_ws = ''w'', am_conv = ''c'', am_from = ''a1'', am_from_slug = ''manager'', am_to = ''a2'',
     am_to_slug = ''writer'', am_request = ''q'', am_response = None, am_error = None, am_state = AmRunning, am_depth = 2\<rparr>"

definition ex_pending :: pending_send where
  "ex_pending = \<lparr>pd_params = ex_send ''s:manager'', pd_slug = ''writer'', pd_from = None, pd_target = last ex_agents,
     pd_text = ''q'', pd_id = ''m''\<rparr>"

lemma ex_long_cut: "length (join_turns [ex_long]) > agentMessageMaxStoredBytes"
  "\<not> valid_utf8 (take agentMessageMaxStoredBytes (join_turns [ex_long]))"
proof -
  have t: "take agentMessageMaxStoredBytes (join_turns [ex_long]) = replicate 32767 (CHR ''a'') @ [CHR 0xC3]"
    by (simp add: join_turns_def ex_long_def agentMessageMaxStoredBytes_def)
  have "segs [CHR 0xC3] = [[CHR 0xC3]]" by (simp add: segs_Cons)
  moreover have "\<not> valid_rune [CHR 0xC3]" by (simp add: valid_rune_def)
  ultimately show "\<not> valid_utf8 (take agentMessageMaxStoredBytes (join_turns [ex_long]))"
    unfolding t valid_utf8_def by (simp add: segs_replicate_ascii)
  show "length (join_turns [ex_long]) > agentMessageMaxStoredBytes"
    by (simp add: join_turns_def ex_long_def agentMessageMaxStoredBytes_def)
qed

theorem lost_completion_witness:
  "\<exists>c' res x. settle_message True ex_pending (Turns [ex_long]) (ex_messaging\<lparr>mg_rows := [ex_row_deep]\<rparr>) = (c', res)
     \<and> sr_success res \<and> mg_rows c' = [ex_row_deep] \<and> snd (start_message True True (ex_send ''s:manager'') c') = Inl x"
proof -
  let ?c = "ex_messaging\<lparr>mg_rows := [ex_row_deep]\<rparr>"
  obtain c' res where s: "settle_message True ex_pending (Turns [ex_long]) ?c = (c', res)" by fastforce
  have "sr_success res \<and> mg_rows c' = mg_rows ?c \<and> (\<exists>x. snd (start_message True True (ex_send ''s:manager'') c') = Inl x)"
    by (rule lost_completion [where r = ex_row_deep and ws = "''w''" and cv = "''c''", OF _ _ _ _ _ _ ex_long_cut s])
      (simp_all add: ex_messaging_def ex_row_deep_def active_in_def maxAgentDepth_def ex_send_def)
  then show ?thesis using s by auto
qed

end
