(* ===== verification/Artifacts.thy ===== *)
theory Artifacts
  imports Questions
begin

text \<open>
  Artifacts the agents write: \<open>mcpservice/artifacts.go\<close>, \<open>repo/artifactrepo\<close> and the
  status update of \<open>repo/mcprepo\<close>. The state adds to the chat tables the artifacts, their
  versions and reviews. Statements are numbered with those of the chat. Inside a transaction a statement
  that the database rejects aborts it, also when the code goes on, and the commit of an aborted
  transaction fails. The cards and the broadcasts about artifacts are recorded in order.
\<close>

section \<open>Data\<close>

record artifact_row =
  af_id :: string
  af_ws :: string
  af_conv :: "string option"
  af_title :: string
  af_ctype :: string
  af_version :: int
  af_status :: string
  af_agent :: "string option"
  af_created :: int
  af_updated :: int

record version_row =
  vr_id :: string
  vr_artifact :: string
  vr_version :: int
  vr_content :: string
  vr_summary :: string
  vr_agent :: "string option"
  vr_slug :: string
  vr_created :: int

record review_row =
  rv_id :: string
  rv_artifact :: string
  rv_version :: int
  rv_agent :: string
  rv_slug :: string
  rv_outcome :: string
  rv_comments :: string
  rv_created :: int

datatype artifact_action = ActCreated | ActUpdated | ActReviewed

record artifact_event =
  ae_ws :: string
  ae_artifact :: string
  ae_conv :: string
  ae_title :: string
  ae_version :: int
  ae_action :: artifact_action
  ae_agent :: string
  ae_slug :: string

text \<open>The fields of a chat card that are about the artifact.\<close>

record artifact_card =
  cd_message :: string
  cd_title :: string
  cd_status :: string
  cd_artifact :: string
  cd_version :: int
  cd_slug :: string
  cd_name :: string

record studio =
  sd_chat :: chat
  sd_artifacts :: "artifact_row list"
  sd_versions :: "version_row list"
  sd_reviews :: "review_row list"
  sd_order :: "review_row list \<Rightarrow> review_row list"
  sd_events :: "artifact_event list"
  sd_cards :: "artifact_card list"
  sd_aborted :: bool

type_synonym 'a studio_repo = "studio \<Rightarrow> studio \<times> (gerror + 'a)"
type_synonym 'a studio_call = "studio \<Rightarrow> studio \<times> (ask_error + 'a)"

record create_params =
  cp_agent_id :: string
  cp_agent_slug :: string
  cp_conv :: string
  cp_title :: string
  cp_ctype :: string
  cp_content :: string

record update_params =
  ua_artifact :: string
  ua_content :: string
  ua_summary :: string
  ua_expected :: int
  ua_agent_id :: string
  ua_agent_slug :: string

record review_params =
  rp_artifact :: string
  rp_version :: int
  rp_outcome :: string
  rp_comments :: string
  rp_agent_id :: string
  rp_agent_slug :: string

record read_result =
  rd_id :: string
  rd_title :: string
  rd_ctype :: string
  rd_content :: string
  rd_version :: int
  rd_status :: string
  rd_reviews :: "review_row list"

definition ArtifactStatusDraft :: string where "ArtifactStatusDraft = ''draft''"
definition ArtifactReviewApproved :: string where "ArtifactReviewApproved = ''approved''"

definition ErrArtifactNotFound :: gerror where "ErrArtifactNotFound = biz ''Artifact not found'' ''ART0001''"
definition ErrArtifactVersionNotFound :: gerror where
  "ErrArtifactVersionNotFound = biz ''Artifact version not found'' ''ART0002''"

section \<open>Statements and transactions\<close>

definition in_chat :: "(chat \<Rightarrow> chat \<times> 'a) \<Rightarrow> studio \<Rightarrow> studio \<times> 'a" where
  "in_chat m s = (case m (sd_chat s) of (c, r) \<Rightarrow> (s\<lparr>sd_chat := c\<rparr>, r))"

definition studio_stmt :: "string \<Rightarrow> (studio \<Rightarrow> bool) \<Rightarrow> (studio \<Rightarrow> 'a) \<Rightarrow> (studio \<Rightarrow> studio) \<Rightarrow> 'a studio_repo" where
  "studio_stmt msg ok q f s =
     (let c = sd_chat s; s1 = s\<lparr>sd_chat := c\<lparr>ch_calls := Suc (ch_calls c)\<rparr>\<rparr> in
      if ch_fails c (ch_calls c) \<or> \<not> ok s then (s1\<lparr>sd_aborted := True\<rparr>, Inl (srv (msg @ '': db error'')))
      else (f s1, Inr (q s)))"

definition studio_bind :: "('s \<Rightarrow> 's \<times> ('e + 'a)) \<Rightarrow> ('e \<Rightarrow> 'f) \<Rightarrow> ('a \<Rightarrow> 's \<Rightarrow> 's \<times> ('f + 'b)) \<Rightarrow> 's \<Rightarrow> 's \<times> ('f + 'b)" where
  "studio_bind m f k s = (case m s of (s1, Inl e) \<Rightarrow> (s1, Inl (f e)) | (s1, Inr a) \<Rightarrow> k a s1)"

definition studio_rollback :: "studio \<Rightarrow> studio \<Rightarrow> studio" where
  "studio_rollback s0 s = s\<lparr>sd_artifacts := sd_artifacts s0, sd_versions := sd_versions s0, sd_reviews := sd_reviews s0\<rparr>"

definition studio_transaction :: "string \<Rightarrow> 'a studio_repo \<Rightarrow> 'a studio_repo" where
  "studio_transaction op fn s =
     (case studio_stmt (''begin '' @ op @ '' transaction'') (\<lambda>s. True) (\<lambda>s. ()) (\<lambda>s. s\<lparr>sd_aborted := False\<rparr>) s of
        (s1, Inl e) \<Rightarrow> (s1, Inl e)
      | (s1, Inr _) \<Rightarrow>
          (case fn s1 of
             (s2, Inl e) \<Rightarrow> (studio_rollback s1 s2, Inl e)
           | (s2, Inr a) \<Rightarrow>
               (case studio_stmt (''commit '' @ op @ '' transaction'') (\<lambda>s. \<not> sd_aborted s) (\<lambda>s. ()) (\<lambda>s. s) s2 of
                  (s3, Inl e) \<Rightarrow> (studio_rollback s1 s3, Inl e)
                | (s3, Inr _) \<Rightarrow> (s3, Inr a))))"

section \<open>Repositories\<close>

definition has_agent :: "studio \<Rightarrow> string \<Rightarrow> bool" where
  "has_agent s i \<longleftrightarrow> ch_agents (sd_chat s) i \<noteq> None"

definition has_artifact :: "studio \<Rightarrow> string \<Rightarrow> bool" where
  "has_artifact s i \<longleftrightarrow> i \<in> af_id ` set (sd_artifacts s)"

text \<open>
  An insert: \<open>dup\<close> is a unique key that is taken, which the code takes for success, \<open>ok\<close> the
  foreign keys.
\<close>

definition insert_idempotent ::
  "string \<Rightarrow> (studio \<Rightarrow> bool) \<Rightarrow> (studio \<Rightarrow> bool) \<Rightarrow> (studio \<Rightarrow> studio) \<Rightarrow> unit studio_repo" where
  "insert_idempotent label dup ok f s =
     (if dup s \<and> \<not> ch_fails (sd_chat s) (ch_calls (sd_chat s))
      then (fst (studio_stmt label (\<lambda>s. False) (\<lambda>s. ()) (\<lambda>s. s) s), Inr ())
      else studio_stmt label ok (\<lambda>s. ()) f s)"

definition artifact_create :: "artifact_row \<Rightarrow> unit studio_repo" where
  "artifact_create r = insert_idempotent ''insert artifact'' (\<lambda>s. has_artifact s (af_id r))
     (\<lambda>s. (case af_conv r of None \<Rightarrow> True | Some v \<Rightarrow> ch_convs (sd_chat s) v \<noteq> None)
        \<and> (case af_agent r of None \<Rightarrow> True | Some a \<Rightarrow> has_agent s a))
     (\<lambda>s. s\<lparr>sd_artifacts := sd_artifacts s @ [r]\<rparr>)"

definition artifact_get :: "string \<Rightarrow> string \<Rightarrow> artifact_row studio_repo" where
  "artifact_get ws i s =
     (if blank ws \<or> blank i then (s, Inl ErrInvalidInput)
      else case studio_stmt ''select artifact by id'' (\<lambda>s. True) (\<lambda>s. find (\<lambda>r. af_ws r = ws \<and> af_id r = i) (sd_artifacts s)) (\<lambda>s. s) s of
        (s1, Inl e) \<Rightarrow> (s1, Inl e)
      | (s1, Inr None) \<Rightarrow> (s1, Inl ErrArtifactNotFound)
      | (s1, Inr (Some r)) \<Rightarrow> (s1, Inr r))"

definition update_artifacts :: "string \<Rightarrow> (artifact_row \<Rightarrow> artifact_row) \<Rightarrow> studio \<Rightarrow> studio" where
  "update_artifacts i f s = s\<lparr>sd_artifacts := map (\<lambda>r. if af_id r = i then f r else r) (sd_artifacts s)\<rparr>"

definition update_version :: "string \<Rightarrow> int \<Rightarrow> unit studio_repo" where
  "update_version i n s =
     (if blank i then (s, Inl ErrInvalidInput)
      else studio_stmt ''update artifact version'' (\<lambda>s. True) (\<lambda>s. ())
             (\<lambda>s. update_artifacts i (\<lambda>r. r\<lparr>af_version := n, af_updated := ch_now (sd_chat s)\<rparr>) s) s)"

text \<open>\<open>UPDATE \<dots> SET current_version = current_version + 1 \<dots> RETURNING current_version\<close>.\<close>

definition increment_version :: "string \<Rightarrow> int studio_repo" where
  "increment_version i s =
     (if blank i then (s, Inl ErrInvalidInput)
      else case studio_stmt ''increment artifact version'' (\<lambda>s. True) (\<lambda>s. find (\<lambda>r. af_id r = i) (sd_artifacts s))
                 (\<lambda>s. update_artifacts i (\<lambda>r. r\<lparr>af_version := af_version r + 1, af_updated := ch_now (sd_chat s)\<rparr>) s) s of
        (s1, Inl e) \<Rightarrow> (s1, Inl e)
      | (s1, Inr None) \<Rightarrow> (s1, Inl ErrArtifactNotFound)
      | (s1, Inr (Some r)) \<Rightarrow> (s1, Inr (af_version r + 1)))"

definition version_taken :: "version_row \<Rightarrow> studio \<Rightarrow> bool" where
  "version_taken v s \<longleftrightarrow> vr_id v \<in> vr_id ` set (sd_versions s)
     \<or> (vr_artifact v, vr_version v) \<in> (\<lambda>x. (vr_artifact x, vr_version x)) ` set (sd_versions s)"

definition create_version :: "version_row \<Rightarrow> unit studio_repo" where
  "create_version v = insert_idempotent ''insert artifact version'' (version_taken v)
     (\<lambda>s. has_artifact s (vr_artifact v) \<and> (case vr_agent v of None \<Rightarrow> True | Some a \<Rightarrow> has_agent s a))
     (\<lambda>s. s\<lparr>sd_versions := sd_versions s @ [v]\<rparr>)"

definition versions_of :: "string \<Rightarrow> studio \<Rightarrow> version_row list" where
  "versions_of i s = rev (sort_key vr_version (filter (\<lambda>v. vr_artifact v = i) (sd_versions s)))"

definition list_versions :: "string \<Rightarrow> version_row list studio_repo" where
  "list_versions i s =
     (if blank i then (s, Inl ErrInvalidInput)
      else studio_stmt ''list artifact versions'' (\<lambda>s. True) (versions_of i) (\<lambda>s. s) s)"

definition get_latest_version :: "string \<Rightarrow> version_row studio_repo" where
  "get_latest_version i s =
     (if blank i then (s, Inl ErrInvalidInput)
      else case studio_stmt ''select latest artifact version'' (\<lambda>s. True) (versions_of i) (\<lambda>s. s) s of
        (s1, Inl e) \<Rightarrow> (s1, Inl e)
      | (s1, Inr []) \<Rightarrow> (s1, Inl ErrArtifactVersionNotFound)
      | (s1, Inr (v # vs)) \<Rightarrow> (s1, Inr v))"

definition create_review :: "review_row \<Rightarrow> unit studio_repo" where
  "create_review v = insert_idempotent ''insert artifact review'' (\<lambda>s. rv_id v \<in> rv_id ` set (sd_reviews s))
     (\<lambda>s. has_artifact s (rv_artifact v) \<and> has_agent s (rv_agent v))
     (\<lambda>s. s\<lparr>sd_reviews := sd_reviews s @ [v]\<rparr>)"

definition list_reviews :: "string \<Rightarrow> int \<Rightarrow> review_row list studio_repo" where
  "list_reviews i n s =
     (if blank i then (s, Inl ErrInvalidInput)
      else studio_stmt ''list artifact reviews'' (\<lambda>s. True)
        (\<lambda>s. sort_slice (sd_order s) (\<lambda>a b. rv_created b < rv_created a)
           (filter (\<lambda>v. rv_artifact v = i \<and> rv_version v = n) (sd_reviews s))) (\<lambda>s. s) s)"

definition update_artifact_status :: "string \<Rightarrow> string \<Rightarrow> unit studio_repo" where
  "update_artifact_status i st =
     studio_stmt (''mcprepo: update artifact '' @ i @ '' status to '' @ st) (\<lambda>s. True) (\<lambda>s. ())
       (\<lambda>s. update_artifacts i (\<lambda>r. r\<lparr>af_status := st, af_updated := ch_now (sd_chat s)\<rparr>) s)"

section \<open>The chat card\<close>

definition string_from_ptr :: "string option \<Rightarrow> string" where
  "string_from_ptr v = (case v of None \<Rightarrow> '''' | Some x \<Rightarrow> x)"

definition artifact_message :: "string \<Rightarrow> string \<Rightarrow> string \<Rightarrow> string \<Rightarrow> int \<Rightarrow> chat_message" where
  "artifact_message i cv ag status now =
     \<lparr>m_id = i, m_conv = cv, m_role = RoleAgent, m_type = CtArtifact, m_text = '''', m_tool = '''', m_tool_state = '''',
      m_query = '''', m_args = [], m_from = '''', m_to = '''', m_content_status = status, m_preview = '''', m_turns = [],
      m_answers = [], m_selected = None, m_status = MsgDelivered, m_agent = Some ag, m_local = '''', m_created = now, m_updated = now\<rparr>"

definition persist_artifact_message ::
  "string \<Rightarrow> string \<Rightarrow> string option \<Rightarrow> string \<Rightarrow> string \<Rightarrow> int \<Rightarrow> string \<Rightarrow> studio \<Rightarrow> studio" where
  "persist_artifact_message ws agent_id conv artifact title n status s =
     (if conv = None \<or> conv = Some '''' then s
      else
        let (s1, r) = in_chat (agent_get_global agent_id) s;
            ag = (case r of Inr a \<Rightarrow> Some a | Inl _ \<Rightarrow> None);
            (s2, i) = in_chat new_uuid s1;
            msg = artifact_message i (the conv) agent_id status (ch_now (sd_chat s));
            card = \<lparr>cd_message = i, cd_title = title, cd_status = status, cd_artifact = artifact, cd_version = n,
                    cd_slug = (case ag of Some a \<Rightarrow> ag_slug a | None \<Rightarrow> ''''), cd_name = (case ag of Some a \<Rightarrow> ag_name a | None \<Rightarrow> '''')\<rparr>
        in case in_chat (message_save msg) s2 of
             (s3, Inl e) \<Rightarrow> s3
           | (s3, Inr _) \<Rightarrow>
               s3\<lparr>sd_chat := emit (EvMessageNew ws msg ag) (sd_chat s3), sd_cards := sd_cards s3 @ [card]\<rparr>)"

definition announce :: "artifact_event \<Rightarrow> studio \<Rightarrow> studio" where
  "announce e s = s\<lparr>sd_events := sd_events s @ [e]\<rparr>"

section \<open>The tools\<close>

definition plain :: "string \<Rightarrow> gerror \<Rightarrow> ask_error" where
  "plain op e = AskPlain (op @ '': '' @ error_text (Some e))"

definition create_artifact :: "string \<Rightarrow> string \<Rightarrow> create_params \<Rightarrow> (string \<times> int) studio_call" where
  "create_artifact user ws p =
     studio_bind (in_chat (verify_workspace user ws)) id (\<lambda>_.
     studio_bind (in_chat (resolve_agent_param ws (cp_agent_id p) (cp_agent_slug p))) id (\<lambda>ag s.
       let ctype = (if cp_ctype p = '''' then ''text/markdown'' else cp_ctype p);
           now = ch_now (sd_chat s);
           (s1, i) = in_chat new_uuid s;
           (s2, vid) = in_chat new_uuid s1;
           conv = (if cp_conv p \<noteq> '''' then Some (cp_conv p) else None);
           row = \<lparr>af_id = i, af_ws = ws, af_conv = conv, af_title = cp_title p, af_ctype = ctype, af_version = 1,
                  af_status = ArtifactStatusDraft, af_agent = Some ag, af_created = now, af_updated = now\<rparr>;
           version = \<lparr>vr_id = vid, vr_artifact = i, vr_version = 1, vr_content = cp_content p, vr_summary = ''Initial version'',
                      vr_agent = Some ag, vr_slug = cp_agent_slug p, vr_created = now\<rparr>
       in studio_bind (artifact_create row) (plain ''create artifact'') (\<lambda>_.
          studio_bind (create_version version) (plain ''create artifact version'') (\<lambda>_ s3.
            let s4 = announce \<lparr>ae_ws = ws, ae_artifact = i, ae_conv = string_from_ptr conv, ae_title = cp_title p, ae_version = 1,
                               ae_action = ActCreated, ae_agent = ag, ae_slug = cp_agent_slug p\<rparr> s3
            in (persist_artifact_message ws ag conv i (cp_title p) 1 ArtifactStatusDraft s4, Inr (i, 1)))) s2))"

definition resolve_artifact_version :: "string \<Rightarrow> int \<Rightarrow> version_row studio_call" where
  "resolve_artifact_version i n =
     (if n > 0 then
        studio_bind (list_versions i) (plain ''list versions'') (\<lambda>vs s.
          case find (\<lambda>v. vr_version v = n) vs of
            Some v \<Rightarrow> (s, Inr v)
          | None \<Rightarrow> (s, Inl (AskPlain (''version '' @ show_int n @ '' not found''))))
      else studio_bind (get_latest_version i) (\<lambda>_. AskPlain ''no versions found for artifact'') (\<lambda>v s. (s, Inr v)))"

definition read_artifact :: "string \<Rightarrow> string \<Rightarrow> string \<Rightarrow> int \<Rightarrow> read_result studio_call" where
  "read_artifact user ws i n =
     studio_bind (in_chat (verify_workspace user ws)) id (\<lambda>_.
     studio_bind (artifact_get ws i) (\<lambda>_. AskPlain ''artifact not found'') (\<lambda>a.
     studio_bind (resolve_artifact_version i n) id (\<lambda>v s.
       case list_reviews i (vr_version v) s of
         (s1, r) \<Rightarrow> (s1, Inr \<lparr>rd_id = af_id a, rd_title = af_title a, rd_ctype = af_ctype a, rd_content = vr_content v,
             rd_version = vr_version v, rd_status = af_status a, rd_reviews = (case r of Inl _ \<Rightarrow> [] | Inr rs \<Rightarrow> rs)\<rparr>))))"

text \<open>An update: the checks, and the transaction with what follows it.\<close>

definition version_conflict :: "int \<Rightarrow> int \<Rightarrow> ask_error" where
  "version_conflict expected current =
     AskPlain (''version conflict: expected '' @ show_int expected @ '' but current is '' @ show_int current)"

definition update_check :: "string \<Rightarrow> string \<Rightarrow> update_params \<Rightarrow> (artifact_row \<times> string) studio_call" where
  "update_check user ws p =
     studio_bind (in_chat (verify_workspace user ws)) id (\<lambda>_.
     studio_bind (artifact_get ws (ua_artifact p)) (\<lambda>_. AskPlain ''artifact not found'') (\<lambda>a s.
       if ua_expected p > 0 \<and> ua_expected p \<noteq> af_version a
       then (s, Inl (version_conflict (ua_expected p) (af_version a)))
       else studio_bind (in_chat (resolve_agent_param ws (ua_agent_id p) (ua_agent_slug p))) id (\<lambda>ag s. (s, Inr (a, ag))) s))"

definition write_version :: "update_params \<Rightarrow> string \<Rightarrow> int studio_repo" where
  "write_version p ag =
     studio_bind (increment_version (ua_artifact p)) id (\<lambda>n s.
       let (s1, vid) = in_chat new_uuid s;
           version = \<lparr>vr_id = vid, vr_artifact = ua_artifact p, vr_version = n, vr_content = ua_content p,
                      vr_summary = (if ua_summary p = '''' then ''Version '' @ show_int n else ua_summary p),
                      vr_agent = Some ag, vr_slug = ua_agent_slug p, vr_created = ch_now (sd_chat s)\<rparr>
       in studio_bind (create_version version) id (\<lambda>_ s2. (s2, Inr n)) s1)"

definition update_commit :: "string \<Rightarrow> update_params \<Rightarrow> artifact_row \<times> string \<Rightarrow> int studio_call" where
  "update_commit ws p x = (case x of (a, ag) \<Rightarrow>
     studio_bind (studio_transaction ''update artifact version'' (write_version p ag)) (plain ''update artifact'') (\<lambda>n s.
       let s1 = announce \<lparr>ae_ws = ws, ae_artifact = ua_artifact p, ae_conv = string_from_ptr (af_conv a), ae_title = af_title a,
                          ae_version = n, ae_action = ActUpdated, ae_agent = ag, ae_slug = ua_agent_slug p\<rparr> s
       in (persist_artifact_message ws ag (af_conv a) (ua_artifact p) (af_title a) n (af_status a) s1, Inr n)))"

definition update_artifact :: "string \<Rightarrow> string \<Rightarrow> update_params \<Rightarrow> int studio_call" where
  "update_artifact user ws p = studio_bind (update_check user ws p) id (update_commit ws p)"

text \<open>A review whose status update fails is stored, and the tool returns an error besides the result.\<close>

definition review_artifact :: "string \<Rightarrow> string \<Rightarrow> review_params \<Rightarrow> unit studio_call" where
  "review_artifact user ws p =
     studio_bind (in_chat (verify_workspace user ws)) id (\<lambda>_.
     studio_bind (artifact_get ws (rp_artifact p)) (\<lambda>_. AskPlain ''artifact not found'') (\<lambda>a.
     studio_bind (in_chat (resolve_agent_param ws (rp_agent_id p) (rp_agent_slug p))) id (\<lambda>ag s.
       let n = (if rp_version p \<le> 0 then af_version a else rp_version p);
           (s1, rid) = in_chat new_uuid s;
           row = \<lparr>rv_id = rid, rv_artifact = rp_artifact p, rv_version = n, rv_agent = ag, rv_slug = rp_agent_slug p,
                  rv_outcome = rp_outcome p, rv_comments = rp_comments p, rv_created = ch_now (sd_chat s)\<rparr>;
           tell = (\<lambda>s2.
             let s3 = announce \<lparr>ae_ws = ws, ae_artifact = rp_artifact p, ae_conv = string_from_ptr (af_conv a), ae_title = af_title a,
                                ae_version = n, ae_action = ActReviewed, ae_agent = ag, ae_slug = rp_agent_slug p\<rparr> s2
             in (persist_artifact_message ws ag (af_conv a) (rp_artifact p) (af_title a) n (af_status a) s3, Inr ()))
       in studio_bind (create_review row) (plain ''create review'') (\<lambda>_ s2.
            if rp_outcome p = ArtifactReviewApproved
            then studio_bind (update_artifact_status (rp_artifact p) ArtifactReviewApproved)
                   (plain ''review created but failed to update status'') (\<lambda>_. tell) s2
            else tell s2) s1)))"

section \<open>Steps\<close>

inductive studio_step :: "studio \<Rightarrow> studio \<Rightarrow> bool" where
  create: "create_artifact user ws p s = (s', r) \<Longrightarrow> studio_step s s'"
| check: "update_check user ws p s = (s', r) \<Longrightarrow> studio_step s s'"
| commit: "update_commit ws p x s = (s', r) \<Longrightarrow> studio_step s s'"
| review: "review_artifact user ws p s = (s', r) \<Longrightarrow> studio_step s s'"
| read: "read_artifact user ws i n s = (s', r) \<Longrightarrow> studio_step s s'"

end
