(* ===== verification/Artifacts_Props.thy ===== *)
theory Artifacts_Props
  imports Artifacts
begin

text \<open>
  Versions of artifacts: whatever fails and however calls interleave, the versions of an artifact are
  numbered without gaps after the first; an update is read back; and the check of the expected version does
  not protect against a concurrent update, nor does an update reset an approval.
\<close>

section \<open>What the calls leave alone\<close>

definition chat_frame :: "chat \<Rightarrow> chat \<Rightarrow> bool" where
  "chat_frame c c' \<longleftrightarrow> ch_workspaces c' = ch_workspaces c \<and> ch_fails c' = ch_fails c \<and> ch_agents c' = ch_agents c \<and> ch_roster c' = ch_roster c"

text \<open>A calm call writes neither artifacts nor versions.\<close>

definition calm_pair :: "studio \<Rightarrow> studio \<Rightarrow> bool" where
  "calm_pair s s' \<longleftrightarrow> sd_artifacts s' = sd_artifacts s \<and> sd_versions s' = sd_versions s \<and> chat_frame (sd_chat s) (sd_chat s')"

lemma calm_refl [simp]: "calm_pair s s"
  by (simp add: calm_pair_def chat_frame_def)

lemma calm_trans: "calm_pair a b \<Longrightarrow> calm_pair b c \<Longrightarrow> calm_pair a c"
  by (simp add: calm_pair_def chat_frame_def)

definition calm :: "(studio \<Rightarrow> studio \<times> 'a) \<Rightarrow> bool" where
  "calm m \<longleftrightarrow> (\<forall>s. calm_pair s (fst (m s)))"

lemma calmD: "calm m \<Longrightarrow> m s = (s', r) \<Longrightarrow> calm_pair s s'"
  unfolding calm_def by (metis fst_conv)

lemma calm_bind: "calm m \<Longrightarrow> (\<And>a. calm (k a)) \<Longrightarrow> calm (studio_bind m f k)"
proof -
  assume m: "calm m" and k: "\<And>a. calm (k a)"
  show "calm (studio_bind m f k)"
    unfolding calm_def
  proof
    fix s
    obtain s1 r where e: "m s = (s1, r)" by fastforce
    then have c: "calm_pair s s1" by (rule calmD [OF m])
    show "calm_pair s (fst (studio_bind m f k s))"
    proof (cases r)
      case (Inr a)
      have "calm_pair s1 (fst (k a s1))" using k [of a] by (simp add: calm_def)
      then show ?thesis using calm_trans [OF c] by (simp add: studio_bind_def e Inr)
    qed (use c in \<open>simp add: studio_bind_def e\<close>)
  qed
qed

lemma calm_stmt: "(\<And>s. calm_pair s (f s)) \<Longrightarrow> calm (studio_stmt msg ok q f)"
proof -
  assume f: "\<And>s. calm_pair s (f s)"
  have "calm_pair s (f (s\<lparr>sd_chat := (sd_chat s)\<lparr>ch_calls := Suc (ch_calls (sd_chat s))\<rparr>\<rparr>))" for s
    using f [of "s\<lparr>sd_chat := (sd_chat s)\<lparr>ch_calls := Suc (ch_calls (sd_chat s))\<rparr>\<rparr>"] by (simp add: calm_pair_def chat_frame_def)
  moreover have "calm_pair s (s\<lparr>sd_chat := (sd_chat s)\<lparr>ch_calls := Suc (ch_calls (sd_chat s))\<rparr>, sd_aborted := True\<rparr>)" for s
    by (simp add: calm_pair_def chat_frame_def)
  ultimately show ?thesis by (simp add: calm_def studio_stmt_def Let_def)
qed

lemma calm_in_chat: "(\<And>c. chat_frame c (fst (m c))) \<Longrightarrow> calm (in_chat m)"
  by (simp add: calm_def in_chat_def calm_pair_def split: prod.split) (metis fst_conv)

lemma frame_same: "same_data c c' \<Longrightarrow> chat_frame c c'"
  by (simp add: same_data_def chat_frame_def)

lemma calm_reads [simp, intro]:
  "calm (in_chat (verify_workspace u w))" "calm (in_chat (resolve_agent_param w a l))" "calm (in_chat (agent_get_global i))"
  "calm (in_chat new_uuid)" "calm (in_chat (message_save m))"
proof -
  show "calm (in_chat (verify_workspace u w))" "calm (in_chat (resolve_agent_param w a l))" "calm (in_chat (agent_get_global i))"
    by (intro calm_in_chat frame_same verify_same resolve_same read_same)+
  show "calm (in_chat new_uuid)" "calm (in_chat (message_save m))"
    by (intro calm_in_chat, simp add: chat_frame_def new_uuid_def message_save_def stmt_def Let_def)+
qed

lemma calm_pure [simp, intro]: "calm (\<lambda>s. (s, r s))"
  by (simp add: calm_def)

lemma calm_get [simp, intro]: "calm (artifact_get w i)"
proof -
  have "calm (studio_stmt ''select artifact by id'' (\<lambda>s. True) (\<lambda>s. find (\<lambda>r. af_ws r = w \<and> af_id r = i) (sd_artifacts s)) (\<lambda>s. s))"
    by (rule calm_stmt) simp
  moreover have "fst (case x of (s1, Inl e) \<Rightarrow> (s1, Inl e) | (s1, Inr None) \<Rightarrow> (s1, Inl ErrArtifactNotFound)
      | (s1, Inr (Some r)) \<Rightarrow> (s1, Inr r)) = fst x" for x :: "studio \<times> (gerror + artifact_row option)"
    by (simp split: prod.split sum.split option.split)
  ultimately show ?thesis by (simp add: calm_def artifact_get_def)
qed

lemma calm_lists [simp, intro]: "calm (list_versions i)" "calm (list_reviews i n)"
proof -
  have "calm (studio_stmt m (\<lambda>s. True) q (\<lambda>s. s))" for m :: string and q :: "studio \<Rightarrow> 'b"
    by (rule calm_stmt) simp
  then show "calm (list_versions i)" "calm (list_reviews i n)"
    unfolding calm_def list_versions_def list_reviews_def by auto
qed

lemma calm_latest [simp, intro]: "calm (get_latest_version i)"
proof -
  have "calm (studio_stmt ''select latest artifact version'' (\<lambda>s. True) (versions_of i) (\<lambda>s. s))"
    by (rule calm_stmt) simp
  moreover have "fst (case x of (s1, Inl e) \<Rightarrow> (s1, Inl e) | (s1, Inr []) \<Rightarrow> (s1, Inl ErrArtifactVersionNotFound)
      | (s1, Inr (v # vs)) \<Rightarrow> (s1, Inr v)) = fst x" for x :: "studio \<times> (gerror + version_row list)"
    by (simp split: prod.split sum.split list.split)
  ultimately show ?thesis by (simp add: calm_def get_latest_version_def)
qed

lemma calm_review [simp, intro]: "calm (create_review v)"
proof -
  have "calm (studio_stmt l ok (\<lambda>s. ()) (\<lambda>s. s\<lparr>sd_reviews := sd_reviews s @ [v]\<rparr>))"
    "calm (studio_stmt l (\<lambda>s. False) (\<lambda>s. ()) (\<lambda>s. s))" for l ok
    by (rule calm_stmt, simp add: calm_pair_def chat_frame_def)+
  then show ?thesis unfolding calm_def create_review_def insert_idempotent_def by simp
qed

lemma calm_announce: "calm_pair s (announce e s)"
  by (simp add: announce_def calm_pair_def chat_frame_def)

lemma calm_persist: "calm_pair s (persist_artifact_message w a v i t n st s)"
proof (cases "v = None \<or> v = Some ''''")
  case False
  obtain s1 r where g: "in_chat (agent_get_global a) s = (s1, r)" by fastforce
  obtain s2 j where u: "in_chat new_uuid s1 = (s2, j)" by fastforce
  obtain s3 x where m: "in_chat (message_save (artifact_message j (the v) a st (ch_now (sd_chat s)))) s2 = (s3, x)" by fastforce
  have "calm_pair s s3"
    using calmD [OF calm_reads(3) g] calmD [OF calm_reads(4) u] calmD [OF calm_reads(5) m] calm_trans by blast
  then show ?thesis
    using False by (cases x) (auto simp: persist_artifact_message_def Let_def g u m calm_pair_def chat_frame_def emit_def)
qed (auto simp: persist_artifact_message_def)

lemma calm_tell [simp]: "calm_pair s (persist_artifact_message w a v i t n st (announce e s))"
  by (rule calm_trans [OF calm_announce calm_persist])

lemma calm_choice: "(\<And>v. calm (g v)) \<Longrightarrow> calm h \<Longrightarrow> calm (\<lambda>s. case x of None \<Rightarrow> h s | Some v \<Rightarrow> g v s)"
  by (cases x) simp_all

lemma calm_if: "calm g \<Longrightarrow> calm h \<Longrightarrow> calm (\<lambda>s. if b then g s else h s)"
  by (cases b) simp_all

lemma calm_resolve [simp, intro]: "calm (resolve_artifact_version i n)"
proof (cases "n > 0")
  case True
  then have "resolve_artifact_version i n = studio_bind (list_versions i) (plain ''list versions'') (\<lambda>vs s.
      case find (\<lambda>v. vr_version v = n) vs of
        Some v \<Rightarrow> (s, Inr v) | None \<Rightarrow> (s, Inl (AskPlain (''version '' @ show_int n @ '' not found''))))"
    by (simp add: resolve_artifact_version_def)
  then show ?thesis by (simp only:) (intro calm_bind calm_choice calm_lists calm_pure)
next
  case False
  then have "resolve_artifact_version i n =
      studio_bind (get_latest_version i) (\<lambda>_. AskPlain ''no versions found for artifact'') (\<lambda>v s. (s, Inr v))"
    by (simp add: resolve_artifact_version_def)
  then show ?thesis by (simp only:) (intro calm_bind calm_latest calm_pure)
qed

lemma calm_read: "calm (read_artifact u w i n)"
proof -
  have "calm (\<lambda>s. case list_reviews i (vr_version v) s of
         (s1, r) \<Rightarrow> (s1, Inr \<lparr>rd_id = af_id a, rd_title = af_title a, rd_ctype = af_ctype a, rd_content = vr_content v,
             rd_version = vr_version v, rd_status = af_status a, rd_reviews = (case r of Inl _ \<Rightarrow> [] | Inr rs \<Rightarrow> rs)\<rparr>))" for a v
    using calm_lists(2) [of i "vr_version v"] unfolding calm_def by (simp split: prod.split) (metis fst_conv)
  then show ?thesis unfolding read_artifact_def by (intro calm_bind) auto
qed

lemma calm_check: "calm (update_check u w p)"
proof -
  have "calm (studio_bind (in_chat (resolve_agent_param w (ua_agent_id p) (ua_agent_slug p))) id (\<lambda>ag s. (s, Inr (a, ag))))" for a :: artifact_row
    by (intro calm_bind) auto
  then show ?thesis unfolding update_check_def by (intro calm_bind calm_if) auto
qed

section \<open>The invariant\<close>

definition numbers :: "string \<Rightarrow> studio \<Rightarrow> int list" where
  "numbers i s = map vr_version (filter (\<lambda>v. vr_artifact v = i) (sd_versions s))"

text \<open>
  The versions of an artifact are distinct and within the current one, and from the second on none is
  missing. The first is missing when storing it failed after the artifact was created.
\<close>

definition contiguous :: "int list \<Rightarrow> int \<Rightarrow> bool" where
  "contiguous ns n \<longleftrightarrow> 1 \<le> n \<and> distinct ns \<and> set ns \<subseteq> {1..n} \<and> {2..n} \<subseteq> set ns"

definition versions_ok :: "studio \<Rightarrow> bool" where
  "versions_ok s \<longleftrightarrow> distinct (map af_id (sd_artifacts s)) \<and> (\<forall>v \<in> set (sd_versions s). has_artifact s (vr_artifact v))
     \<and> (\<forall>a \<in> set (sd_artifacts s). contiguous (numbers (af_id a) s) (af_version a))"

lemma contiguous_simps [simp]: "contiguous [] 1" "contiguous ns n \<Longrightarrow> 1 \<notin> set ns \<Longrightarrow> contiguous (ns @ [1]) n"
  by (auto simp: contiguous_def)

lemma contiguous_next: "contiguous ns n \<Longrightarrow> contiguous (ns @ [n + 1]) (n + 1)"
proof -
  assume c: "contiguous ns n"
  have "{2..n + 1} \<subseteq> insert (n + 1) {2..n}" by auto
  then show ?thesis using c by (fastforce simp: contiguous_def)
qed

lemma versions_ok_calm: "calm_pair s s' \<Longrightarrow> versions_ok s \<Longrightarrow> versions_ok s'"
  by (simp add: calm_pair_def versions_ok_def numbers_def has_artifact_def)

lemma calm_keeps: "calm m \<Longrightarrow> m s = (s', r) \<Longrightarrow> versions_ok s \<Longrightarrow> versions_ok s'"
  by (rule versions_ok_calm [OF calmD])

text \<open>An insert: the row is added, or nothing is, and only an insert that took place leaves the transaction alive.\<close>

lemma insert_cases:
  assumes "insert_idempotent label dup ok f s = (s', r)"
    and "\<And>s. sd_chat (f s) = sd_chat s \<and> sd_aborted (f s) = sd_aborted s"
  obtains (kept) "calm_pair s s'" "sd_aborted s'"
  | (added) s1 where "calm_pair s s1" "s' = f s1" "\<not> dup s" "ok s" "sd_aborted s1 = sd_aborted s" "r = Inr ()"
proof -
  let ?s1 = "s\<lparr>sd_chat := (sd_chat s)\<lparr>ch_calls := Suc (ch_calls (sd_chat s))\<rparr>\<rparr>"
  have c: "calm_pair s ?s1" "calm_pair s (?s1\<lparr>sd_aborted := True\<rparr>)" by (simp_all add: calm_pair_def chat_frame_def)
  consider "dup s \<and> \<not> ch_fails (sd_chat s) (ch_calls (sd_chat s))" | "ch_fails (sd_chat s) (ch_calls (sd_chat s)) \<or> \<not> ok s"
    | "\<not> ch_fails (sd_chat s) (ch_calls (sd_chat s))" "\<not> dup s" "ok s" by blast
  then show thesis
  proof cases
    case 1
    then have "s' = ?s1\<lparr>sd_aborted := True\<rparr>" using assms(1) by (auto simp: insert_idempotent_def studio_stmt_def Let_def)
    then show thesis using kept c(2) by simp
  next
    case 2
    then have "s' = ?s1\<lparr>sd_aborted := True\<rparr>"
      using assms(1) by (auto simp: insert_idempotent_def studio_stmt_def Let_def split: if_splits)
    then show thesis using kept c(2) by simp
  next
    case 3
    then have "s' = f ?s1" "r = Inr ()" using assms(1) by (auto simp: insert_idempotent_def studio_stmt_def Let_def)
    then show thesis using added [OF c(1)] 3 by simp
  qed
qed

lemma create_cases:
  assumes "artifact_create a s = (s', r)" "versions_ok s" "af_version a = 1"
  shows "versions_ok s' \<and> chat_frame (sd_chat s) (sd_chat s')"
proof (rule insert_cases [OF assms(1) [unfolded artifact_create_def]], goal_cases)
  case kept: 2
  then show ?thesis using versions_ok_calm [OF kept(1) assms(2)] by (simp add: calm_pair_def)
next
  case added: (3 s1)
  have ok: "versions_ok s1" by (rule versions_ok_calm [OF added(1) assms(2)])
  have n: "\<not> has_artifact s1 (af_id a)" using added(1,3) by (simp add: has_artifact_def calm_pair_def)
  have e: "numbers (af_id a) s1 = []"
    using ok n by (auto simp: numbers_def versions_ok_def filter_empty_conv)
  have num: "numbers i s' = numbers i s1" for i by (simp add: numbers_def added(2))
  have s': "sd_artifacts s' = sd_artifacts s1 @ [a]" "sd_versions s' = sd_versions s1" "sd_chat s' = sd_chat s1"
    by (simp_all add: added(2))
  have "versions_ok s'"
    using ok n e assms(3) unfolding versions_ok_def num s' by (auto simp: has_artifact_def s')
  then show ?thesis using added(1) by (simp add: calm_pair_def s')
qed simp

lemma taken_number: "vr_version v \<in> set (numbers (vr_artifact v) s) \<Longrightarrow> version_taken v s"
  by (fastforce simp: version_taken_def numbers_def image_iff)

lemma first_version_ok:
  assumes "create_version v s = (s', r)" "versions_ok s" "vr_version v = 1"
  shows "versions_ok s'"
proof (rule insert_cases [OF assms(1) [unfolded create_version_def]], goal_cases)
  case kept: 2
  then show ?thesis using versions_ok_calm [OF _ assms(2)] by simp
next
  case added: (3 s1)
  have ok: "versions_ok s1" by (rule versions_ok_calm [OF added(1) assms(2)])
  have f: "has_artifact s1 (vr_artifact v)" using added(1,4) by (simp add: has_artifact_def calm_pair_def)
  have "numbers i s1 = numbers i s" for i using added(1) by (simp add: numbers_def calm_pair_def)
  then have g: "1 \<notin> set (numbers (vr_artifact v) s1)" using taken_number added(3) assms(3) by metis
  have num: "numbers i s' = (if i = vr_artifact v then numbers i s1 @ [1] else numbers i s1)" for i
    using added(2) assms(3) by (simp add: numbers_def)
  have "sd_artifacts s' = sd_artifacts s1" "sd_versions s' = sd_versions s1 @ [v]" using added(2) by simp_all
  then show ?thesis using ok f g unfolding versions_ok_def num by (auto simp: has_artifact_def)
qed simp

lemma status_ok: "update_artifact_status i st s = (s', r) \<Longrightarrow> versions_ok s \<Longrightarrow> versions_ok s'"
proof -
  assume u: "update_artifact_status i st s = (s', r)" and ok: "versions_ok s"
  define f :: "artifact_row \<Rightarrow> artifact_row" where "f = (\<lambda>a. if af_id a = i then a\<lparr>af_status := st, af_updated := ch_now (sd_chat s)\<rparr> else a)"
  have f: "af_id (f a) = af_id a" "af_version (f a) = af_version a" for a by (simp_all add: f_def)
  have "sd_versions s' = sd_versions s \<and> (sd_artifacts s' = sd_artifacts s \<or> sd_artifacts s' = map f (sd_artifacts s))"
    using u by (auto simp: update_artifact_status_def studio_stmt_def Let_def update_artifacts_def f_def split: if_splits)
  then show ?thesis
  proof (elim conjE disjE)
    assume v: "sd_versions s' = sd_versions s" and a: "sd_artifacts s' = map f (sd_artifacts s)"
    have n: "numbers i s' = numbers i s" for i by (simp add: numbers_def v)
    have h: "has_artifact s' i = has_artifact s i" for i by (simp add: has_artifact_def a f image_image)
    show ?thesis using ok unfolding versions_ok_def n h v a by (simp add: comp_def f)
  qed (use ok in \<open>simp add: versions_ok_def numbers_def has_artifact_def\<close>)
qed

section \<open>The transaction of an update\<close>

lemma stmt_cases:
  assumes "studio_stmt msg ok q f s = (s', r)"
  obtains (failed) e where "calm_pair s s'" "r = Inl e" "sd_aborted s'"
  | (passed) "s' = f (s\<lparr>sd_chat := (sd_chat s)\<lparr>ch_calls := Suc (ch_calls (sd_chat s))\<rparr>\<rparr>)" "r = Inr (q s)" "ok s"
  using assms by (auto simp: studio_stmt_def Let_def calm_pair_def chat_frame_def split: if_splits)

lemma counted_calm [simp]: "calm_pair s (s\<lparr>sd_chat := (sd_chat s)\<lparr>ch_calls := Suc (ch_calls (sd_chat s))\<rparr>\<rparr>)"
  "calm_pair s (s\<lparr>sd_chat := (sd_chat s)\<lparr>ch_calls := Suc (ch_calls (sd_chat s))\<rparr>, sd_aborted := b\<rparr>)"
  by (simp_all add: calm_pair_def chat_frame_def)

text \<open>A transaction either leaves artifacts and versions as they were, or its body went through whole.\<close>

lemma studio_transaction_cases:
  assumes "studio_transaction opn fn s = (s', r)"
  obtains (rolled) e where "sd_artifacts s' = sd_artifacts s" "sd_versions s' = sd_versions s" "r = Inl e"
  | (whole) s1 s2 a where "calm_pair s s1" "\<not> sd_aborted s1" "fn s1 = (s2, Inr a)" "\<not> sd_aborted s2" "calm_pair s2 s'" "r = Inr a"
proof -
  obtain s1 r1 where b: "studio_stmt (''begin '' @ opn @ '' transaction'') (\<lambda>s. True) (\<lambda>s. ()) (\<lambda>s. s\<lparr>sd_aborted := False\<rparr>) s = (s1, r1)"
    by fastforce
  from b show thesis
  proof (cases rule: stmt_cases)
    case (failed e)
    then show thesis using rolled assms b by (auto simp: studio_transaction_def calm_pair_def)
  next
    case passed
    obtain s2 r2 where f: "fn s1 = (s2, r2)" by fastforce
    have c: "calm_pair s s1" "\<not> sd_aborted s1" by (simp_all add: passed(1))
    show thesis
    proof (cases r2)
      case (Inl e)
      then show thesis using rolled assms b passed(2) f c by (auto simp: studio_transaction_def studio_rollback_def calm_pair_def)
    next
      case (Inr a)
      obtain s3 r3 where m: "studio_stmt (''commit '' @ opn @ '' transaction'') (\<lambda>s. \<not> sd_aborted s) (\<lambda>s. ()) (\<lambda>s. s) s2 = (s3, r3)"
        by fastforce
      from m show thesis
      proof (cases rule: stmt_cases)
        case (failed e)
        then show thesis using rolled assms b passed(2) f c Inr m
          by (auto simp: studio_transaction_def studio_rollback_def calm_pair_def)
      next
        case l: passed
        then have "s' = s3" "r = Inr a" using assms b passed(2) f Inr m by (auto simp: studio_transaction_def)
        then show thesis using whole [OF c(1,2)] f Inr l by simp
      qed
    qed
  qed
qed

definition bump :: "string \<Rightarrow> int \<Rightarrow> artifact_row \<Rightarrow> artifact_row" where
  "bump i t r = (if af_id r = i then r\<lparr>af_version := af_version r + 1, af_updated := t\<rparr> else r)"

lemma bump_simps [simp]: "af_id (bump i t r) = af_id r" "af_ws (bump i t r) = af_ws r" "af_status (bump i t r) = af_status r"
  "af_version (bump i t r) = (if af_id r = i then af_version r + 1 else af_version r)"
  by (simp_all add: bump_def)

lemma increment_cases:
  assumes "increment_version i s = (s', r)"
  obtains (failed) e where "r = Inl e"
  | (passed) a where "find (\<lambda>r. af_id r = i) (sd_artifacts s) = Some a" "r = Inr (af_version a + 1)" "\<not> blank i"
      "sd_artifacts s' = map (bump i (ch_now (sd_chat s))) (sd_artifacts s)" "sd_versions s' = sd_versions s"
      "chat_frame (sd_chat s) (sd_chat s')" "sd_aborted s' = sd_aborted s"
proof (cases "blank i")
  case True
  then show thesis using failed assms by (auto simp: increment_version_def)
next
  case False
  obtain s1 r1 where u: "studio_stmt ''increment artifact version'' (\<lambda>s. True) (\<lambda>s. find (\<lambda>r. af_id r = i) (sd_artifacts s))
      (\<lambda>s. update_artifacts i (\<lambda>r. r\<lparr>af_version := af_version r + 1, af_updated := ch_now (sd_chat s)\<rparr>) s) s = (s1, r1)" by fastforce
  from u show thesis
  proof (cases rule: stmt_cases)
    case (failed e)
    then show thesis using that(1) assms u False by (auto simp: increment_version_def)
  next
    case passed
    have b: "sd_artifacts s1 = map (bump i (ch_now (sd_chat s))) (sd_artifacts s)" "sd_versions s1 = sd_versions s"
      "chat_frame (sd_chat s) (sd_chat s1)" "sd_aborted s1 = sd_aborted s"
      by (simp_all add: passed(1) update_artifacts_def bump_def [abs_def] chat_frame_def)
    show thesis
    proof (cases "find (\<lambda>r. af_id r = i) (sd_artifacts s)")
      case None
      then show thesis using that(1) assms u passed(2) False by (auto simp: increment_version_def)
    next
      case (Some a)
      then have "s' = s1" "r = Inr (af_version a + 1)" using assms u passed(2) False by (auto simp: increment_version_def)
      then show thesis using that(2) [OF Some] b False by simp
    qed
  qed
qed

lemma write_version_whole:
  assumes "write_version p ag s = (s', Inr n)" "\<not> sd_aborted s'"
  obtains a v t where "find (\<lambda>r. af_id r = ua_artifact p) (sd_artifacts s) = Some a" "n = af_version a + 1"
    "sd_artifacts s' = map (bump (ua_artifact p) t) (sd_artifacts s)" "sd_versions s' = sd_versions s @ [v]"
    "vr_artifact v = ua_artifact p" "vr_version v = n" "vr_content v = ua_content p" "chat_frame (sd_chat s) (sd_chat s')"
    "\<not> blank (ua_artifact p)"
proof -
  obtain s1 r1 where i: "increment_version (ua_artifact p) s = (s1, r1)" by fastforce
  obtain s2 vid where u: "in_chat new_uuid s1 = (s2, vid)" by fastforce
  have c2: "calm_pair s1 s2" by (rule calmD [OF calm_reads(4) u])
  from i show thesis
  proof (cases rule: increment_cases)
    case (failed e)
    then show thesis using assms(1) i by (simp add: write_version_def studio_bind_def)
  next
    case (passed a)
    define v where "v = \<lparr>vr_id = vid, vr_artifact = ua_artifact p, vr_version = af_version a + 1, vr_content = ua_content p,
      vr_summary = (if ua_summary p = '''' then ''Version '' @ show_int (af_version a + 1) else ua_summary p),
      vr_agent = Some ag, vr_slug = ua_agent_slug p, vr_created = ch_now (sd_chat s1)\<rparr>"
    obtain s3 r3 where c: "create_version v s2 = (s3, r3)" by fastforce
    then have x: "s' = s3 \<and> n = af_version a + 1"
      using assms(1) i u passed(2) by (auto simp: write_version_def studio_bind_def v_def [symmetric] split: sum.splits)
    show thesis
    proof (rule insert_cases [OF c [unfolded create_version_def]], goal_cases)
      case 2
      then show ?case using assms(2) x by simp
    next
      case (3 s4)
      have a: "sd_artifacts s' = map (bump (ua_artifact p) (ch_now (sd_chat s))) (sd_artifacts s)"
        "sd_versions s' = sd_versions s @ [v]" "chat_frame (sd_chat s) (sd_chat s')"
        using c2 3(1,2) passed(4,5,6) x by (simp_all add: calm_pair_def chat_frame_def)
      show ?case
        by (rule that [OF passed(1) _ a(1,2) _ _ _ a(3) passed(3)]) (simp_all add: x v_def)
    qed simp
  qed
qed

text \<open>The artifacts and the versions after an update that went through.\<close>

definition updated :: "update_params \<Rightarrow> int \<Rightarrow> artifact_row \<Rightarrow> studio \<Rightarrow> studio \<Rightarrow> bool" where
  "updated p n a s s' \<longleftrightarrow> find (\<lambda>r. af_id r = ua_artifact p) (sd_artifacts s) = Some a \<and> n = af_version a + 1
     \<and> (\<exists>t. sd_artifacts s' = map (bump (ua_artifact p) t) (sd_artifacts s))
     \<and> (\<exists>v. sd_versions s' = sd_versions s @ [v] \<and> vr_artifact v = ua_artifact p \<and> vr_version v = n \<and> vr_content v = ua_content p)"

lemma commit_cases:
  assumes "update_commit ws p x s = (s', r)"
  obtains (rolled) e where "sd_artifacts s' = sd_artifacts s" "sd_versions s' = sd_versions s" "r = Inl e"
  | (whole) n a where "r = Inr n" "updated p n a s s'" "chat_frame (sd_chat s) (sd_chat s')" "\<not> blank (ua_artifact p)"
proof -
  obtain a0 ag where x: "x = (a0, ag)" by fastforce
  obtain s1 r1 where t: "studio_transaction ''update artifact version'' (write_version p ag) s = (s1, r1)" by fastforce
  from t show thesis
  proof (cases rule: studio_transaction_cases)
    case (rolled e)
    then show thesis using that(1) assms t by (auto simp: update_commit_def x studio_bind_def)
  next
    case (whole s2 s3 n)
    then have s': "r = Inr n" "calm_pair s1 s'"
      using assms t by (auto simp: update_commit_def x studio_bind_def Let_def)
    from whole(3,4) show thesis
    proof (rule write_version_whole)
      fix a v t'
      assume w: "find (\<lambda>r. af_id r = ua_artifact p) (sd_artifacts s2) = Some a" "n = af_version a + 1"
        "sd_artifacts s3 = map (bump (ua_artifact p) t') (sd_artifacts s2)" "sd_versions s3 = sd_versions s2 @ [v]"
        "vr_artifact v = ua_artifact p" "vr_version v = n" "vr_content v = ua_content p" "chat_frame (sd_chat s2) (sd_chat s3)"
        "\<not> blank (ua_artifact p)"
      have "calm_pair s3 s'" using calm_trans whole(5) s'(2) by blast
      then have "updated p n a s s'" "chat_frame (sd_chat s) (sd_chat s')"
        using w whole(1) by (auto simp: updated_def calm_pair_def chat_frame_def)
      then show thesis by (rule that(2) [OF s'(1) _ _ w(9)])
    qed
  qed
qed

lemma updated_ok: "updated p n a s s' \<Longrightarrow> versions_ok s \<Longrightarrow> versions_ok s'"
proof -
  assume u: "updated p n a s s'" and ok: "versions_ok s"
  obtain t v where f: "find (\<lambda>r. af_id r = ua_artifact p) (sd_artifacts s) = Some a" "n = af_version a + 1"
    "sd_artifacts s' = map (bump (ua_artifact p) t) (sd_artifacts s)" "sd_versions s' = sd_versions s @ [v]"
    "vr_artifact v = ua_artifact p" "vr_version v = n" using u by (auto simp: updated_def)
  have a: "a \<in> set (sd_artifacts s)" "af_id a = ua_artifact p" using f(1) by (auto simp: find_Some_iff)
  have same: "b = a" if "b \<in> set (sd_artifacts s)" "af_id b = ua_artifact p" for b
    using ok a that by (auto simp: versions_ok_def distinct_map inj_on_def)
  have num: "numbers i s' = (if i = ua_artifact p then numbers i s @ [n] else numbers i s)" for i
    by (simp add: numbers_def f(4,5,6))
  have h: "has_artifact s' i = has_artifact s i" for i by (simp add: has_artifact_def f(3) image_image)
  have ids: "map af_id (sd_artifacts s') = map af_id (sd_artifacts s)" by (simp add: f(3) comp_def)
  have ca: "contiguous (numbers (ua_artifact p) s @ [n]) (af_version a + 1)"
    using ok a by (auto simp: versions_ok_def f(2) intro!: contiguous_next)
  have "contiguous (numbers (af_id (bump (ua_artifact p) t b)) s') (af_version (bump (ua_artifact p) t b))"
    if b: "b \<in> set (sd_artifacts s)" for b
    using same [OF b] ok b ca by (auto simp: num versions_ok_def a(2))
  moreover have "has_artifact s (vr_artifact w)" if "w \<in> set (sd_versions s')" for w
    using ok that a(2) imageI [OF a(1), of af_id] by (auto simp: versions_ok_def f(4,5) has_artifact_def)
  ultimately show ?thesis using ok unfolding versions_ok_def ids h by (auto simp: f(3) versions_ok_def)
qed

section \<open>Every call keeps the versions\<close>

lemma create_artifact_ok:
  assumes c: "create_artifact user ws p s = (s', r)" and ok: "versions_ok s"
  shows "versions_ok s'"
proof -
  obtain s1 r1 where v: "in_chat (verify_workspace user ws) s = (s1, r1)" by fastforce
  have ok1: "versions_ok s1" using calm_keeps [OF calm_reads(1) v ok] .
  show ?thesis
  proof (cases r1)
    case (Inl e)
    then show ?thesis using c v ok1 by (simp add: create_artifact_def studio_bind_def)
  next
    case r1: (Inr u)
    obtain s2 r2 where g: "in_chat (resolve_agent_param ws (cp_agent_id p) (cp_agent_slug p)) s1 = (s2, r2)" by fastforce
    have ok2: "versions_ok s2" using calm_keeps [OF calm_reads(2) g ok1] .
    show ?thesis
    proof (cases r2)
      case (Inl e)
      then show ?thesis using c v g r1 ok2 by (simp add: create_artifact_def studio_bind_def)
    next
      case r2: (Inr ag)
      obtain s3 i where i: "in_chat new_uuid s2 = (s3, i)" by fastforce
      obtain s4 vid where u: "in_chat new_uuid s3 = (s4, vid)" by fastforce
      have ok4: "versions_ok s4" using calm_keeps [OF calm_reads(4) u calm_keeps [OF calm_reads(4) i ok2]] .
      define a where "a = \<lparr>af_id = i, af_ws = ws, af_conv = (if cp_conv p \<noteq> '''' then Some (cp_conv p) else None), af_title = cp_title p,
        af_ctype = (if cp_ctype p = '''' then ''text/markdown'' else cp_ctype p), af_version = 1,
        af_status = ArtifactStatusDraft, af_agent = Some ag, af_created = ch_now (sd_chat s2), af_updated = ch_now (sd_chat s2)\<rparr>"
      define w where "w = \<lparr>vr_id = vid, vr_artifact = i, vr_version = 1, vr_content = cp_content p, vr_summary = ''Initial version'',
        vr_agent = Some ag, vr_slug = cp_agent_slug p, vr_created = ch_now (sd_chat s2)\<rparr>"
      obtain s5 r5 where ca: "artifact_create a s4 = (s5, r5)" by fastforce
      obtain s6 r6 where cw: "create_version w s5 = (s6, r6)" by fastforce
      have ok5: "versions_ok s5" using create_cases [OF ca ok4] by (simp add: a_def)
      have ok6: "versions_ok s6" using first_version_ok [OF cw ok5] by (simp add: w_def)
      have "s' = s5 \<or> calm_pair s6 s'"
        using c v g r1 r2 i u ca cw
        by (auto simp: create_artifact_def studio_bind_def Let_def a_def [symmetric] w_def [symmetric] split: sum.splits)
      then show ?thesis using ok5 ok6 versions_ok_calm by blast
    qed
  qed
qed

lemma review_ok:
  assumes c: "review_artifact user ws p s = (s', r)" and ok: "versions_ok s"
  shows "versions_ok s'"
proof -
  obtain s1 r1 where v: "in_chat (verify_workspace user ws) s = (s1, r1)" by fastforce
  obtain s2 r2 where g: "artifact_get ws (rp_artifact p) s1 = (s2, r2)" by fastforce
  obtain s3 r3 where h: "in_chat (resolve_agent_param ws (rp_agent_id p) (rp_agent_slug p)) s2 = (s3, r3)" by fastforce
  obtain s4 i where i: "in_chat new_uuid s3 = (s4, i)" by fastforce
  have ok1: "versions_ok s1" using calm_keeps [OF calm_reads(1) v ok] .
  have ok2: "versions_ok s2" using calm_keeps [OF calm_get g ok1] .
  have ok3: "versions_ok s3" using calm_keeps [OF calm_reads(2) h ok2] .
  have ok4: "versions_ok s4" using calm_keeps [OF calm_reads(4) i ok3] .
  show ?thesis
  proof (cases "\<exists>a ag. r1 = Inr () \<and> r2 = Inr a \<and> r3 = Inr ag")
    case False
    then have "s' \<in> {s1, s2, s3}"
      using c v g h by (auto simp: review_artifact_def studio_bind_def split: sum.splits)
    then show ?thesis using ok1 ok2 ok3 by auto
  next
    case True
    then obtain a ag where r: "r1 = Inr ()" "r2 = Inr a" "r3 = Inr ag" by blast
    define n where "n = (if rp_version p \<le> 0 then af_version a else rp_version p)"
    define w where "w = \<lparr>rv_id = i, rv_artifact = rp_artifact p, rv_version = n, rv_agent = ag, rv_slug = rp_agent_slug p,
      rv_outcome = rp_outcome p, rv_comments = rp_comments p, rv_created = ch_now (sd_chat s3)\<rparr>"
    obtain s5 r5 where cw: "create_review w s4 = (s5, r5)" by fastforce
    obtain s6 r6 where st: "update_artifact_status (rp_artifact p) ArtifactReviewApproved s5 = (s6, r6)" by fastforce
    have ok5: "versions_ok s5" using calm_keeps [OF calm_review cw ok4] .
    have ok6: "versions_ok s6" using status_ok [OF st ok5] .
    have "s' = s5 \<or> s' = s6 \<or> calm_pair s5 s' \<or> calm_pair s6 s'"
      using c v g h i r cw st
      by (auto simp: review_artifact_def studio_bind_def Let_def n_def [symmetric] w_def [symmetric] split: sum.splits if_splits)
    then show ?thesis using ok5 ok6 versions_ok_calm by blast
  qed
qed

lemma commit_ok: "update_commit ws p x s = (s', r) \<Longrightarrow> versions_ok s \<Longrightarrow> versions_ok s'"
proof (erule commit_cases)
  assume "versions_ok s" "sd_artifacts s' = sd_artifacts s" "sd_versions s' = sd_versions s"
  then show ?thesis by (simp add: versions_ok_def numbers_def has_artifact_def)
qed (rule updated_ok)

lemma step_ok: "studio_step s s' \<Longrightarrow> versions_ok s \<Longrightarrow> versions_ok s'"
  by (induction rule: studio_step.induct)
    (auto intro: create_artifact_ok review_ok commit_ok calm_keeps [OF calm_check] calm_keeps [OF calm_read])

section \<open>Updates and reads\<close>

lemma get_found:
  assumes "artifact_get ws i s = (s', Inr a)"
  shows "a \<in> set (sd_artifacts s) \<and> af_ws a = ws \<and> af_id a = i \<and> \<not> blank ws"
proof -
  obtain s1 r1 where u: "studio_stmt ''select artifact by id'' (\<lambda>s. True) (\<lambda>s. find (\<lambda>r. af_ws r = ws \<and> af_id r = i) (sd_artifacts s)) (\<lambda>s. s) s = (s1, r1)"
    by fastforce
  have b: "\<not> blank ws \<and> \<not> blank i" using assms by (auto simp: artifact_get_def split: if_splits)
  from u show ?thesis
  proof (cases rule: stmt_cases)
    case (failed e)
    then show ?thesis using assms u b by (simp add: artifact_get_def)
  next
    case passed
    then have "find (\<lambda>r. af_ws r = ws \<and> af_id r = i) (sd_artifacts s) = Some a"
      using assms u b by (auto simp: artifact_get_def split: option.splits)
    then show ?thesis using b by (auto simp: find_Some_iff)
  qed
qed

lemma one_artifact:
  "versions_ok s \<Longrightarrow> a \<in> set (sd_artifacts s) \<Longrightarrow> b \<in> set (sd_artifacts s) \<Longrightarrow> af_id a = af_id b \<Longrightarrow> a = b"
  by (auto simp: versions_ok_def distinct_map inj_on_def)

lemma verify_nonblank: "verify_workspace u w c = (c', Inr x) \<Longrightarrow> \<not> blank u"
  by (auto simp: verify_workspace_def ask_bind_def workspace_get_def split: if_splits)

text \<open>A check that passes read the artifact and found the version it expects.\<close>

lemma check_passed:
  assumes "update_check user ws p s = (s', Inr x)"
  shows "calm_pair s s' \<and> (user, ws) \<in> set (ch_workspaces (sd_chat s)) \<and> \<not> blank user \<and> \<not> blank ws \<and> fst x \<in> set (sd_artifacts s)
    \<and> af_ws (fst x) = ws \<and> af_id (fst x) = ua_artifact p \<and> (ua_expected p > 0 \<longrightarrow> af_version (fst x) = ua_expected p)"
proof -
  obtain s1 r1 where v: "in_chat (verify_workspace user ws) s = (s1, r1)" by fastforce
  obtain s2 r2 where g: "artifact_get ws (ua_artifact p) s1 = (s2, r2)" by fastforce
  obtain u a where r: "r1 = Inr u" "r2 = Inr a"
    using assms v g by (auto simp: update_check_def studio_bind_def split: sum.splits)
  have w: "(user, ws) \<in> set (ch_workspaces (sd_chat s)) \<and> \<not> blank user"
    using v r(1) by (auto simp: in_chat_def split: prod.splits dest: verify_ok verify_nonblank)
  have x: "fst x = a" "ua_expected p > 0 \<longrightarrow> af_version a = ua_expected p"
    using assms v g r by (auto simp: update_check_def studio_bind_def split: sum.splits prod.splits if_splits)
  have "sd_artifacts s1 = sd_artifacts s" using calmD [OF calm_reads(1) v] by (simp add: calm_pair_def)
  then show ?thesis
    using calmD [OF calm_check assms] w x get_found [OF g [unfolded r]] by simp
qed

lemma updated_unique: "updated p n a s s' \<Longrightarrow> versions_ok s \<Longrightarrow> b \<in> set (sd_artifacts s) \<Longrightarrow> af_id b = ua_artifact p
    \<Longrightarrow> a = b \<and> n = af_version b + 1"
  by (metis (mono_tags, lifting) find_Some_iff nth_mem one_artifact updated_def)

lemma update_passed:
  assumes "update_artifact user ws p s = (s', Inr n)" "versions_ok s"
  obtains a where "a \<in> set (sd_artifacts s)" "af_id a = ua_artifact p" "af_ws a = ws" "updated p n a s s'" "n = af_version a + 1"
    "(user, ws) \<in> set (ch_workspaces (sd_chat s))" "\<not> blank user" "\<not> blank ws" "\<not> blank (ua_artifact p)" "chat_frame (sd_chat s) (sd_chat s')"
    "ua_expected p > 0 \<longrightarrow> af_version a = ua_expected p"
proof -
  obtain s1 r1 where k: "update_check user ws p s = (s1, r1)" by fastforce
  obtain x where x: "r1 = Inr x" using assms(1) k by (auto simp: update_artifact_def studio_bind_def split: sum.splits)
  have c: "update_commit ws p x s1 = (s', Inr n)" using assms(1) k x by (simp add: update_artifact_def studio_bind_def)
  have k': "calm_pair s s1" "(user, ws) \<in> set (ch_workspaces (sd_chat s))" "\<not> blank user" "\<not> blank ws" "fst x \<in> set (sd_artifacts s)"
    "af_ws (fst x) = ws" "af_id (fst x) = ua_artifact p" "ua_expected p > 0 \<longrightarrow> af_version (fst x) = ua_expected p"
    using check_passed [OF k [unfolded x]] by auto
  have ok1: "versions_ok s1" by (rule versions_ok_calm [OF k'(1) assms(2)])
  from c show thesis
  proof (cases rule: commit_cases)
    case (whole m a)
    have a: "a = fst x" "n = af_version (fst x) + 1"
      using updated_unique [OF whole(2) ok1] k' whole(1) by (auto simp: calm_pair_def)
    have "updated p n a s s'" "chat_frame (sd_chat s) (sd_chat s')"
      using whole(1,2,3) k'(1) by (auto simp: updated_def calm_pair_def chat_frame_def)
    then show thesis using that [of a] a k' whole(4) by simp
  qed simp
qed

lemma update_keeps_status:
  "update_artifact user ws p s = (s', Inr n) \<Longrightarrow> versions_ok s \<Longrightarrow> map af_status (sd_artifacts s') = map af_status (sd_artifacts s)"
  by (erule update_passed) (auto simp: updated_def comp_def)

text \<open>Without failing statements a version that is stored is read.\<close>

lemma stmt_sound: "\<not> ch_fails (sd_chat s) (ch_calls (sd_chat s)) \<Longrightarrow> ok s \<Longrightarrow>
    \<exists>s'. studio_stmt msg ok q (\<lambda>s. s) s = (s', Inr (q s)) \<and> calm_pair s s'"
  by (simp add: studio_stmt_def Let_def)

lemma verify_sound:
  assumes "ch_fails (sd_chat s) = (\<lambda>_. False)" "(user, ws) \<in> set (ch_workspaces (sd_chat s))" "\<not> blank user" "\<not> blank ws"
  shows "\<exists>s'. in_chat (verify_workspace user ws) s = (s', Inr ()) \<and> calm_pair s s'"
proof -
  have "snd (in_chat (verify_workspace user ws) s) = Inr ()"
    using assms by (simp add: in_chat_def verify_workspace_def ask_bind_def workspace_get_def stmt_def Let_def)
  then show ?thesis using calmD [OF calm_reads(1)] by (metis prod.collapse)
qed

lemma get_sound:
  assumes "ch_fails (sd_chat s) = (\<lambda>_. False)" "versions_ok s" "a \<in> set (sd_artifacts s)" "af_ws a = ws" "af_id a = i"
    "\<not> blank ws" "\<not> blank i"
  shows "\<exists>s'. artifact_get ws i s = (s', Inr a) \<and> calm_pair s s'"
proof -
  obtain b where f: "find (\<lambda>r. af_ws r = ws \<and> af_id r = i) (sd_artifacts s) = Some b"
    using assms(3-5) by (cases "find (\<lambda>r. af_ws r = ws \<and> af_id r = i) (sd_artifacts s)") (auto simp: find_None_iff)
  then have "b \<in> set (sd_artifacts s)" "af_id b = i" by (auto simp: find_Some_iff)
  then have b: "b = a" using one_artifact [OF assms(2)] assms(3,5) by auto
  then have "snd (artifact_get ws i s) = Inr a"
    using assms(1,6,7) f by (simp add: artifact_get_def studio_stmt_def Let_def)
  then show ?thesis using calmD [OF calm_get] by (metis prod.collapse)
qed

lemma set_versions_of [simp]: "set (versions_of i s) = {v \<in> set (sd_versions s). vr_artifact v = i}"
  by (auto simp: versions_of_def)

lemma one_version:
  "distinct (numbers i s) \<Longrightarrow> v \<in> set (sd_versions s) \<Longrightarrow> w \<in> set (sd_versions s) \<Longrightarrow> vr_artifact v = i \<Longrightarrow> vr_artifact w = i
    \<Longrightarrow> vr_version v = vr_version w \<Longrightarrow> v = w"
  by (auto simp: numbers_def distinct_map inj_on_def)

lemma latest_first:
  assumes "versions_of i s = v # vs" "w \<in> set (sd_versions s)" "vr_artifact w = i"
  shows "vr_version w \<le> vr_version v"
proof -
  let ?l = "sort_key vr_version (filter (\<lambda>v. vr_artifact v = i) (sd_versions s))"
  have l: "?l = rev vs @ [v]" using assms(1) by (simp add: versions_of_def rev_eq_Cons_iff)
  have "sorted (map vr_version (rev vs @ [v]))" using sorted_sort_key [of vr_version] l by metis
  moreover have "w \<in> set (rev vs @ [v])" using assms(2,3) l by (metis (mono_tags) mem_Collect_eq set_filter set_sort)
  ultimately show ?thesis by (auto simp: sorted_append)
qed

text \<open>The last version is found by its number, and as the latest.\<close>

lemma resolve_last:
  assumes f: "ch_fails (sd_chat s) = (\<lambda>_. False)" and ok: "versions_ok s" and a: "a \<in> set (sd_artifacts s)"
    and v: "v \<in> set (sd_versions s)" "vr_artifact v = af_id a" "vr_version v = af_version a"
    and m: "m \<le> 0 \<or> m = af_version a" and b: "\<not> blank (af_id a)"
  shows "\<exists>s'. resolve_artifact_version (af_id a) m s = (s', Inr v) \<and> calm_pair s s'"
proof -
  have c: "distinct (numbers (af_id a) s)" "\<And>n. n \<in> set (numbers (af_id a) s) \<Longrightarrow> n \<le> af_version a" "1 \<le> af_version a"
  proof -
    have "contiguous (numbers (af_id a) s) (af_version a)" using ok a by (simp add: versions_ok_def)
    then show "distinct (numbers (af_id a) s)" "\<And>n. n \<in> set (numbers (af_id a) s) \<Longrightarrow> n \<le> af_version a" "1 \<le> af_version a"
      by (auto simp: contiguous_def)
  qed
  have only: "w = v" if "w \<in> set (sd_versions s)" "vr_artifact w = af_id a" "vr_version w = vr_version v" for w
    using one_version [OF c(1)] that v by blast
  have "snd (resolve_artifact_version (af_id a) m s) = Inr v"
  proof (cases "m > 0")
    case True
    then have "m = vr_version v" using m v by auto
    moreover have "find (\<lambda>w. vr_version w = vr_version v) (versions_of (af_id a) s) = Some v"
    proof (cases "find (\<lambda>w. vr_version w = vr_version v) (versions_of (af_id a) s)")
      case None
      then show ?thesis using v by (auto simp: find_None_iff)
    next
      case (Some w)
      then have "w \<in> set (versions_of (af_id a) s)" "vr_version w = vr_version v"
        by (metis (mono_tags, lifting) find_Some_iff nth_mem)+
      then show ?thesis using only Some by simp
    qed
    ultimately show ?thesis using True f b
      by (simp add: resolve_artifact_version_def studio_bind_def list_versions_def studio_stmt_def Let_def)
  next
    case False
    obtain w ws where w: "versions_of (af_id a) s = w # ws"
      using v by (cases "versions_of (af_id a) s") (auto dest: arg_cong [where f = set])
    have w': "w \<in> set (sd_versions s)" "vr_artifact w = af_id a" using arg_cong [OF w, of set] by auto
    have "vr_version w \<le> af_version a" using c(2) w' by (auto simp: numbers_def)
    then have "w = v" using latest_first [OF w v(1,2)] only w' v(3) by auto
    then show ?thesis using False f b w
      by (simp add: resolve_artifact_version_def studio_bind_def get_latest_version_def studio_stmt_def Let_def)
  qed
  then show ?thesis using calmD [OF calm_resolve] by (metis prod.collapse)
qed

lemma list_reviews_calm: "list_reviews i n s = (s', r) \<Longrightarrow> calm_pair s s'"
  by (rule calmD [OF calm_lists(2)])

text \<open>
  C33. An update that succeeds is read back: without failing statements, reading the artifact at the
  version that the update returned, or at no version in particular, returns the content that was written,
  under the number after the one it replaced. The status is the one the artifact had, also an approval.
\<close>

theorem update_then_read:
  assumes up: "update_artifact user ws p s = (s1, Inr n)" and ok: "versions_ok s" and f: "ch_fails (sd_chat s) = (\<lambda>_. False)"
    and m: "m \<le> 0 \<or> m = n"
  shows "\<exists>s2 res a. read_artifact user ws (ua_artifact p) m s1 = (s2, Inr res) \<and> rd_content res = ua_content p \<and> rd_version res = n
    \<and> a \<in> set (sd_artifacts s) \<and> af_id a = ua_artifact p \<and> n = af_version a + 1 \<and> rd_status res = af_status a"
  using up ok
proof (rule update_passed)
  fix a
  assume a: "a \<in> set (sd_artifacts s)" "af_id a = ua_artifact p" "af_ws a = ws" "updated p n a s s1" "n = af_version a + 1"
    "(user, ws) \<in> set (ch_workspaces (sd_chat s))" "\<not> blank user" "\<not> blank ws" "\<not> blank (ua_artifact p)" "chat_frame (sd_chat s) (sd_chat s1)"
  have ok1: "versions_ok s1" by (rule updated_ok [OF a(4) ok])
  have w: "(user, ws) \<in> set (ch_workspaces (sd_chat s1))" and f1: "ch_fails (sd_chat s1) = (\<lambda>_. False)"
    using a(6,10) f by (simp_all add: chat_frame_def)
  obtain t v where u: "sd_artifacts s1 = map (bump (ua_artifact p) t) (sd_artifacts s)" "sd_versions s1 = sd_versions s @ [v]"
    "vr_artifact v = ua_artifact p" "vr_version v = n" "vr_content v = ua_content p" using a(4) by (auto simp: updated_def)
  let ?b = "bump (ua_artifact p) t a"
  have b: "?b \<in> set (sd_artifacts s1)" "af_ws ?b = ws" "af_id ?b = ua_artifact p" "af_version ?b = n"
    using a by (simp_all add: u(1))
  obtain sa where sa: "in_chat (verify_workspace user ws) s1 = (sa, Inr ())" "calm_pair s1 sa"
    using verify_sound [OF f1 w a(7,8)] by blast
  have calm_to: "ch_fails (sd_chat x) = (\<lambda>_. False) \<and> versions_ok x \<and> ?b \<in> set (sd_artifacts x) \<and> v \<in> set (sd_versions x)"
    if "calm_pair s1 x" for x
    using that f1 b(1) u(2) versions_ok_calm [OF that ok1] by (simp add: calm_pair_def chat_frame_def)
  obtain sb where sb: "artifact_get ws (ua_artifact p) sa = (sb, Inr ?b)" "calm_pair sa sb"
    using get_sound [of sa ?b] calm_to [OF sa(2)] b(2,3) a(8,9) by blast
  have ab: "calm_pair s1 sb" by (rule calm_trans [OF sa(2) sb(2)])
  obtain sc where sc: "resolve_artifact_version (ua_artifact p) m sb = (sc, Inr v)"
    using resolve_last [of sb ?b v m] calm_to [OF ab] u(3,4) b(3,4) m a(9) by auto
  show ?thesis using a sa sb sc u(4,5) by (auto simp: read_artifact_def studio_bind_def split: prod.split)
qed

text \<open>
  C14. Starting with no artifacts, whatever calls are made, interleaved, with whatever statements failing:
  no two versions of an artifact have the same number, all are between the first and the current
  version, and none from the second on is missing.
\<close>

theorem versions_contiguous:
  assumes "studio_step\<^sup>*\<^sup>* s s'" "sd_artifacts s = []" "sd_versions s = []" "a \<in> set (sd_artifacts s')"
  shows "distinct (numbers (af_id a) s') \<and> set (numbers (af_id a) s') \<subseteq> {1..af_version a} \<and> {2..af_version a} \<subseteq> set (numbers (af_id a) s')"
proof -
  have "versions_ok s" using assms(2,3) by (simp add: versions_ok_def)
  with assms(1) have "versions_ok s'" by (induction rule: rtranclp_induct) (auto intro: step_ok)
  then show ?thesis using assms(4) by (auto simp: versions_ok_def contiguous_def)
qed


section \<open>Witnesses\<close>

definition sample_studio :: studio where
  "sample_studio =
     \<lparr>sd_chat = sample_chat\<lparr>ch_agents := (\<lambda>i. if i = ''a1'' then Some \<lparr>ag_id = ''a1'', ag_slug = ''wally'', ag_name = ''Wally'', ag_manager = False\<rparr> else None)\<rparr>,
      sd_artifacts = [], sd_versions = [], sd_reviews = [], sd_order = id, sd_events = [], sd_cards = [], sd_aborted = False\<rparr>"

definition sample_create :: create_params where
  "sample_create = \<lparr>cp_agent_id = '''', cp_agent_slug = ''wally'', cp_conv = ''v'', cp_title = ''Plan'', cp_ctype = '''', cp_content = ''one''\<rparr>"

definition sample_update :: "string \<Rightarrow> int \<Rightarrow> update_params" where
  "sample_update content expected = \<lparr>ua_artifact = ''m0'', ua_content = content, ua_summary = '''', ua_expected = expected,
     ua_agent_id = '''', ua_agent_slug = ''wally''\<rparr>"

definition sample_created :: studio where
  "sample_created = fst (create_artifact ''u'' ''w'' sample_create sample_studio)"

definition ok_value :: "('a + 'b) \<Rightarrow> 'b option" where
  "ok_value r = (case r of Inl _ \<Rightarrow> None | Inr v \<Rightarrow> Some v)"

lemma ok_value_Some: "ok_value (snd x) = Some v \<Longrightarrow> x = (fst x, Inr v)"
  by (cases x) (simp add: ok_value_def split: sum.splits)

lemma sample_steps: "studio_step\<^sup>*\<^sup>* sample_studio sample_created"
  "sd_artifacts sample_studio = []" "sd_versions sample_studio = []" "ch_fails (sd_chat sample_studio) = (\<lambda>_. False)"
proof -
  have "studio_step sample_studio sample_created"
    unfolding sample_created_def by (rule studio_step.create [OF prod.collapse [symmetric]])
  then show "studio_step\<^sup>*\<^sup>* sample_studio sample_created" by blast
qed (simp_all add: sample_studio_def sample_chat_def)

definition sample_stored :: studio where
  "sample_stored = sample_studio\<lparr>sd_artifacts := sd_artifacts sample_created, sd_versions := sd_versions sample_created\<rparr>"

lemma sample_ok: "versions_ok sample_stored" "ch_fails (sd_chat sample_stored) = (\<lambda>_. False)"
proof -
  have "versions_ok sample_studio" using sample_steps by (simp add: versions_ok_def)
  then have "versions_ok sample_created"
    unfolding sample_created_def by (rule create_artifact_ok [OF prod.collapse [symmetric]])
  then show "versions_ok sample_stored" by (simp add: sample_stored_def versions_ok_def numbers_def has_artifact_def)
qed (use sample_steps(4) in \<open>simp add: sample_stored_def\<close>)

theorem versions_contiguous_witness:
  "\<exists>a \<in> set (sd_artifacts sample_created). set (numbers (af_id a) sample_created) \<subseteq> {1..af_version a}"
proof -
  have "sd_artifacts sample_created \<noteq> []" by code_simp
  then obtain a where a: "a \<in> set (sd_artifacts sample_created)" by (cases "sd_artifacts sample_created") auto
  show ?thesis using versions_contiguous [OF sample_steps(1-3) a] a by blast
qed

theorem update_then_read_witness:
  "\<exists>s2 res. read_artifact ''u'' ''w'' ''m0'' 0 (fst (update_artifact ''u'' ''w'' (sample_update ''two'' 1) sample_stored)) = (s2, Inr res)
     \<and> rd_content res = ''two'' \<and> rd_version res = 2"
proof -
  let ?p = "sample_update ''two'' 1"
  have "ok_value (snd (update_artifact ''u'' ''w'' ?p sample_stored)) = Some 2" by code_simp
  from update_then_read [OF ok_value_Some [OF this] sample_ok, of 0] show ?thesis
    by (auto simp: sample_update_def)
qed


end
