(* ===== verification/Conversations.thy ===== *)
theory Conversations
  imports Chat_Store "HOL-Library.Product_Lexorder"
begin

text \<open>
  Conversations of a workspace: \<open>chatservice/bootstrap.go\<close>, \<open>conversations.go\<close> and
  \<open>agents.go\<close> over the repositories of conversations, messages, agents, their settings and
  prompts, and tools. Tables are lists of rows. Every statement is numbered and \<open>dk_fails\<close> says
  which fail, besides those that violate a constraint. Rows that a query leaves unordered come in the order
  of \<open>dk_member_order\<close> and \<open>dk_conv_order\<close>; \<open>dk_bad\<close> are the messages whose
  JSON does not decode. The blueprints and the catalogue are the embedded seeds, an argument, as is the
  runtime client.
\<close>

section \<open>Data\<close>

record team_agent =
  ta_id :: string
  ta_ws :: string
  ta_name :: string
  ta_role :: string
  ta_slug :: string
  ta_avatar :: string
  ta_prompt :: string
  ta_descr :: string
  ta_status :: string
  ta_created :: int
  ta_updated :: int

record member_row =
  mb_id :: string
  mb_ws :: string
  mb_name :: string
  mb_role :: string
  mb_slug :: string
  mb_avatar :: string
  mb_prompt :: string
  mb_descr :: string
  mb_sort :: nat
  mb_created :: int
  mb_updated :: int

text \<open>\<open>None\<close> for \<open>allowed_tools\<close> is the nil slice, which is sent as NULL.\<close>

record settings_row =
  sg_agent :: string
  sg_model :: string
  sg_length :: string
  sg_tools :: "string list option"
  sg_created :: int
  sg_updated :: int

record prompt_row =
  pr_id :: string
  pr_agent :: string
  pr_name :: string
  pr_descr :: string
  pr_content :: string
  pr_sort :: nat
  pr_created :: int
  pr_updated :: int

record tool_row =
  tl_name :: string
  tl_display :: string
  tl_descr :: string
  tl_category :: string
  tl_icon :: string
  tl_sort :: nat
  tl_created :: int

record conv_row =
  cr_id :: string
  cr_ws :: string
  cr_agent :: "string option"
  cr_type :: string
  cr_title :: string
  cr_unread :: int
  cr_created :: int
  cr_updated :: int

record blueprint =
  bp_name :: string
  bp_slug :: string
  bp_role :: string
  bp_prompt :: string
  bp_descr :: string
  bp_tools :: "string list option"

record tool_def =
  td_name :: string
  td_display :: string
  td_descr :: string
  td_category :: string
  td_icon :: string

record seeds =
  sd_agents :: "blueprint list"
  sd_catalog :: "tool_def list"

record desk =
  dk_workspaces :: "(string \<times> string) list"
  dk_members :: "member_row list"
  dk_settings :: "settings_row list"
  dk_prompts :: "prompt_row list"
  dk_tools :: "tool_row list"
  dk_convs :: "conv_row list"
  dk_msgs :: "chat_message list"
  dk_booted :: "string list"
  dk_member_order :: "member_row list \<Rightarrow> member_row list"
  dk_conv_order :: "conv_row list \<Rightarrow> conv_row list"
  dk_bad :: "chat_message \<Rightarrow> bool"
  dk_now :: int
  dk_uuid :: nat
  dk_uuids :: "nat \<Rightarrow> string"
  dk_calls :: nat
  dk_fails :: "nat \<Rightarrow> bool"

type_synonym 'a desk_call = "desk \<Rightarrow> desk \<times> (gerror + 'a)"

definition ConversationTypeSwarm :: string where "ConversationTypeSwarm = ''swarm''"
definition ConversationTypeAgent :: string where "ConversationTypeAgent = ''agent''"
definition AgentRoleManager :: string where "AgentRoleManager = ''manager''"
definition DefaultSwarmTitle :: string where "DefaultSwarmTitle = ''My Swarm''"
definition DefaultAgentAvatarURL :: string where "DefaultAgentAvatarURL = ''''"
definition DefaultAgentModel :: string where "DefaultAgentModel = ''auto''"
definition ResponseLengthAuto :: string where "ResponseLengthAuto = ''auto''"
definition AgentStatusOnline :: string where "AgentStatusOnline = ''online''"
definition AgentStatusOffline :: string where "AgentStatusOffline = ''offline''"
definition AgentStatusPending :: string where "AgentStatusPending = ''pending''"
definition AgentStatusError :: string where "AgentStatusError = ''error''"
definition defaultListLimit :: int where "defaultListLimit = 50"

section \<open>Statements and transactions\<close>

definition desk_stmt :: "string \<Rightarrow> (desk \<Rightarrow> bool) \<Rightarrow> (desk \<Rightarrow> 'a) \<Rightarrow> (desk \<Rightarrow> desk) \<Rightarrow> 'a desk_call" where
  "desk_stmt msg ok q f d =
     (let d1 = d\<lparr>dk_calls := Suc (dk_calls d)\<rparr> in
      if dk_fails d (dk_calls d) \<or> \<not> ok d then (d1, Inl (srv (msg @ '': db error''))) else (f d1, Inr (q d)))"

definition desk_select :: "string \<Rightarrow> (desk \<Rightarrow> 'a) \<Rightarrow> 'a desk_call" where
  "desk_select msg q = desk_stmt msg (\<lambda>d. True) q (\<lambda>d. d)"

definition desk_write :: "string \<Rightarrow> (desk \<Rightarrow> bool) \<Rightarrow> (desk \<Rightarrow> desk) \<Rightarrow> unit desk_call" where
  "desk_write msg ok f = desk_stmt msg ok (\<lambda>d. ()) f"

definition desk_return :: "'a \<Rightarrow> 'a desk_call" where "desk_return a d = (d, Inr a)"
definition desk_raise :: "gerror \<Rightarrow> 'a desk_call" where "desk_raise e d = (d, Inl e)"

definition desk_bind :: "'a desk_call \<Rightarrow> ('a \<Rightarrow> 'b desk_call) \<Rightarrow> 'b desk_call" where
  "desk_bind m k d = (case m d of (d1, Inl e) \<Rightarrow> (d1, Inl e) | (d1, Inr a) \<Rightarrow> k a d1)"

fun desk_each :: "('a \<Rightarrow> unit desk_call) \<Rightarrow> 'a list \<Rightarrow> unit desk_call" where
  "desk_each f [] = desk_return ()"
| "desk_each f (x # xs) = desk_bind (f x) (\<lambda>_. desk_each f xs)"

definition desk_found :: "gerror \<Rightarrow> 'a option \<Rightarrow> 'a desk_call" where
  "desk_found e r = (case r of None \<Rightarrow> desk_raise e | Some x \<Rightarrow> desk_return x)"

definition desk_uuid :: "string desk_call" where
  "desk_uuid d = (d\<lparr>dk_uuid := Suc (dk_uuid d)\<rparr>, Inr (dk_uuids d (dk_uuid d)))"

definition desk_now :: "int desk_call" where "desk_now d = (d, Inr (dk_now d))"

definition desk_rollback :: "desk \<Rightarrow> desk \<Rightarrow> desk" where
  "desk_rollback d0 d = d\<lparr>dk_members := dk_members d0, dk_settings := dk_settings d0, dk_prompts := dk_prompts d0,
     dk_tools := dk_tools d0, dk_convs := dk_convs d0, dk_msgs := dk_msgs d0\<rparr>"

definition desk_transaction :: "string \<Rightarrow> 'a desk_call \<Rightarrow> 'a desk_call" where
  "desk_transaction op fn =
     desk_bind (desk_select (''begin '' @ op @ '' transaction'') (\<lambda>d. ())) (\<lambda>_ d0.
       case fn d0 of
         (d1, Inl e) \<Rightarrow> (desk_rollback d0 d1, Inl e)
       | (d1, Inr a) \<Rightarrow>
           (case desk_select (''commit '' @ op @ '' transaction'') (\<lambda>d. ()) d1 of
              (d2, Inl e) \<Rightarrow> (desk_rollback d0 d2, Inl e)
            | (d2, Inr _) \<Rightarrow> (d2, Inr a)))"

text \<open>\<open>INSERT \<dots> ON CONFLICT (key) DO UPDATE\<close>.\<close>

definition upsert_row :: "('r \<Rightarrow> 'k) \<Rightarrow> ('r \<Rightarrow> 'r) \<Rightarrow> 'r \<Rightarrow> 'r list \<Rightarrow> 'r list" where
  "upsert_row key upd r rs =
     (if key r \<in> key ` set rs then map (\<lambda>x. if key x = key r then upd x else x) rs else rs @ [r])"

section \<open>Repositories\<close>

definition desk_workspace :: "string \<Rightarrow> string \<Rightarrow> (string \<times> string) desk_call" where
  "desk_workspace user ws =
     (if blank user \<or> blank ws then desk_raise ErrInvalidInput
      else desk_bind (desk_select ''select workspace by id'' (\<lambda>d. find (\<lambda>p. p = (user, ws)) (dk_workspaces d)))
             (desk_found ErrWorkspaceNotFound))"

definition member_to_domain :: "member_row \<Rightarrow> team_agent" where
  "member_to_domain r =
     \<lparr>ta_id = mb_id r, ta_ws = mb_ws r, ta_name = mb_name r, ta_role = mb_role r, ta_slug = mb_slug r, ta_avatar = mb_avatar r,
      ta_prompt = mb_prompt r, ta_descr = mb_descr r, ta_status = AgentStatusOffline, ta_created = mb_created r,
      ta_updated = mb_updated r\<rparr>"

definition new_agent_row :: "team_agent \<Rightarrow> nat \<Rightarrow> member_row" where
  "new_agent_row a n =
     \<lparr>mb_id = ta_id a, mb_ws = ta_ws a, mb_name = ta_name a, mb_role = ta_role a, mb_slug = ta_slug a, mb_avatar = ta_avatar a,
      mb_prompt = ta_prompt a, mb_descr = ta_descr a, mb_sort = n, mb_created = ta_created a, mb_updated = ta_updated a\<rparr>"

definition team_of :: "string \<Rightarrow> desk \<Rightarrow> team_agent list" where
  "team_of ws d = map member_to_domain
     (sort_slice (dk_member_order d) (\<lambda>a b. (mb_sort a, mb_created a) < (mb_sort b, mb_created b))
        (filter (\<lambda>r. mb_ws r = ws) (dk_members d)))"

definition list_team :: "string \<Rightarrow> team_agent list desk_call" where
  "list_team ws =
     (if blank ws then desk_raise ErrInvalidInput
      else desk_select ''list agents by workspace id'' (team_of ws))"

definition agent_anywhere :: "string \<Rightarrow> team_agent desk_call" where
  "agent_anywhere i =
     (if blank i then desk_raise ErrInvalidInput
      else desk_bind (desk_select ''select agent by id global'' (\<lambda>d. map_option member_to_domain (find (\<lambda>r. mb_id r = i) (dk_members d))))
             (desk_found ErrAgentNotFound))"

definition overwrite_member :: "member_row \<Rightarrow> member_row \<Rightarrow> member_row" where
  "overwrite_member r x = x\<lparr>mb_name := mb_name r, mb_role := mb_role r, mb_slug := mb_slug r, mb_avatar := mb_avatar r,
     mb_prompt := mb_prompt r, mb_descr := mb_descr r, mb_sort := mb_sort r, mb_updated := mb_updated r\<rparr>"

text \<open>The pair of workspace and slug is unique.\<close>

definition save_agent :: "team_agent \<Rightarrow> nat \<Rightarrow> unit desk_call" where
  "save_agent a n = (let r = new_agent_row a n in
     desk_write ''upsert agent''
       (\<lambda>d. let rs = upsert_row mb_id (overwrite_member r) r (dk_members d) in
            mb_ws r \<in> snd ` set (dk_workspaces d) \<and> distinct (map (\<lambda>x. (mb_ws x, mb_slug x)) rs))
       (\<lambda>d. d\<lparr>dk_members := upsert_row mb_id (overwrite_member r) r (dk_members d)\<rparr>))"

definition settings_of :: "string \<Rightarrow> settings_row option desk_call" where
  "settings_of i =
     (if blank i then desk_raise ErrInvalidInput
      else desk_select ''select agent settings by agent id'' (\<lambda>d. find (\<lambda>r. sg_agent r = i) (dk_settings d)))"

definition known_member :: "string \<Rightarrow> desk \<Rightarrow> bool" where
  "known_member i d \<longleftrightarrow> i \<in> mb_id ` set (dk_members d)"

definition save_settings :: "settings_row \<Rightarrow> unit desk_call" where
  "save_settings r = desk_write ''upsert agent settings'' (\<lambda>d. known_member (sg_agent r) d \<and> sg_tools r \<noteq> None)
     (\<lambda>d. d\<lparr>dk_settings := upsert_row sg_agent
        (\<lambda>x. x\<lparr>sg_model := sg_model r, sg_length := sg_length r, sg_tools := sg_tools r, sg_updated := sg_updated r\<rparr>) r (dk_settings d)\<rparr>)"

definition prompts_of :: "string \<Rightarrow> prompt_row list desk_call" where
  "prompts_of i =
     (if blank i then desk_raise ErrInvalidInput
      else desk_select ''list agent prompts by agent id'' (\<lambda>d. sort_key pr_sort (filter (\<lambda>r. pr_agent r = i) (dk_prompts d))))"

definition save_prompt :: "prompt_row \<Rightarrow> unit desk_call" where
  "save_prompt r = desk_write ''upsert agent prompt'' (\<lambda>d. known_member (pr_agent r) d)
     (\<lambda>d. d\<lparr>dk_prompts := upsert_row pr_id
        (\<lambda>x. x\<lparr>pr_name := pr_name r, pr_descr := pr_descr r, pr_content := pr_content r, pr_sort := pr_sort r, pr_updated := pr_updated r\<rparr>)
        r (dk_prompts d)\<rparr>)"

definition save_tool :: "tool_row \<Rightarrow> unit desk_call" where
  "save_tool r = desk_write ''upsert tool'' (\<lambda>d. True)
     (\<lambda>d. d\<lparr>dk_tools := upsert_row tl_name
        (\<lambda>x. x\<lparr>tl_display := tl_display r, tl_descr := tl_descr r, tl_category := tl_category r, tl_icon := tl_icon r, tl_sort := tl_sort r\<rparr>)
        r (dk_tools d)\<rparr>)"

definition convs_of :: "string \<Rightarrow> desk \<Rightarrow> conv_row list" where
  "convs_of ws d = sort_slice (dk_conv_order d) (\<lambda>a b. (cr_updated b, cr_created b) < (cr_updated a, cr_created a))
     (filter (\<lambda>r. cr_ws r = ws) (dk_convs d))"

definition list_convs :: "string \<Rightarrow> conv_row list desk_call" where
  "list_convs ws =
     (if blank ws then desk_raise ErrInvalidInput
      else desk_select ''list conversations by workspace id'' (convs_of ws))"

definition conv_by_id :: "string \<Rightarrow> string \<Rightarrow> conv_row desk_call" where
  "conv_by_id ws i =
     (if blank ws \<or> blank i then desk_raise ErrInvalidInput
      else desk_bind (desk_select ''select conversation by id'' (\<lambda>d. find (\<lambda>r. cr_ws r = ws \<and> cr_id r = i) (dk_convs d)))
             (desk_found ErrConversationNotFound))"

definition find_default_swarm :: "string \<Rightarrow> conv_row desk_call" where
  "find_default_swarm ws =
     (if blank ws then desk_raise ErrInvalidInput
      else desk_bind (desk_select ''select default swarm conversation''
             (\<lambda>d. case sort_slice (dk_conv_order d) (\<lambda>a b. cr_created a < cr_created b)
                    (filter (\<lambda>r. cr_ws r = ws \<and> cr_type r = ConversationTypeSwarm) (dk_convs d)) of
                    [] \<Rightarrow> None | r # _ \<Rightarrow> Some r))
             (desk_found ErrConversationNotFound))"

definition conv_keys_ok :: "conv_row \<Rightarrow> desk \<Rightarrow> bool" where
  "conv_keys_ok r d \<longleftrightarrow> cr_ws r \<in> snd ` set (dk_workspaces d) \<and> (case cr_agent r of None \<Rightarrow> True | Some i \<Rightarrow> known_member i d)"

definition create_conv :: "conv_row \<Rightarrow> unit desk_call" where
  "create_conv r = desk_write ''insert conversation'' (\<lambda>d. conv_keys_ok r d \<and> cr_id r \<notin> cr_id ` set (dk_convs d))
     (\<lambda>d. d\<lparr>dk_convs := dk_convs d @ [r]\<rparr>)"

definition save_conv :: "conv_row \<Rightarrow> unit desk_call" where
  "save_conv r = desk_write ''upsert conversation'' (conv_keys_ok r)
     (\<lambda>d. d\<lparr>dk_convs := upsert_row cr_id
        (\<lambda>x. x\<lparr>cr_agent := cr_agent r, cr_type := cr_type r, cr_title := cr_title r, cr_unread := cr_unread r, cr_updated := cr_updated r\<rparr>)
        r (dk_convs d)\<rparr>)"

definition has_conv :: "string \<Rightarrow> string \<Rightarrow> desk \<Rightarrow> bool" where
  "has_conv ws i d \<longleftrightarrow> (\<exists>r \<in> set (dk_convs d). cr_ws r = ws \<and> cr_id r = i)"

text \<open>The messages of a conversation go with it.\<close>

definition delete_conv :: "string \<Rightarrow> string \<Rightarrow> unit desk_call" where
  "delete_conv ws i =
     (if blank ws \<or> blank i then desk_raise ErrInvalidInput
      else desk_bind (desk_stmt ''delete conversation'' (\<lambda>d. True) (has_conv ws i)
             (\<lambda>d. if has_conv ws i d then d\<lparr>dk_convs := filter (\<lambda>r. \<not> (cr_ws r = ws \<and> cr_id r = i)) (dk_convs d),
                      dk_msgs := filter (\<lambda>m. m_conv m \<noteq> i) (dk_msgs d)\<rparr> else d))
             (\<lambda>found. if found then desk_return () else desk_raise ErrConversationNotFound))"

definition mark_as_read :: "string \<Rightarrow> string \<Rightarrow> unit desk_call" where
  "mark_as_read ws i =
     (if blank ws \<or> blank i then desk_raise ErrInvalidInput
      else desk_bind (desk_stmt ''mark conversation read'' (\<lambda>d. True) (has_conv ws i)
             (\<lambda>d. d\<lparr>dk_convs := map (\<lambda>r. if cr_ws r = ws \<and> cr_id r = i then r\<lparr>cr_unread := 0, cr_updated := dk_now d\<rparr> else r) (dk_convs d)\<rparr>))
             (\<lambda>found. if found then desk_return () else desk_raise ErrConversationNotFound))"

section \<open>Reading messages\<close>

record pagination =
  pg_next :: string
  pg_prev :: string
  pg_has_next :: bool
  pg_has_prev :: bool

record message_page =
  mp_data :: "chat_message list"
  mp_pagination :: pagination

definition newest_first :: "chat_message list \<Rightarrow> chat_message list" where
  "newest_first ms = rev (sort_key (\<lambda>m. (m_created m, m_id m)) ms)"

definition decode_messages :: "string \<Rightarrow> chat_message list \<Rightarrow> chat_message list desk_call" where
  "decode_messages op ms d = (d, if \<exists>m \<in> set ms. dk_bad d m then Inl (srv (op @ '': invalid message'')) else Inr ms)"

definition build_pagination :: "chat_message list \<Rightarrow> string \<Rightarrow> bool \<Rightarrow> pagination" where
  "build_pagination ms scroll has_next =
     \<lparr>pg_next = (if has_next \<and> ms \<noteq> [] then m_id (last ms) else ''''),
      pg_prev = (if trim_space scroll \<noteq> '''' then scroll else ''''),
      pg_has_next = has_next, pg_has_prev = trim_space scroll \<noteq> ''''\<rparr>"

text \<open>The condition on the cursor row: older, or as old and before it by id.\<close>

definition before_cursor :: "chat_message \<Rightarrow> chat_message \<Rightarrow> bool" where
  "before_cursor c m \<longleftrightarrow> m_created m < m_created c \<or> (m_created m = m_created c \<and> m_id m < m_id c)"

definition in_conv :: "string \<Rightarrow> desk \<Rightarrow> chat_message list" where
  "in_conv cv d = filter (\<lambda>m. m_conv m = cv) (dk_msgs d)"

text \<open>\<open>limit + 1\<close> has to be a value of Postgres' \<open>bigint\<close>.\<close>

definition load_page :: "string \<Rightarrow> (chat_message \<Rightarrow> bool) \<Rightarrow> int \<Rightarrow> chat_message list desk_call" where
  "load_page cv p limit = desk_stmt ''list messages by conversation id'' (\<lambda>d. limit + 1 < 2 ^ 63)
     (\<lambda>d. take (nat (limit + 1)) (newest_first (filter p (in_conv cv d)))) (\<lambda>d. d)"

definition finish_page :: "string \<Rightarrow> int \<Rightarrow> chat_message list \<Rightarrow> message_page desk_call" where
  "finish_page scroll limit rows =
     (let has_next = int (length rows) > limit; kept = (if has_next then take (nat limit) rows else rows) in
      desk_bind (decode_messages ''decode stored message'' kept)
        (\<lambda>ms. desk_return \<lparr>mp_data = ms, mp_pagination = build_pagination ms scroll has_next\<rparr>))"

definition empty_page :: message_page where
  "empty_page = \<lparr>mp_data = [], mp_pagination = \<lparr>pg_next = '''', pg_prev = '''', pg_has_next = False, pg_has_prev = False\<rparr>\<rparr>"

definition list_messages_by_conv :: "string \<Rightarrow> string \<Rightarrow> int \<Rightarrow> message_page desk_call" where
  "list_messages_by_conv cv scroll limit0 =
     (if blank cv then desk_raise ErrInvalidInput
      else let limit = (if limit0 \<le> 0 then defaultListLimit else limit0); cursor_id = trim_space scroll in
        if cursor_id = '''' then desk_bind (load_page cv (\<lambda>m. True) limit) (finish_page scroll limit)
        else desk_bind (desk_select ''select message cursor'' (\<lambda>d. find (\<lambda>m. m_id m = cursor_id) (in_conv cv d)))
               (\<lambda>r. case r of
                  None \<Rightarrow> desk_return empty_page
                | Some c \<Rightarrow> desk_bind (load_page cv (before_cursor c) limit) (finish_page scroll limit)))"

definition latest_message :: "string \<Rightarrow> chat_message desk_call" where
  "latest_message cv =
     (if blank cv then desk_raise ErrInvalidInput
      else desk_bind (desk_select ''select latest message by conversation id''
             (\<lambda>d. case newest_first (in_conv cv d) of [] \<Rightarrow> None | m # _ \<Rightarrow> Some m))
           (\<lambda>r. desk_bind (desk_found ErrMessageNotFound r)
             (\<lambda>m. desk_bind (decode_messages ''decode latest message'' [m]) (\<lambda>_. desk_return m))))"

text \<open>The first row of each conversation wins.\<close>

definition latest_messages :: "string list \<Rightarrow> (string \<Rightarrow> chat_message option) desk_call" where
  "latest_messages ids =
     (if ids = [] then desk_return (\<lambda>_. None)
      else desk_bind (desk_select ''get latest messages by conversation ids''
             (\<lambda>d. newest_first (filter (\<lambda>m. m_conv m \<in> set ids) (dk_msgs d))))
           (\<lambda>rows. desk_bind (decode_messages ''decode latest message by conversation ids'' rows)
             (\<lambda>ms. desk_return (\<lambda>cv. find (\<lambda>m. m_conv m = cv) ms))))"

definition list_recent :: "(chat_message list \<Rightarrow> chat_message list) \<Rightarrow> string \<Rightarrow> int \<Rightarrow> chat_message list desk_call" where
  "list_recent ties cv limit0 =
     (if blank cv then desk_raise ErrInvalidInput
      else let limit = (if limit0 \<le> 0 then 20 else limit0) in
        desk_bind (desk_select ''list recent messages''
            (\<lambda>d. take (nat limit) (sort_slice ties (\<lambda>a b. m_created b < m_created a) (in_conv cv d))))
          (\<lambda>rows. desk_bind (decode_messages ''decode recent message'' rows) (\<lambda>ms. desk_return (rev ms))))"

definition fail_stale_pending :: "int \<Rightarrow> nat desk_call" where
  "fail_stale_pending cutoff = desk_stmt ''fail stale pending messages'' (\<lambda>d. True)
     (\<lambda>d. length (filter (\<lambda>m. m_status m = MsgPending \<and> m_created m < cutoff) (dk_msgs d)))
     (\<lambda>d. d\<lparr>dk_msgs := map (\<lambda>m. if m_status m = MsgPending \<and> m_created m < cutoff
                               then m\<lparr>m_status := MsgFailed, m_updated := dk_now d\<rparr> else m) (dk_msgs d)\<rparr>)"

end
