(* ===== verification/Chat_Service.thy ===== *)
theory Chat_Service
  imports Conversations
begin

text \<open>
  The chat service on the tables of \<open>Conversations\<close>: the bootstrap of a workspace
  (\<open>chatservice/bootstrap.go\<close>), the listing of conversations, messages and agents, and the creation,
  deletion and reading of conversations (\<open>conversations.go\<close>, \<open>agents.go\<close>).
\<close>

section \<open>Agents\<close>

text \<open>What the runtime client says of a workspace: an error, or a status that may be nil.\<close>

record runtime_status =
  rt_verified :: bool
  rt_phase :: string

type_synonym runtime_check = "string \<times> string \<Rightarrow> desk \<Rightarrow> gerror + runtime_status option"

definition status_for_runtime :: "runtime_status option \<Rightarrow> string" where
  "status_for_runtime r = (case r of None \<Rightarrow> AgentStatusOffline
     | Some s \<Rightarrow> if rt_verified s then AgentStatusOnline
         else let p = to_lower (trim_space (rt_phase s)) in
           if p = ''progressing'' \<or> p = ''pending'' then AgentStatusPending
           else if p = ''failed'' \<or> p = ''error'' then AgentStatusError
           else AgentStatusOffline)"

definition enrich_statuses :: "runtime_status option \<Rightarrow> team_agent list \<Rightarrow> team_agent list" where
  "enrich_statuses r = map (\<lambda>a. a\<lparr>ta_status := status_for_runtime r\<rparr>)"

definition enrich_agent_status :: "runtime_check \<Rightarrow> string \<times> string \<Rightarrow> team_agent list \<Rightarrow> desk \<Rightarrow> team_agent list" where
  "enrich_agent_status rt w ags d = (case rt w d of
     Inl e \<Rightarrow> map (\<lambda>a. a\<lparr>ta_status := AgentStatusOffline\<rparr>) ags
   | Inr r \<Rightarrow> enrich_statuses r ags)"

text \<open>The last agent with the id.\<close>

definition map_agents_by_id :: "team_agent list \<Rightarrow> string \<Rightarrow> team_agent option" where
  "map_agents_by_id ags i = find (\<lambda>a. ta_id a = i) (rev ags)"

section \<open>Bootstrap\<close>

definition apply_blueprint :: "team_agent option \<Rightarrow> blueprint \<Rightarrow> string \<Rightarrow> int \<Rightarrow> team_agent desk_call" where
  "apply_blueprint existing bp ws now = (case existing of
     None \<Rightarrow> desk_bind desk_uuid (\<lambda>i. desk_return
       \<lparr>ta_id = i, ta_ws = ws, ta_name = bp_name bp, ta_role = bp_role bp, ta_slug = bp_slug bp, ta_avatar = DefaultAgentAvatarURL,
        ta_prompt = bp_prompt bp, ta_descr = bp_descr bp, ta_status = '''', ta_created = now, ta_updated = now\<rparr>)
   | Some a \<Rightarrow> desk_return (a\<lparr>ta_name := bp_name bp, ta_role := bp_role bp, ta_slug := bp_slug bp, ta_prompt := bp_prompt bp,
        ta_descr := bp_descr bp, ta_avatar := DefaultAgentAvatarURL, ta_updated := now\<rparr>))"

text \<open>The loop over the blueprints, with the map from slugs to agents it updates.\<close>

fun apply_blueprints :: "string \<Rightarrow> int \<Rightarrow> (nat \<times> blueprint) list \<Rightarrow> (string \<Rightarrow> team_agent option) \<Rightarrow> unit desk_call" where
  "apply_blueprints ws now [] fresh = desk_return ()"
| "apply_blueprints ws now ((n, bp) # bps) fresh =
     desk_bind (apply_blueprint (fresh (bp_slug bp)) bp ws now) (\<lambda>a.
     desk_bind (save_agent a n) (\<lambda>_. apply_blueprints ws now bps (fresh(bp_slug bp \<mapsto> a))))"

definition ensure_default_agents :: "seeds \<Rightarrow> string \<Rightarrow> team_agent list desk_call" where
  "ensure_default_agents cfg ws =
     desk_transaction ''ensure default agents''
       (desk_bind (list_team ws) (\<lambda>ags.
        desk_bind desk_now (\<lambda>now.
        desk_bind (apply_blueprints ws now (enum_from 0 (sd_agents cfg)) (\<lambda>s. find (\<lambda>a. ta_slug a = s) (rev ags)))
          (\<lambda>_. list_team ws))))"

definition ensure_default_tools :: "seeds \<Rightarrow> unit desk_call" where
  "ensure_default_tools cfg =
     desk_bind desk_now (\<lambda>now. desk_each (\<lambda>(n, t). save_tool
       \<lparr>tl_name = td_name t, tl_display = td_display t, tl_descr = td_descr t, tl_category = td_category t, tl_icon = td_icon t,
        tl_sort = n, tl_created = now\<rparr>) (enum_from 0 (sd_catalog cfg)))"

definition blueprint_tools :: "seeds \<Rightarrow> string \<Rightarrow> string list option" where
  "blueprint_tools cfg slug = (case find (\<lambda>b. bp_slug b = slug) (sd_agents cfg) of None \<Rightarrow> None | Some b \<Rightarrow> bp_tools b)"

definition settings_for :: "seeds \<Rightarrow> team_agent \<Rightarrow> settings_row option \<Rightarrow> int \<Rightarrow> settings_row" where
  "settings_for cfg a existing now =
     (let r = \<lparr>sg_agent = ta_id a, sg_model = DefaultAgentModel, sg_length = ResponseLengthAuto,
               sg_tools = blueprint_tools cfg (ta_slug a), sg_created = now, sg_updated = now\<rparr>
      in case existing of
           None \<Rightarrow> r
         | Some x \<Rightarrow> r\<lparr>sg_model := sg_model x, sg_length := sg_length x, sg_created := sg_created x\<rparr>)"

definition ensure_default_settings :: "seeds \<Rightarrow> team_agent list \<Rightarrow> unit desk_call" where
  "ensure_default_settings cfg ags =
     desk_bind desk_now (\<lambda>now. desk_each (\<lambda>a.
       desk_bind (settings_of (ta_id a)) (\<lambda>existing. save_settings (settings_for cfg a existing now))) ags)"

definition default_prompt :: "string \<Rightarrow> team_agent \<Rightarrow> string \<Rightarrow> string \<Rightarrow> string \<Rightarrow> nat \<Rightarrow> int \<Rightarrow> prompt_row" where
  "default_prompt i a name descr content n now =
     \<lparr>pr_id = i, pr_agent = ta_id a, pr_name = name, pr_descr = descr, pr_content = content, pr_sort = n, pr_created = now, pr_updated = now\<rparr>"

definition default_prompts :: "team_agent \<Rightarrow> int \<Rightarrow> prompt_row list desk_call" where
  "default_prompts a now =
     desk_bind desk_uuid (\<lambda>i. desk_bind desk_uuid (\<lambda>j. desk_bind desk_uuid (\<lambda>k. desk_return
       [default_prompt i a ''IDENTITY.md'' ''Agent personality and identity'' (ta_prompt a) 0 now,
        default_prompt j a ''TOOLS.md'' ''Available tools and usage guide'' '''' 1 now,
        default_prompt k a ''SOUL.md'' ''Core behavioral directives'' '''' 2 now])))"

definition ensure_default_prompts :: "team_agent list \<Rightarrow> unit desk_call" where
  "ensure_default_prompts ags =
     desk_bind desk_now (\<lambda>now. desk_each (\<lambda>a.
       desk_bind (prompts_of (ta_id a)) (\<lambda>existing.
         if existing \<noteq> [] then desk_return () else desk_bind (default_prompts a now) (desk_each save_prompt))) ags)"

text \<open>Whether there is a swarm conversation, and the agents that have one of their own.\<close>

definition classify_convs :: "conv_row list \<Rightarrow> bool \<times> (string \<Rightarrow> bool)" where
  "classify_convs cs = (\<exists>c \<in> set cs. cr_type c = ConversationTypeSwarm, \<lambda>i. \<exists>c \<in> set cs. cr_agent c = Some i)"

definition all_convs_present :: "bool \<Rightarrow> team_agent list \<Rightarrow> (string \<Rightarrow> bool) \<Rightarrow> bool" where
  "all_convs_present swarm ags convs \<longleftrightarrow> swarm \<and> (\<forall>a \<in> set ags. ta_role a \<noteq> AgentRoleManager \<longrightarrow> convs (ta_id a))"

definition new_conv :: "string \<Rightarrow> string \<Rightarrow> string option \<Rightarrow> string \<Rightarrow> string \<Rightarrow> int \<Rightarrow> conv_row" where
  "new_conv i ws ag ty title now =
     \<lparr>cr_id = i, cr_ws = ws, cr_agent = ag, cr_type = ty, cr_title = title, cr_unread = 0, cr_created = now, cr_updated = now\<rparr>"

definition create_missing_swarm :: "string \<Rightarrow> int \<Rightarrow> unit desk_call" where
  "create_missing_swarm ws now d = (case find_default_swarm ws d of
     (d1, Inr _) \<Rightarrow> (d1, Inr ())
   | (d1, Inl e) \<Rightarrow>
       if code e \<noteq> ErrCodeConversationNotFound then (d1, Inl e)
       else desk_bind desk_uuid (\<lambda>i. save_conv (new_conv i ws None ConversationTypeSwarm DefaultSwarmTitle now)) d1)"

definition create_missing_convs :: "string \<Rightarrow> team_agent list \<Rightarrow> (string \<Rightarrow> bool) \<Rightarrow> int \<Rightarrow> unit desk_call" where
  "create_missing_convs ws ags existing now = desk_each (\<lambda>a.
     if ta_role a = AgentRoleManager \<or> existing (ta_id a) then desk_return ()
     else desk_bind desk_uuid (\<lambda>i. save_conv (new_conv i ws (Some (ta_id a)) ConversationTypeAgent (ta_name a) now))) ags"

definition ensure_default_convs :: "string \<Rightarrow> team_agent list \<Rightarrow> conv_row list desk_call" where
  "ensure_default_convs ws ags =
     desk_bind (list_convs ws) (\<lambda>cs.
       let (swarm, convs) = classify_convs cs in
       if all_convs_present swarm ags convs then desk_return cs
       else desk_transaction ''ensure default conversations''
         (desk_bind desk_now (\<lambda>now.
          desk_bind (if swarm then desk_return () else create_missing_swarm ws now) (\<lambda>_.
          desk_bind (create_missing_convs ws ags convs now) (\<lambda>_. list_convs ws)))))"

text \<open>The first run for a workspace, and what the process does once it has run.\<close>

definition bootstrap :: "seeds \<Rightarrow> string \<Rightarrow> string \<Rightarrow> ((string \<times> string) \<times> team_agent list \<times> conv_row list) desk_call" where
  "bootstrap cfg user ws =
     desk_bind (desk_workspace user ws) (\<lambda>w.
     desk_bind (ensure_default_agents cfg ws) (\<lambda>ags.
     desk_bind (ensure_default_tools cfg) (\<lambda>_.
     desk_bind (ensure_default_settings cfg ags) (\<lambda>_.
     desk_bind (ensure_default_prompts ags) (\<lambda>_.
     desk_bind (ensure_default_convs ws ags) (\<lambda>cs d.
       (d\<lparr>dk_booted := ws # dk_booted d\<rparr>, Inr (w, ags, cs))))))))"

definition ensure_bootstrap :: "seeds \<Rightarrow> string \<Rightarrow> string \<Rightarrow> ((string \<times> string) \<times> team_agent list \<times> conv_row list) desk_call" where
  "ensure_bootstrap cfg user ws d =
     (if ws \<in> set (dk_booted d)
      then case desk_workspace user ws d of
             (d1, Inl e) \<Rightarrow> (d1\<lparr>dk_booted := filter (\<lambda>x. x \<noteq> ws) (dk_booted d1)\<rparr>, Inl e)
           | (d1, Inr w) \<Rightarrow>
               desk_bind (list_team ws) (\<lambda>ags. desk_bind (list_convs ws) (\<lambda>cs. desk_return (w, ags, cs))) d1
      else bootstrap cfg user ws d)"

section \<open>The service\<close>

record conv_view =
  cw_row :: conv_row
  cw_agent :: "team_agent option"
  cw_last :: "(chat_message \<times> team_agent option) option"

definition with_agent :: "team_agent list \<Rightarrow> chat_message \<Rightarrow> chat_message \<times> team_agent option" where
  "with_agent ags m = (m, case m_agent m of None \<Rightarrow> None | Some i \<Rightarrow> map_agents_by_id ags i)"

definition conv_agent :: "team_agent list \<Rightarrow> conv_row \<Rightarrow> team_agent option" where
  "conv_agent ags c = (case cr_agent c of None \<Rightarrow> None | Some i \<Rightarrow> map_agents_by_id ags i)"

text \<open>Bootstrap, then the status of the agents.\<close>

definition open_workspace ::
  "seeds \<Rightarrow> runtime_check \<Rightarrow> string \<Rightarrow> string \<Rightarrow> (team_agent list \<times> conv_row list) desk_call" where
  "open_workspace cfg rt user ws =
     desk_bind (ensure_bootstrap cfg user ws) (\<lambda>(w, ags, cs) d. (d, Inr (enrich_agent_status rt w ags d, cs)))"

definition list_agents_of :: "seeds \<Rightarrow> runtime_check \<Rightarrow> string \<Rightarrow> string \<Rightarrow> team_agent list desk_call" where
  "list_agents_of cfg rt user ws = desk_bind (open_workspace cfg rt user ws) (\<lambda>(ags, cs). desk_return ags)"

definition list_conversations :: "seeds \<Rightarrow> runtime_check \<Rightarrow> string \<Rightarrow> string \<Rightarrow> conv_view list desk_call" where
  "list_conversations cfg rt user ws =
     desk_bind (open_workspace cfg rt user ws) (\<lambda>(ags, cs).
     desk_bind (latest_messages (map cr_id cs)) (\<lambda>latest.
       desk_return (map (\<lambda>c. \<lparr>cw_row = c, cw_agent = conv_agent ags c,
                                cw_last = map_option (with_agent ags) (latest (cr_id c))\<rparr>) cs)))"

definition get_conversation :: "seeds \<Rightarrow> runtime_check \<Rightarrow> string \<Rightarrow> string \<Rightarrow> string \<Rightarrow> conv_view desk_call" where
  "get_conversation cfg rt user ws i =
     desk_bind (open_workspace cfg rt user ws) (\<lambda>(ags, cs).
     desk_bind (conv_by_id ws i) (\<lambda>c d.
       case latest_message (cr_id c) d of (d1, r) \<Rightarrow>
         (d1, Inr \<lparr>cw_row = c, cw_agent = conv_agent ags c,
                   cw_last = (case r of Inl _ \<Rightarrow> None | Inr m \<Rightarrow> Some (with_agent ags m))\<rparr>)))"

definition list_messages ::
  "seeds \<Rightarrow> runtime_check \<Rightarrow> string \<Rightarrow> string \<Rightarrow> string \<Rightarrow> string \<Rightarrow> int \<Rightarrow> ((chat_message \<times> team_agent option) list \<times> pagination) desk_call" where
  "list_messages cfg rt user ws i scroll limit =
     desk_bind (open_workspace cfg rt user ws) (\<lambda>(ags, cs).
     desk_bind (conv_by_id ws i) (\<lambda>_.
     desk_bind (list_messages_by_conv i scroll limit) (\<lambda>p.
       desk_return (map (with_agent ags) (mp_data p), mp_pagination p))))"

definition create_conversation :: "string \<Rightarrow> string \<Rightarrow> string \<Rightarrow> string \<Rightarrow> string \<Rightarrow> conv_row desk_call" where
  "create_conversation user ws ty title agent_id =
     (if blank user \<or> blank ws \<or> (ty \<noteq> ConversationTypeSwarm \<and> ty \<noteq> ConversationTypeAgent) then desk_raise ErrInvalidInput
      else desk_bind (desk_workspace user ws) (\<lambda>_.
        desk_bind (if ty = ConversationTypeAgent then
                     (if blank agent_id then desk_raise ErrInvalidInput
                      else desk_bind (agent_anywhere agent_id) (\<lambda>a. desk_return (Some (ta_id a))))
                   else desk_return None) (\<lambda>ag.
        desk_bind desk_now (\<lambda>now.
        desk_bind desk_uuid (\<lambda>i.
          let c = new_conv i ws ag ty title now in
          desk_bind (create_conv c) (\<lambda>_. desk_return c))))))"

definition delete_conversation :: "string \<Rightarrow> string \<Rightarrow> string \<Rightarrow> unit desk_call" where
  "delete_conversation user ws i =
     (if blank user \<or> blank ws \<or> blank i then desk_raise ErrInvalidInput
      else desk_bind (desk_workspace user ws) (\<lambda>_. delete_conv ws i))"

definition mark_conversation_read :: "string \<Rightarrow> string \<Rightarrow> string \<Rightarrow> unit desk_call" where
  "mark_conversation_read user ws i = desk_bind (desk_workspace user ws) (\<lambda>_. mark_as_read ws i)"

end
