(* ===== verification/Chat_Service_Props.thy ===== *)
theory Chat_Service_Props
  imports Chat_Service
begin

text \<open>
  The pages of a conversation read one after another are its messages, newest first, once each, also
  when messages arrive meanwhile; what a bootstrap leaves behind, and that a second one changes nothing
  a user may have changed; and where a conversation is opened with an agent of another workspace or a
  workspace cannot be opened at all.
\<close>

section \<open>Calls step by step\<close>

lemma desk_bind_Inr [simp]: "m d = (d1, Inr a) \<Longrightarrow> desk_bind m k d = k a d1"
  by (simp add: desk_bind_def)

lemma desk_bind_Inl [simp]: "m d = (d1, Inl e) \<Longrightarrow> desk_bind m k d = (d1, Inl e)"
  by (simp add: desk_bind_def)

lemma desk_bind_cases:
  assumes "desk_bind m k d = (d', r)"
  obtains (failed) e where "m d = (d', Inl e)" "r = Inl e"
  | (went) d1 a where "m d = (d1, Inr a)" "k a d1 = (d', r)"
  using assms by (cases "m d"; cases "snd (m d)") (auto simp: desk_bind_def)

lemma desk_bind_Ok:
  assumes "desk_bind m k d = (d', Inr b)"
  obtains d1 a where "m d = (d1, Inr a)" "k a d1 = (d', Inr b)"
  using assms by (rule desk_bind_cases) auto

lemma desk_stmt_Ok:
  "desk_stmt msg ok q f d = (d', Inr a) \<longleftrightarrow>
     \<not> dk_fails d (dk_calls d) \<and> ok d \<and> a = q d \<and> d' = f (d\<lparr>dk_calls := Suc (dk_calls d)\<rparr>)"
  by (auto simp: desk_stmt_def Let_def)

lemma desk_stmt_Err:
  "desk_stmt msg ok q f d = (d', Inl e) \<longleftrightarrow>
     (dk_fails d (dk_calls d) \<or> \<not> ok d) \<and> e = srv (msg @ '': db error'') \<and> d' = d\<lparr>dk_calls := Suc (dk_calls d)\<rparr>"
  by (auto simp: desk_stmt_def Let_def)

lemma desk_return_run [simp]: "desk_return a d = (d, Inr a)"
  by (simp add: desk_return_def)

lemma desk_raise_run [simp]: "desk_raise e d = (d, Inl e)"
  by (simp add: desk_raise_def)

section \<open>The order of messages\<close>

definition msg_key :: "chat_message \<Rightarrow> int \<times> string" where
  "msg_key m = (m_created m, m_id m)"

lemma before_cursor_key: "before_cursor c m \<longleftrightarrow> msg_key m < msg_key c"
  by (auto simp: before_cursor_def msg_key_def less_prod_def')

lemma newest_first_rev: "rev (newest_first ms) = sort_key msg_key ms"
  by (simp add: newest_first_def msg_key_def [abs_def])

lemma set_newest_first [simp]: "set (newest_first ms) = set ms"
  by (simp add: newest_first_def)

lemma length_newest_first [simp]: "length (newest_first ms) = length ms"
  by (simp add: newest_first_def)

lemma newest_first_filter: "newest_first (filter p ms) = filter p (newest_first ms)"
  by (simp add: newest_first_def filter_sort flip: rev_filter)

lemma newest_first_descends: "sorted_wrt (\<lambda>a b. msg_key b \<le> msg_key a) (newest_first ms)"
proof -
  have "sorted (map msg_key (rev (newest_first ms)))" by (simp add: newest_first_rev)
  then show ?thesis by (simp add: sorted_wrt_map sorted_wrt_rev flip: rev_map)
qed

definition ids_distinct :: "chat_message list \<Rightarrow> bool" where
  "ids_distinct ms \<longleftrightarrow> distinct (map m_id ms)"

lemma key_inj: "ids_distinct ms \<Longrightarrow> a \<in> set ms \<Longrightarrow> b \<in> set ms \<Longrightarrow> msg_key a = msg_key b \<Longrightarrow> a = b"
  by (auto simp: ids_distinct_def distinct_map inj_on_def msg_key_def)

lemma distinct_keys: "ids_distinct ms \<Longrightarrow> distinct (map msg_key ms)"
  by (auto simp: ids_distinct_def distinct_map inj_on_def msg_key_def)

lemma ids_filter [simp]: "ids_distinct ms \<Longrightarrow> ids_distinct (filter p ms)"
  by (simp add: ids_distinct_def distinct_map_filter)

text \<open>Only the set of the messages matters.\<close>

lemma newest_first_unique:
  assumes "ids_distinct ms" "ids_distinct ns" "set ms = set ns"
  shows "newest_first ms = newest_first ns"
proof -
  have "sort_key msg_key ms = sort_key msg_key ns"
  proof (rule map_sorted_distinct_set_unique [where f = msg_key])
    show "inj_on msg_key (set (sort_key msg_key ms) \<union> set (sort_key msg_key ns))"
      using key_inj [OF assms(1)] assms(3) by (auto simp: inj_on_def)
    have "mset (map msg_key (sort_key msg_key xs)) = mset (map msg_key xs)" for xs by simp
    then show "distinct (map msg_key (sort_key msg_key ms))" "distinct (map msg_key (sort_key msg_key ns))"
      using distinct_keys assms(1,2) mset_eq_imp_distinct_iff by metis+
  qed (simp_all add: assms(3))
  then show ?thesis by (metis newest_first_rev rev_rev_ident)
qed

text \<open>What comes after a message is what is before it as a cursor.\<close>

lemma after_cursor:
  assumes "ids_distinct ms" "newest_first ms = xs @ c # ys"
  shows "newest_first (filter (before_cursor c) ms) = ys"
proof -
  have d: "sorted_wrt (\<lambda>a b. msg_key b \<le> msg_key a) (xs @ c # ys)"
    using newest_first_descends [of ms] assms(2) by simp
  have "distinct (newest_first ms)"
    using assms(1) by (simp add: newest_first_def ids_distinct_def distinct_map)
  then have n: "distinct (xs @ c # ys)" using assms(2) by simp
  have s: "set (xs @ c # ys) = set ms" using assms(2) by (metis set_newest_first)
  have "\<not> before_cursor c x" if "x \<in> set xs" for x
    using d that by (auto simp: before_cursor_key sorted_wrt_append)
  moreover have "before_cursor c y" if "y \<in> set ys" for y
  proof -
    have "msg_key y \<le> msg_key c" using d that by (simp add: sorted_wrt_append)
    moreover have "msg_key y \<noteq> msg_key c" using key_inj [OF assms(1), of y c] n s that by auto
    ultimately show ?thesis by (simp add: before_cursor_key)
  qed
  moreover have "\<not> before_cursor c c" by (simp add: before_cursor_key)
  ultimately show ?thesis by (simp add: newest_first_filter assms(2) filter_empty_conv)
qed

section \<open>Reading page after page\<close>

text \<open>A desk that answers: no statement fails, the rows decode, and ids are distinct and without surrounding space.\<close>

definition serves :: "string \<Rightarrow> desk \<Rightarrow> bool" where
  "serves cv d \<longleftrightarrow> dk_fails d = (\<lambda>_. False) \<and> ids_distinct (in_conv cv d)
     \<and> (\<forall>m \<in> set (in_conv cv d). \<not> dk_bad d m \<and> m_id m \<noteq> '''' \<and> trim_space (m_id m) = m_id m)"

definition page_limit :: "int \<Rightarrow> int" where
  "page_limit limit = (if limit \<le> 0 then defaultListLimit else limit)"

lemma page_limit_pos: "0 < page_limit limit"
  by (simp add: page_limit_def defaultListLimit_def)

text \<open>A client that asks for the next page until there is none; the desk may change from one request to the next.\<close>

fun read_pages :: "string \<Rightarrow> int \<Rightarrow> desk list \<Rightarrow> string \<Rightarrow> chat_message list option" where
  "read_pages cv limit [] scroll = None"
| "read_pages cv limit (d # ds) scroll =
     (case snd (list_messages_by_conv cv scroll limit d) of
        Inl _ \<Rightarrow> None
      | Inr p \<Rightarrow> if pg_has_next (mp_pagination p)
          then map_option (append (mp_data p)) (read_pages cv limit ds (pg_next (mp_pagination p)))
          else Some (mp_data p))"

lemma finish_page_run:
  assumes "\<forall>m \<in> set rows. \<not> dk_bad d m" "0 < limit"
  shows "snd (finish_page scroll limit rows d) = Inr \<lparr>mp_data = take (nat limit) rows,
    mp_pagination = build_pagination (take (nat limit) rows) scroll (nat limit < length rows)\<rparr>"
proof -
  have "int (length rows) > limit \<longleftrightarrow> nat limit < length rows" using assms(2) by linarith
  moreover have "\<forall>m \<in> set (take (nat limit) rows). \<not> dk_bad d m" using assms(1) by (meson in_set_takeD)
  ultimately show ?thesis
    using assms(1) by (auto simp: finish_page_def Let_def desk_bind_def decode_messages_def)
qed

lemma load_then_finish:
  assumes s: "dk_fails d = (\<lambda>_. False)" "\<forall>m \<in> set (in_conv cv d). \<not> dk_bad d m" and l: "0 < limit" "limit + 1 < 2 ^ 63"
    and R: "R = newest_first (filter p (in_conv cv d))"
  shows "snd (desk_bind (load_page cv p limit) (finish_page scroll limit) d) = Inr \<lparr>mp_data = take (nat limit) R,
    mp_pagination = build_pagination (take (nat limit) R) scroll (nat limit < length R)\<rparr>"
proof -
  let ?d = "d\<lparr>dk_calls := Suc (dk_calls d)\<rparr>" and ?rows = "take (nat (limit + 1)) R"
  have load: "load_page cv p limit d = (?d, Inr ?rows)"
    using s(1) l by (simp add: load_page_def desk_stmt_def Let_def R)
  have "\<forall>m \<in> set ?rows. \<not> dk_bad ?d m"
    using s(2) R by (auto dest: in_set_takeD)
  then have "snd (finish_page scroll limit ?rows ?d) = Inr \<lparr>mp_data = take (nat limit) ?rows,
      mp_pagination = build_pagination (take (nat limit) ?rows) scroll (nat limit < length ?rows)\<rparr>"
    using finish_page_run l(1) by blast
  moreover have "take (nat limit) ?rows = take (nat limit) R" "nat limit < length ?rows \<longleftrightarrow> nat limit < length R"
    using l(1) by auto
  ultimately show ?thesis by (simp add: load desk_bind_def)
qed

text \<open>What a request returns, at the start and at a cursor.\<close>

lemma page_run:
  assumes s: "serves cv d" and cv: "\<not> blank cv" and l: "limit + 1 < 2 ^ 63"
    and R: "(scroll = '''' \<and> R = newest_first (in_conv cv d))
      \<or> (\<exists>c \<in> set (in_conv cv d). scroll = m_id c \<and> R = newest_first (filter (before_cursor c) (in_conv cv d)))"
  shows "snd (list_messages_by_conv cv scroll limit d) = Inr \<lparr>mp_data = take (nat (page_limit limit)) R,
    mp_pagination = build_pagination (take (nat (page_limit limit)) R) scroll (nat (page_limit limit) < length R)\<rparr>"
proof -
  have L: "0 < page_limit limit" "page_limit limit + 1 < 2 ^ 63" using l by (simp_all add: page_limit_def defaultListLimit_def)
  have s': "dk_fails d = (\<lambda>_. False)" "\<forall>m \<in> set (in_conv cv d). \<not> dk_bad d m" "ids_distinct (in_conv cv d)"
    using s by (simp_all add: serves_def)
  from R show ?thesis
  proof (elim disjE conjE bexE)
    assume "scroll = ''''" "R = newest_first (in_conv cv d)"
    then show ?thesis
      using load_then_finish [OF s'(1,2) L, of R "\<lambda>m. True" scroll] cv
      by (simp add: list_messages_by_conv_def Let_def flip: page_limit_def)
  next
    fix c
    assume c: "c \<in> set (in_conv cv d)" "scroll = m_id c" "R = newest_first (filter (before_cursor c) (in_conv cv d))"
    have t: "trim_space scroll = scroll" "scroll \<noteq> ''''" using s c(1,2) by (simp_all add: serves_def)
    obtain b where b: "find (\<lambda>m. m_id m = scroll) (in_conv cv d) = Some b"
      using c(1,2) by (cases "find (\<lambda>m. m_id m = scroll) (in_conv cv d)") (auto simp: find_None_iff)
    then have "b \<in> set (in_conv cv d)" "m_id b = scroll" by (auto simp: find_Some_iff)
    then have "b = c" using s'(3) c(1,2) by (auto simp: ids_distinct_def distinct_map inj_on_def)
    let ?d = "d\<lparr>dk_calls := Suc (dk_calls d)\<rparr>"
    have conv: "in_conv cv ?d = in_conv cv d" by (simp add: in_conv_def)
    have "desk_select ''select message cursor'' (\<lambda>d. find (\<lambda>m. m_id m = scroll) (in_conv cv d)) d = (?d, Inr (Some c))"
      using s'(1) b \<open>b = c\<close> by (simp add: desk_select_def desk_stmt_def Let_def)
    moreover have "snd (desk_bind (load_page cv (before_cursor c) (page_limit limit)) (finish_page scroll (page_limit limit)) ?d)
      = Inr \<lparr>mp_data = take (nat (page_limit limit)) R,
          mp_pagination = build_pagination (take (nat (page_limit limit)) R) scroll (nat (page_limit limit) < length R)\<rparr>"
      using s'(1,2) L c(3) by (intro load_then_finish) (simp_all add: conv)
    ultimately show ?thesis
      using cv t by (simp add: list_messages_by_conv_def Let_def flip: page_limit_def)
  qed
qed

text \<open>Messages that arrive later are newer than all there were.\<close>

definition arrived :: "string \<Rightarrow> desk \<Rightarrow> desk \<Rightarrow> bool" where
  "arrived cv d0 d \<longleftrightarrow> set (in_conv cv d0) \<subseteq> set (in_conv cv d)
     \<and> (\<forall>n \<in> set (in_conv cv d) - set (in_conv cv d0). \<forall>m \<in> set (in_conv cv d0). msg_key m < msg_key n)"

lemma arrived_before:
  assumes "arrived cv d0 d" "serves cv d0" "serves cv d" "c \<in> set (in_conv cv d0)"
  shows "newest_first (filter (before_cursor c) (in_conv cv d)) = newest_first (filter (before_cursor c) (in_conv cv d0))"
proof (rule newest_first_unique)
  have "m \<in> set (in_conv cv d0)" if "m \<in> set (in_conv cv d)" "before_cursor c m" for m
  proof (rule ccontr)
    assume "m \<notin> set (in_conv cv d0)"
    then have "msg_key c < msg_key m" using assms(1,4) that(1) by (simp add: arrived_def)
    then show False using that(2) by (simp add: before_cursor_key)
  qed
  then show "set (filter (before_cursor c) (in_conv cv d)) = set (filter (before_cursor c) (in_conv cv d0))"
    using assms(1) by (auto simp: arrived_def)
qed (use assms(2,3) in \<open>simp_all add: serves_def\<close>)

lemma take_last: "0 < n \<Longrightarrow> n < length xs \<Longrightarrow> last (take n xs) = xs ! (n - 1) \<and> take n xs \<noteq> []"
proof -
  assume n: "0 < n" "n < length xs"
  then have ne: "take n xs \<noteq> []" by auto
  then show ?thesis using last_conv_nth [OF ne] n by (simp add: min_def)
qed

lemma take_split: "0 < n \<Longrightarrow> n < length xs \<Longrightarrow> xs = take (n - 1) xs @ xs ! (n - 1) # drop n xs"
  by (metis Suc_diff_1 Suc_lessD id_take_nth_drop)

text \<open>From a page that has a next one: reading on returns the rest.\<close>

lemma read_page:
  assumes s: "serves cv d" and cv: "\<not> blank cv" and l: "limit + 1 < 2 ^ 63"
    and R: "(scroll = '''' \<and> R = newest_first (in_conv cv d))
      \<or> (\<exists>c \<in> set (in_conv cv d). scroll = m_id c \<and> R = newest_first (filter (before_cursor c) (in_conv cv d)))"
    and next_page: "\<And>L. L = nat (page_limit limit) \<Longrightarrow> L < length R \<Longrightarrow> read_pages cv limit ds (m_id (R ! (L - 1))) = Some (drop L R)"
  shows "read_pages cv limit (d # ds) scroll = Some R"
proof -
  define L where "L = nat (page_limit limit)"
  have L: "0 < L" using page_limit_pos [of limit] by (simp add: L_def)
  have p: "snd (list_messages_by_conv cv scroll limit d) = Inr \<lparr>mp_data = take L R,
      mp_pagination = build_pagination (take L R) scroll (L < length R)\<rparr>"
    using page_run [OF s cv l R] by (simp add: L_def)
  show ?thesis
  proof (cases "L < length R")
    case True
    then show ?thesis using p next_page [OF L_def] take_last [OF L True] by (simp add: build_pagination_def)
  qed (use p in \<open>simp add: build_pagination_def\<close>)
qed

lemma read_rest:
  assumes "\<not> blank cv" "limit + 1 < 2 ^ 63" "serves cv d0"
  shows "\<forall>d \<in> set ds. serves cv d \<and> arrived cv d0 d \<Longrightarrow> c \<in> set (in_conv cv d0)
    \<Longrightarrow> R = newest_first (filter (before_cursor c) (in_conv cv d0)) \<Longrightarrow> R \<noteq> [] \<Longrightarrow> length R \<le> length ds
    \<Longrightarrow> read_pages cv limit ds (m_id c) = Some R"
proof (induction ds arbitrary: c R)
  case (Cons d ds)
  have d: "serves cv d" "arrived cv d0 d" and ds: "\<forall>d \<in> set ds. serves cv d \<and> arrived cv d0 d" using Cons.prems(1) by simp_all
  have c: "c \<in> set (in_conv cv d)" using d(2) Cons.prems(2) by (auto simp: arrived_def)
  have R: "R = newest_first (filter (before_cursor c) (in_conv cv d))"
    using arrived_before [OF d(2) assms(3) d(1) Cons.prems(2)] Cons.prems(3) by simp
  show ?case
  proof (rule read_page [OF d(1) assms(1,2)])
    fix L
    assume L: "L = nat (page_limit limit)" "L < length R"
    have pos: "0 < L" using page_limit_pos [of limit] L(1) by simp
    let ?e = "R ! (L - 1)"
    have e: "?e \<in> set (filter (before_cursor c) (in_conv cv d0))"
      using L(2) Cons.prems(3) nth_mem [of "L - 1" R] by simp
    have split: "newest_first (filter (before_cursor c) (in_conv cv d0)) = take (L - 1) R @ ?e # drop L R"
      using take_split [OF pos L(2)] Cons.prems(3) by simp
    have "ids_distinct (filter (before_cursor c) (in_conv cv d0))" using assms(3) by (simp add: serves_def)
    then have "newest_first (filter (before_cursor ?e) (filter (before_cursor c) (in_conv cv d0))) = drop L R"
      using split by (rule after_cursor)
    moreover have "filter (before_cursor ?e) (filter (before_cursor c) (in_conv cv d0)) = filter (before_cursor ?e) (in_conv cv d0)"
      using e by (auto simp: before_cursor_key intro!: filter_cong)
    ultimately have eq: "drop L R = newest_first (filter (before_cursor ?e) (in_conv cv d0))" by simp
    have len: "length (drop L R) \<le> length ds" "drop L R \<noteq> []" using L(2) pos Cons.prems(5) by auto
    show "read_pages cv limit ds (m_id ?e) = Some (drop L R)"
      by (rule Cons.IH [OF ds _ eq len(2,1)]) (use e in simp)
  qed (use c R in blast)
qed (simp add: newest_first_def)

text \<open>
  C13. Reading a conversation page by page, for any page size, with the cursors the service returns,
  yields every message it had at the first request exactly once, newest first, after at most as many
  further requests as there are messages; messages that arrive between the requests neither repeat
  nor hide any.
\<close>

theorem pages_complete:
  assumes "\<not> blank cv" "limit + 1 < 2 ^ 63" "serves cv d0" "\<forall>d \<in> set ds. serves cv d \<and> arrived cv d0 d"
    and "length (in_conv cv d0) \<le> length ds"
  shows "read_pages cv limit (d0 # ds) '''' = Some (newest_first (in_conv cv d0))"
proof (rule read_page [OF assms(3,1,2)])
  fix L
  let ?R = "newest_first (in_conv cv d0)"
  assume L: "L = nat (page_limit limit)" "L < length ?R"
  have pos: "0 < L" using page_limit_pos [of limit] L(1) by simp
  let ?e = "?R ! (L - 1)"
  have e: "?e \<in> set (in_conv cv d0)" using L(2) nth_mem [of "L - 1" ?R] by simp
  have "drop L ?R = newest_first (filter (before_cursor ?e) (in_conv cv d0))"
    using take_split [OF pos L(2)] assms(3) by (intro after_cursor [symmetric]) (simp_all add: serves_def)
  then show "read_pages cv limit ds (m_id ?e) = Some (drop L ?R)"
    by (rule read_rest [OF assms(1,2,3,4) e]) (use L(2) assms(5) in simp_all)
qed simp

section \<open>What calls leave alone\<close>

text \<open>The uuids that are still to come.\<close>

definition future :: "desk \<Rightarrow> string set" where
  "future d = dk_uuids d ` {dk_uuid d..}"

definition same_tables :: "desk \<Rightarrow> desk \<Rightarrow> bool" where
  "same_tables d d' \<longleftrightarrow> dk_workspaces d' = dk_workspaces d \<and> dk_members d' = dk_members d \<and> dk_settings d' = dk_settings d
     \<and> dk_prompts d' = dk_prompts d \<and> dk_tools d' = dk_tools d \<and> dk_convs d' = dk_convs d \<and> dk_msgs d' = dk_msgs d
     \<and> future d' \<subseteq> future d \<and> dk_uuids d' = dk_uuids d"

lemma same_tables_refl [simp]: "same_tables d d"
  by (simp add: same_tables_def)

lemma same_tables_calls [simp]: "same_tables d (d\<lparr>dk_calls := n\<rparr>)"
  by (simp add: same_tables_def future_def)

lemma future_uuid: "future (d\<lparr>dk_uuid := Suc (dk_uuid d)\<rparr>) \<subseteq> future d"
  by (auto simp: future_def)

definition along :: "(desk \<Rightarrow> desk \<Rightarrow> bool) \<Rightarrow> 'a desk_call \<Rightarrow> bool" where
  "along R m \<longleftrightarrow> (\<forall>d. R d (fst (m d)))"

lemma alongD: "along R m \<Longrightarrow> m d = (d', r) \<Longrightarrow> R d d'"
  by (metis along_def fst_conv)

lemma alongI: "(\<And>d d' r. m d = (d', r) \<Longrightarrow> R d d') \<Longrightarrow> along R m"
  by (metis along_def prod.collapse)

text \<open>Relations between the tables before and after that hold of calls that only read.\<close>

locale desk_relation =
  fixes R :: "desk \<Rightarrow> desk \<Rightarrow> bool"
  assumes idle: "same_tables d d' \<Longrightarrow> R d d'"
    and trans: "R d d' \<Longrightarrow> R d' d'' \<Longrightarrow> R d d''"
    and closed: "R d d' \<Longrightarrow> future d' \<subseteq> future d \<and> dk_uuids d' = dk_uuids d"
    and same_workspaces: "R d d' \<Longrightarrow> dk_workspaces d' = dk_workspaces d"
begin

lemma along_idle: "(\<And>d. same_tables d (fst (m d))) \<Longrightarrow> along R m"
  by (simp add: along_def idle)

lemma along_basic [simp, intro]:
  "along R (desk_return a)" "along R (desk_raise e)" "along R desk_uuid" "along R desk_now" "along R (desk_found e r)"
  "along R (desk_select msg q)"
proof -
  show "along R (desk_return a)" "along R (desk_raise e)" "along R desk_now"
    by (rule along_idle, simp add: desk_now_def)+
  show "along R desk_uuid"
    by (rule along_idle) (simp add: desk_uuid_def same_tables_def future_uuid)
  show "along R (desk_found e r)" by (rule along_idle) (simp add: desk_found_def split: option.split)
  show "along R (desk_select msg q)" by (rule along_idle) (simp add: desk_select_def desk_stmt_def Let_def)
qed

lemma along_bind: "along R m \<Longrightarrow> (\<And>a. along R (k a)) \<Longrightarrow> along R (desk_bind m k)"
  by (rule alongI, erule desk_bind_cases) (auto dest: alongD intro: trans)

lemma along_each: "(\<And>x. x \<in> set xs \<Longrightarrow> along R (f x)) \<Longrightarrow> along R (desk_each f xs)"
  by (induction xs) (auto intro: along_bind)

lemma along_if: "along R m \<Longrightarrow> along R k \<Longrightarrow> along R (if b then m else k)"
  by simp

lemma along_write: "(\<And>d. R d (f d)) \<Longrightarrow> along R (desk_write msg ok f)"
proof -
  assume f: "\<And>d. R d (f d)"
  have "R d (f (d\<lparr>dk_calls := n\<rparr>))" for d n using trans [OF idle [OF same_tables_calls] f] .
  then show ?thesis by (simp add: along_def desk_write_def desk_stmt_def Let_def idle)
qed

lemma rolled_back: "R d d' \<Longrightarrow> R d (desk_rollback d d')"
  using closed [of d d'] same_workspaces [of d d'] by (intro idle) (auto simp: same_tables_def desk_rollback_def future_def)

lemma along_transaction: "along R fn \<Longrightarrow> along R (desk_transaction opn fn)"
proof -
  assume fn: "along R fn"
  have "along R (\<lambda>d0. case fn d0 of
         (d1, Inl e) \<Rightarrow> (desk_rollback d0 d1, Inl e)
       | (d1, Inr a) \<Rightarrow>
           (case desk_select (''commit '' @ opn @ '' transaction'') (\<lambda>d. ()) d1 of
              (d2, Inl e) \<Rightarrow> (desk_rollback d0 d2, Inl e)
            | (d2, Inr _) \<Rightarrow> (d2, Inr a)))"
  proof (rule alongI)
    fix d0 d' r
    assume t: "(case fn d0 of
         (d1, Inl e) \<Rightarrow> (desk_rollback d0 d1, Inl e)
       | (d1, Inr a) \<Rightarrow>
           (case desk_select (''commit '' @ opn @ '' transaction'') (\<lambda>d. ()) d1 of
              (d2, Inl e) \<Rightarrow> (desk_rollback d0 d2, Inl e)
            | (d2, Inr _) \<Rightarrow> (d2, Inr a))) = (d', r)"
    obtain d1 r1 where f: "fn d0 = (d1, r1)" by fastforce
    obtain d2 r2 where c: "desk_select (''commit '' @ opn @ '' transaction'') (\<lambda>d. ()) d1 = (d2, r2)" by fastforce
    have R1: "R d0 d1" by (rule alongD [OF fn f])
    have R2: "R d0 d2" by (rule trans [OF R1 alongD [OF along_basic(6) c]])
    show "R d0 d'"
    proof (cases r1)
      case (Inl e)
      then show ?thesis using t rolled_back [OF R1] by (simp add: f)
    next
      case (Inr a)
      show ?thesis using t rolled_back [OF R2] R2 unfolding f Inr prod.case sum.case c by (cases r2) auto
    qed
  qed
  then show ?thesis unfolding desk_transaction_def by (intro along_bind along_basic)
qed

lemma along_reads [simp, intro]:
  "along R (desk_workspace u w)" "along R (list_team w)" "along R (settings_of i)" "along R (prompts_of i)" "along R (list_convs w)"
  "along R (find_default_swarm w)" "along R (agent_anywhere i)" "along R (conv_by_id w i)" "along R (latest_message v)"
  "along R (latest_messages vs)" "along R (decode_messages opn ms)"
proof -
  show d: "along R (decode_messages opn ms)" for opn ms by (rule along_idle) (simp add: decode_messages_def)
  show "along R (desk_workspace u w)" "along R (list_team w)" "along R (settings_of i)" "along R (prompts_of i)"
    "along R (list_convs w)" "along R (find_default_swarm w)" "along R (agent_anywhere i)" "along R (conv_by_id w i)"
    unfolding desk_workspace_def list_team_def settings_of_def prompts_of_def list_convs_def find_default_swarm_def
      agent_anywhere_def conv_by_id_def
    by (intro along_if along_bind along_basic)+
  show "along R (latest_message v)" "along R (latest_messages vs)"
    unfolding latest_message_def latest_messages_def by (intro along_if along_bind along_basic d)+
qed

end

section \<open>Tables a part of the bootstrap does not write\<close>

definition frame_of :: "(desk \<Rightarrow> 'a) \<Rightarrow> desk \<Rightarrow> desk \<Rightarrow> bool" where
  "frame_of sel d d' \<longleftrightarrow> sel d' = sel d \<and> dk_workspaces d' = dk_workspaces d \<and> future d' \<subseteq> future d \<and> dk_uuids d' = dk_uuids d"

interpretation members_kept: desk_relation "frame_of dk_members"
  by unfold_locales (auto simp: frame_of_def same_tables_def)

interpretation settings_kept: desk_relation "frame_of dk_settings"
  by unfold_locales (auto simp: frame_of_def same_tables_def)

interpretation prompts_kept: desk_relation "frame_of dk_prompts"
  by unfold_locales (auto simp: frame_of_def same_tables_def)

interpretation convs_kept: desk_relation "frame_of dk_convs"
  by unfold_locales (auto simp: frame_of_def same_tables_def)

interpretation msgs_kept: desk_relation "frame_of dk_msgs"
  by unfold_locales (auto simp: frame_of_def same_tables_def)

lemma frame_writes:
  "frame_of dk_settings d (d\<lparr>dk_members := a\<rparr>)" "frame_of dk_prompts d (d\<lparr>dk_members := a\<rparr>)"
  "frame_of dk_convs d (d\<lparr>dk_members := a\<rparr>)" "frame_of dk_msgs d (d\<lparr>dk_members := a\<rparr>)"
  "frame_of dk_members d (d\<lparr>dk_settings := b\<rparr>)" "frame_of dk_prompts d (d\<lparr>dk_settings := b\<rparr>)"
  "frame_of dk_convs d (d\<lparr>dk_settings := b\<rparr>)" "frame_of dk_msgs d (d\<lparr>dk_settings := b\<rparr>)"
  "frame_of dk_members d (d\<lparr>dk_prompts := c\<rparr>)" "frame_of dk_settings d (d\<lparr>dk_prompts := c\<rparr>)"
  "frame_of dk_convs d (d\<lparr>dk_prompts := c\<rparr>)" "frame_of dk_msgs d (d\<lparr>dk_prompts := c\<rparr>)"
  "frame_of dk_members d (d\<lparr>dk_tools := t\<rparr>)" "frame_of dk_settings d (d\<lparr>dk_tools := t\<rparr>)" "frame_of dk_prompts d (d\<lparr>dk_tools := t\<rparr>)"
  "frame_of dk_convs d (d\<lparr>dk_tools := t\<rparr>)" "frame_of dk_msgs d (d\<lparr>dk_tools := t\<rparr>)"
  "frame_of dk_members d (d\<lparr>dk_convs := v\<rparr>)" "frame_of dk_settings d (d\<lparr>dk_convs := v\<rparr>)" "frame_of dk_prompts d (d\<lparr>dk_convs := v\<rparr>)"
  "frame_of dk_msgs d (d\<lparr>dk_convs := v\<rparr>)"
  by (simp_all add: frame_of_def future_def)

context desk_relation
begin

lemma along_saved_agents: "(\<And>a n. along R (save_agent a n)) \<Longrightarrow> along R (ensure_default_agents cfg ws)"
proof -
  assume s: "\<And>a n. along R (save_agent a n)"
  have b: "along R (apply_blueprint e bp ws now)" for e bp now
    unfolding apply_blueprint_def by (cases e) (auto intro!: along_bind)
  have "along R (apply_blueprints ws now bps fresh)" for now bps fresh
    by (induction bps arbitrary: fresh) (auto intro!: along_bind s b)
  then show ?thesis unfolding ensure_default_agents_def
    by (intro along_transaction along_bind along_reads along_basic)
qed

lemma along_agents: "(\<And>d a. R d (d\<lparr>dk_members := a\<rparr>)) \<Longrightarrow> along R (ensure_default_agents cfg ws)"
  by (rule along_saved_agents) (simp add: save_agent_def Let_def along_write)

lemma along_tools: "(\<And>d t. R d (d\<lparr>dk_tools := t\<rparr>)) \<Longrightarrow> along R (ensure_default_tools cfg)"
  unfolding ensure_default_tools_def save_tool_def
  by (intro along_bind along_each along_basic) (auto split: prod.split intro!: along_write)

lemma along_settings: "(\<And>d b. R d (d\<lparr>dk_settings := b\<rparr>)) \<Longrightarrow> along R (ensure_default_settings cfg ags)"
  unfolding ensure_default_settings_def save_settings_def
  by (intro along_bind along_each along_basic along_reads along_write)

lemma along_prompts: "(\<And>d c. R d (d\<lparr>dk_prompts := c\<rparr>)) \<Longrightarrow> along R (ensure_default_prompts ags)"
  unfolding ensure_default_prompts_def default_prompts_def save_prompt_def
  by (intro along_bind along_each along_basic along_reads along_if along_write)

lemma along_swarm:
  "along R (desk_bind desk_uuid (\<lambda>i. save_conv (new_conv i ws None ConversationTypeSwarm DefaultSwarmTitle now)))
    \<Longrightarrow> along R (create_missing_swarm ws now)"
proof (rule alongI)
  fix d d' r
  assume b: "along R (desk_bind desk_uuid (\<lambda>i. save_conv (new_conv i ws None ConversationTypeSwarm DefaultSwarmTitle now)))"
    and c: "create_missing_swarm ws now d = (d', r)"
  obtain d1 x where f: "find_default_swarm ws d = (d1, x)" by fastforce
  then have r: "R d d1" by (rule alongD [OF along_reads(6)])
  show "R d d'"
    using c r trans [OF r alongD [OF b]] by (auto simp: create_missing_swarm_def f split: sum.splits if_splits)
qed

lemma along_convs:
  assumes "\<And>ag ty title now. along R (desk_bind desk_uuid (\<lambda>i. save_conv (new_conv i ws ag ty title now)))"
  shows "along R (ensure_default_convs ws ags)"
  unfolding ensure_default_convs_def create_missing_convs_def
  by (intro along_bind along_reads) (auto simp: Let_def split: prod.split
      intro!: along_transaction along_bind along_each along_if along_swarm assms)

lemma along_convs_plain: "(\<And>d v. R d (d\<lparr>dk_convs := v\<rparr>)) \<Longrightarrow> along R (ensure_default_convs ws ags)"
  unfolding save_conv_def by (intro along_convs along_bind along_basic) (simp add: save_conv_def along_write)

end

section \<open>A bootstrap loses nothing\<close>

text \<open>Rows are kept, apart from those whose id the generator of uuids would still hand out.\<close>

definition data_kept :: "desk \<Rightarrow> desk \<Rightarrow> bool" where
  "data_kept d d' \<longleftrightarrow> dk_msgs d' = dk_msgs d
     \<and> (\<forall>c \<in> set (dk_convs d). cr_id c \<notin> future d \<longrightarrow> c \<in> set (dk_convs d'))
     \<and> (\<forall>p \<in> set (dk_prompts d). pr_id p \<notin> future d \<longrightarrow> p \<in> set (dk_prompts d'))
     \<and> dk_workspaces d' = dk_workspaces d \<and> future d' \<subseteq> future d \<and> dk_uuids d' = dk_uuids d"

interpretation data: desk_relation data_kept
proof
  fix d d' d''
  assume "data_kept d d'" "data_kept d' d''"
  then show "data_kept d d''" unfolding data_kept_def by (metis subsetD subset_trans)
qed (auto simp: data_kept_def same_tables_def)

text \<open>What the user chose in the settings of an agent.\<close>

definition choices :: "desk \<Rightarrow> (string \<times> string \<times> string \<times> int) set" where
  "choices d = (\<lambda>s. (sg_agent s, sg_model s, sg_length s, sg_created s)) ` set (dk_settings d)"

definition one_setting :: "desk \<Rightarrow> bool" where
  "one_setting d \<longleftrightarrow> distinct (map sg_agent (dk_settings d))"

definition choices_kept :: "desk \<Rightarrow> desk \<Rightarrow> bool" where
  "choices_kept d d' \<longleftrightarrow> (one_setting d \<longrightarrow> one_setting d' \<and> choices d \<subseteq> choices d')
     \<and> dk_workspaces d' = dk_workspaces d \<and> future d' \<subseteq> future d \<and> dk_uuids d' = dk_uuids d"

interpretation choice: desk_relation choices_kept
proof
  fix d d' d''
  assume "choices_kept d d'" "choices_kept d' d''"
  then show "choices_kept d d''" unfolding choices_kept_def by (metis subset_trans)
qed (auto simp: choices_kept_def same_tables_def one_setting_def choices_def)

lemma upsert_keeps: "x \<in> set rs \<Longrightarrow> key x \<noteq> key r \<Longrightarrow> x \<in> set (upsert_row key upd r rs)"
  by (auto simp: upsert_row_def intro: image_eqI)

lemma upsert_keys: "(\<And>x. key (upd x) = key x) \<Longrightarrow> map key (upsert_row key upd r rs) = (if key r \<in> key ` set rs then map key rs else map key rs @ [key r])"
  by (auto simp: upsert_row_def)

lemma data_along_new_conv: "along data_kept (desk_bind desk_uuid (\<lambda>i. save_conv (new_conv i ws ag ty title now)))"
proof (rule alongI)
  fix d d' r
  assume b: "desk_bind desk_uuid (\<lambda>i. save_conv (new_conv i ws ag ty title now)) d = (d', r)"
  let ?i = "dk_uuids d (dk_uuid d)" and ?u = "d\<lparr>dk_uuid := Suc (dk_uuid d)\<rparr>"
  have i: "?i \<in> future d" by (simp add: future_def)
  have "save_conv (new_conv ?i ws ag ty title now) ?u = (d', r)"
    using b by (simp add: desk_bind_def desk_uuid_def)
  then have d': "dk_msgs d' = dk_msgs d" "dk_prompts d' = dk_prompts d" "dk_workspaces d' = dk_workspaces d" "future d' \<subseteq> future d"
    "dk_uuids d' = dk_uuids d" "dk_convs d' = dk_convs d \<or> (\<exists>upd. dk_convs d' = upsert_row cr_id upd (new_conv ?i ws ag ty title now) (dk_convs d))"
    by (auto simp: save_conv_def desk_write_def desk_stmt_def Let_def future_def split: if_splits)
  have "c \<in> set (dk_convs d')" if "c \<in> set (dk_convs d)" "cr_id c \<notin> future d" for c
  proof -
    have "cr_id c \<noteq> cr_id (new_conv ?i ws ag ty title now)" using that(2) i by (auto simp: new_conv_def)
    then show ?thesis using d'(6) that(1) upsert_keeps by metis
  qed
  then show "data_kept d d'" using d' by (simp add: data_kept_def)
qed

lemma save_prompts_keep:
  "desk_each save_prompt ps d = (d', r) \<Longrightarrow> dk_msgs d' = dk_msgs d \<and> dk_convs d' = dk_convs d \<and> dk_workspaces d' = dk_workspaces d
     \<and> future d' = future d \<and> dk_uuids d' = dk_uuids d \<and> (\<forall>p \<in> set (dk_prompts d). pr_id p \<notin> pr_id ` set ps \<longrightarrow> p \<in> set (dk_prompts d'))"
proof (induction ps arbitrary: d)
  case (Cons q ps)
  obtain d1 x where q: "save_prompt q d = (d1, x)" by fastforce
  have 1: "dk_msgs d1 = dk_msgs d \<and> dk_convs d1 = dk_convs d \<and> dk_workspaces d1 = dk_workspaces d \<and> future d1 = future d \<and> dk_uuids d1 = dk_uuids d
     \<and> (\<forall>p \<in> set (dk_prompts d). pr_id p \<noteq> pr_id q \<longrightarrow> p \<in> set (dk_prompts d1))"
    using q by (auto simp: save_prompt_def desk_write_def desk_stmt_def Let_def future_def upsert_keeps split: if_splits)
  show ?case
  proof (cases x)
    case (Inl e)
    then show ?thesis using Cons.prems 1 q by simp
  next
    case (Inr u)
    then have "desk_each save_prompt ps d1 = (d', r)" using Cons.prems q by simp
    from Cons.IH [OF this] 1 show ?thesis by simp
  qed
qed simp

lemma default_prompts_run:
  "default_prompts a now d = (d', Inr ps) \<Longrightarrow> pr_id ` set ps \<subseteq> future d \<and> (\<forall>p \<in> set ps. pr_agent p = ta_id a) \<and> ps \<noteq> []"
  by (auto simp: default_prompts_def desk_bind_def desk_uuid_def default_prompt_def future_def)

lemma data_along_prompts: "along data_kept (ensure_default_prompts ags)"
proof -
  have seed: "along data_kept (desk_bind (default_prompts a now) (desk_each save_prompt))" for a now
  proof (rule alongI)
    fix d d' r
    assume b: "desk_bind (default_prompts a now) (desk_each save_prompt) d = (d', r)"
    obtain d1 x where p: "default_prompts a now d = (d1, x)" by fastforce
    have "along data_kept (default_prompts a now)"
      unfolding default_prompts_def by (intro data.along_bind data.along_basic)
    then have k: "data_kept d d1" using p by (rule alongD)
    show "data_kept d d'"
    proof (cases x)
      case (Inl e)
      then show ?thesis using b p k by simp
    next
      case (Inr ps)
      then have "desk_each save_prompt ps d1 = (d', r)" using b p by simp
      note s = save_prompts_keep [OF this]
      have "pr_id ` set ps \<subseteq> future d" using default_prompts_run p Inr by blast
      then have "p \<in> set (dk_prompts d')" if "p \<in> set (dk_prompts d)" "pr_id p \<notin> future d" for p
      proof -
        have "p \<in> set (dk_prompts d1)" using k that by (simp add: data_kept_def)
        moreover have "pr_id p \<notin> pr_id ` set ps" using \<open>pr_id ` set ps \<subseteq> future d\<close> that(2) by blast
        ultimately show ?thesis using s by blast
      qed
      then show ?thesis using s k by (simp add: data_kept_def)
    qed
  qed
  show ?thesis
    unfolding ensure_default_prompts_def
    by (rule data.along_bind [OF data.along_basic(4)], rule data.along_each, rule data.along_bind [OF data.along_reads(4)],
        rule data.along_if [OF data.along_basic(1) seed])
qed

lemma choice_along_settings: "along choices_kept (ensure_default_settings cfg ags)"
proof -
  have one: "along choices_kept (desk_bind (settings_of (ta_id a)) (\<lambda>e. save_settings (settings_for cfg a e now)))" for a now
  proof (rule alongI)
    fix d d' r
    assume b: "desk_bind (settings_of (ta_id a)) (\<lambda>e. save_settings (settings_for cfg a e now)) d = (d', r)"
    from b show "choices_kept d d'"
    proof (rule desk_bind_cases)
      fix e
      assume "settings_of (ta_id a) d = (d', Inl e)"
      then show ?thesis by (rule alongD [OF choice.along_reads(3)])
    next
      fix d1 e
      assume g: "settings_of (ta_id a) d = (d1, Inr e)" and s: "save_settings (settings_for cfg a e now) d1 = (d', r)"
      have k: "choices_kept d d1" by (rule alongD [OF choice.along_reads(3) g])
      have e: "e = find (\<lambda>r. sg_agent r = ta_id a) (dk_settings d1)"
        using g by (auto simp: settings_of_def desk_select_def desk_stmt_def Let_def split: if_splits)
      let ?n = "settings_for cfg a e now"
      let ?f = "\<lambda>x. x\<lparr>sg_model := sg_model ?n, sg_length := sg_length ?n, sg_tools := sg_tools ?n, sg_updated := sg_updated ?n\<rparr>"
      have w: "dk_workspaces d' = dk_workspaces d1 \<and> future d' = future d1 \<and> dk_uuids d' = dk_uuids d1
        \<and> (dk_settings d' = dk_settings d1 \<or> dk_settings d' = upsert_row sg_agent ?f ?n (dk_settings d1))"
        using s by (auto simp: save_settings_def desk_write_def desk_stmt_def Let_def future_def split: if_splits)
      have n: "sg_agent ?n = ta_id a" by (simp add: settings_for_def Let_def split: option.split)
      have "choices_kept d1 d'"
      proof (cases "dk_settings d' = dk_settings d1")
        case True
        then show ?thesis using w by (simp add: choices_kept_def one_setting_def choices_def)
      next
        case False
        then have up: "dk_settings d' = upsert_row sg_agent ?f ?n (dk_settings d1)" using w by simp
        have "one_setting d'" if "one_setting d1"
          using that upsert_keys [of sg_agent ?f ?n "dk_settings d1"] by (auto simp: one_setting_def up)
        moreover have "choices d1 \<subseteq> choices d'" if one: "one_setting d1"
        proof
          fix c
          assume "c \<in> choices d1"
          then obtain t where t: "t \<in> set (dk_settings d1)" "c = (sg_agent t, sg_model t, sg_length t, sg_created t)"
            by (auto simp: choices_def)
          show "c \<in> choices d'"
          proof (cases "sg_agent t = ta_id a")
            case False
            then have "t \<in> set (dk_settings d')" unfolding up using t(1) n by (intro upsert_keeps) simp_all
            then show ?thesis using t(2) by (auto simp: choices_def)
          next
            case True
            have "e \<noteq> None" using t(1) True by (auto simp: e find_None_iff)
            then obtain x where x: "e = Some x" by auto
            then have "x \<in> set (dk_settings d1)" "sg_agent x = ta_id a" using e by (auto simp: find_Some_iff)
            then have "x = t" using one t(1) True by (auto simp: one_setting_def distinct_map inj_on_def)
            then have same: "sg_model ?n = sg_model t" "sg_length ?n = sg_length t" by (simp_all add: settings_for_def x Let_def)
            have "?f t \<in> set (dk_settings d')" 
            proof -
              have "sg_agent ?n \<in> sg_agent ` set (dk_settings d1)" using t(1) True n by force
              then have "dk_settings d' = map (\<lambda>x. if sg_agent x = sg_agent ?n then ?f x else x) (dk_settings d1)"
                by (simp add: up upsert_row_def)
              then show ?thesis using t(1) True n by force
            qed
            then show ?thesis unfolding choices_def t(2) by (rule rev_image_eqI) (simp add: same)
          qed
        qed
        ultimately show ?thesis using w by (simp add: choices_kept_def)
      qed
      then show ?thesis by (rule choice.trans [OF k])
    qed
  qed
  show ?thesis unfolding ensure_default_settings_def
    by (rule choice.along_bind [OF choice.along_basic(4)], rule choice.along_each, rule one)
qed

lemma data_along_others:
  "along data_kept (ensure_default_agents cfg ws)" "along data_kept (ensure_default_tools cfg)"
  "along data_kept (ensure_default_settings cfg ags)"
  by (rule data.along_agents data.along_tools data.along_settings, auto simp: data_kept_def future_def)+

lemma data_along_convs: "along data_kept (ensure_default_convs ws ags)"
  by (rule data.along_convs [OF data_along_new_conv])

lemma choice_along_others:
  "along choices_kept (ensure_default_agents cfg ws)" "along choices_kept (ensure_default_tools cfg)"
  "along choices_kept (ensure_default_prompts ags)" "along choices_kept (ensure_default_convs ws ags)"
  by (rule choice.along_agents choice.along_tools choice.along_prompts choice.along_convs_plain,
      auto simp: choices_kept_def one_setting_def choices_def future_def)+

context desk_relation
begin

lemma along_bootstrap:
  assumes "along R (ensure_default_agents cfg ws)" "along R (ensure_default_tools cfg)"
    "\<And>ags. along R (ensure_default_settings cfg ags)" "\<And>ags. along R (ensure_default_prompts ags)"
    "\<And>ags. along R (ensure_default_convs ws ags)"
  shows "along R (ensure_bootstrap cfg user ws)"
proof (rule alongI)
  fix d d' r
  assume b: "ensure_bootstrap cfg user ws d = (d', r)"
  have booted: "same_tables x (x\<lparr>dk_booted := bs\<rparr>)" for x bs by (simp add: same_tables_def future_def)
  show "R d d'"
  proof (cases "ws \<in> set (dk_booted d)")
    case False
    have done_mark: "along R (\<lambda>d. (d\<lparr>dk_booted := ws # dk_booted d\<rparr>, Inr (w, ags, cs)))"
      for w :: "string \<times> string" and ags :: "team_agent list" and cs :: "conv_row list"
      by (rule along_idle) (simp add: booted)
    have "along R (bootstrap cfg user ws)"
      unfolding bootstrap_def by (rule along_bind along_reads assms done_mark)+
    then show ?thesis using b False by (auto simp: ensure_bootstrap_def dest: alongD)
  next
    case True
    obtain d1 x where w: "desk_workspace user ws d = (d1, x)" by fastforce
    have r1: "R d d1" by (rule alongD [OF along_reads(1) w])
    show ?thesis
    proof (cases x)
      case (Inl e)
      then show ?thesis using b True w trans [OF r1 idle [OF booted]] by (auto simp: ensure_bootstrap_def)
    next
      case (Inr y)
      have "along R (desk_bind (list_team ws) (\<lambda>ags. desk_bind (list_convs ws) (\<lambda>cs. desk_return (y, ags, cs))))"
        by (intro along_bind along_reads along_basic)
      then show ?thesis using b True w Inr trans [OF r1] by (auto simp: ensure_bootstrap_def dest: alongD)
    qed
  qed
qed

end

text \<open>
  C35. Opening a workspace loses nothing, whether it succeeds or fails half-way: messages stay as
  they are, no conversation and no prompt is changed or removed, and every agent keeps the model and the
  response length its user chose.
\<close>

theorem bootstrap_keeps:
  assumes "ensure_bootstrap cfg user ws d = (d', r)" "distinct (map sg_agent (dk_settings d))"
    and "future d \<inter> (cr_id ` set (dk_convs d) \<union> pr_id ` set (dk_prompts d)) = {}"
  shows "dk_msgs d' = dk_msgs d \<and> set (dk_convs d) \<subseteq> set (dk_convs d') \<and> set (dk_prompts d) \<subseteq> set (dk_prompts d')
    \<and> choices d \<subseteq> choices d'"
proof -
  have k: "data_kept d d'"
    using data.along_bootstrap [OF data_along_others(1-3) data_along_prompts data_along_convs] assms(1) by (rule alongD)
  have c: "choices_kept d d'"
    using choice.along_bootstrap [OF choice_along_others(1,2) choice_along_settings choice_along_others(3,4)] assms(1) by (rule alongD)
  show ?thesis
    using k c assms(2,3) by (auto simp: data_kept_def choices_kept_def one_setting_def)
qed

section \<open>What a bootstrap leaves behind\<close>

lemma transaction_Ok:
  assumes "desk_transaction opn fn d = (d', Inr a)"
  obtains d0 d1 where "d0 = d\<lparr>dk_calls := Suc (dk_calls d)\<rparr>" "fn d0 = (d1, Inr a)" "d' = d1\<lparr>dk_calls := Suc (dk_calls d1)\<rparr>"
proof -
  from assms obtain d0 u where b: "desk_select (''begin '' @ opn @ '' transaction'') (\<lambda>d. ()) d = (d0, Inr u)"
    and t: "(case fn d0 of
         (d1, Inl e) \<Rightarrow> (desk_rollback d0 d1, Inl e)
       | (d1, Inr a) \<Rightarrow>
           (case desk_select (''commit '' @ opn @ '' transaction'') (\<lambda>d. ()) d1 of
              (d2, Inl e) \<Rightarrow> (desk_rollback d0 d2, Inl e)
            | (d2, Inr _) \<Rightarrow> (d2, Inr a))) = (d', Inr a)"
    unfolding desk_transaction_def by (rule desk_bind_Ok)
  obtain d1 r1 where f: "fn d0 = (d1, r1)" by fastforce
  then obtain b where r: "r1 = Inr b" using t by (cases r1) auto
  obtain d2 r2 where c: "desk_select (''commit '' @ opn @ '' transaction'') (\<lambda>d. ()) d1 = (d2, r2)" by fastforce
  have "d2 = d' \<and> b = a \<and> (\<exists>u. r2 = Inr u)" using t unfolding f r prod.case sum.case c by (cases r2) auto
  then show thesis using that f r b c by (auto simp: desk_select_def desk_stmt_Ok)
qed

lemma each_Ok:
  "desk_each f xs d = (d', Inr u) \<Longrightarrow> x \<in> set xs \<Longrightarrow> \<exists>ys zs d1 d2. xs = ys @ x # zs \<and> desk_each f ys d = (d1, Inr ())
     \<and> f x d1 = (d2, Inr ()) \<and> desk_each f zs d2 = (d', Inr ())"
proof (induction xs arbitrary: d)
  case (Cons y xs)
  from Cons.prems(1) obtain d1 where 1: "f y d = (d1, Inr ())" "desk_each f xs d1 = (d', Inr u)"
    by (auto elim: desk_bind_Ok)
  show ?case
  proof (cases "x = y")
    case True
    then show ?thesis using 1 by (intro exI [of _ "[]"] exI [of _ xs] exI [of _ d] exI [of _ d1]) simp
  next
    case False
    then obtain ys zs d2 d3 where "xs = ys @ x # zs" "desk_each f ys d1 = (d2, Inr ())" "f x d2 = (d3, Inr ())" "desk_each f zs d3 = (d', Inr ())"
      using Cons.IH [OF 1(2)] Cons.prems(2) by auto
    then show ?thesis using 1 by (intro exI [of _ "y # ys"] exI [of _ zs] exI [of _ d2] exI [of _ d3]) simp
  qed
qed simp

text \<open>The parts of a bootstrap that went through.\<close>

lemma bootstrap_Ok:
  assumes "bootstrap cfg user ws d = (d', Inr (w, ags, cs))"
  obtains d1 d2 d3 d4 d5 d6 where "desk_workspace user ws d = (d1, Inr w)" "ensure_default_agents cfg ws d1 = (d2, Inr ags)"
    "ensure_default_tools cfg d2 = (d3, Inr ())" "ensure_default_settings cfg ags d3 = (d4, Inr ())"
    "ensure_default_prompts ags d4 = (d5, Inr ())" "ensure_default_convs ws ags d5 = (d6, Inr cs)"
    "d' = d6\<lparr>dk_booted := ws # dk_booted d6\<rparr>"
proof -
  from assms obtain d1 w1 where 1: "desk_workspace user ws d = (d1, Inr w1)"
    and k1: "desk_bind (ensure_default_agents cfg ws) (\<lambda>ags. desk_bind (ensure_default_tools cfg) (\<lambda>_.
       desk_bind (ensure_default_settings cfg ags) (\<lambda>_. desk_bind (ensure_default_prompts ags) (\<lambda>_.
       desk_bind (ensure_default_convs ws ags) (\<lambda>cs d. (d\<lparr>dk_booted := ws # dk_booted d\<rparr>, Inr (w1, ags, cs))))))) d1 = (d', Inr (w, ags, cs))"
    unfolding bootstrap_def by (rule desk_bind_Ok)
  from k1 obtain d2 ags1 where 2: "ensure_default_agents cfg ws d1 = (d2, Inr ags1)"
    and k2: "desk_bind (ensure_default_tools cfg) (\<lambda>_.
       desk_bind (ensure_default_settings cfg ags1) (\<lambda>_. desk_bind (ensure_default_prompts ags1) (\<lambda>_.
       desk_bind (ensure_default_convs ws ags1) (\<lambda>cs d. (d\<lparr>dk_booted := ws # dk_booted d\<rparr>, Inr (w1, ags1, cs)))))) d2 = (d', Inr (w, ags, cs))"
    by (rule desk_bind_Ok)
  from k2 obtain d3 u3 where 3: "ensure_default_tools cfg d2 = (d3, Inr u3)"
    and k3: "desk_bind (ensure_default_settings cfg ags1) (\<lambda>_. desk_bind (ensure_default_prompts ags1) (\<lambda>_.
       desk_bind (ensure_default_convs ws ags1) (\<lambda>cs d. (d\<lparr>dk_booted := ws # dk_booted d\<rparr>, Inr (w1, ags1, cs))))) d3 = (d', Inr (w, ags, cs))"
    by (rule desk_bind_Ok)
  from k3 obtain d4 u4 where 4: "ensure_default_settings cfg ags1 d3 = (d4, Inr u4)"
    and k4: "desk_bind (ensure_default_prompts ags1) (\<lambda>_.
       desk_bind (ensure_default_convs ws ags1) (\<lambda>cs d. (d\<lparr>dk_booted := ws # dk_booted d\<rparr>, Inr (w1, ags1, cs)))) d4 = (d', Inr (w, ags, cs))"
    by (rule desk_bind_Ok)
  from k4 obtain d5 u5 where 5: "ensure_default_prompts ags1 d4 = (d5, Inr u5)"
    and k5: "desk_bind (ensure_default_convs ws ags1) (\<lambda>cs d. (d\<lparr>dk_booted := ws # dk_booted d\<rparr>, Inr (w1, ags1, cs))) d5 = (d', Inr (w, ags, cs))"
    by (rule desk_bind_Ok)
  from k5 obtain d6 cs1 where 6: "ensure_default_convs ws ags1 d5 = (d6, Inr cs1)"
    and k6: "(d6\<lparr>dk_booted := ws # dk_booted d6\<rparr>, Inr (w1, ags1, cs1)) = (d', Inr (w, ags, cs) :: gerror + _)"
    by (rule desk_bind_Ok)
  from k6 have e: "w1 = w" "ags1 = ags" "cs1 = cs" "d' = d6\<lparr>dk_booted := ws # dk_booted d6\<rparr>" by simp_all
  show thesis by (rule that [of d1 d2 d3 d4 d5 d6]) (use 1 2 3 4 5 6 e in simp_all)
qed

text \<open>A row that no blueprint is about stays.\<close>

lemma save_agent_keeps:
  "save_agent a n d = (d', r) \<Longrightarrow> m \<in> set (dk_members d) \<Longrightarrow> mb_id m \<noteq> ta_id a \<Longrightarrow> m \<in> set (dk_members d') \<and> future d' = future d"
  by (auto simp: save_agent_def desk_write_def desk_stmt_def Let_def future_def upsert_keeps new_agent_row_def split: if_splits)

lemma apply_blueprint_id:
  "apply_blueprint e bp ws now d = (d', Inr a) \<Longrightarrow> (\<forall>x. e = Some x \<longrightarrow> ta_id x \<noteq> i) \<Longrightarrow> i \<notin> future d
    \<Longrightarrow> ta_id a \<noteq> i \<and> dk_members d' = dk_members d \<and> future d' \<subseteq> future d"
  by (auto simp: apply_blueprint_def desk_bind_def desk_uuid_def future_def split: option.splits)

lemma apply_blueprints_keep:
  "apply_blueprints ws now bps fresh d = (d', Inr u) \<Longrightarrow> m \<in> set (dk_members d) \<Longrightarrow> mb_id m \<notin> future d
    \<Longrightarrow> \<forall>s \<in> (bp_slug \<circ> snd) ` set bps. \<forall>x. fresh s = Some x \<longrightarrow> ta_id x \<noteq> mb_id m \<Longrightarrow> m \<in> set (dk_members d')"
proof (induction bps arbitrary: fresh d)
  case (Cons nb bps)
  obtain n bp where nb: "nb = (n, bp)" by fastforce
  from Cons.prems(1) [unfolded nb apply_blueprints.simps] obtain d1 a
    where a: "apply_blueprint (fresh (bp_slug bp)) bp ws now d = (d1, Inr a)"
      and k: "desk_bind (save_agent a n) (\<lambda>_. apply_blueprints ws now bps (fresh(bp_slug bp \<mapsto> a))) d1 = (d', Inr u)" by (rule desk_bind_Ok)
  from k obtain d2 v where s: "save_agent a n d1 = (d2, Inr v)"
    and l: "apply_blueprints ws now bps (fresh(bp_slug bp \<mapsto> a)) d2 = (d', Inr u)" by (rule desk_bind_Ok)
  have 1: "ta_id a \<noteq> mb_id m \<and> dk_members d1 = dk_members d \<and> future d1 \<subseteq> future d"
    using apply_blueprint_id [OF a _ Cons.prems(3)] Cons.prems(4) by (simp add: nb)
  have 2: "m \<in> set (dk_members d2) \<and> future d2 = future d1"
    using save_agent_keeps [OF s, of m] 1 Cons.prems(2) by auto
  show ?case using Cons.IH [OF l] 1 2 Cons.prems(3,4) by (auto simp: nb)
qed simp

lemma set_team_of: "set (team_of ws d) = member_to_domain ` {r \<in> set (dk_members d). mb_ws r = ws}"
  by (auto simp: team_of_def)

lemma team_listed: "list_team ws d = (d', Inr ags) \<Longrightarrow> ags = team_of ws d \<and> dk_members d' = dk_members d \<and> future d' = future d \<and> \<not> blank ws"
  by (auto simp: list_team_def desk_select_def desk_stmt_Ok future_def split: if_splits)

lemma team_calls [simp]: "team_of ws (d\<lparr>dk_calls := n\<rparr>) = team_of ws d"
  by (simp add: team_of_def)

lemma agents_steps:
  assumes "ensure_default_agents cfg ws d = (d', Inr ags)"
  obtains d1 d2 where "dk_members d1 = dk_members d" "future d1 = future d"
    "apply_blueprints ws (dk_now d1) (enum_from 0 (sd_agents cfg)) (\<lambda>s. find (\<lambda>a. ta_slug a = s) (rev (team_of ws d))) d1 = (d2, Inr ())"
    "ags = team_of ws d2" "dk_members d' = dk_members d2"
proof -
  from assms obtain d0 d3 where 0: "d0 = d\<lparr>dk_calls := Suc (dk_calls d)\<rparr>" and 3: "d' = d3\<lparr>dk_calls := Suc (dk_calls d3)\<rparr>"
    and b: "desk_bind (list_team ws) (\<lambda>ags. desk_bind desk_now (\<lambda>now.
        desk_bind (apply_blueprints ws now (enum_from 0 (sd_agents cfg)) (\<lambda>s. find (\<lambda>a. ta_slug a = s) (rev ags)))
          (\<lambda>_. list_team ws))) d0 = (d3, Inr ags)"
    unfolding ensure_default_agents_def by (rule transaction_Ok)
  from b obtain d1 team where l: "list_team ws d0 = (d1, Inr team)"
    and k: "desk_bind desk_now (\<lambda>now.
        desk_bind (apply_blueprints ws now (enum_from 0 (sd_agents cfg)) (\<lambda>s. find (\<lambda>a. ta_slug a = s) (rev team)))
          (\<lambda>_. list_team ws)) d1 = (d3, Inr ags)" by (rule desk_bind_Ok)
  have k': "desk_bind (apply_blueprints ws (dk_now d1) (enum_from 0 (sd_agents cfg)) (\<lambda>s. find (\<lambda>a. ta_slug a = s) (rev team)))
          (\<lambda>_. list_team ws) d1 = (d3, Inr ags)" using k by (simp add: desk_bind_def desk_now_def)
  from k' obtain d2 u where a: "apply_blueprints ws (dk_now d1) (enum_from 0 (sd_agents cfg)) (\<lambda>s. find (\<lambda>a. ta_slug a = s) (rev team)) d1 = (d2, Inr u)"
    and e: "list_team ws d2 = (d3, Inr ags)" by (rule desk_bind_Ok)
  show thesis
    using that [of d1 d2] a team_listed [OF l] team_listed [OF e] by (simp add: 0 3 future_def)
qed

lemma agent_stays:
  assumes "ensure_default_agents cfg ws d = (d', Inr ags)" "m \<in> set (dk_members d)" "mb_ws m = ws"
    "mb_slug m \<notin> bp_slug ` set (sd_agents cfg)" "mb_id m \<notin> future d" "distinct (map mb_id (dk_members d))"
  shows "member_to_domain m \<in> set ags"
  using assms(1)
proof (rule agents_steps)
  fix d1 d2
  assume 1: "dk_members d1 = dk_members d" "future d1 = future d" and ags: "ags = team_of ws d2"
    and a: "apply_blueprints ws (dk_now d1) (enum_from 0 (sd_agents cfg)) (\<lambda>s. find (\<lambda>a. ta_slug a = s) (rev (team_of ws d))) d1 = (d2, Inr ())"
  have "ta_id x \<noteq> mb_id m"
    if x: "find (\<lambda>a. ta_slug a = s) (rev (team_of ws d)) = Some x" and s: "s \<in> bp_slug ` set (sd_agents cfg)" for s x
  proof -
    have "x \<in> set (team_of ws d)" "ta_slug x = s" using x by (auto simp: find_Some_iff) (metis nth_mem length_rev set_rev)
    then obtain r where r: "r \<in> set (dk_members d)" "x = member_to_domain r" "mb_slug r = s"
      by (auto simp: set_team_of member_to_domain_def)
    then have "r \<noteq> m" using s assms(4) by auto
    then show ?thesis using r assms(2,6) by (auto simp: member_to_domain_def distinct_map inj_on_def)
  qed
  then have "\<forall>s \<in> (bp_slug \<circ> snd) ` set (enum_from 0 (sd_agents cfg)).
      \<forall>x. find (\<lambda>a. ta_slug a = s) (rev (team_of ws d)) = Some x \<longrightarrow> ta_id x \<noteq> mb_id m"
    by (auto simp: set_enum_from)
  then have "m \<in> set (dk_members d2)" using apply_blueprints_keep [OF a] assms(2,5) 1 by simp
  then show ?thesis using assms(3) by (auto simp: ags set_team_of)
qed

lemma settings_saved:
  assumes "ensure_default_settings cfg ags d = (d', Inr u)" "a \<in> set ags"
  shows "blueprint_tools cfg (ta_slug a) \<noteq> None"
proof -
  have "desk_each (\<lambda>a. desk_bind (settings_of (ta_id a)) (\<lambda>e. save_settings (settings_for cfg a e (dk_now d)))) ags d = (d', Inr u)"
    using assms(1) by (simp add: ensure_default_settings_def desk_bind_def desk_now_def)
  from each_Ok [OF this assms(2)] obtain d1 d2
    where "desk_bind (settings_of (ta_id a)) (\<lambda>e. save_settings (settings_for cfg a e (dk_now d))) d1 = (d2, Inr ())" by blast
  then obtain d3 e where "save_settings (settings_for cfg a e (dk_now d)) d3 = (d2, Inr ())" by (rule desk_bind_Ok)
  then show ?thesis by (auto simp: save_settings_def desk_write_def desk_stmt_Ok settings_for_def Let_def split: option.splits)
qed

text \<open>An agent whose blueprint is gone from the seed locks its workspace: its settings would be
  written without a list of tools, which the schema rejects, so the workspace is not opened by any
  process that has not opened it before.
\<close>

theorem retired_agent_blocks:
  assumes "m \<in> set (dk_members d)" "mb_ws m = ws" "mb_slug m \<notin> bp_slug ` set (sd_agents cfg)"
    and "mb_id m \<notin> future d" "distinct (map mb_id (dk_members d))" "ws \<notin> set (dk_booted d)"
  shows "\<not> is_ok (snd (ensure_bootstrap cfg user ws d))"
proof
  assume "is_ok (snd (ensure_bootstrap cfg user ws d))"
  then obtain d' w ags cs where "bootstrap cfg user ws d = (d', Inr (w, ags, cs))"
    using assms(6) by (cases "bootstrap cfg user ws d"; cases "snd (bootstrap cfg user ws d)") (auto simp: ensure_bootstrap_def)
  then obtain d1 d2 d3 d4 where w: "desk_workspace user ws d = (d1, Inr w)" and a: "ensure_default_agents cfg ws d1 = (d2, Inr ags)"
    and s: "ensure_default_settings cfg ags d3 = (d4, Inr ())" by (rule bootstrap_Ok)
  have "frame_of dk_members d d1" by (rule alongD [OF members_kept.along_reads(1) w])
  then have "member_to_domain m \<in> set ags"
    using agent_stays [OF a _ assms(2,3)] assms(1,4,5) by (auto simp: frame_of_def)
  then have "blueprint_tools cfg (mb_slug m) \<noteq> None" using settings_saved [OF s] by (force simp: member_to_domain_def)
  then have "mb_slug m \<in> bp_slug ` set (sd_agents cfg)"
    by (auto simp: blueprint_tools_def find_Some_iff image_iff split: option.splits) (metis nth_mem)
  then show False using assms(3) by simp
qed

section \<open>A small workspace\<close>

definition sample_seeds :: seeds where
  "sample_seeds = \<lparr>sd_agents =
      [\<lparr>bp_name = ''Manager'', bp_slug = ''manager'', bp_role = ''manager'', bp_prompt = ''lead'', bp_descr = ''d'', bp_tools = Some [''search'']\<rparr>,
       \<lparr>bp_name = ''Writer'', bp_slug = ''writer'', bp_role = ''specialist'', bp_prompt = ''write'', bp_descr = ''d'', bp_tools = Some []\<rparr>],
     sd_catalog = [\<lparr>td_name = ''search'', td_display = ''Search'', td_descr = ''d'', td_category = ''c'', td_icon = ''i''\<rparr>]\<rparr>"

definition sample_desk :: desk where
  "sample_desk = \<lparr>dk_workspaces = [(''u'', ''w'')], dk_members = [], dk_settings = [], dk_prompts = [], dk_tools = [], dk_convs = [],
     dk_msgs = [], dk_booted = [], dk_member_order = (\<lambda>xs. xs), dk_conv_order = (\<lambda>xs. xs), dk_bad = (\<lambda>_. False), dk_now = 5,
     dk_uuid = 1, dk_uuids = (\<lambda>n. replicate n CHR ''x''), dk_calls = 0, dk_fails = (\<lambda>_. False)\<rparr>"

text \<open>The same workspace with an agent whose blueprint is gone, its settings and its conversation.\<close>

definition retired_agent :: member_row where
  "retired_agent = \<lparr>mb_id = ''r'', mb_ws = ''w'', mb_name = ''Old'', mb_role = ''specialist'', mb_slug = ''old'', mb_avatar = '''',
     mb_prompt = '''', mb_descr = '''', mb_sort = 7, mb_created = 0, mb_updated = 0\<rparr>"

definition sample_retired :: desk where
  "sample_retired = sample_desk\<lparr>dk_members := [retired_agent],
     dk_settings := [\<lparr>sg_agent = ''r'', sg_model = ''big'', sg_length = ''short'', sg_tools = Some [], sg_created = 0, sg_updated = 0\<rparr>],
     dk_convs := [\<lparr>cr_id = ''c'', cr_ws = ''w'', cr_agent = Some ''r'', cr_type = ''agent'', cr_title = ''Old'', cr_unread = 0, cr_created = 0, cr_updated = 0\<rparr>]\<rparr>"

lemma sample_uuids: "future (sample_desk\<lparr>dk_members := ms, dk_settings := ss, dk_convs := cs\<rparr>) \<subseteq> {s. set s = {CHR ''x''}}"
  by (auto simp: future_def sample_desk_def)

theorem retired_agent_blocks_witness: "\<not> is_ok (snd (ensure_bootstrap sample_seeds ''u'' ''w'' sample_retired))"
proof (rule retired_agent_blocks [of retired_agent])
  show "mb_id retired_agent \<notin> future sample_retired"
    using sample_uuids by (fastforce simp: sample_retired_def retired_agent_def)
qed (simp_all add: sample_retired_def sample_desk_def retired_agent_def sample_seeds_def)

theorem bootstrap_keeps_witness:
  "(''r'', ''big'', ''short'', 0) \<in> choices (fst (ensure_bootstrap sample_seeds ''u'' ''w'' sample_retired))"
proof -
  obtain d' r where b: "ensure_bootstrap sample_seeds ''u'' ''w'' sample_retired = (d', r)" by fastforce
  have f: "future sample_retired \<inter> (cr_id ` set (dk_convs sample_retired) \<union> pr_id ` set (dk_prompts sample_retired)) = {}"
    using sample_uuids by (fastforce simp: sample_retired_def sample_desk_def)
  have "distinct (map sg_agent (dk_settings sample_retired))" by (simp add: sample_retired_def)
  note k = bootstrap_keeps [OF b this f]
  have "(''r'', ''big'', ''short'', 0) \<in> choices sample_retired" by (simp add: choices_def sample_retired_def)
  then show ?thesis unfolding b fst_conv using k by blast
qed

definition sample_message :: "string \<Rightarrow> int \<Rightarrow> chat_message" where
  "sample_message i t = \<lparr>m_id = i, m_conv = ''c'', m_role = RoleUser, m_type = CtText, m_text = i, m_tool = '''', m_tool_state = '''',
     m_query = '''', m_args = [], m_from = '''', m_to = '''', m_content_status = '''', m_preview = '''', m_turns = [], m_answers = [],
     m_selected = None, m_status = MsgSent, m_agent = None, m_local = '''', m_created = t, m_updated = t\<rparr>"

lemma sample_message_fields [simp]:
  "m_id (sample_message i t) = i" "m_conv (sample_message i t) = ''c''" "m_created (sample_message i t) = t"
  by (simp_all add: sample_message_def)

definition sample_talk :: desk where
  "sample_talk = sample_desk\<lparr>dk_msgs := [sample_message ''b'' 1, sample_message ''a'' 1, sample_message ''k'' 2]\<rparr>"

text \<open>Pages of two messages, of which two are as old as each other; a message arrives after the first page.\<close>

theorem pages_complete_witness:
  "read_pages ''c'' 1 [sample_talk, sample_talk\<lparr>dk_msgs := dk_msgs sample_talk @ [sample_message ''d'' 3]\<rparr>, sample_talk, sample_talk] ''''
    = Some [sample_message ''k'' 2, sample_message ''b'' 1, sample_message ''a'' 1]"
proof -
  let ?ds = "[sample_talk\<lparr>dk_msgs := dk_msgs sample_talk @ [sample_message ''d'' 3]\<rparr>, sample_talk, sample_talk]"
  have blank: "\<not> blank ''c''" by code_simp
  have trims: "trim_space ''a'' = ''a''" "trim_space ''b'' = ''b''" "trim_space ''k'' = ''k''" "trim_space ''d'' = ''d''" by code_simp+
  have s: "serves ''c'' sample_talk"
    by (simp add: serves_def sample_talk_def sample_desk_def in_conv_def ids_distinct_def trims)
  have ds: "\<forall>d \<in> set ?ds. serves ''c'' d \<and> arrived ''c'' sample_talk d"
    by (auto simp: serves_def sample_talk_def sample_desk_def in_conv_def ids_distinct_def trims arrived_def msg_key_def)
  have l: "length (in_conv ''c'' sample_talk) \<le> length ?ds" by (simp add: sample_talk_def in_conv_def)
  have n: "newest_first (in_conv ''c'' sample_talk) = [sample_message ''k'' 2, sample_message ''b'' 1, sample_message ''a'' 1]"
    by (simp add: sample_talk_def in_conv_def newest_first_def)
  show ?thesis using pages_complete [OF blank _ s ds l, of 1] by (simp add: n)
qed

end
