(* ===== verification/Bootstrap_Props.thy ===== *)
theory Bootstrap_Props
  imports Chat_Service_Props
begin

text \<open>
  What a workspace holds once its bootstrap went through (\<open>chatservice/bootstrap.go\<close>): settings,
  prompts and conversations for each of its agents.
\<close>

text \<open>Ids of agents stay distinct.\<close>

definition agents_distinct :: "desk \<Rightarrow> desk \<Rightarrow> bool" where
  "agents_distinct d d' \<longleftrightarrow> (distinct (map mb_id (dk_members d)) \<longrightarrow> distinct (map mb_id (dk_members d')))
     \<and> dk_workspaces d' = dk_workspaces d \<and> future d' \<subseteq> future d \<and> dk_uuids d' = dk_uuids d"

interpretation agent_ids: desk_relation agents_distinct
  by unfold_locales (auto simp: agents_distinct_def same_tables_def)

lemma agent_ids_agents: "along agents_distinct (ensure_default_agents cfg ws)"
proof (rule agent_ids.along_saved_agents)
  fix a n
  show "along agents_distinct (save_agent a n)"
    unfolding save_agent_def Let_def
  proof (rule agent_ids.along_write)
    fix d
    have "map mb_id (upsert_row mb_id (overwrite_member r) r rs) = (if mb_id r \<in> mb_id ` set rs then map mb_id rs else map mb_id rs @ [mb_id r])" for r rs
      by (rule upsert_keys) (simp add: overwrite_member_def)
    then show "agents_distinct d (d\<lparr>dk_members := upsert_row mb_id (overwrite_member (new_agent_row a n)) (new_agent_row a n) (dk_members d)\<rparr>)"
      by (simp add: agents_distinct_def future_def)
  qed
qed

lemma team_distinct: "distinct (map mb_id (dk_members d)) \<Longrightarrow> distinct (map ta_id (team_of ws d))"
proof -
  have "map ta_id (map member_to_domain xs) = map mb_id xs" for xs by (simp add: member_to_domain_def)
  moreover assume "distinct (map mb_id (dk_members d))"
  ultimately show ?thesis by (simp add: team_of_def distinct_map_filter del: map_map)
qed

lemma team_ids:
  assumes "ensure_default_agents cfg ws d = (d', Inr ags)" "distinct (map mb_id (dk_members d))"
  shows "distinct (map ta_id ags)"
proof -
  have "distinct (map mb_id (dk_members d'))"
    using alongD [OF agent_ids_agents assms(1)] assms(2) by (simp add: agents_distinct_def)
  then show ?thesis using assms(1) by (auto elim!: agents_steps intro!: team_distinct)
qed

text \<open>The settings of an agent are those of its blueprint once written, and later ones are about other agents.\<close>

definition equipped :: "string \<Rightarrow> string list option \<Rightarrow> desk \<Rightarrow> bool" where
  "equipped i ts d \<longleftrightarrow> (\<exists>s \<in> set (dk_settings d). sg_agent s = i \<and> sg_tools s = ts)"

lemma save_settings_equips:
  assumes "save_settings r d = (d', Inr u)"
  shows "equipped (sg_agent r) (sg_tools r) d'" "sg_agent r \<noteq> i \<Longrightarrow> equipped i ts d \<Longrightarrow> equipped i ts d'"
proof -
  let ?upd = "\<lambda>x. x\<lparr>sg_model := sg_model r, sg_length := sg_length r, sg_tools := sg_tools r, sg_updated := sg_updated r\<rparr>"
  have d': "dk_settings d' = upsert_row sg_agent ?upd r (dk_settings d)"
    using assms by (auto simp: save_settings_def desk_write_def desk_stmt_Ok)
  show "equipped (sg_agent r) (sg_tools r) d'"
  proof (cases "sg_agent r \<in> sg_agent ` set (dk_settings d)")
    case True
    then obtain x where "x \<in> set (dk_settings d)" "sg_agent x = sg_agent r" by auto
    then have "?upd x \<in> set (dk_settings d')" by (auto simp: d' upsert_row_def image_iff)
    then show ?thesis using \<open>sg_agent x = sg_agent r\<close> unfolding equipped_def by (intro bexI [where x = "?upd x"]) auto
  qed (simp add: equipped_def d' upsert_row_def)
  show "equipped i ts d'" if ne: "sg_agent r \<noteq> i" and eq: "equipped i ts d"
  proof -
    obtain x where x: "x \<in> set (dk_settings d)" "sg_agent x = i" "sg_tools x = ts" using eq by (auto simp: equipped_def)
    then have "x \<in> set (dk_settings d')" using ne by (auto simp: d' intro: upsert_keeps)
    then show ?thesis using x by (auto simp: equipped_def)
  qed
qed

lemma settings_for_agent [simp]: "sg_agent (settings_for cfg a e now) = ta_id a" "sg_tools (settings_for cfg a e now) = blueprint_tools cfg (ta_slug a)"
  by (simp_all add: settings_for_def Let_def split: option.split)

lemma settings_run:
  assumes "desk_bind (settings_of (ta_id a)) (\<lambda>e. save_settings (settings_for cfg a e now)) d = (d', Inr u)"
  shows "equipped (ta_id a) (blueprint_tools cfg (ta_slug a)) d' \<and> (\<forall>i ts. i \<noteq> ta_id a \<longrightarrow> equipped i ts d \<longrightarrow> equipped i ts d')"
proof -
  from assms obtain d1 e where g: "settings_of (ta_id a) d = (d1, Inr e)" and s: "save_settings (settings_for cfg a e now) d1 = (d', Inr u)"
    by (rule desk_bind_Ok)
  have "dk_settings d1 = dk_settings d" using alongD [OF settings_kept.along_reads(3) g] by (simp add: frame_of_def)
  then show ?thesis using save_settings_equips [OF s] by (simp add: equipped_def)
qed

lemma settings_each:
  "desk_each (\<lambda>a. desk_bind (settings_of (ta_id a)) (\<lambda>e. save_settings (settings_for cfg a e now))) ags d = (d', Inr u)
    \<Longrightarrow> i \<notin> ta_id ` set ags \<Longrightarrow> equipped i ts d \<Longrightarrow> equipped i ts d'"
proof (induction ags arbitrary: d)
  case (Cons a ags)
  from Cons.prems(1) [unfolded desk_each.simps] obtain d1 v
    where "desk_bind (settings_of (ta_id a)) (\<lambda>e. save_settings (settings_for cfg a e now)) d = (d1, Inr v)"
      and l: "desk_each (\<lambda>a. desk_bind (settings_of (ta_id a)) (\<lambda>e. save_settings (settings_for cfg a e now))) ags d1 = (d', Inr u)"
    by (rule desk_bind_Ok)
  then have e: "equipped i ts d1" and t: "i \<notin> ta_id ` set ags"
    using settings_run [of a cfg now d d1 v] Cons.prems(2,3) by auto
  show ?case by (rule Cons.IH [OF l t e])
qed simp

lemma settings_complete:
  assumes "ensure_default_settings cfg ags d = (d', Inr u)" "a \<in> set ags" "distinct (map ta_id ags)"
  shows "equipped (ta_id a) (blueprint_tools cfg (ta_slug a)) d'"
proof -
  let ?f = "\<lambda>a. desk_bind (settings_of (ta_id a)) (\<lambda>e. save_settings (settings_for cfg a e (dk_now d)))"
  have "desk_each ?f ags d = (d', Inr u)" using assms(1) by (simp add: ensure_default_settings_def desk_bind_def desk_now_def)
  from each_Ok [OF this assms(2)] obtain ys zs d1 d2
    where s: "ags = ys @ a # zs" "?f a d1 = (d2, Inr ())" "desk_each ?f zs d2 = (d', Inr ())" by blast
  have "ta_id a \<notin> ta_id ` set zs" using assms(3) s(1) by simp
  then show ?thesis using settings_each [OF s(3)] settings_run [OF s(2)] by blast
qed

text \<open>Every agent gets prompts, and keeps having some.\<close>

definition prompted :: "string \<Rightarrow> desk \<Rightarrow> bool" where
  "prompted i d \<longleftrightarrow> (\<exists>p \<in> set (dk_prompts d). pr_agent p = i)"

definition prompted_kept :: "string \<Rightarrow> desk \<Rightarrow> desk \<Rightarrow> bool" where
  "prompted_kept i d d' \<longleftrightarrow> (prompted i d \<longrightarrow> prompted i d') \<and> dk_workspaces d' = dk_workspaces d \<and> future d' \<subseteq> future d \<and> dk_uuids d' = dk_uuids d"

interpretation prompting: desk_relation "prompted_kept i" for i
  by unfold_locales (auto simp: prompted_kept_def prompted_def same_tables_def)

lemma prompted_upsert: "(\<exists>p \<in> set ps. pr_agent p = i) \<Longrightarrow> (\<And>x. pr_agent (upd x) = pr_agent x) \<Longrightarrow> \<exists>p \<in> set (upsert_row pr_id upd r ps). pr_agent p = i"
  by (cases "pr_id r \<in> pr_id ` set ps") (auto simp: upsert_row_def if_distrib)

lemma prompting_save: "along (prompted_kept i) (save_prompt r)"
  unfolding save_prompt_def
  by (rule prompting.along_write) (auto simp: prompted_kept_def prompted_def future_def intro!: prompted_upsert)

lemma save_prompt_adds:
  "save_prompt r d = (d', Inr u) \<Longrightarrow> pr_id r \<notin> pr_id ` set (dk_prompts d) \<Longrightarrow> dk_prompts d' = dk_prompts d @ [r]"
  by (auto simp: save_prompt_def desk_write_def desk_stmt_Ok upsert_row_def)

text \<open>The generator of uuids gives no id twice, nor one that is in use.\<close>

definition fresh_ids :: "desk \<Rightarrow> bool" where
  "fresh_ids d \<longleftrightarrow> inj (dk_uuids d) \<and> future d \<inter> (cr_id ` set (dk_convs d) \<union> pr_id ` set (dk_prompts d)) = {}"

lemma default_prompts_fresh:
  assumes "default_prompts a now d = (d', Inr ps)" "fresh_ids d"
  shows "\<exists>p q. ps = p # q \<and> pr_agent p = ta_id a \<and> pr_id p \<notin> pr_id ` set (dk_prompts d')"
  using assms by (auto simp: default_prompts_def desk_bind_def desk_uuid_def default_prompt_def fresh_ids_def future_def)

lemma prompts_saved:
  assumes "desk_bind (default_prompts a now) (desk_each save_prompt) d = (d', Inr u)" "fresh_ids d"
  shows "prompted (ta_id a) d'"
proof -
  from assms(1) obtain d1 ps where 1: "default_prompts a now d = (d1, Inr ps)" and 2: "desk_each save_prompt ps d1 = (d', Inr u)"
    by (rule desk_bind_Ok)
  obtain p q where p: "ps = p # q" "pr_agent p = ta_id a" "pr_id p \<notin> pr_id ` set (dk_prompts d1)"
    using default_prompts_fresh [OF 1 assms(2)] by blast
  from 2 [unfolded p(1) desk_each.simps] obtain d2 v where 3: "save_prompt p d1 = (d2, Inr v)" and 4: "desk_each save_prompt q d2 = (d', Inr u)"
    by (rule desk_bind_Ok)
  have "prompted (ta_id a) d2" using save_prompt_adds [OF 3 p(3)] p(2) by (simp add: prompted_def)
  moreover have "along (prompted_kept (ta_id a)) (desk_each save_prompt q)" by (rule prompting.along_each) (rule prompting_save)
  ultimately show ?thesis using 4 by (auto simp: prompted_kept_def dest: alongD)
qed

definition fresh_kept :: "desk \<Rightarrow> desk \<Rightarrow> bool" where
  "fresh_kept d d' \<longleftrightarrow> (fresh_ids d \<longrightarrow> fresh_ids d') \<and> dk_workspaces d' = dk_workspaces d \<and> future d' \<subseteq> future d \<and> dk_uuids d' = dk_uuids d"

interpretation freshness: desk_relation fresh_kept
proof
  fix d d'
  assume "same_tables d d'"
  then show "fresh_kept d d'" unfolding same_tables_def fresh_kept_def fresh_ids_def by auto
qed (auto simp: fresh_kept_def)

lemma fresh_step: "A' \<subseteq> insert i A \<Longrightarrow> i \<notin> F' \<Longrightarrow> F' \<subseteq> F \<Longrightarrow> F \<inter> (A \<union> B) = {} \<Longrightarrow> F' \<inter> (A' \<union> B) = {}"
  by blast

lemma fresh_new_conv: "along fresh_kept (desk_bind desk_uuid (\<lambda>i. save_conv (new_conv i ws ag ty title now)))"
proof (rule alongI)
  fix d d' :: desk and r
  let ?i = "dk_uuids d (dk_uuid d)" and ?u = "d\<lparr>dk_uuid := Suc (dk_uuid d)\<rparr>"
  assume "desk_bind desk_uuid (\<lambda>i. save_conv (new_conv i ws ag ty title now)) d = (d', r)"
  then have s: "save_conv (new_conv ?i ws ag ty title now) ?u = (d', r)" by (simp add: desk_bind_def desk_uuid_def)
  have c: "cr_id ` set (dk_convs d') \<subseteq> insert ?i (cr_id ` set (dk_convs d))"
  proof (cases r)
    case (Inl e)
    then show ?thesis using s by (auto simp: save_conv_def desk_write_def desk_stmt_def Let_def split: if_splits)
  next
    case (Inr u)
    then have "map cr_id (dk_convs d') = (if ?i \<in> cr_id ` set (dk_convs d) then map cr_id (dk_convs d) else map cr_id (dk_convs d) @ [?i])"
      using s by (simp add: save_conv_def desk_write_def desk_stmt_Ok new_conv_def upsert_keys [of cr_id])
    then show ?thesis by (auto simp flip: set_map split: if_splits)
  qed
  have o: "dk_prompts d' = dk_prompts d" "dk_workspaces d' = dk_workspaces d" "dk_uuids d' = dk_uuids d" "future d' = future ?u"
    using s by (auto simp: save_conv_def desk_write_def desk_stmt_def Let_def future_def split: if_splits)
  have "inj (dk_uuids d) \<Longrightarrow> ?i \<notin> future ?u" by (auto simp: future_def dest: injD)
  then have "fresh_ids d \<Longrightarrow> fresh_ids d'" using fresh_step [OF c _ future_uuid] by (simp add: fresh_ids_def o)
  then show "fresh_kept d d'" using o future_uuid [of d] by (simp add: fresh_kept_def)
qed

lemma save_prompt_ids: "save_prompt q d = (d', r) \<Longrightarrow> pr_id ` set (dk_prompts d') \<subseteq> insert (pr_id q) (pr_id ` set (dk_prompts d))
    \<and> dk_uuids d' = dk_uuids d \<and> dk_convs d' = dk_convs d \<and> dk_workspaces d' = dk_workspaces d \<and> future d' = future d"
  by (auto simp: save_prompt_def desk_write_def desk_stmt_def Let_def upsert_row_def future_def split: if_splits)

lemma save_prompts_fresh:
  "desk_each save_prompt ps d = (d', r) \<Longrightarrow> fresh_ids d \<Longrightarrow> pr_id ` set ps \<inter> future d = {} \<Longrightarrow>
    fresh_ids d' \<and> dk_workspaces d' = dk_workspaces d \<and> future d' = future d \<and> dk_uuids d' = dk_uuids d"
proof (induction ps arbitrary: d)
  case (Cons q ps)
  obtain d1 x where q: "save_prompt q d = (d1, x)" by fastforce
  note ids = save_prompt_ids [OF q]
  have f: "fresh_ids d1" using ids Cons.prems(2,3) unfolding fresh_ids_def by (auto dest!: subsetD [OF conjunct1 [OF ids]])
  show ?case
  proof (cases x)
    case (Inl e)
    then show ?thesis using Cons.prems(1) q f ids by simp
  next
    case (Inr u)
    then have l: "desk_each save_prompt ps d1 = (d', r)" using Cons.prems(1) q by simp
    have "pr_id ` set ps \<inter> future d1 = {}" using ids Cons.prems(3) by auto
    from Cons.IH [OF l f this] ids show ?thesis by simp
  qed
qed simp

lemma uuid_spent:
  assumes "desk_uuid d = (d', Inr i)" "fresh_ids d"
  shows "fresh_ids d' \<and> i \<notin> future d' \<and> dk_workspaces d' = dk_workspaces d \<and> future d' \<subseteq> future d \<and> dk_uuids d' = dk_uuids d"
proof -
  have d': "d' = d\<lparr>dk_uuid := Suc (dk_uuid d)\<rparr>" "i = dk_uuids d (dk_uuid d)" using assms(1) by (auto simp: desk_uuid_def)
  have "inj (dk_uuids d)" using assms(2) by (simp add: fresh_ids_def)
  then have "i \<notin> future d'" by (auto simp: d' future_def dest: injD)
  then show ?thesis using assms(2) future_uuid [of d] by (auto simp: d' fresh_ids_def)
qed

lemma default_prompts_spent:
  assumes "default_prompts a now d = (d', Inr ps)" "fresh_ids d"
  shows "fresh_ids d' \<and> pr_id ` set ps \<inter> future d' = {} \<and> dk_workspaces d' = dk_workspaces d \<and> future d' \<subseteq> future d
    \<and> dk_uuids d' = dk_uuids d"
proof -
  obtain d1 i where 1: "desk_uuid d = (d1, Inr i)" by (simp add: desk_uuid_def)
  obtain d2 j where 2: "desk_uuid d1 = (d2, Inr j)" by (simp add: desk_uuid_def)
  obtain d3 k where 3: "desk_uuid d2 = (d3, Inr k)" by (simp add: desk_uuid_def)
  have "d' = d3 \<and> pr_id ` set ps = {i, j, k}" using assms(1) by (auto simp: default_prompts_def 1 2 3 default_prompt_def)
  moreover note uuid_spent [OF 1 assms(2)] uuid_spent [OF 2] uuid_spent [OF 3]
  ultimately show ?thesis by auto
qed

lemma fresh_default_prompts: "along fresh_kept (desk_bind (default_prompts a now) (desk_each save_prompt))"
proof (rule alongI)
  fix d d' :: desk and r
  assume b: "desk_bind (default_prompts a now) (desk_each save_prompt) d = (d', r)"
  obtain d1 ps where p: "default_prompts a now d = (d1, Inr ps)"
    by (simp add: default_prompts_def desk_bind_def desk_uuid_def desk_return_def)
  then have s: "desk_each save_prompt ps d1 = (d', r)" using b by simp
  have "along data_kept (default_prompts a now)" unfolding default_prompts_def by (intro data.along_bind data.along_basic)
  from alongD [OF this p] have m: "dk_workspaces d' = dk_workspaces d \<and> future d' \<subseteq> future d \<and> dk_uuids d' = dk_uuids d"
    using save_prompts_keep [OF s] by (simp add: data_kept_def)
  moreover have "fresh_ids d \<Longrightarrow> fresh_ids d'" using save_prompts_fresh [OF s] default_prompts_spent [OF p] by blast
  ultimately show "fresh_kept d d'" by (simp add: fresh_kept_def)
qed

lemma fresh_prompts_each:
  "along fresh_kept (desk_bind (prompts_of (ta_id a)) (\<lambda>existing.
     if existing \<noteq> [] then desk_return () else desk_bind (default_prompts a now) (desk_each save_prompt)))"
  by (rule freshness.along_bind [OF freshness.along_reads(4)], rule freshness.along_if [OF freshness.along_basic(1) fresh_default_prompts])

lemma fresh_along:
  "along fresh_kept (ensure_default_agents cfg ws)" "along fresh_kept (ensure_default_tools cfg)"
  "along fresh_kept (ensure_default_settings cfg ags)" "along fresh_kept (ensure_default_prompts ags)"
proof -
  show "along fresh_kept (ensure_default_agents cfg ws)" "along fresh_kept (ensure_default_tools cfg)"
    "along fresh_kept (ensure_default_settings cfg ags)"
    by (rule freshness.along_agents freshness.along_tools freshness.along_settings, auto simp: fresh_kept_def fresh_ids_def future_def)+
  show "along fresh_kept (ensure_default_prompts ags)"
    unfolding ensure_default_prompts_def
    by (rule freshness.along_bind [OF freshness.along_basic(4)], rule freshness.along_each, rule fresh_prompts_each)
qed

lemma prompts_step:
  assumes "desk_bind (prompts_of (ta_id a)) (\<lambda>existing.
     if existing \<noteq> [] then desk_return () else desk_bind (default_prompts a now) (desk_each save_prompt)) d = (d', Inr u)" "fresh_ids d"
  shows "prompted (ta_id a) d'"
proof -
  from assms(1) obtain d1 ex where g: "prompts_of (ta_id a) d = (d1, Inr ex)"
    and k: "(if ex \<noteq> [] then desk_return () else desk_bind (default_prompts a now) (desk_each save_prompt)) d1 = (d', Inr u)"
    by (rule desk_bind_Ok)
  have f: "fresh_ids d1" using alongD [OF freshness.along_reads(4) g] assms(2) by (simp add: fresh_kept_def)
  show ?thesis
  proof (cases "ex = []")
    case True
    then show ?thesis using prompts_saved [OF _ f] k by simp
  next
    case False
    have "set ex = {r \<in> set (dk_prompts d1). pr_agent r = ta_id a}"
      using g by (auto simp: prompts_of_def desk_select_def desk_stmt_Ok split: if_splits)
    moreover obtain r where "r \<in> set ex" using False by (cases ex) auto
    ultimately show ?thesis using k False by (auto simp: prompted_def)
  qed
qed

lemma prompting_step:
  "along (prompted_kept i) (desk_bind (prompts_of (ta_id a)) (\<lambda>existing.
     if existing \<noteq> [] then desk_return () else desk_bind (default_prompts a now) (desk_each save_prompt)))"
proof -
  have "along (prompted_kept i) (desk_bind (default_prompts a now) (desk_each save_prompt))"
    unfolding default_prompts_def by (intro prompting.along_bind prompting.along_basic prompting.along_each prompting_save)
  from prompting.along_if [OF prompting.along_basic(1) this] show ?thesis
    by (rule prompting.along_bind [OF prompting.along_reads(4)])
qed

lemma prompts_complete:
  assumes "ensure_default_prompts ags d = (d', Inr u)" "a \<in> set ags" "fresh_ids d"
  shows "prompted (ta_id a) d'"
proof -
  let ?f = "\<lambda>a. desk_bind (prompts_of (ta_id a)) (\<lambda>existing.
     if existing \<noteq> [] then desk_return () else desk_bind (default_prompts a (dk_now d)) (desk_each save_prompt))"
  have "desk_each ?f ags d = (d', Inr u)" using assms(1) by (simp add: ensure_default_prompts_def desk_bind_def desk_now_def)
  from each_Ok [OF this assms(2)] obtain ys zs d1 d2
    where s: "desk_each ?f ys d = (d1, Inr ())" "?f a d1 = (d2, Inr ())" "desk_each ?f zs d2 = (d', Inr ())" by blast
  have "along fresh_kept (desk_each ?f ys)" by (rule freshness.along_each) (rule fresh_prompts_each)
  from alongD [OF this s(1)] have "fresh_ids d1" using assms(3) by (simp add: fresh_kept_def)
  from prompts_step [OF s(2) this] have 1: "prompted (ta_id a) d2" .
  have "along (prompted_kept (ta_id a)) (desk_each ?f zs)" by (rule prompting.along_each) (rule prompting_step)
  from alongD [OF this s(3)] 1 show ?thesis by (simp add: prompted_kept_def)
qed

text \<open>Conversations that are there stay, and those that are missing are created.\<close>

definition has_row :: "string \<Rightarrow> (conv_row \<Rightarrow> bool) \<Rightarrow> desk \<Rightarrow> bool" where
  "has_row ws P d \<longleftrightarrow> (\<exists>c \<in> set (dk_convs d). cr_ws c = ws \<and> P c)"

lemma has_row_kept: "data_kept d d' \<Longrightarrow> fresh_ids d \<Longrightarrow> has_row ws P d \<Longrightarrow> has_row ws P d'"
  unfolding data_kept_def fresh_ids_def has_row_def by blast

lemma new_conv_saved:
  assumes "desk_bind desk_uuid (\<lambda>i. save_conv (new_conv i ws ag ty title now)) d = (d', Inr u)" "fresh_ids d"
  shows "has_row ws (\<lambda>c. cr_type c = ty \<and> cr_agent c = ag) d'"
proof -
  let ?i = "dk_uuids d (dk_uuid d)"
  have "?i \<in> future d" by (simp add: future_def)
  then have n: "?i \<notin> cr_id ` set (dk_convs d)" using assms(2) by (auto simp: fresh_ids_def)
  have "save_conv (new_conv ?i ws ag ty title now) (d\<lparr>dk_uuid := Suc (dk_uuid d)\<rparr>) = (d', Inr u)"
    using assms(1) by (simp add: desk_bind_def desk_uuid_def)
  then have "dk_convs d' = dk_convs d @ [new_conv ?i ws ag ty title now]"
    using n by (auto simp: save_conv_def desk_write_def desk_stmt_Ok upsert_row_def new_conv_def)
  then show ?thesis by (simp add: has_row_def new_conv_def)
qed

lemma swarm_created:
  assumes "create_missing_swarm ws now d = (d', Inr u)" "fresh_ids d"
  shows "has_row ws (\<lambda>c. cr_type c = ConversationTypeSwarm) d'"
proof -
  obtain d1 r where f: "find_default_swarm ws d = (d1, r)" by fastforce
  have d1: "fresh_ids d1" using alongD [OF freshness.along_reads(6) f] assms(2) by (simp add: fresh_kept_def)
  show ?thesis
  proof (cases r)
    case (Inl e)
    then have "desk_bind desk_uuid (\<lambda>i. save_conv (new_conv i ws None ConversationTypeSwarm DefaultSwarmTitle now)) d1 = (d', Inr u)"
      using assms(1) f by (auto simp: create_missing_swarm_def split: if_splits)
    from new_conv_saved [OF this d1] show ?thesis by (auto simp: has_row_def)
  next
    case (Inr c)
    obtain d2 x where s: "desk_select ''select default swarm conversation''
             (\<lambda>d. case sort_slice (dk_conv_order d) (\<lambda>a b. cr_created a < cr_created b)
                    (filter (\<lambda>r. cr_ws r = ws \<and> cr_type r = ConversationTypeSwarm) (dk_convs d)) of
                    [] \<Rightarrow> None | r # _ \<Rightarrow> Some r) d = (d2, Inr x)" and k: "desk_found ErrConversationNotFound x d2 = (d1, Inr c)"
      using f [unfolded Inr find_default_swarm_def] by (simp only: split: if_splits) (simp, rule desk_bind_Ok)
    have x: "x = Some c" "d2 = d1" using k by (auto simp: desk_found_def split: option.splits)
    have "dk_convs d1 = dk_convs d" using alongD [OF convs_kept.along_reads(6) f] by (simp add: frame_of_def)
    moreover obtain cs where srt: "sort_slice (dk_conv_order d) (\<lambda>a b. cr_created a < cr_created b)
                    (filter (\<lambda>r. cr_ws r = ws \<and> cr_type r = ConversationTypeSwarm) (dk_convs d)) = c # cs"
      using s unfolding x desk_select_def desk_stmt_Ok by (auto split: list.splits)
    have "c \<in> set (dk_convs d) \<and> cr_ws c = ws \<and> cr_type c = ConversationTypeSwarm"
      using arg_cong [OF srt, of set] by auto
    ultimately show ?thesis using assms(1) f Inr by (auto simp: create_missing_swarm_def has_row_def)
  qed
qed

lemma fresh_along_swarm: "along fresh_kept (create_missing_swarm ws now)" "along data_kept (create_missing_swarm ws now)"
  by (rule freshness.along_swarm [OF fresh_new_conv], rule data.along_swarm [OF data_along_new_conv])

lemma missing_step_along:
  "along fresh_kept (if b then desk_return () else desk_bind desk_uuid (\<lambda>i. save_conv (new_conv i ws ag ty title now)))"
  "along data_kept (if b then desk_return () else desk_bind desk_uuid (\<lambda>i. save_conv (new_conv i ws ag ty title now)))"
  by (rule freshness.along_if [OF freshness.along_basic(1) fresh_new_conv], rule data.along_if [OF data.along_basic(1) data_along_new_conv])

lemma agent_convs_created:
  assumes "create_missing_convs ws ags existing now d = (d', Inr u)" "fresh_ids d" "a \<in> set ags" "ta_role a \<noteq> AgentRoleManager"
    and "existing (ta_id a) \<Longrightarrow> has_row ws (\<lambda>c. cr_agent c = Some (ta_id a)) d"
  shows "has_row ws (\<lambda>c. cr_agent c = Some (ta_id a)) d'"
proof -
  let ?f = "\<lambda>a :: team_agent. if ta_role a = AgentRoleManager \<or> existing (ta_id a) then desk_return ()
     else desk_bind desk_uuid (\<lambda>i. save_conv (new_conv i ws (Some (ta_id a)) ConversationTypeAgent (ta_name a) now))"
  have f: "along fresh_kept (desk_each ?f xs)" "along data_kept (desk_each ?f xs)" for xs
    by (rule freshness.along_each, rule missing_step_along, rule data.along_each, rule missing_step_along)
  from each_Ok [OF assms(1) [unfolded create_missing_convs_def] assms(3)] obtain ys zs d1 d2
    where s: "desk_each ?f ys d = (d1, Inr ())" "?f a d1 = (d2, Inr ())" "desk_each ?f zs d2 = (d', Inr ())" by blast
  have 1: "fresh_ids d1" "data_kept d d1" using alongD [OF f(1) s(1)] alongD [OF f(2) s(1)] assms(2) by (simp_all add: fresh_kept_def)
  have 2: "fresh_ids d2" "data_kept d1 d2"
    using alongD [OF missing_step_along(1) s(2)] alongD [OF missing_step_along(2) s(2)] 1 by (simp_all add: fresh_kept_def)
  have "has_row ws (\<lambda>c. cr_agent c = Some (ta_id a)) d2"
  proof (cases "existing (ta_id a)")
    case True
    then show ?thesis using has_row_kept [OF 2(2) 1(1) has_row_kept [OF 1(2) assms(2)]] assms(5) by blast
  next
    case False
    then have "desk_bind desk_uuid (\<lambda>i. save_conv (new_conv i ws (Some (ta_id a)) ConversationTypeAgent (ta_name a) now)) d1 = (d2, Inr ())"
      using s(2) assms(4) by simp
    from new_conv_saved [OF this 1(1)] show ?thesis by (auto simp: has_row_def)
  qed
  then show ?thesis using has_row_kept [OF alongD [OF f(2) s(3)] 2(1)] by blast
qed

lemma convs_listed: "list_convs ws d = (d', Inr cs) \<Longrightarrow> set cs = {c \<in> set (dk_convs d). cr_ws c = ws}
    \<and> dk_convs d' = dk_convs d \<and> (fresh_ids d \<longrightarrow> fresh_ids d')"
  by (auto simp: list_convs_def desk_select_def desk_stmt_Ok convs_of_def fresh_ids_def future_def split: if_splits)

lemma desk_now_bind: "desk_bind desk_now k d = k (dk_now d) d"
  by (simp add: desk_bind_def desk_now_def)

lemma convs_complete:
  assumes "ensure_default_convs ws ags d = (d', Inr cs)" "fresh_ids d"
  shows "(\<exists>c \<in> set cs. cr_type c = ConversationTypeSwarm)
    \<and> (\<forall>a \<in> set ags. ta_role a \<noteq> AgentRoleManager \<longrightarrow> (\<exists>c \<in> set cs. cr_agent c = Some (ta_id a)))"
proof -
  from assms(1) obtain d1 cs0 where l: "list_convs ws d = (d1, Inr cs0)"
    and k: "(let (swarm, convs) = classify_convs cs0 in
       if all_convs_present swarm ags convs then desk_return cs0
       else desk_transaction ''ensure default conversations''
         (desk_bind desk_now (\<lambda>now.
          desk_bind (if swarm then desk_return () else create_missing_swarm ws now) (\<lambda>_.
          desk_bind (create_missing_convs ws ags convs now) (\<lambda>_. list_convs ws))))) d1 = (d', Inr cs)"
    unfolding ensure_default_convs_def by (rule desk_bind_Ok)
  note l1 = convs_listed [OF l]
  obtain swarm convs where c: "classify_convs cs0 = (swarm, convs)" by fastforce
  have sw: "swarm \<Longrightarrow> has_row ws (\<lambda>c. cr_type c = ConversationTypeSwarm) d1"
    and cv: "\<And>i. convs i \<Longrightarrow> has_row ws (\<lambda>c. cr_agent c = Some i) d1"
    using c l1 by (auto simp: classify_convs_def has_row_def)
  show ?thesis
  proof (cases "all_convs_present swarm ags convs")
    case True
    then have "cs = cs0" using k by (simp add: c)
    then show ?thesis using True c by (auto simp: all_convs_present_def classify_convs_def)
  next
    case False
    then have t: "desk_transaction ''ensure default conversations''
         (desk_bind desk_now (\<lambda>now.
          desk_bind (if swarm then desk_return () else create_missing_swarm ws now) (\<lambda>_.
          desk_bind (create_missing_convs ws ags convs now) (\<lambda>_. list_convs ws)))) d1 = (d', Inr cs)"
      using k by (simp only: c Let_def prod.case if_False)
    obtain d2 d5 where 2: "d2 = d1\<lparr>dk_calls := Suc (dk_calls d1)\<rparr>"
      and b: "desk_bind desk_now (\<lambda>now.
          desk_bind (if swarm then desk_return () else create_missing_swarm ws now) (\<lambda>_.
          desk_bind (create_missing_convs ws ags convs now) (\<lambda>_. list_convs ws))) d2 = (d5, Inr cs)"
      using transaction_Ok [OF t] by blast
    have "fresh_ids d1" using l1 assms(2) by simp
    then have f2: "fresh_ids d2" by (simp add: 2 fresh_ids_def future_def)
    have b': "desk_bind (if swarm then desk_return () else create_missing_swarm ws (dk_now d2)) (\<lambda>_.
          desk_bind (create_missing_convs ws ags convs (dk_now d2)) (\<lambda>_. list_convs ws)) d2 = (d5, Inr cs)"
      using b unfolding desk_now_bind .
    from b' obtain d3 v where s: "(if swarm then desk_return () else create_missing_swarm ws (dk_now d2)) d2 = (d3, Inr v)"
      and k2: "desk_bind (create_missing_convs ws ags convs (dk_now d2)) (\<lambda>_. list_convs ws) d3 = (d5, Inr cs)"
      by (rule desk_bind_Ok)
    from k2 obtain d4 v2 where m: "create_missing_convs ws ags convs (dk_now d2) d3 = (d4, Inr v2)"
      and e: "list_convs ws d4 = (d5, Inr cs)" by (rule desk_bind_Ok)
    have 3: "fresh_ids d3" "data_kept d2 d3" "has_row ws (\<lambda>c. cr_type c = ConversationTypeSwarm) d3"
    proof -
      show "fresh_ids d3" "data_kept d2 d3"
        using s alongD [OF fresh_along_swarm(1)] alongD [OF fresh_along_swarm(2)] f2
        by (auto simp: fresh_kept_def intro: data.idle split: if_splits)
      show "has_row ws (\<lambda>c. cr_type c = ConversationTypeSwarm) d3"
        using s sw swarm_created [OF _ f2] by (auto simp: has_row_def 2 split: if_splits)
    qed
    have "along data_kept (create_missing_convs ws ags convs (dk_now d2))"
      unfolding create_missing_convs_def by (rule data.along_each) (rule missing_step_along)
    from has_row_kept [OF alongD [OF this m] 3(1,3)] have 4: "has_row ws (\<lambda>c. cr_type c = ConversationTypeSwarm) d4" .
    have 5: "has_row ws (\<lambda>c. cr_agent c = Some (ta_id a)) d4" if a: "a \<in> set ags" "ta_role a \<noteq> AgentRoleManager" for a
    proof (rule agent_convs_created [OF m 3(1) a])
      assume "convs (ta_id a)"
      then have "has_row ws (\<lambda>c. cr_agent c = Some (ta_id a)) d2" using cv by (auto simp: has_row_def 2)
      then show "has_row ws (\<lambda>c. cr_agent c = Some (ta_id a)) d3" by (rule has_row_kept [OF 3(2) f2])
    qed
    show ?thesis using 4 5 convs_listed [OF e] by (auto simp: has_row_def)
  qed
qed

text \<open>
  C4. A workspace that was opened for the first time is complete: each of its agents has settings with
  the tools of its blueprint and has prompts, there is a swarm conversation, and each agent other
  than the manager has a conversation of its own.
\<close>

theorem bootstrap_complete:
  assumes "bootstrap cfg user ws d = (d', Inr (w, ags, cs))" "fresh_ids d" "distinct (map mb_id (dk_members d))"
  shows "(\<forall>a \<in> set ags. equipped (ta_id a) (blueprint_tools cfg (ta_slug a)) d' \<and> prompted (ta_id a) d')
    \<and> (\<exists>c \<in> set cs. cr_type c = ConversationTypeSwarm)
    \<and> (\<forall>a \<in> set ags. ta_role a \<noteq> AgentRoleManager \<longrightarrow> (\<exists>c \<in> set cs. cr_agent c = Some (ta_id a)))"
proof -
  from assms(1) obtain d1 d2 d3 d4 d5 d6 where w: "desk_workspace user ws d = (d1, Inr w)"
    and a: "ensure_default_agents cfg ws d1 = (d2, Inr ags)" and t: "ensure_default_tools cfg d2 = (d3, Inr ())"
    and s: "ensure_default_settings cfg ags d3 = (d4, Inr ())" and p: "ensure_default_prompts ags d4 = (d5, Inr ())"
    and c: "ensure_default_convs ws ags d5 = (d6, Inr cs)" and d': "d' = d6\<lparr>dk_booted := ws # dk_booted d6\<rparr>"
    by (rule bootstrap_Ok)
  have f1: "fresh_ids d1" using alongD [OF freshness.along_reads(1) w] assms(2) by (simp add: fresh_kept_def)
  have f4: "fresh_ids d4"
    using f1 alongD [OF fresh_along(1) a] alongD [OF fresh_along(2) t] alongD [OF fresh_along(3) s] by (simp add: fresh_kept_def)
  have f5: "fresh_ids d5" using f4 alongD [OF fresh_along(4) p] by (simp add: fresh_kept_def)
  have "dk_members d1 = dk_members d" using alongD [OF members_kept.along_reads(1) w] by (simp add: frame_of_def)
  then have ids: "distinct (map ta_id ags)" using team_ids [OF a] assms(3) by simp
  have k5: "dk_settings d5 = dk_settings d4" and k6: "dk_settings d6 = dk_settings d5" "dk_prompts d6 = dk_prompts d5"
    using alongD [OF settings_kept.along_prompts p] alongD [OF settings_kept.along_convs_plain c]
      alongD [OF prompts_kept.along_convs_plain c] by (simp_all add: frame_of_def future_def)
  have "equipped (ta_id x) (blueprint_tools cfg (ta_slug x)) d' \<and> prompted (ta_id x) d'" if x: "x \<in> set ags" for x
    using settings_complete [OF s x ids] prompts_complete [OF p x f4] by (simp add: d' equipped_def prompted_def k5 k6)
  then show ?thesis using convs_complete [OF c f5] by blast
qed

theorem bootstrap_complete_witness:
  "\<exists>d' w ags cs. bootstrap sample_seeds ''u'' ''w'' sample_desk = (d', Inr (w, ags, cs))
    \<and> (\<exists>a \<in> set ags. ta_slug a = ''writer'' \<and> equipped (ta_id a) (Some []) d' \<and> prompted (ta_id a) d' \<and> (\<exists>c \<in> set cs. cr_agent c = Some (ta_id a)))"
proof -
  let ?b = "bootstrap sample_seeds ''u'' ''w'' sample_desk"
  have ok: "case snd ?b of Inl _ \<Rightarrow> False
    | Inr (w, ags, cs) \<Rightarrow> \<exists>a \<in> set ags. ta_slug a = ''writer'' \<and> ta_role a = ''specialist''" by code_simp
  obtain d' r where b: "?b = (d', r)" by fastforce
  with ok obtain w ags cs a where r: "r = Inr (w, ags, cs)" and a: "a \<in> set ags" "ta_slug a = ''writer''" "ta_role a = ''specialist''"
    by (auto split: sum.splits)
  have f: "fresh_ids sample_desk" by (auto simp: fresh_ids_def sample_desk_def intro!: injI dest: arg_cong [of _ _ length])
  have t: "blueprint_tools sample_seeds ''writer'' = Some []" by code_simp
  have "distinct (map mb_id (dk_members sample_desk))" by (simp add: sample_desk_def)
  note c = bootstrap_complete [OF b [unfolded r] f this]
  have "equipped (ta_id a) (Some []) d' \<and> prompted (ta_id a) d'" using c a t by metis
  moreover have "\<exists>c \<in> set cs. cr_agent c = Some (ta_id a)" using c a(1,3) by (simp add: AgentRoleManager_def)
  ultimately show ?thesis using b r a(1,2) by blast
qed

section \<open>Agents of another workspace\<close>

lemma find_self: "x \<in> set xs \<Longrightarrow> find (\<lambda>y. y = x) xs = Some x"
  by (induction xs) auto

lemma find_by_key: "x \<in> set xs \<Longrightarrow> distinct (map f xs) \<Longrightarrow> find (\<lambda>y. f y = f x) xs = Some x"
  by (induction xs) (auto simp: image_iff)

text \<open>A conversation can be created with an agent of another workspace: the agent is looked up by its
  id alone. The conversation is stored, yet none of the views of its workspace finds its agent.
\<close>

theorem foreign_agent:
  assumes "(user, ws) \<in> set (dk_workspaces d)" "\<not> blank user" "\<not> blank ws" "m \<in> set (dk_members d)" "mb_ws m \<noteq> ws"
    and "\<not> blank (mb_id m)" "distinct (map mb_id (dk_members d))" "dk_fails d = (\<lambda>_. False)"
    and "dk_uuids d (dk_uuid d) \<notin> cr_id ` set (dk_convs d)"
  shows "\<exists>d' c. create_conversation user ws ConversationTypeAgent title (mb_id m) d = (d', Inr c)
    \<and> c \<in> set (dk_convs d') \<and> cr_ws c = ws \<and> cr_agent c = Some (mb_id m) \<and> conv_agent (team_of ws d') c = None"
proof -
  let ?c = "new_conv (dk_uuids d (dk_uuid d)) ws (Some (mb_id m)) ConversationTypeAgent title (dk_now d)"
  let ?d = "d\<lparr>dk_convs := dk_convs d @ [?c], dk_uuid := Suc (dk_uuid d), dk_calls := Suc (Suc (Suc (dk_calls d)))\<rparr>"
  have known: "ws \<in> snd ` set (dk_workspaces d)" "mb_id m \<in> mb_id ` set (dk_members d)" using assms(1,4) by force+
  have run: "create_conversation user ws ConversationTypeAgent title (mb_id m) d = (?d, Inr ?c)"
    using assms(2,3,6,8,9) known find_self [OF assms(1)] find_by_key [OF assms(4,7)]
    by (simp add: create_conversation_def desk_bind_def desk_workspace_def desk_select_def desk_stmt_def desk_found_def desk_raise_def
        desk_return_def desk_now_def desk_uuid_def agent_anywhere_def create_conv_def desk_write_def conv_keys_ok_def known_member_def
        member_to_domain_def new_conv_def Let_def)
  have "ta_id a \<noteq> mb_id m" if "a \<in> set (team_of ws ?d)" for a
  proof -
    obtain r where r: "r \<in> set (dk_members d)" "mb_ws r = ws" "ta_id a = mb_id r"
      using \<open>a \<in> set (team_of ws ?d)\<close> by (auto simp: set_team_of member_to_domain_def)
    then have "r \<noteq> m" using assms(5) by auto
    then show ?thesis using r assms(4,7) by (auto simp: distinct_map inj_on_def)
  qed
  then have "conv_agent (team_of ws ?d) ?c = None"
    by (auto simp: conv_agent_def map_agents_by_id_def new_conv_def find_None_iff)
  then show ?thesis using run by (intro exI [of _ ?d] exI [of _ ?c]) (simp add: new_conv_def)
qed

theorem foreign_agent_witness:
  "\<exists>d' c. create_conversation ''u'' ''v'' ''agent'' ''t'' ''r'' (sample_retired\<lparr>dk_workspaces := [(''u'', ''w''), (''u'', ''v'')]\<rparr>) = (d', Inr c)
    \<and> conv_agent (team_of ''v'' d') c = None"
proof -
  let ?d = "sample_retired\<lparr>dk_workspaces := [(''u'', ''w''), (''u'', ''v'')]\<rparr>"
  have b: "\<not> blank ''u''" "\<not> blank ''v''" "\<not> blank ''r''" by code_simp+
  have r: "mb_id retired_agent = ''r''" "mb_ws retired_agent = ''w''" by (simp_all add: retired_agent_def)
  show ?thesis
    using foreign_agent [of "''u''" "''v''" ?d retired_agent "''t''"] b
    by (auto simp: sample_retired_def sample_desk_def r ConversationTypeAgent_def)
qed

end
