(* ===== verification/Encodings.thy ===== *)
theory Encodings
  imports Go_Strings
begin

text \<open>
  \<open>base64.RawURLEncoding\<close> and \<open>encoding/hex\<close>, as the tokens of \<open>pkg/hmac\<close> and the
  filter at the gateway use them, with their round trips.
\<close>

section \<open>\<open>base64.RawURLEncoding\<close>\<close>

definition b64_char :: "nat \<Rightarrow> char" where
  "b64_char n = (if n < 26 then char_of (65 + n) else if n < 52 then char_of (71 + n)
     else if n < 62 then char_of (n - 4) else if n = 62 then CHR ''-'' else CHR ''_'')"

definition b64_value :: "char \<Rightarrow> nat option" where
  "b64_value c = (let b = byte c in
     if 65 \<le> b \<and> b \<le> 90 then Some (b - 65) else if 97 \<le> b \<and> b \<le> 122 then Some (b - 71)
     else if 48 \<le> b \<and> b \<le> 57 then Some (b + 4) else if b = 45 then Some 62 else if b = 95 then Some 63 else None)"

fun b64_encode :: "string \<Rightarrow> string" where
  "b64_encode [] = []"
| "b64_encode [a] = [b64_char (byte a div 4), b64_char (byte a mod 4 * 16)]"
| "b64_encode [a, b] = [b64_char (byte a div 4), b64_char (byte a mod 4 * 16 + byte b div 16), b64_char (byte b mod 16 * 4)]"
| "b64_encode (a # b # c # s) =
     b64_char (byte a div 4) # b64_char (byte a mod 4 * 16 + byte b div 16) # b64_char (byte b mod 16 * 4 + byte c div 64)
       # b64_char (byte c mod 64) # b64_encode s"

text \<open>Bits left over at the end are ignored; a single character there is an error.\<close>

fun b64_bytes :: "nat list \<Rightarrow> string option" where
  "b64_bytes [] = Some []"
| "b64_bytes [p] = None"
| "b64_bytes [p, q] = Some [char_of (p * 4 + q div 16)]"
| "b64_bytes [p, q, r] = Some [char_of (p * 4 + q div 16), char_of (q mod 16 * 16 + r div 4)]"
| "b64_bytes (p # q # r # t # vs) = (case b64_bytes vs of None \<Rightarrow> None
     | Some s \<Rightarrow> Some (char_of (p * 4 + q div 16) # char_of (q mod 16 * 16 + r div 4) # char_of (r mod 4 * 64 + t) # s))"

text \<open>Line breaks are skipped; any other character outside the alphabet is an error.\<close>

definition b64_decode :: "string \<Rightarrow> string option" where
  "b64_decode s =
     (let vs = map b64_value (filter (\<lambda>c. c \<noteq> CHR 0x0A \<and> c \<noteq> CHR 0x0D) s) in
      if None \<in> set vs then None else b64_bytes (map the vs))"

lemma byte_less [simp]: "byte c < 256"
  using of_char_mod_256 [of c, where 'a = nat] by (metis mod_less_divisor zero_less_numeral)

lemma byte_char_of [simp]: "n < 256 \<Longrightarrow> byte (char_of n) = n"
  by simp

lemma b64_value_char [simp]: "n < 64 \<Longrightarrow> b64_value (b64_char n) = Some n"
  by (auto simp: b64_char_def b64_value_def Let_def)

definition in_b64 :: "char \<Rightarrow> bool" where
  "in_b64 c \<longleftrightarrow> b64_value c \<noteq> None"

lemma b64_chars: "set (b64_encode s) \<subseteq> b64_char ` {..<64}"
proof (induction s rule: b64_encode.induct)
  case (4 a b c s)
  have "byte a div 4 < 64" "byte a mod 4 * 16 + byte b div 16 < 64" "byte b mod 16 * 4 + byte c div 64 < 64"
    using byte_less [of a] byte_less [of b] byte_less [of c] by linarith+
  then show ?case using 4 by auto
next
  case (3 a b)
  have "byte a div 4 < 64" "byte a mod 4 * 16 + byte b div 16 < 64" using byte_less [of a] byte_less [of b] by linarith+
  then show ?case by auto
next
  case (2 a)
  have "byte a div 4 < 64" using byte_less [of a] by linarith
  then show ?case by auto
qed simp

lemma b64_encode_alphabet: "c \<in> set (b64_encode s) \<Longrightarrow> in_b64 c"
  using b64_chars [of s] by (auto simp: in_b64_def)

lemma in_b64_not [simp]: "\<not> in_b64 CHR 0x0A" "\<not> in_b64 CHR 0x0D" "\<not> in_b64 CHR ''.''" "\<not> in_b64 CHR '' ''" "\<not> in_b64 CHR '':''"
  by (simp_all add: in_b64_def b64_value_def Let_def)

text \<open>Three bytes as four groups of six bits and back.\<close>

lemma regroup:
  fixes a b c :: nat
  shows "b < 256 \<Longrightarrow> a div 4 * 4 + (a mod 4 * 16 + b div 16) div 16 = a"
    and "b < 256 \<Longrightarrow> c < 256 \<Longrightarrow> (a mod 4 * 16 + b div 16) mod 16 * 16 + (b mod 16 * 4 + c div 64) div 4 = b"
    and "c < 256 \<Longrightarrow> (b mod 16 * 4 + c div 64) mod 4 * 64 + c mod 64 = c"
    and "a div 4 * 4 + a mod 4 * 16 div 16 = a"
    and "b < 256 \<Longrightarrow> (a mod 4 * 16 + b div 16) mod 16 * 16 + b mod 16 * 4 div 4 = b"
proof -
  have d: "y < 16 \<Longrightarrow> (x * 16 + y) div 16 = x \<and> (x * 16 + y) mod 16 = y" for x y :: nat by simp
  have e: "y < 4 \<Longrightarrow> (x * 4 + y) div 4 = x \<and> (x * 4 + y) mod 4 = y" for x y :: nat by simp
  have b: "b < 256 \<Longrightarrow> b div 16 < 16" and c: "c < 256 \<Longrightarrow> c div 64 < 4" by linarith+
  show "b < 256 \<Longrightarrow> a div 4 * 4 + (a mod 4 * 16 + b div 16) div 16 = a" using d [OF b, of "a mod 4"] by simp
  show "b < 256 \<Longrightarrow> c < 256 \<Longrightarrow> (a mod 4 * 16 + b div 16) mod 16 * 16 + (b mod 16 * 4 + c div 64) div 4 = b"
    using d [OF b, of "a mod 4"] e [OF c, of "b mod 16"] by simp
  show "c < 256 \<Longrightarrow> (b mod 16 * 4 + c div 64) mod 4 * 64 + c mod 64 = c" using e [OF c, of "b mod 16"] by simp
  show "a div 4 * 4 + a mod 4 * 16 div 16 = a" by simp
  show "b < 256 \<Longrightarrow> (a mod 4 * 16 + b div 16) mod 16 * 16 + b mod 16 * 4 div 4 = b" using d [OF b, of "a mod 4"] by simp
qed

lemma b64_values: "b64_bytes (map (the \<circ> b64_value) (b64_encode s)) = Some s"
proof (induction s rule: b64_encode.induct)
  case (4 a b c s)
  have 1: "byte a div 4 < 64" "byte a mod 4 * 16 + byte b div 16 < 64" "byte b mod 16 * 4 + byte c div 64 < 64" "byte c mod 64 < 64"
    using byte_less [of a] byte_less [of b] byte_less [of c] by linarith+
  show ?case using 4 by (simp only: b64_encode.simps list.map b64_value_char [OF 1(1)] b64_value_char [OF 1(2)] b64_value_char [OF 1(3)]
        b64_value_char [OF 1(4)] regroup(1-3) byte_less comp_apply option.sel b64_bytes.simps option.case char_of_char)
next
  case (3 a b)
  have 1: "byte a div 4 < 64" "byte a mod 4 * 16 + byte b div 16 < 64" "byte b mod 16 * 4 < 64"
    using byte_less [of a] byte_less [of b] by linarith+
  show ?case by (simp only: b64_encode.simps list.map b64_value_char [OF 1(1)] b64_value_char [OF 1(2)] b64_value_char [OF 1(3)]
        regroup(1,5) byte_less comp_apply option.sel b64_bytes.simps option.case char_of_char)
next
  case (2 a)
  have 1: "byte a div 4 < 64" "byte a mod 4 * 16 < 64" using byte_less [of a] by linarith+
  show ?case by (simp only: b64_encode.simps list.map b64_value_char [OF 1(1)] b64_value_char [OF 1(2)] regroup(4) comp_apply option.sel b64_bytes.simps option.case char_of_char)
qed simp

lemma b64_roundtrip [simp]: "b64_decode (b64_encode s) = Some s"
proof -
  have a: "c \<in> set (b64_encode s) \<Longrightarrow> b64_value c \<noteq> None" for c using b64_encode_alphabet [of c s] by (simp add: in_b64_def)
  then have f: "filter (\<lambda>c. c \<noteq> CHR 0x0A \<and> c \<noteq> CHR 0x0D) (b64_encode s) = b64_encode s"
    using b64_encode_alphabet [of "CHR 0x0A" s] b64_encode_alphabet [of "CHR 0x0D" s] by (auto simp: filter_id_conv)
  have "None \<notin> set (map b64_value (b64_encode s))" using a by (metis (no_types, lifting) in_set_conv_nth length_map nth_map)
  then show ?thesis using b64_values [of s] by (simp add: b64_decode_def f Let_def comp_def)
qed

lemma b64_encode_inj: "b64_encode s = b64_encode t \<Longrightarrow> s = t"
  by (metis b64_roundtrip option.inject)

section \<open>\<open>encoding/hex\<close>\<close>

definition hex_char :: "nat \<Rightarrow> char" where
  "hex_char n = (if n < 10 then char_of (48 + n) else char_of (87 + n))"

definition hex_value :: "char \<Rightarrow> nat option" where
  "hex_value c = (let b = byte c in
     if 48 \<le> b \<and> b \<le> 57 then Some (b - 48) else if 97 \<le> b \<and> b \<le> 102 then Some (b - 87)
     else if 65 \<le> b \<and> b \<le> 70 then Some (b - 55) else None)"

fun hex_encode :: "string \<Rightarrow> string" where
  "hex_encode [] = []"
| "hex_encode (c # s) = hex_char (byte c div 16) # hex_char (byte c mod 16) # hex_encode s"

fun hex_decode :: "string \<Rightarrow> string option" where
  "hex_decode [] = Some []"
| "hex_decode [c] = None"
| "hex_decode (a # b # s) = (case (hex_value a, hex_value b, hex_decode s) of
     (Some x, Some y, Some t) \<Rightarrow> Some (char_of (x * 16 + y) # t) | _ \<Rightarrow> None)"

lemma hex_value_char [simp]: "n < 16 \<Longrightarrow> hex_value (hex_char n) = Some n"
  by (auto simp: hex_char_def hex_value_def Let_def)

lemma hex_roundtrip [simp]: "hex_decode (hex_encode s) = Some s"
proof (induction s)
  case (Cons c s)
  have "byte c div 16 < 16" using byte_less [of c] by linarith
  then show ?case using Cons by simp
qed simp

lemma hex_chars: "c \<in> set (hex_encode s) \<Longrightarrow> hex_value c \<noteq> None"
proof (induction s)
  case (Cons a s)
  have "byte a div 16 < 16" using byte_less [of a] by linarith
  then show ?case using Cons by auto
qed simp

lemma hex_not [simp]: "hex_value CHR ''.'' = None" "hex_value CHR '' '' = None" "hex_value CHR 0x0A = None"
  by (simp_all add: hex_value_def Let_def)

end
