(* ===== verification/Tokens.thy ===== *)
theory Tokens
  imports Encodings "HOL-Library.Word"
begin

text \<open>
  The tokens of \<open>pkg/hmac\<close> and who reads them: the interceptors and credentials of
  \<open>pkg/grpc\<close>, the MCP server (\<open>server/mcp/server.go\<close>) with its signing transport
  (\<open>agentruntime/tools/mcp/transport.go\<close>), and the endpoint of the blueprints
  (\<open>handler/internal_runtime.go\<close>) with the runtime that fetches them
  (\<open>agentruntime/runner/blueprint.go\<close>). HMAC-SHA256 is an argument. Times are Unix seconds,
  durations nanoseconds.
\<close>

type_synonym mac = "string \<Rightarrow> string \<Rightarrow> string"

datatype token_error = TokenFormat | TokenSignature | TokenPayload | TokenPayloadFormat | TokenTimestamp | TokenExpired

definition TokenMaxAge :: int where "TokenMaxAge = 5 * 60 * 10 ^ 9"

section \<open>Tokens\<close>

definition compute_mac :: "mac \<Rightarrow> string \<Rightarrow> string \<Rightarrow> string" where
  "compute_mac mac key data = hex_encode (mac key data)"

definition token_payload :: "string \<Rightarrow> string \<Rightarrow> int \<Rightarrow> string" where
  "token_payload p1 p2 t = b64_encode (p1 @ '':'' @ p2 @ '':'' @ show_int t)"

definition generate_token :: "mac \<Rightarrow> string \<Rightarrow> int \<Rightarrow> string \<Rightarrow> string \<Rightarrow> string" where
  "generate_token mac key t p1 p2 = (let payload = token_payload p1 p2 t in payload @ ''.'' @ compute_mac mac key payload)"

text \<open>\<open>float64\<close> of an integer: 53 bits, ties to even.\<close>

fun bit_length :: "nat \<Rightarrow> nat" where
  "bit_length n = (if n = 0 then 0 else Suc (bit_length (n div 2)))"

declare bit_length.simps [simp del]

definition float_of_nat :: "nat \<Rightarrow> nat" where
  "float_of_nat n =
     (if n < 2 ^ 53 then n
      else let e = bit_length n - 53; q = n div 2 ^ e; r = n mod 2 ^ e; half = 2 ^ (e - 1) in
        (if half < r \<or> (r = half \<and> odd q) then q + 1 else q) * 2 ^ e)"

text \<open>Arithmetic on \<open>int64\<close>; a \<open>float64\<close> beyond its range converts to the least value, as on amd64.\<close>

definition int64 :: "int \<Rightarrow> int" where
  "int64 i = sint (word_of_int i :: 64 word)"

definition int64_of_float :: "nat \<Rightarrow> int" where
  "int64_of_float f = (if f < 2 ^ 63 then int f else - (2 ^ 63))"

definition token_age :: "int \<Rightarrow> int \<Rightarrow> int" where
  "token_age now ts = int64 (int64_of_float (float_of_nat (nat \<bar>int64 (now - ts)\<bar>)) * 10 ^ 9)"

definition validate_payload :: "int \<Rightarrow> string \<Rightarrow> token_error + (string \<times> string)" where
  "validate_payload now payload = (case b64_decode payload of
     None \<Rightarrow> Inl TokenPayload
   | Some decoded \<Rightarrow> (case split_n decoded '':'' 3 of
       [a, b, c] \<Rightarrow>
         if a = '''' \<or> b = '''' \<or> c = '''' then Inl TokenPayloadFormat
         else (case parse_int64 c of
           None \<Rightarrow> Inl TokenTimestamp
         | Some ts \<Rightarrow> if token_age now ts > TokenMaxAge then Inl TokenExpired else Inr (a, b))
     | _ \<Rightarrow> Inl TokenPayloadFormat))"

definition validate_token :: "mac \<Rightarrow> string \<Rightarrow> int \<Rightarrow> string \<Rightarrow> token_error + (string \<times> string)" where
  "validate_token mac key now token = (case split_n token ''.'' 2 of
     [payload, sig] \<Rightarrow> (case hex_decode sig of
         None \<Rightarrow> Inl TokenSignature
       | Some s \<Rightarrow> if s \<noteq> mac key payload then Inl TokenSignature else validate_payload now payload)
   | _ \<Rightarrow> Inl TokenFormat)"

section \<open>gRPC\<close>

record identity =
  id_subject :: string
  id_object :: string

text \<open>The method and the values of the \<open>authorization\<close> entry of an incoming call.\<close>

record rpc =
  rpc_method :: "string option"
  rpc_auth :: "string list"

definition cut_byte :: "char \<Rightarrow> string \<Rightarrow> (string \<times> string) option" where
  "cut_byte c s = (if c \<in> set s then Some (takeWhile (\<lambda>x. x \<noteq> c) s, tl (dropWhile (\<lambda>x. x \<noteq> c) s)) else None)"

text \<open>\<open>strings.EqualFold\<close> with an ASCII string: besides case, the long s and the Kelvin sign.\<close>

definition fold_ascii :: "string \<Rightarrow> string" where
  "fold_ascii s = concat (map (\<lambda>g. if g = [CHR 0xC5, CHR 0xBF] then ''s'' else if g = [CHR 0xE2, CHR 0x84, CHR 0xAA] then ''k''
     else to_lower g) (segs s))"

definition equal_fold :: "string \<Rightarrow> string \<Rightarrow> bool" where
  "equal_fold s p \<longleftrightarrow> fold_ascii s = fold_ascii p"

definition auth_from_md :: "string list \<Rightarrow> string \<Rightarrow> string + string" where
  "auth_from_md vals scheme = (case vals of
     [] \<Rightarrow> Inl (''Request unauthenticated with '' @ scheme)
   | v # _ \<Rightarrow> (case cut_byte CHR '' '' v of
       None \<Rightarrow> Inl ''Bad authorization string''
     | Some (s, token) \<Rightarrow> if equal_fold s scheme then Inr token else Inl (''Request unauthenticated with '' @ scheme)))"

definition DefaultAuthExemptMethods :: "string list" where
  "DefaultAuthExemptMethods = [''/grpc.health.v1.Health/Check'', ''/grpc.health.v1.Health/Watch'',
     ''/grpc.reflection.v1.ServerReflection/ServerReflectionInfo'', ''/grpc.reflection.v1alpha.ServerReflection/ServerReflectionInfo'']"

definition build_exempt_set :: "string list \<Rightarrow> string set" where
  "build_exempt_set extra = set DefaultAuthExemptMethods \<union> trim_space ` set extra"

text \<open>The error message, or the identity the handler finds in its context.\<close>

definition hmac_server_auth :: "mac \<Rightarrow> string \<Rightarrow> string list \<Rightarrow> int \<Rightarrow> rpc \<Rightarrow> string + identity option" where
  "hmac_server_auth mac key extra now r =
     (if (case rpc_method r of None \<Rightarrow> '''' | Some m \<Rightarrow> m) \<in> build_exempt_set extra then Inr None
      else case auth_from_md (rpc_auth r) ''bearer'' of
        Inl e \<Rightarrow> Inl e
      | Inr token \<Rightarrow> if token = '''' then Inl ''empty bearer token''
          else (case validate_token mac key now token of
            Inl _ \<Rightarrow> Inl ''invalid bearer token''
          | Inr (a, b) \<Rightarrow> Inr (Some \<lparr>id_subject = a, id_object = b\<rparr>)))"

definition get_request_metadata :: "mac \<Rightarrow> string \<Rightarrow> int \<Rightarrow> identity option \<Rightarrow> string + string" where
  "get_request_metadata mac key now i =
     (if key = '''' then Inl ''grpc: HMACCredentials: missing signing key''
      else case i of
        None \<Rightarrow> Inl ''grpc: HMACCredentials: missing identity on context (call crawblgrpc.WithIdentity)''
      | Some i \<Rightarrow> if id_subject i = '''' \<or> id_object i = ''''
          then Inl ''grpc: HMACCredentials: missing identity on context (call crawblgrpc.WithIdentity)''
          else Inr (''Bearer '' @ generate_token mac key now (id_subject i) (id_object i)))"

section \<open>HTTP\<close>

text \<open>What the handlers read of a request; an absent header is empty.\<close>

record http_request =
  rq_authorization :: string
  rq_session :: string
  rq_conversation :: string
  rq_workspace :: string

record mcp_caller =
  mc_user :: string
  mc_workspace :: string
  mc_session :: string
  mc_conversation :: string

definition with_auth :: "mac \<Rightarrow> string \<Rightarrow> int \<Rightarrow> http_request \<Rightarrow> string + mcp_caller" where
  "with_auth mac key now rq =
     (if \<not> has_prefix (rq_authorization rq) ''Bearer '' then Inl ''missing authorization''
      else case validate_token mac key now (trim_prefix (rq_authorization rq) ''Bearer '') of
        Inl _ \<Rightarrow> Inl ''invalid token''
      | Inr (user, ws) \<Rightarrow> Inr \<lparr>mc_user = user, mc_workspace = ws, mc_session = rq_session rq, mc_conversation = rq_conversation rq\<rparr>)"

text \<open>The transport of the runtime: configuration, then each request.\<close>

definition hmac_transport_ok :: "string \<Rightarrow> string \<Rightarrow> string \<Rightarrow> bool" where
  "hmac_transport_ok key user ws \<longleftrightarrow> key \<noteq> '''' \<and> user \<noteq> '''' \<and> ws \<noteq> ''''"

definition round_trip :: "mac \<Rightarrow> string \<Rightarrow> string \<Rightarrow> string \<Rightarrow> int \<Rightarrow> string \<Rightarrow> http_request \<Rightarrow> http_request" where
  "round_trip mac key user ws now conv rq =
     (let rq = rq\<lparr>rq_authorization := ''Bearer '' @ generate_token mac key now user ws\<rparr>
      in if conv \<noteq> '''' then rq\<lparr>rq_conversation := conv\<rparr> else rq)"

definition decode_bearer_identity :: "mac \<Rightarrow> string \<Rightarrow> int \<Rightarrow> http_request \<Rightarrow> (string \<times> string) option" where
  "decode_bearer_identity mac key now rq =
     (let auth = trim_space (rq_authorization rq);
          bare = (case cut_byte CHR '' '' auth of
                    None \<Rightarrow> Some auth
                  | Some (s, rest) \<Rightarrow> if to_lower (trim_space s) = ''bearer'' then Some (trim_space rest) else None)
      in case bare of
           None \<Rightarrow> None
         | Some token \<Rightarrow> if token = '''' then None
             else (case validate_token mac key now token of Inl _ \<Rightarrow> None | Inr i \<Rightarrow> Some i))"

datatype blueprint_refusal = KeyNotConfigured | Unauthorized | WorkspaceMismatch

text \<open>Whose agents the endpoint lists.\<close>

definition blueprint_caller :: "mac \<Rightarrow> string \<Rightarrow> int \<Rightarrow> http_request \<Rightarrow> blueprint_refusal + (string \<times> string)" where
  "blueprint_caller mac key now rq =
     (let key = trim_space key in
      if key = '''' then Inl KeyNotConfigured
      else case decode_bearer_identity mac key now rq of
        None \<Rightarrow> Inl Unauthorized
      | Some (user, ws) \<Rightarrow>
          let requested = trim_space (rq_workspace rq) in
          if requested \<noteq> '''' \<and> requested \<noteq> ws then Inl WorkspaceMismatch else Inr (user, ws))"

definition fetch_blueprint_request :: "mac \<Rightarrow> string \<Rightarrow> string \<Rightarrow> string \<Rightarrow> int \<Rightarrow> string + http_request" where
  "fetch_blueprint_request mac key user ws now =
     (if key = '''' then Inl ''MCPSigningKey is empty''
      else if user = '''' \<or> ws = '''' then Inl ''UserID and WorkspaceID are required for HMAC''
      else Inr \<lparr>rq_authorization = ''Bearer '' @ generate_token mac key now user ws, rq_session = '''', rq_conversation = '''',
                rq_workspace = ws\<rparr>)"

end
