(* ===== verification/Tokens_Props.thy ===== *)
theory Tokens_Props
  imports Tokens
begin

text \<open>
  What a token says of its bearer: a token validates to the parts it was made of or not at all, an
  accepted call carries an identity that was issued within five minutes, and the identity a caller signs
  is the one each reader finds.
\<close>

section \<open>Splitting\<close>

lemma split_n_first:
  "c \<notin> set a \<Longrightarrow> 1 < n \<Longrightarrow> split_n_acc n [c] acc (a @ c # r) = (rev acc @ a) # split_n_acc (n - 1) [c] [] r"
  by (induction a arbitrary: acc) (auto simp: has_prefix_def)

lemma split_n_free: "c \<notin> set a \<Longrightarrow> split_n_acc n [c] acc a = [rev acc @ a]"
  by (induction a arbitrary: acc) (auto simp: has_prefix_def)

lemma split_2_iff: "split_n s [c] 2 = [a, b] \<longleftrightarrow> s = a @ c # b \<and> c \<notin> set a"
proof
  assume h: "split_n s [c] 2 = [a, b]"
  then have c: "c \<in> set s" using split_n_free [of c s] by (fastforce simp: split_n_def)
  then obtain u v where s: "s = u @ c # v" "c \<notin> set u" by (meson split_list_first)
  then have "split_n s [c] 2 = [u, v]" using split_n_first [of c u 2 "[]" v] by (simp add: split_n_def split_n_acc_one)
  then show "s = a @ c # b \<and> c \<notin> set a" using h s by simp
next
  assume "s = a @ c # b \<and> c \<notin> set a"
  then show "split_n s [c] 2 = [a, b]" using split_n_first [of c a 2 "[]" b] by (simp add: split_n_def split_n_acc_one)
qed

lemma split_3_iff: "split_n s [c] 3 = [a, b, d] \<longleftrightarrow> s = a @ c # b @ c # d \<and> c \<notin> set a \<and> c \<notin> set b"
proof
  assume h: "split_n s [c] 3 = [a, b, d]"
  then have c: "c \<in> set s" using split_n_free [of c s] by (fastforce simp: split_n_def)
  then obtain u v where s: "s = u @ c # v" "c \<notin> set u" by (meson split_list_first)
  then have "split_n s [c] 3 = u # split_n v [c] 2" using split_n_first [of c u 3 "[]" v] by (simp add: split_n_def)
  then have "u = a" "split_n v [c] 2 = [b, d]" using h by auto
  then show "s = a @ c # b @ c # d \<and> c \<notin> set a \<and> c \<notin> set b" using s by (simp add: split_2_iff)
next
  assume "s = a @ c # b @ c # d \<and> c \<notin> set a \<and> c \<notin> set b"
  then show "split_n s [c] 3 = [a, b, d]"
    using split_n_first [of c a 3 "[]" "b @ c # d"] split_n_first [of c b 2 "[]" d] by (simp add: split_n_def split_n_acc_one)
qed

section \<open>Ages\<close>

lemma int64_mod: "int64 i = (i + 2 ^ 63) mod 2 ^ 64 - 2 ^ 63"
  by (simp add: int64_def sint_sbintrunc' signed_take_bit_eq_take_bit_shift take_bit_eq_mod)

lemma int64_id: "- (2 ^ 63) \<le> i \<Longrightarrow> i < 2 ^ 63 \<Longrightarrow> int64 i = i"
  by (simp add: int64_mod)

lemma int64_wrap: "2 ^ 63 \<le> i \<Longrightarrow> i < 2 ^ 64 \<Longrightarrow> int64 i = i - 2 ^ 64"
proof -
  assume i: "2 ^ 63 \<le> i" "i < 2 ^ 64"
  have "(i + 2 ^ 63) mod 2 ^ 64 = (i - 2 ^ 63 + 2 ^ 64) mod 2 ^ 64" by (rule arg_cong [of _ _ "\<lambda>x. x mod 2 ^ 64"]) simp
  also have "\<dots> = i - 2 ^ 63" using i by (subst mod_add_self2) simp
  finally show ?thesis by (simp add: int64_mod)
qed

lemma token_age_small: "\<bar>now - ts\<bar> \<le> 9223372036 \<Longrightarrow> token_age now ts = \<bar>now - ts\<bar> * 10 ^ 9"
proof -
  assume d: "\<bar>now - ts\<bar> \<le> 9223372036"
  then have "nat \<bar>now - ts\<bar> < 2 ^ 53" by simp
  then have "int64_of_float (float_of_nat (nat \<bar>int64 (now - ts)\<bar>)) = \<bar>now - ts\<bar>"
    using d by (simp add: int64_id float_of_nat_def int64_of_float_def)
  moreover have "int64 (\<bar>now - ts\<bar> * 10 ^ 9) = \<bar>now - ts\<bar> * 10 ^ 9"
  proof (rule int64_id)
    have "0 \<le> \<bar>now - ts\<bar> * 10 ^ 9" by simp
    then show "- (2 ^ 63) \<le> \<bar>now - ts\<bar> * 10 ^ 9" by (rule order_trans [rotated]) simp
    show "\<bar>now - ts\<bar> * 10 ^ 9 < 2 ^ 63" using d by simp
  qed
  ultimately show ?thesis by (simp only: token_age_def)
qed

lemma token_age_large:
  "9223372037 \<le> \<bar>now - ts\<bar> \<Longrightarrow> \<bar>now - ts\<bar> \<le> 18446744073 \<Longrightarrow> token_age now ts < 0"
proof -
  assume d: "9223372037 \<le> \<bar>now - ts\<bar>" "\<bar>now - ts\<bar> \<le> 18446744073"
  then have "nat \<bar>now - ts\<bar> < 2 ^ 53" by simp
  then have "int64_of_float (float_of_nat (nat \<bar>int64 (now - ts)\<bar>)) = \<bar>now - ts\<bar>"
    using d by (simp add: int64_id float_of_nat_def int64_of_float_def)
  then show ?thesis using d by (simp add: token_age_def int64_wrap)
qed

lemma parse_show [simp]: "0 \<le> t \<Longrightarrow> t < 2 ^ 63 \<Longrightarrow> parse_int64 (show_int t) = Some t"
  by (rule parse_int64_show)

lemma show_int_digits: "0 \<le> t \<Longrightarrow> CHR '':'' \<notin> set (show_int t) \<and> show_int t \<noteq> ''''"
  by (simp add: show_int_def digit_not_in_show is_digit_def)

section \<open>A token validates to the parts it was made of\<close>

lemma parse_int64_no_colon: "parse_int64 c = Some v \<Longrightarrow> CHR '':'' \<notin> set c"
  by (cases c) (auto simp: parse_int64_def parse_nat_def Let_def has_prefix_def is_digit_def list_all_iff split: if_splits)

lemma payload_no_dot: "CHR ''.'' \<notin> set (token_payload p1 p2 t)"
  using b64_encode_alphabet [of "CHR ''.''"] by (auto simp: token_payload_def)

lemma validate_generated: "validate_token mac key now (generate_token mac key t p1 p2) = validate_payload now (token_payload p1 p2 t)"
proof -
  have "split_n (generate_token mac key t p1 p2) ''.'' 2 = [token_payload p1 p2 t, compute_mac mac key (token_payload p1 p2 t)]"
    by (simp add: split_2_iff generate_token_def Let_def payload_no_dot)
  then show ?thesis by (simp add: validate_token_def compute_mac_def)
qed

definition plain_part :: "string \<Rightarrow> bool" where
  "plain_part p \<longleftrightarrow> p \<noteq> '''' \<and> CHR '':'' \<notin> set p"

lemma payload_parts:
  assumes "validate_payload now (token_payload p1 p2 t) = Inr (a, b)" "0 \<le> t"
  shows "a = p1 \<and> b = p2 \<and> plain_part p1 \<and> plain_part p2"
proof -
  let ?d = "p1 @ CHR '':'' # p2 @ CHR '':'' # show_int t"
  obtain c v where c: "split_n ?d '':'' 3 = [a, b, c]" "a \<noteq> ''''" "b \<noteq> ''''" "parse_int64 c = Some v"
    using assms(1) by (auto simp: validate_payload_def token_payload_def split: list.splits if_splits option.splits)
  then have d: "?d = a @ CHR '':'' # b @ CHR '':'' # c" "CHR '':'' \<notin> set a" "CHR '':'' \<notin> set b" by (simp_all add: split_3_iff)
  have "count_list ?d CHR '':'' = 2"
    unfolding d(1) using d(2,3) parse_int64_no_colon [OF c(4)] by (simp add: count_list_0_iff)
  moreover have "count_list (show_int t) CHR '':'' = 0" using show_int_digits [OF assms(2)] by (simp add: count_list_0_iff)
  ultimately have "count_list p1 CHR '':'' = 0" "count_list p2 CHR '':'' = 0" by simp_all
  then have n: "CHR '':'' \<notin> set p1" "CHR '':'' \<notin> set p2" by (simp_all add: count_list_0_iff)
  then have "split_n ?d '':'' 3 = [p1, p2, show_int t]" by (simp add: split_3_iff)
  then show ?thesis using c n by (simp add: plain_part_def)
qed

lemma payload_accepted:
  assumes "plain_part p1" "plain_part p2" "0 \<le> t" "t < 2 ^ 63"
  shows "validate_payload now (token_payload p1 p2 t) = (if token_age now t > TokenMaxAge then Inl TokenExpired else Inr (p1, p2))"
proof -
  have "split_n (p1 @ '':'' @ p2 @ '':'' @ show_int t) '':'' 3 = [p1, p2, show_int t]"
    using assms(1,2) by (simp add: split_3_iff plain_part_def)
  then show ?thesis using assms show_int_digits [of t] by (simp add: validate_payload_def token_payload_def plain_part_def)
qed


text \<open>
  The age of a token overflows: a token whose time lies between 9223372037 and 18446744073 seconds
  (about 292 to 585 years) away from the clock is accepted as fresh.
\<close>

theorem age_overflows:
  assumes "9223372037 \<le> \<bar>now - t\<bar>" "\<bar>now - t\<bar> \<le> 18446744073" "0 \<le> t" "t < 2 ^ 63" "plain_part p1" "plain_part p2"
  shows "validate_token mac key now (generate_token mac key t p1 p2) = Inr (p1, p2)"
  using payload_accepted [OF assms(5,6,3,4), of now] token_age_large [OF assms(1,2)] by (simp add: validate_generated TokenMaxAge_def)

section \<open>Identities are issued, and arrive as signed\<close>

text \<open>
  The bearer holds signatures of the key only for payloads that were issued: whenever a part of what it
  presents is a signature of some payload there, the payload is one that was signed.
\<close>

definition unforged :: "mac \<Rightarrow> string \<Rightarrow> (string \<times> string \<times> int) set \<Rightarrow> string \<Rightarrow> bool" where
  "unforged mac key issued s \<longleftrightarrow> (\<forall>x payload sig y. s = x @ payload @ ''.'' @ sig @ y \<longrightarrow> hex_decode sig = Some (mac key payload)
     \<longrightarrow> (\<exists>(a, b, t) \<in> issued. payload = token_payload a b t))"

text \<open>The clock and the times of issue lie within 292 years.\<close>

definition same_era :: "int \<Rightarrow> (string \<times> string \<times> int) set \<Rightarrow> bool" where
  "same_era now issued \<longleftrightarrow> (\<forall>(a, b, t) \<in> issued. 0 \<le> t \<and> t < 2 ^ 63 \<and> \<bar>now - t\<bar> \<le> 9223372036)"

definition recently_issued :: "(string \<times> string \<times> int) set \<Rightarrow> int \<Rightarrow> string \<Rightarrow> string \<Rightarrow> bool" where
  "recently_issued issued now a b \<longleftrightarrow> (\<exists>t. (a, b, t) \<in> issued \<and> \<bar>now - t\<bar> \<le> 300)"

lemma unforged_part: "unforged mac key issued (x @ s @ y) \<Longrightarrow> unforged mac key issued s"
  unfolding unforged_def by (metis append_assoc)

lemma valid_was_issued:
  assumes "validate_token mac key now s = Inr (a, b)" "unforged mac key issued s" "same_era now issued"
  shows "recently_issued issued now a b"
proof -
  obtain payload sig where s: "split_n s ''.'' 2 = [payload, sig]" "hex_decode sig = Some (mac key payload)"
    and v: "validate_payload now payload = Inr (a, b)"
    using assms(1) by (auto simp: validate_token_def split: list.splits option.splits if_splits)
  have "s = payload @ ''.'' @ sig" using s(1) by (simp add: split_2_iff)
  then have "s = [] @ payload @ ''.'' @ sig @ []" by simp
  with assms(2) s(2) obtain p1 p2 t where i: "(p1, p2, t) \<in> issued" "payload = token_payload p1 p2 t"
    unfolding unforged_def by blast
  have t: "0 \<le> t" "t < 2 ^ 63" "\<bar>now - t\<bar> \<le> 9223372036" using assms(3) i(1) by (auto simp: same_era_def)
  have p: "a = p1 \<and> b = p2 \<and> plain_part p1 \<and> plain_part p2" using payload_parts v i(2) t(1) by blast
  then have "\<not> token_age now t > TokenMaxAge" using v i(2) t payload_accepted [of p1 p2 t now] by (auto split: if_splits)
  then show ?thesis using i(1) p token_age_small [OF t(3)] by (auto simp: recently_issued_def TokenMaxAge_def)
qed

lemma takeWhile_cut: "cut_byte c s = Some (a, b) \<Longrightarrow> s = a @ c # b"
proof -
  assume h: "cut_byte c s = Some (a, b)"
  then have c: "c \<in> set s" "a = takeWhile (\<lambda>x. x \<noteq> c) s" "b = tl (dropWhile (\<lambda>x. x \<noteq> c) s)"
    by (auto simp: cut_byte_def split: if_splits)
  then have "dropWhile (\<lambda>x. x \<noteq> c) s \<noteq> []" by (auto simp: dropWhile_eq_Nil_conv)
  moreover from this have "hd (dropWhile (\<lambda>x. x \<noteq> c) s) = c" using hd_dropWhile by blast
  ultimately have "dropWhile (\<lambda>x. x \<noteq> c) s = c # b" using c(3) by (metis list.collapse)
  then show ?thesis using c(2) by (metis takeWhile_dropWhile_id)
qed

lemma trim_space_part: "\<exists>x y. s = x @ trim_space s @ y"
proof -
  obtain x y where "segs s = x @ trim_by is_space (segs s) @ y" using trim_by_sublist by blast
  then have "concat (segs s) = concat x @ trim_space s @ concat y" by (metis concat_append trim_space_def)
  then show ?thesis by auto
qed

text \<open>The token each reader looks at is a part of the header.\<close>

lemma bearer_part:
  assumes "decode_bearer_identity mac key now rq = Some (a, b)"
  shows "\<exists>x s y. rq_authorization rq = x @ s @ y \<and> validate_token mac key now s = Inr (a, b)"
proof -
  let ?t = "trim_space (rq_authorization rq)"
  obtain x y where h: "rq_authorization rq = x @ ?t @ y" using trim_space_part by blast
  show ?thesis
  proof (cases "cut_byte CHR '' '' ?t")
    case None
    then have "validate_token mac key now ?t = Inr (a, b)"
      using assms by (auto simp: decode_bearer_identity_def Let_def split: if_splits sum.splits)
    then show ?thesis using h by blast
  next
    case (Some q)
    then obtain u v where c: "cut_byte CHR '' '' ?t = Some (u, v)" by (cases q) simp
    obtain x' y' where v: "v = x' @ trim_space v @ y'" using trim_space_part by blast
    have t: "?t = u @ CHR '' '' # v" by (rule takeWhile_cut [OF c])
    have "rq_authorization rq = (x @ u @ CHR '' '' # x') @ trim_space v @ (y' @ y)"
      using h t v by (metis append.assoc append_Cons)
    moreover have "validate_token mac key now (trim_space v) = Inr (a, b)"
      using assms c by (auto simp: decode_bearer_identity_def Let_def split: if_splits sum.splits)
    ultimately show ?thesis by blast
  qed
qed

text \<open>
  C6. Whoever reaches a handler acts under an identity that was issued within the last five minutes: for
  a gRPC call that is not exempt, for a request to the MCP server, and for a request for the blueprints,
  whatever the caller sends, as long as it holds no signature of the key that was not issued. A gRPC
  call without an identity is one of the exempt methods.
\<close>

theorem identities_were_issued:
  assumes "same_era now issued"
  shows "(unforged mac key issued (hd (rpc_auth r)) \<and> hmac_server_auth mac key extra now r = Inr i \<longrightarrow>
      (case i of None \<Rightarrow> (case rpc_method r of None \<Rightarrow> '''' | Some m \<Rightarrow> m) \<in> build_exempt_set extra
        | Some i \<Rightarrow> recently_issued issued now (id_subject i) (id_object i)))
    \<and> (unforged mac key issued (rq_authorization rq) \<and> with_auth mac key now rq = Inr c \<longrightarrow>
      recently_issued issued now (mc_user c) (mc_workspace c))
    \<and> (unforged mac (trim_space key) issued (rq_authorization rq) \<and> blueprint_caller mac key now rq = Inr (user, ws) \<longrightarrow>
      recently_issued issued now user ws)"
proof (intro conjI impI)
  assume h: "unforged mac key issued (hd (rpc_auth r)) \<and> hmac_server_auth mac key extra now r = Inr i"
  show "case i of None \<Rightarrow> (case rpc_method r of None \<Rightarrow> '''' | Some m \<Rightarrow> m) \<in> build_exempt_set extra
        | Some i \<Rightarrow> recently_issued issued now (id_subject i) (id_object i)"
  proof (cases i)
    case None
    then show ?thesis using h by (auto simp: hmac_server_auth_def split: if_splits sum.splits)
  next
    case (Some j)
    then obtain v vs tok where v: "rpc_auth r = v # vs" "auth_from_md (rpc_auth r) ''bearer'' = Inr tok"
      and t: "validate_token mac key now tok = Inr (id_subject j, id_object j)"
      using h by (cases "rpc_auth r") (auto simp: hmac_server_auth_def auth_from_md_def split: if_splits sum.splits)
    obtain u where "v = u @ CHR '' '' # tok"
      using v by (auto simp: auth_from_md_def split: option.splits if_splits dest: takeWhile_cut)
    then have "hd (rpc_auth r) = (u @ '' '') @ tok @ []" using v(1) by simp
    then have "unforged mac key issued tok" using h unforged_part by metis
    from valid_was_issued [OF t this assms] Some show ?thesis by simp
  qed
next
  assume h: "unforged mac key issued (rq_authorization rq) \<and> with_auth mac key now rq = Inr c"
  then obtain tok where t: "rq_authorization rq = ''Bearer '' @ tok" by (auto simp: with_auth_def has_prefix_iff split: if_splits)
  have "trim_prefix (rq_authorization rq) ''Bearer '' = tok" unfolding t by (rule trim_prefix_append)
  then have "validate_token mac key now tok = Inr (mc_user c, mc_workspace c)"
    using h by (auto simp: with_auth_def split: if_splits sum.splits)
  moreover from t have "rq_authorization rq = ''Bearer '' @ tok @ []" by simp
  ultimately show "recently_issued issued now (mc_user c) (mc_workspace c)"
    using valid_was_issued assms h unforged_part by metis
next
  assume h: "unforged mac (trim_space key) issued (rq_authorization rq) \<and> blueprint_caller mac key now rq = Inr (user, ws)"
  then have "decode_bearer_identity mac (trim_space key) now rq = Some (user, ws)"
    by (auto simp: blueprint_caller_def Let_def split: if_splits option.splits)
  from bearer_part [OF this] obtain x s y where "rq_authorization rq = x @ s @ y"
    and v: "validate_token mac (trim_space key) now s = Inr (user, ws)" by blast
  then have "unforged mac (trim_space key) issued s" using h unforged_part by metis
  from valid_was_issued [OF v this assms] show "recently_issued issued now user ws" .
qed

lemma segs_ascii: "list_all (\<lambda>c. byte c < 128) s \<Longrightarrow> segs s = map (\<lambda>c. [c]) s"
proof (induction s)
  case (Cons c s)
  then have "valid_rune [c]" by (simp add: valid_rune_def)
  then show ?case using segs_append [of "[c]" s] Cons by simp
qed simp

text \<open>The characters of tokens are visible.\<close>

definition visible :: "char \<Rightarrow> bool" where
  "visible c \<longleftrightarrow> 32 < byte c \<and> byte c < 128"

lemma visible_not_space: "visible c \<Longrightarrow> \<not> is_space [c]"
  by (simp add: visible_def is_space_def)

lemma trim_by_id: "xs = [] \<or> (\<not> p (hd xs) \<and> \<not> p (last xs)) \<Longrightarrow> trim_by p xs = xs"
proof -
  assume h: "xs = [] \<or> (\<not> p (hd xs) \<and> \<not> p (last xs))"
  then have d: "dropWhile p xs = xs" by (cases xs) auto
  have "dropWhile p (rev xs) = rev xs" using h by (cases xs rule: rev_cases) auto
  then show ?thesis by (simp add: trim_by_def d)
qed

lemma trim_visible: "list_all (\<lambda>c. byte c < 128) s \<Longrightarrow> s = [] \<or> (visible (hd s) \<and> visible (last s)) \<Longrightarrow> trim_space s = s"
proof -
  assume h: "list_all (\<lambda>c. byte c < 128) s" "s = [] \<or> (visible (hd s) \<and> visible (last s))"
  have "trim_by is_space (map (\<lambda>c. [c]) s) = map (\<lambda>c. [c]) s"
    using h(2) visible_not_space by (intro trim_by_id) (auto simp: hd_map last_map)
  then show ?thesis by (simp add: trim_space_def segs_ascii [OF h(1)])
qed

lemma token_visible: "c \<in> set (generate_token mac key t p1 p2) \<Longrightarrow> visible c"
proof -
  assume "c \<in> set (generate_token mac key t p1 p2)"
  then consider "in_b64 c" | "c = CHR ''.''" | "hex_value c \<noteq> None"
    using b64_encode_alphabet hex_chars by (fastforce simp: generate_token_def Let_def token_payload_def compute_mac_def)
  then show ?thesis
    by cases (auto simp: in_b64_def b64_value_def hex_value_def visible_def Let_def split: if_splits)
qed

lemma token_nonempty: "generate_token mac key t p1 p2 \<noteq> ''''"
  by (simp add: generate_token_def Let_def)

lemma token_trim [simp]: "trim_space (generate_token mac key t p1 p2) = generate_token mac key t p1 p2"
proof (rule trim_visible)
  show "list_all (\<lambda>c. byte c < 128) (generate_token mac key t p1 p2)" using token_visible by (auto simp: list_all_iff visible_def)
  show "generate_token mac key t p1 p2 = [] \<or> visible (hd (generate_token mac key t p1 p2)) \<and> visible (last (generate_token mac key t p1 p2))"
    using token_visible [OF hd_in_set [OF token_nonempty]] token_visible [OF last_in_set [OF token_nonempty]] by blast
qed

lemma bearer_trim [simp]: "trim_space (''Bearer '' @ generate_token mac key t p1 p2) = ''Bearer '' @ generate_token mac key t p1 p2"
proof (rule trim_visible)
  show "list_all (\<lambda>c. byte c < 128) (''Bearer '' @ generate_token mac key t p1 p2)"
    using token_visible by (auto simp: list_all_iff visible_def)
  show "''Bearer '' @ generate_token mac key t p1 p2 = [] \<or>
      visible (hd (''Bearer '' @ generate_token mac key t p1 p2)) \<and> visible (last (''Bearer '' @ generate_token mac key t p1 p2))"
    using token_visible [OF last_in_set [OF token_nonempty]] token_nonempty by (simp add: visible_def)
qed

lemma bearer_cut [simp]: "cut_byte CHR '' '' (''Bearer '' @ s) = Some (''Bearer'', s)"
  by (simp add: cut_byte_def)


section \<open>Examples\<close>

text \<open>A toy code that tells one payload from all others.\<close>

definition toy_mac :: mac where
  "toy_mac key p = (if p = token_payload ''u'' ''w'' 5 then [CHR 0x99] else [CHR 0x00])"


theorem age_overflows_witness:
  "validate_token toy_mac ''k'' 5 (generate_token toy_mac ''k'' 10000000005 ''u'' ''w'') = Inr (''u'', ''w'')"
  by (rule age_overflows) (simp_all add: plain_part_def)

lemma no_zero: "hex_decode s = Some [CHR 0x00] \<Longrightarrow> CHR ''0'' \<in> set s"
proof (induction s rule: hex_decode.induct)
  case (3 a b s)
  then obtain x y where h: "hex_value a = Some x" "hex_value b = Some y" "char_of (x * 16 + y) = CHR 0x00"
    by (auto split: option.splits)
  have "x < 16" "y < 16" using h by (auto simp: hex_value_def Let_def split: if_splits)
  then have "x * 16 + y < 256" by simp
  then have "x * 16 + y = byte (char_of (x * 16 + y))" by simp
  then have "x * 16 + y = 0" unfolding h(3) by simp
  then have "byte a = 48" using h(1) by (auto simp: hex_value_def Let_def split: if_splits)
  then have "a = char_of (48 :: nat)" by (metis char_of_char)
  moreover have "char_of (48 :: nat) = CHR ''0''" by code_simp
  ultimately have "a = CHR ''0''" by simp
  then show ?case by simp
qed simp_all

lemma toy_unforged: "unforged toy_mac key {(''u'', ''w'', 5)} (''Bearer '' @ generate_token toy_mac key 5 ''u'' ''w'')"
  unfolding unforged_def
proof (intro allI impI)
  fix x payload sig y
  assume s: "''Bearer '' @ generate_token toy_mac key 5 ''u'' ''w'' = x @ payload @ ''.'' @ sig @ y" and h: "hex_decode sig = Some (toy_mac key payload)"
  have "compute_mac toy_mac key (token_payload ''u'' ''w'' 5) = hex_encode [CHR 0x99]" by (simp add: compute_mac_def toy_mac_def)
  moreover have "hex_encode [CHR 0x99] = ''99''" by code_simp
  moreover have "token_payload ''u'' ''w'' 5 = ''dTp3OjU''" by code_simp
  ultimately have "CHR ''0'' \<notin> set (''Bearer '' @ generate_token toy_mac key 5 ''u'' ''w'')" by (simp add: generate_token_def)
  then have "CHR ''0'' \<notin> set sig" unfolding s by simp
  then have "payload = token_payload ''u'' ''w'' 5" using h no_zero by (auto simp: toy_mac_def split: if_splits)
  then show "\<exists>(a, b, t) \<in> {(''u'', ''w'', 5)}. payload = token_payload a b t" by simp
qed

theorem identities_were_issued_witness:
  "recently_issued {(''u'', ''w'', 5)} 200 ''u'' ''w''"
proof -
  let ?h = "''Bearer '' @ generate_token toy_mac ''k'' 5 ''u'' ''w''"
  let ?rq = "\<lparr>rq_authorization = ?h, rq_session = '''', rq_conversation = '''', rq_workspace = ''w''\<rparr>"
  have v: "validate_token toy_mac ''k'' 200 (generate_token toy_mac ''k'' 5 ''u'' ''w'') = Inr (''u'', ''w'')"
    by (simp add: validate_generated payload_accepted token_age_small TokenMaxAge_def plain_part_def)
  have w: "with_auth toy_mac ''k'' 200 ?rq = Inr \<lparr>mc_user = ''u'', mc_workspace = ''w'', mc_session = '''', mc_conversation = ''''\<rparr>"
    by (simp only: with_auth_def http_request.simps has_prefix_append trim_prefix_append v sum.case prod.case not_True_eq_False if_False)
  have u: "unforged toy_mac ''k'' {(''u'', ''w'', 5)} (rq_authorization ?rq)" using toy_unforged by simp
  have e: "same_era 200 {(''u'', ''w'', 5)}" by (simp add: same_era_def)
  from identities_were_issued [OF e, THEN conjunct2, THEN conjunct1, THEN mp, OF conjI [OF u w]] show ?thesis
    unfolding mcp_caller.simps .
qed


end
