(* ===== verification/Edge_Auth.thy ===== *)
theory Edge_Auth
  imports Tokens
begin

text \<open>
  Requests from the app: the filter at the gateway (\<open>cmd/envoy-auth-filter/main.go\<close>) and the
  middleware of the orchestrator (\<open>server/middleware/middleware.go\<close>) with its configuration
  (\<open>platform/orchestrator/orchestrator.go\<close>). What the gateway does between them, the check of the
  JWT and the claims it forwards, is an argument, as are HMAC-SHA256, JSON and the parser of times.
  A request is its headers, under lower-case names; times are nanoseconds.
\<close>

type_synonym headers = "string \<Rightarrow> string option"

definition header :: "headers \<Rightarrow> string \<Rightarrow> string" where
  "header h k = (case h k of None \<Rightarrow> '''' | Some v \<Rightarrow> v)"

section \<open>The filter\<close>

definition maxTimestampAge :: int where "maxTimestampAge = 2 * 60 * 10 ^ 9"
definition maxClockSkew :: int where "maxClockSkew = 30 * 10 ^ 9"

definition requiredDeviceHeaders :: "string list" where
  "requiredDeviceHeaders = [''x-timestamp'', ''x-signature'', ''x-device-info'', ''x-version'']"

record plugin =
  pl_secret :: string
  pl_environment :: string

text \<open>
  The configuration is read as an object, or as a string that holds one. \<open>unmarshal\<close> yields the
  secret and the environment, \<open>unwrap\<close> the string.
\<close>

definition on_plugin_start ::
  "(string \<Rightarrow> (string \<times> string) option) \<Rightarrow> (string \<Rightarrow> string option) \<Rightarrow> string option \<Rightarrow> plugin option" where
  "on_plugin_start unmarshal unwrap config = (case config of
     None \<Rightarrow> None
   | Some dat \<Rightarrow>
       if dat = '''' then None
       else (case (case unmarshal dat of Some cfg \<Rightarrow> Some cfg
                   | None \<Rightarrow> (case unwrap dat of None \<Rightarrow> None | Some raw \<Rightarrow> unmarshal raw)) of
               None \<Rightarrow> None
             | Some (secret, env) \<Rightarrow>
                 if secret = '''' then None
                 else Some \<lparr>pl_secret = secret, pl_environment = to_lower (trim_space env)\<rparr>))"

text \<open>The request goes on, or is answered with a status and a message.\<close>

datatype action = Continue | Reply nat string

definition collect_device_headers :: "headers \<Rightarrow> string \<Rightarrow> string" where
  "collect_device_headers h k = (if k \<in> set requiredDeviceHeaders then trim_space (header h k) else '''')"

definition validate_device_headers :: "(string \<Rightarrow> string) \<Rightarrow> action" where
  "validate_device_headers hs =
     (let missing = filter (\<lambda>k. hs k = '''') requiredDeviceHeaders in
      if missing \<noteq> [] then Reply 401 (''missing required headers: '' @ join '', '' missing) else Continue)"

text \<open>\<open>Time.Sub\<close> saturates.\<close>

definition time_sub :: "int \<Rightarrow> int \<Rightarrow> int" where
  "time_sub a b = max (- (2 ^ 63)) (min (2 ^ 63 - 1) (a - b))"

definition validate_timestamp :: "(string \<Rightarrow> int option) \<Rightarrow> int \<Rightarrow> string \<Rightarrow> action" where
  "validate_timestamp parse now ts = (case parse ts of
     None \<Rightarrow> Reply 400 ''invalid timestamp format: use RFC3339Nano''
   | Some t \<Rightarrow>
       let age = time_sub now t in
       if age > maxTimestampAge \<or> age < - maxClockSkew then Reply 403 ''timestamp expired'' else Continue)"

definition generate_hmac :: "mac \<Rightarrow> string \<Rightarrow> string \<Rightarrow> string" where
  "generate_hmac mac secret dat = hex_encode (mac secret dat)"

definition validate_hmac :: "mac \<Rightarrow> string \<Rightarrow> string \<Rightarrow> string \<Rightarrow> string \<Rightarrow> action" where
  "validate_hmac mac secret token ts sig =
     (case hex_decode (trim_space sig) of
        None \<Rightarrow> Reply 400 ''invalid signature format''
      | Some received \<Rightarrow>
          if Some received \<noteq> hex_decode (generate_hmac mac secret (token @ '':'' @ ts)) then Reply 403 ''invalid signature'' else Continue)"

definition on_http_request_headers :: "mac \<Rightarrow> (string \<Rightarrow> int option) \<Rightarrow> plugin \<Rightarrow> int \<Rightarrow> headers \<Rightarrow> action" where
  "on_http_request_headers mac parse p now h =
     (if pl_environment p = ''local'' \<or> pl_environment p = ''test'' then Continue
      else if (case h ''upgrade'' of None \<Rightarrow> False | Some u \<Rightarrow> equal_fold u ''websocket'') then Continue
      else if header h ''x-token'' = '''' then Continue
      else let hs = collect_device_headers h in
        case validate_device_headers hs of
          Reply s m \<Rightarrow> Reply s m
        | Continue \<Rightarrow>
            (case validate_timestamp parse now (hs ''x-timestamp'') of
               Reply s m \<Rightarrow> Reply s m
             | Continue \<Rightarrow> validate_hmac mac (pl_secret p) (header h ''x-token'') (hs ''x-timestamp'') (hs ''x-signature'')))"

section \<open>The middleware\<close>

record edge_principal =
  ep_subject :: string
  ep_email :: string
  ep_name :: string

record request_metadata =
  md_device_info :: string
  md_device_id :: string
  md_version :: string
  md_timezone :: string

record middleware_config =
  mw_environment :: string
  mw_e2e :: string

definition build_http_middleware :: "(string \<Rightarrow> string option) \<Rightarrow> middleware_config" where
  "build_http_middleware env =
     \<lparr>mw_environment = (case env ''CRAWBL_ENVIRONMENT'' of None \<Rightarrow> ''local'' | Some v \<Rightarrow> if v \<noteq> '''' then v else ''local''),
      mw_e2e = (case env ''CRAWBL_E2E_TOKEN'' of None \<Rightarrow> '''' | Some v \<Rightarrow> v)\<rparr>"

text \<open>A status, or the principal and the metadata the handler runs with.\<close>

type_synonym admission = "nat + edge_principal \<times> request_metadata option"

definition local_principal :: edge_principal where
  "local_principal = \<lparr>ep_subject = ''local-dev-user'', ep_email = ''dev@crawbl.local'', ep_name = ''Local Dev''\<rparr>"

definition inject_e2e_principal :: "string \<Rightarrow> headers \<Rightarrow> admission option" where
  "inject_e2e_principal e2e h =
     (let token = trim_space (header h ''x-e2e-token'') in
      if token = '''' \<or> token \<noteq> e2e then None
      else let uid = trim_space (header h ''x-e2e-uid'') in
        if uid = '''' then Some (Inl 400)
        else Some (Inr (\<lparr>ep_subject = uid, ep_email = trim_space (header h ''x-e2e-email''), ep_name = trim_space (header h ''x-e2e-name'')\<rparr>,
               Some \<lparr>md_device_info = ''e2e-test'', md_device_id = ''e2e-device'', md_version = ''e2e'', md_timezone = ''UTC''\<rparr>)))"

definition inject_firebase_principal :: "headers \<Rightarrow> admission" where
  "inject_firebase_principal h =
     (let uid = trim_space (header h ''x-firebase-uid'') in
      if uid = '''' then Inl 401
      else Inr (\<lparr>ep_subject = uid, ep_email = trim_space (header h ''x-firebase-email''), ep_name = trim_space (header h ''x-firebase-name'')\<rparr>,
             Some \<lparr>md_device_info = trim_space (header h ''x-device-info''), md_device_id = trim_space (header h ''x-device-id''),
                   md_version = trim_space (header h ''x-version''), md_timezone = trim_space (header h ''x-timezone'')\<rparr>))"

definition auth_middleware :: "middleware_config \<Rightarrow> headers \<Rightarrow> admission" where
  "auth_middleware cfg h =
     (let env = to_lower (trim_space (mw_environment cfg)) in
      if env = ''local'' \<or> env = ''test'' then Inr (local_principal, None)
      else case (if mw_e2e cfg \<noteq> '''' \<and> (env = ''local'' \<or> env = ''dev'') then inject_e2e_principal (mw_e2e cfg) h else None) of
        Some a \<Rightarrow> a
      | None \<Rightarrow> inject_firebase_principal h)"

section \<open>The way of a request\<close>

text \<open>What the gateway forwards of a request it admits is an argument.\<close>

definition app_request ::
  "mac \<Rightarrow> (string \<Rightarrow> int option) \<Rightarrow> plugin \<Rightarrow> (headers \<Rightarrow> headers option) \<Rightarrow> middleware_config \<Rightarrow> int \<Rightarrow> headers \<Rightarrow> admission" where
  "app_request mac parse p gateway cfg now h = (case on_http_request_headers mac parse p now h of
     Reply s m \<Rightarrow> Inl s
   | Continue \<Rightarrow> (case gateway h of None \<Rightarrow> Inl 401 | Some h' \<Rightarrow> auth_middleware cfg h'))"

section \<open>Signatures of devices\<close>

text \<open>
  Times in RFC 3339 begin with a year of four digits and a hyphen, and no such text follows a colon in them.
\<close>

definition date_start :: "string \<Rightarrow> bool" where
  "date_start s \<longleftrightarrow> 4 < length s \<and> list_all is_digit (take 4 s) \<and> s ! 4 = CHR ''-''"

fun no_late_date :: "string \<Rightarrow> bool" where
  "no_late_date [] \<longleftrightarrow> True"
| "no_late_date (c # s) \<longleftrightarrow> (c = CHR '':'' \<longrightarrow> \<not> date_start s) \<and> no_late_date s"

definition rfc3339_shape :: "string \<Rightarrow> bool" where
  "rfc3339_shape s \<longleftrightarrow> date_start s \<and> no_late_date s"

lemma no_late_dateD: "no_late_date (x @ CHR '':'' # y) \<Longrightarrow> \<not> date_start y"
  by (induction x) auto

lemma signed_text_unique:
  assumes "rfc3339_shape t" "rfc3339_shape u" "a @ CHR '':'' # t = b @ CHR '':'' # u"
  shows "a = b \<and> t = u"
proof -
  obtain z where "(a = b @ z \<and> z @ CHR '':'' # t = CHR '':'' # u) \<or> (a @ z = b \<and> CHR '':'' # t = z @ CHR '':'' # u)"
    using assms(3) by (auto simp: append_eq_append_conv2)
  then show ?thesis
  proof (elim disjE conjE)
    assume h: "a = b @ z" "z @ CHR '':'' # t = CHR '':'' # u"
    show ?thesis
    proof (cases z)
      case (Cons c z')
      then have "u = z' @ CHR '':'' # t" using h(2) by simp
      then show ?thesis using assms(1,2) no_late_dateD by (auto simp: rfc3339_shape_def)
    qed (use h in simp)
  next
    assume h: "a @ z = b" "CHR '':'' # t = z @ CHR '':'' # u"
    show ?thesis
    proof (cases z)
      case (Cons c z')
      then have "t = z' @ CHR '':'' # u" using h(2) by simp
      then show ?thesis using assms(1,2) no_late_dateD by (auto simp: rfc3339_shape_def)
    qed (use h in simp)
  qed
qed

text \<open>The request bears no signature of the secret that a device did not make, for a token and a time.\<close>

definition device_unforged :: "mac \<Rightarrow> string \<Rightarrow> (string \<times> string) set \<Rightarrow> headers \<Rightarrow> bool" where
  "device_unforged mac secret made h \<longleftrightarrow>
     (\<forall>dat. hex_decode (trim_space (collect_device_headers h ''x-signature'')) = Some (mac secret dat)
        \<longrightarrow> (\<exists>(token, ts) \<in> made. rfc3339_shape ts \<and> dat = token @ '':'' @ ts))"

text \<open>
  C39. Outside the local and test environments a request with an app token that is no upgrade to a web
  socket passes the filter only if a device signed exactly this token with exactly this time, at
  most two minutes ago and at most thirty seconds ahead.
\<close>

theorem device_signature_required:
  assumes "on_http_request_headers mac parse p now h = Continue" "header h ''x-token'' \<noteq> ''''"
    and "pl_environment p \<noteq> ''local''" "pl_environment p \<noteq> ''test''" "\<not> equal_fold (header h ''upgrade'') ''websocket''"
    and "device_unforged mac (pl_secret p) made h" "\<forall>ts t. parse ts = Some t \<longrightarrow> rfc3339_shape ts"
  shows "\<exists>t. (header h ''x-token'', trim_space (header h ''x-timestamp'')) \<in> made \<and> parse (trim_space (header h ''x-timestamp'')) = Some t
    \<and> now - t \<le> 120 * 10 ^ 9 \<and> t - now \<le> 30 * 10 ^ 9"
proof -
  let ?tok = "header h ''x-token''" and ?ts = "trim_space (header h ''x-timestamp'')"
  have up: "\<not> (case h ''upgrade'' of None \<Rightarrow> False | Some u \<Rightarrow> equal_fold u ''websocket'')"
    using assms(5) by (auto simp: header_def split: option.splits)
  have ts: "collect_device_headers h ''x-timestamp'' = ?ts" by (simp add: collect_device_headers_def requiredDeviceHeaders_def)
  have v: "validate_timestamp parse now ?ts = Continue"
    and s: "validate_hmac mac (pl_secret p) ?tok ?ts (collect_device_headers h ''x-signature'') = Continue"
    using assms(1-4) up by (auto simp: on_http_request_headers_def Let_def ts split: action.splits if_splits)
  from v obtain t where t: "parse ?ts = Some t" "time_sub now t \<le> maxTimestampAge" "- maxClockSkew \<le> time_sub now t"
    by (auto simp: validate_timestamp_def Let_def split: option.splits if_splits)
  have "hex_decode (trim_space (collect_device_headers h ''x-signature'')) = Some (mac (pl_secret p) (?tok @ '':'' @ ?ts))"
    using s by (auto simp: validate_hmac_def generate_hmac_def split: option.splits if_splits)
  then obtain token u where "(token, u) \<in> made" "rfc3339_shape u" "?tok @ CHR '':'' # ?ts = token @ CHR '':'' # u"
    using assms(6) unfolding device_unforged_def by fastforce
  moreover have "rfc3339_shape ?ts" using assms(7) t(1) by blast
  ultimately have "(?tok, ?ts) \<in> made" using signed_text_unique by blast
  moreover have "now - t \<le> 120 * 10 ^ 9 \<and> t - now \<le> 30 * 10 ^ 9"
    using t(2,3) by (auto simp: time_sub_def maxTimestampAge_def maxClockSkew_def)
  ultimately show ?thesis using t(1) by blast
qed

text \<open>A request that asks for an upgrade passes without any signature, whatever it asks for.\<close>

theorem upgrade_skips_signature:
  assumes "equal_fold u ''websocket''"
  shows "app_request mac parse p gateway cfg now (h(''upgrade'' \<mapsto> u))
    = (case gateway (h(''upgrade'' \<mapsto> u)) of None \<Rightarrow> Inl 401 | Some h' \<Rightarrow> auth_middleware cfg h')"
  using assms by (simp add: app_request_def on_http_request_headers_def)

section \<open>Principals\<close>

text \<open>The gateway admits only requests whose token is valid, and sets the claims of that token.\<close>

definition sets_claims :: "(headers \<Rightarrow> (string \<times> string \<times> string) option) \<Rightarrow> (headers \<Rightarrow> headers option) \<Rightarrow> bool" where
  "sets_claims jwt gateway \<longleftrightarrow> (\<forall>h h'. gateway h = Some h' \<longrightarrow> (\<exists>uid email name. jwt h = Some (uid, email, name)
     \<and> header h' ''x-firebase-uid'' = uid \<and> header h' ''x-firebase-email'' = email \<and> header h' ''x-firebase-name'' = name))"

text \<open>
  C40. A handler runs for the bearer of a valid token only: where the environment is set to something
  other than local or test, and in the development environment no end-to-end token is configured,
  the principal of a request that is served carries the claims of the request's token.
\<close>

theorem principal_is_verified:
  assumes "app_request mac parse p gateway (build_http_middleware env) now h = Inr (q, md)" "sets_claims jwt gateway"
    and "env ''CRAWBL_ENVIRONMENT'' = Some e" "e \<noteq> ''''" "to_lower (trim_space e) \<notin> {''local'', ''test''}"
    and "to_lower (trim_space e) = ''dev'' \<Longrightarrow> header env ''CRAWBL_E2E_TOKEN'' = ''''"
  shows "\<exists>uid email name. jwt h = Some (uid, email, name) \<and> q = \<lparr>ep_subject = trim_space uid, ep_email = trim_space email,
    ep_name = trim_space name\<rparr> \<and> trim_space uid \<noteq> ''''"
proof -
  obtain h' where h': "gateway h = Some h'" "auth_middleware (build_http_middleware env) h' = Inr (q, md)"
    using assms(1) by (auto simp: app_request_def split: action.splits option.splits)
  have e: "mw_environment (build_http_middleware env) = e" "mw_e2e (build_http_middleware env) = header env ''CRAWBL_E2E_TOKEN''"
    using assms(3,4) by (simp_all add: build_http_middleware_def header_def)
  have "inject_firebase_principal h' = Inr (q, md)"
    using h'(2) assms(5,6) by (auto simp: auth_middleware_def e Let_def split: if_splits)
  moreover obtain uid email name where "jwt h = Some (uid, email, name)" "header h' ''x-firebase-uid'' = uid"
      "header h' ''x-firebase-email'' = email" "header h' ''x-firebase-name'' = name"
    using assms(2) h'(1) unfolding sets_claims_def by metis
  ultimately show ?thesis by (auto simp: inject_firebase_principal_def Let_def split: if_splits)
qed

text \<open>Without a value for the environment every request is served as the local user.\<close>

theorem unset_environment_is_open:
  "env ''CRAWBL_ENVIRONMENT'' = None \<Longrightarrow> auth_middleware (build_http_middleware env) h = Inr (local_principal, None)"
proof -
  assume "env ''CRAWBL_ENVIRONMENT'' = None"
  then have "mw_environment (build_http_middleware env) = ''local''" by (simp add: build_http_middleware_def)
  moreover have "to_lower (trim_space ''local'') = ''local''" by code_simp
  ultimately show ?thesis by (simp add: auth_middleware_def Let_def)
qed

section \<open>Examples\<close>

definition toy_time :: string where "toy_time = ''2026-01-01T00:00:00Z''"

definition toy_parse :: "string \<Rightarrow> int option" where
  "toy_parse s = (if s = toy_time then Some 0 else None)"

definition toy_hmac :: mac where
  "toy_hmac secret dat = (if dat = ''tok:'' @ toy_time then [CHR 0x99] else [CHR 0x00])"

definition toy_request :: headers where
  "toy_request = [''x-token'' \<mapsto> ''tok'', ''x-timestamp'' \<mapsto> toy_time, ''x-signature'' \<mapsto> ''99'', ''x-device-info'' \<mapsto> ''d'', ''x-version'' \<mapsto> ''1'']"

definition toy_plugin :: plugin where "toy_plugin = \<lparr>pl_secret = ''s'', pl_environment = ''prod''\<rparr>"

theorem device_signature_required_witness:
  "on_http_request_headers toy_hmac toy_parse toy_plugin 60000000000 toy_request = Continue
    \<and> (\<exists>t. (header toy_request ''x-token'', trim_space (header toy_request ''x-timestamp'')) \<in> {(''tok'', toy_time)} \<and> toy_parse toy_time = Some t)"
proof -
  have c: "on_http_request_headers toy_hmac toy_parse toy_plugin 60000000000 toy_request = Continue" by code_simp
  have shape: "rfc3339_shape toy_time" by code_simp
  have sig: "hex_decode (trim_space (collect_device_headers toy_request ''x-signature'')) = Some [CHR 0x99]" by code_simp
  have u: "device_unforged toy_hmac (pl_secret toy_plugin) {(''tok'', toy_time)} toy_request"
    unfolding device_unforged_def sig using shape by (auto simp: toy_hmac_def split: if_splits)
  have e: "\<not> equal_fold (header toy_request ''upgrade'') ''websocket''" by code_simp
  have t: "trim_space (header toy_request ''x-timestamp'') = toy_time" by code_simp
  have "header toy_request ''x-token'' \<noteq> ''''" "pl_environment toy_plugin \<noteq> ''local''" "pl_environment toy_plugin \<noteq> ''test''"
    by (simp_all add: header_def toy_request_def toy_plugin_def)
  from device_signature_required [OF c this e u] show ?thesis using c shape by (auto simp: toy_parse_def t)
qed

text \<open>A gateway whose tokens are the uid itself.\<close>

definition toy_jwt :: "headers \<Rightarrow> (string \<times> string \<times> string) option" where
  "toy_jwt h = (if header h ''x-token'' = '''' then None else Some (header h ''x-token'', ''a@b'', ''n''))"

definition toy_gateway :: "headers \<Rightarrow> headers option" where
  "toy_gateway h = (case toy_jwt h of None \<Rightarrow> None | Some (uid, email, name) \<Rightarrow>
     Some (h(''x-firebase-uid'' \<mapsto> uid, ''x-firebase-email'' \<mapsto> email, ''x-firebase-name'' \<mapsto> name)))"

theorem principal_is_verified_witness:
  "\<exists>q md. app_request toy_hmac toy_parse toy_plugin toy_gateway (build_http_middleware [''CRAWBL_ENVIRONMENT'' \<mapsto> ''prod'']) 60000000000
      (toy_request(''x-firebase-uid'' \<mapsto> ''other'')) = Inr (q, md) \<and> ep_subject q = ''tok''"
proof -
  let ?a = "app_request toy_hmac toy_parse toy_plugin toy_gateway (build_http_middleware [''CRAWBL_ENVIRONMENT'' \<mapsto> ''prod'']) 60000000000
      (toy_request(''x-firebase-uid'' \<mapsto> ''other''))"
  have ok: "case ?a of Inl _ \<Rightarrow> False | Inr _ \<Rightarrow> True" by code_simp
  then obtain q md where a: "?a = Inr (q, md)" by (auto split: sum.splits)
  have g: "sets_claims toy_jwt toy_gateway"
    by (auto simp: sets_claims_def toy_gateway_def header_def split: option.splits)
  have e: "to_lower (trim_space ''prod'') \<notin> {''local'', ''test''}" "to_lower (trim_space ''prod'') \<noteq> ''dev''" "trim_space ''tok'' = ''tok''" by code_simp+
  from principal_is_verified [OF a g, of "''prod''"] e show ?thesis
    using a by (auto simp: toy_jwt_def header_def toy_request_def)
qed

end
