(* ===== verification/Sockets.thy ===== *)
theory Sockets
  imports Questions Accounts Edge_Auth
begin

text \<open>
  The Socket.IO server (\<open>server/socketio/server.go\<close>, \<open>messages.go\<close>, \<open>answers.go\<close>,
  \<open>broadcaster.go\<close>): authentication of a connection, rooms of workspaces, broadcasts, and the
  goroutines that serve messages and answers, in any order, with the session that cancels them. The
  n-th query to the database answers as \<open>db\<close> says, so users and owners may change at any time. What
  the chat service does with a message is not part of this model: it records the calls. Positions of
  mentions and the metadata of attachments are passed on unread and left out.
\<close>

section \<open>State\<close>

record db =
  db_user :: "nat \<Rightarrow> string \<Rightarrow> gerror + user"
  db_owners :: "nat \<Rightarrow> gerror + (string \<times> string) set"

record send_payload =
  sp_ws :: string
  sp_conv :: string
  sp_local :: string
  sp_type :: string
  sp_text :: string
  sp_mentions :: "(string \<times> string) list"

datatype task = SendTask send_payload | AnswerTask answers_request

datatype out_event = Subscribed "string list" | SendError string string string | AnswersFailed string string string
  | Room string string

record sock =
  sk_principal :: edge_principal
  sk_rooms :: "string set"
  sk_open :: bool
  sk_cancel :: "nat option"
  sk_inbox :: "out_event list"

datatype stage = Spawned | Registered | Serving

record run =
  rn_sock :: string
  rn_task :: task
  rn_stage :: stage
  rn_cancelled :: bool

record hub =
  hb_socks :: "string \<Rightarrow> sock option"
  hb_runs :: "nat \<Rightarrow> run option"
  hb_next :: nat
  hb_calls :: nat
  hb_served :: "(string \<times> string \<times> task) list"

definition workspaceRoomPrefix :: string where "workspaceRoomPrefix = ''workspace:''"

definition new_hub :: hub where
  "new_hub = \<lparr>hb_socks = (\<lambda>_. None), hb_runs = (\<lambda>_. None), hb_next = 0, hb_calls = 0, hb_served = []\<rparr>"

definition on_sock :: "string \<Rightarrow> (sock \<Rightarrow> sock) \<Rightarrow> hub \<Rightarrow> hub" where
  "on_sock s f h = (case hb_socks h s of None \<Rightarrow> h | Some k \<Rightarrow> h\<lparr>hb_socks := (hb_socks h)(s \<mapsto> f k)\<rparr>)"

definition on_run :: "nat \<Rightarrow> (run \<Rightarrow> run) \<Rightarrow> hub \<Rightarrow> hub" where
  "on_run r f h = (case hb_runs h r of None \<Rightarrow> h | Some x \<Rightarrow> h\<lparr>hb_runs := (hb_runs h)(r \<mapsto> f x)\<rparr>)"

text \<open>An event reaches a socket that is connected.\<close>

definition push_event :: "string \<Rightarrow> out_event \<Rightarrow> hub \<Rightarrow> hub" where
  "push_event s e = on_sock s (\<lambda>k. if sk_open k then k\<lparr>sk_inbox := sk_inbox k @ [e]\<rparr> else k)"

section \<open>Repositories and services behind the handlers\<close>

definition list_owned_by_user :: "db \<Rightarrow> nat \<Rightarrow> string \<Rightarrow> string list \<Rightarrow> gerror + string set" where
  "list_owned_by_user d n user ids =
     (if blank user \<or> ids = [] then Inl ErrInvalidInput
      else let ids' = filter (\<lambda>i. \<not> blank i) ids in
        if ids' = [] then Inr {}
        else case db_owners d n of Inl e \<Rightarrow> Inl e | Inr rows \<Rightarrow> Inr {i \<in> set ids'. (i, user) \<in> rows})"

definition owned_workspace :: "db \<Rightarrow> nat \<Rightarrow> string \<Rightarrow> string \<Rightarrow> gerror + string" where
  "owned_workspace d n user ws =
     (if blank user \<or> blank ws then Inl ErrInvalidInput
      else case db_owners d n of Inl e \<Rightarrow> Inl e
        | Inr rows \<Rightarrow> if (ws, user) \<in> rows then Inr ws else Inl ErrWorkspaceNotFound)"

text \<open>The user of a request over HTTP, for comparison.\<close>

definition current_user :: "db \<Rightarrow> nat \<Rightarrow> edge_principal option \<Rightarrow> gerror + user" where
  "current_user d n p = (case p of
     None \<Rightarrow> Inl ErrUnauthorized
   | Some p \<Rightarrow> (case db_user d n (ep_subject p) of
       Inl e \<Rightarrow> Inl e
     | Inr u \<Rightarrow> if us_banned u then Inl ErrUserBanned else if us_deleted u \<noteq> None then Inl ErrUserDeleted else Inr u))"

section \<open>Connections\<close>

definition header_from_handshake :: "headers \<Rightarrow> string \<Rightarrow> string" where
  "header_from_handshake h k = trim_space (header h k)"

definition register_auth :: "headers \<Rightarrow> edge_principal option" where
  "register_auth h =
     (let uid = header_from_handshake h ''x-firebase-uid'' in
      if uid = '''' then None
      else Some \<lparr>ep_subject = uid, ep_email = header_from_handshake h ''x-firebase-email'', ep_name = header_from_handshake h ''x-firebase-name''\<rparr>)"

definition on_connect :: "string \<Rightarrow> headers \<Rightarrow> hub \<Rightarrow> hub" where
  "on_connect s hs h = (case register_auth hs of
     None \<Rightarrow> h
   | Some p \<Rightarrow> h\<lparr>hb_socks := (hb_socks h)(s \<mapsto> \<lparr>sk_principal = p, sk_rooms = {}, sk_open = True, sk_cancel = None, sk_inbox = []\<rparr>)\<rparr>)"

text \<open>Cancelling the function a session holds cancels its run, if it is still there.\<close>

definition cancel_run :: "nat option \<Rightarrow> hub \<Rightarrow> hub" where
  "cancel_run c h = (case c of None \<Rightarrow> h | Some r \<Rightarrow> on_run r (\<lambda>x. x\<lparr>rn_cancelled := True\<rparr>) h)"

definition cancel_current :: "string \<Rightarrow> hub \<Rightarrow> hub" where
  "cancel_current s h = (case hb_socks h s of
     None \<Rightarrow> h
   | Some k \<Rightarrow> on_sock s (\<lambda>k. k\<lparr>sk_cancel := None\<rparr>) (cancel_run (sk_cancel k) h))"

definition set_cancel_func :: "string \<Rightarrow> nat \<Rightarrow> hub \<Rightarrow> hub" where
  "set_cancel_func s r h = (case hb_socks h s of
     None \<Rightarrow> h
   | Some k \<Rightarrow> on_sock s (\<lambda>k. k\<lparr>sk_cancel := Some r\<rparr>) (cancel_run (sk_cancel k) h))"

text \<open>A socket that disconnects leaves its rooms.\<close>

definition on_disconnect :: "string \<Rightarrow> hub \<Rightarrow> hub" where
  "on_disconnect s h = on_sock s (\<lambda>k. k\<lparr>sk_open := False, sk_rooms := {}\<rparr>) (cancel_current s h)"

section \<open>Rooms\<close>

definition parse_workspace_ids :: "json list \<Rightarrow> string list" where
  "parse_workspace_ids args = (case args of
     JMap d # _ \<Rightarrow> (case map_of d ''workspace_ids'' of
         Some (JList xs) \<Rightarrow> concat (map (\<lambda>v. case v of JString s \<Rightarrow> if trim_space s \<noteq> '''' then [trim_space s] else [] | _ \<Rightarrow> []) xs)
       | _ \<Rightarrow> [])
   | _ \<Rightarrow> [])"

text \<open>Two queries: the user of the subject, and the workspaces it owns.\<close>

definition resolve_authorised :: "db \<Rightarrow> string \<Rightarrow> string list \<Rightarrow> hub \<Rightarrow> hub \<times> string list option" where
  "resolve_authorised d subject ids h =
     (let n = hb_calls h; h1 = h\<lparr>hb_calls := Suc n\<rparr> in
      case db_user d n subject of
        Inl _ \<Rightarrow> (h1, None)
      | Inr u \<Rightarrow>
          let h2 = h1\<lparr>hb_calls := Suc (Suc n)\<rparr> in
          (case list_owned_by_user d (Suc n) (us_id u) ids of
             Inl _ \<Rightarrow> (h2, None)
           | Inr mine \<Rightarrow> (h2, Some (filter (\<lambda>i. i \<in> mine) ids))))"

definition on_subscribe :: "db \<Rightarrow> string \<Rightarrow> json list \<Rightarrow> hub \<Rightarrow> hub" where
  "on_subscribe d s args h = (case hb_socks h s of
     None \<Rightarrow> h
   | Some k \<Rightarrow>
       let ids = parse_workspace_ids args in
       if ids = [] \<or> blank (ep_subject (sk_principal k)) then h
       else (case resolve_authorised d (ep_subject (sk_principal k)) ids h of
           (h1, None) \<Rightarrow> h1
         | (h1, Some authorised) \<Rightarrow>
             if authorised = [] then h1
             else push_event s (Subscribed authorised)
               (on_sock s (\<lambda>k. k\<lparr>sk_rooms := sk_rooms k \<union> (@) workspaceRoomPrefix ` set authorised\<rparr>) h1)))"

definition on_unsubscribe :: "string \<Rightarrow> json list \<Rightarrow> hub \<Rightarrow> hub" where
  "on_unsubscribe s args = on_sock s (\<lambda>k. k\<lparr>sk_rooms := sk_rooms k - (@) workspaceRoomPrefix ` set (parse_workspace_ids args)\<rparr>)"

definition emit_to_workspace :: "string \<Rightarrow> string \<Rightarrow> hub \<Rightarrow> hub" where
  "emit_to_workspace ws ev h = h\<lparr>hb_socks := (\<lambda>s. map_option (\<lambda>k.
     if sk_open k \<and> workspaceRoomPrefix @ ws \<in> sk_rooms k then k\<lparr>sk_inbox := sk_inbox k @ [Room ws ev]\<rparr> else k) (hb_socks h s))\<rparr>"

section \<open>Messages and answers\<close>

definition parse_mentions :: "(string \<times> json) list \<Rightarrow> (string \<times> string) list" where
  "parse_mentions d = (case map_of d ''mentions'' of
     Some (JList xs) \<Rightarrow> concat (map (\<lambda>m. case m of JMap mm \<Rightarrow> [(str_field mm ''agent_id'', str_field mm ''agent_name'')] | _ \<Rightarrow> []) xs)
   | _ \<Rightarrow> [])"

definition parse_message_send :: "json \<Rightarrow> send_payload option" where
  "parse_message_send raw = (case raw of
     JMap d \<Rightarrow>
       let content = (case map_of d ''content'' of Some (JMap c) \<Rightarrow> c | _ \<Rightarrow> []) in
       Some \<lparr>sp_ws = str_field d ''workspace_id'', sp_conv = str_field d ''conversation_id'', sp_local = str_field d ''local_id'',
             sp_type = str_field content ''type'', sp_text = str_field content ''text'', sp_mentions = parse_mentions d\<rparr>
   | _ \<Rightarrow> None)"

text \<open>A goroutine that has yet to run.\<close>

definition spawn :: "string \<Rightarrow> task \<Rightarrow> hub \<Rightarrow> hub" where
  "spawn s t h = h\<lparr>hb_runs := (hb_runs h)(hb_next h \<mapsto> \<lparr>rn_sock = s, rn_task = t, rn_stage = Spawned, rn_cancelled = False\<rparr>),
     hb_next := Suc (hb_next h)\<rparr>"

definition handle_message_send :: "string \<Rightarrow> json list \<Rightarrow> hub \<Rightarrow> hub" where
  "handle_message_send s args h = (case args of
     [] \<Rightarrow> h
   | raw # _ \<Rightarrow> (case parse_message_send raw of
       None \<Rightarrow> push_event s (SendError '''' '''' ''invalid payload'') h
     | Some p \<Rightarrow>
         if blank (sp_ws p) \<or> blank (sp_conv p) \<or> blank (sp_text p)
         then push_event s (SendError (trim_space (sp_local p)) (sp_conv p) ''workspace_id, conversation_id, and content.text are required'') h
         else spawn s (SendTask p) h))"

definition handle_answers :: "string \<Rightarrow> json list \<Rightarrow> hub \<Rightarrow> hub" where
  "handle_answers s args h = (case args of
     [] \<Rightarrow> h
   | raw # _ \<Rightarrow> (case parse_answers_payload raw of
       None \<Rightarrow> push_event s (AnswersFailed '''' '''' ''invalid payload'') h
     | Some q \<Rightarrow>
         if blank (ar_ws q) \<or> blank (ar_mid q) \<or> ar_answers q = []
         then push_event s (AnswersFailed (trim_space (ar_local q)) (ar_mid q) ''workspace_id, message_id, and answers are required'') h
         else spawn s (AnswerTask q) h))"

text \<open>
  The goroutine: it registers with the session, asks the database, calls the chat service, and ends. Its
  queries fail once its context is cancelled.
\<close>

definition dispatch_start :: "nat \<Rightarrow> hub \<Rightarrow> hub" where
  "dispatch_start r h = (case hb_runs h r of
     None \<Rightarrow> h
   | Some x \<Rightarrow> on_run r (\<lambda>x. x\<lparr>rn_stage := Registered\<rparr>) (set_cancel_func (rn_sock x) r h))"

definition dispatch_end :: "nat \<Rightarrow> hub \<Rightarrow> hub" where
  "dispatch_end r h = h\<lparr>hb_runs := (hb_runs h)(r := None)\<rparr>"

definition refuse :: "run \<Rightarrow> string \<Rightarrow> hub \<Rightarrow> hub" where
  "refuse x m = push_event (rn_sock x) (case rn_task x of
     SendTask p \<Rightarrow> SendError (trim_space (sp_local p)) (sp_conv p) m
   | AnswerTask q \<Rightarrow> AnswersFailed (trim_space (ar_local q)) (ar_mid q) m)"

definition lookup_message :: "task \<Rightarrow> gerror \<Rightarrow> string" where
  "lookup_message t e = (case t of
     SendTask p \<Rightarrow> ''user not found''
   | AnswerTask q \<Rightarrow> if is_business_error (Some e) \<and> public_message (Some e) \<noteq> '''' then public_message (Some e) else ''user not found'')"

definition dispatch_check :: "db \<Rightarrow> nat \<Rightarrow> hub \<Rightarrow> hub" where
  "dispatch_check d r h = (case hb_runs h r of
     None \<Rightarrow> h
   | Some x \<Rightarrow> (case hb_socks h (rn_sock x) of
       None \<Rightarrow> h
     | Some k \<Rightarrow>
         let subject = ep_subject (sk_principal k); n = hb_calls h; h1 = h\<lparr>hb_calls := Suc n\<rparr> in
         if rn_cancelled x then dispatch_end r (refuse x ''user not found'' h1)
         else (case db_user d n subject of
             Inl e \<Rightarrow> dispatch_end r (refuse x (lookup_message (rn_task x) e) h1)
           | Inr u \<Rightarrow> (case rn_task x of
               AnswerTask q \<Rightarrow> on_run r (\<lambda>x. x\<lparr>rn_stage := Serving\<rparr>) (h1\<lparr>hb_served := hb_served h @ [(subject, us_id u, rn_task x)]\<rparr>)
             | SendTask p \<Rightarrow>
                 let h2 = h1\<lparr>hb_calls := Suc (Suc n)\<rparr> in
                 (case owned_workspace d (Suc n) (us_id u) (sp_ws p) of
                    Inl _ \<Rightarrow> dispatch_end r (refuse x ''unauthorized'' h2)
                  | Inr _ \<Rightarrow> on_run r (\<lambda>x. x\<lparr>rn_stage := Serving\<rparr>) (h2\<lparr>hb_served := hb_served h @ [(subject, us_id u, rn_task x)]\<rparr>))))))"

section \<open>Runs of the server\<close>

definition open_sock :: "string \<Rightarrow> hub \<Rightarrow> bool" where
  "open_sock s h \<longleftrightarrow> (case hb_socks h s of None \<Rightarrow> False | Some k \<Rightarrow> sk_open k)"

definition at_stage :: "stage \<Rightarrow> nat \<Rightarrow> hub \<Rightarrow> bool" where
  "at_stage g r h \<longleftrightarrow> (case hb_runs h r of None \<Rightarrow> False | Some x \<Rightarrow> rn_stage x = g)"

inductive hub_step :: "db \<Rightarrow> hub \<Rightarrow> hub \<Rightarrow> bool" for d where
  step_connect: "hb_socks h s = None \<Longrightarrow> hub_step d h (on_connect s hs h)"
| step_subscribe: "open_sock s h \<Longrightarrow> hub_step d h (on_subscribe d s args h)"
| step_unsubscribe: "open_sock s h \<Longrightarrow> hub_step d h (on_unsubscribe s args h)"
| step_disconnect: "open_sock s h \<Longrightarrow> hub_step d h (on_disconnect s h)"
| step_emit: "hub_step d h (emit_to_workspace ws ev h)"
| step_send: "open_sock s h \<Longrightarrow> hub_step d h (handle_message_send s args h)"
| step_answers: "open_sock s h \<Longrightarrow> hub_step d h (handle_answers s args h)"
| step_start: "at_stage Spawned r h \<Longrightarrow> hub_step d h (dispatch_start r h)"
| step_check: "at_stage Registered r h \<Longrightarrow> hub_step d h (dispatch_check d r h)"
| step_end: "at_stage Serving r h \<Longrightarrow> hub_step d h (dispatch_end r h)"

inductive hub_reach :: "db \<Rightarrow> hub \<Rightarrow> bool" for d where
  reach_new: "hub_reach d new_hub"
| reach_step: "hub_reach d h \<Longrightarrow> hub_step d h h' \<Longrightarrow> hub_reach d h'"

end
