(* ===== verification/Sockets_Props.thy ===== *)
theory Sockets_Props
  imports Sockets
begin

text \<open>
  Who receives what over the sockets, for whom messages are served, and what the session of a socket
  cancels, in every run of the server.
\<close>

section \<open>Rooms\<close>

text \<open>At some query the database said that the user of the subject owns the workspace.\<close>

definition owned_once :: "db \<Rightarrow> nat \<Rightarrow> string \<Rightarrow> string \<Rightarrow> bool" where
  "owned_once d c subject ws \<longleftrightarrow> (\<exists>n u rows. Suc n < c \<and> db_user d n subject = Inr u
     \<and> db_owners d (Suc n) = Inr rows \<and> (ws, us_id u) \<in> rows)"

lemma owned_once_mono: "owned_once d c s ws \<Longrightarrow> c \<le> c' \<Longrightarrow> owned_once d c' s ws"
  unfolding owned_once_def by (meson less_le_trans)

definition sock_ok :: "db \<Rightarrow> nat \<Rightarrow> sock \<Rightarrow> bool" where
  "sock_ok d c k \<longleftrightarrow> (\<forall>r \<in> sk_rooms k. \<exists>ws. r = workspaceRoomPrefix @ ws \<and> owned_once d c (ep_subject (sk_principal k)) ws)
     \<and> (\<forall>ws ev. Room ws ev \<in> set (sk_inbox k) \<longrightarrow> owned_once d c (ep_subject (sk_principal k)) ws)"

lemma sock_ok_mono: "sock_ok d c k \<Longrightarrow> c \<le> c' \<Longrightarrow> sock_ok d c' k"
  unfolding sock_ok_def using owned_once_mono by meson

definition socks_ok :: "db \<Rightarrow> hub \<Rightarrow> bool" where
  "socks_ok d h \<longleftrightarrow> (\<forall>s k. hb_socks h s = Some k \<longrightarrow> sock_ok d (hb_calls h) k)"

lemma on_sock_fields [simp]: "hb_calls (on_sock s f h) = hb_calls h" "hb_runs (on_sock s f h) = hb_runs h"
  "hb_next (on_sock s f h) = hb_next h" "hb_served (on_sock s f h) = hb_served h"
  by (simp_all add: on_sock_def split: option.split)

lemma on_run_fields [simp]: "hb_calls (on_run r f h) = hb_calls h" "hb_socks (on_run r f h) = hb_socks h"
  "hb_next (on_run r f h) = hb_next h" "hb_served (on_run r f h) = hb_served h"
  by (simp_all add: on_run_def split: option.split)

lemma emit_fields [simp]: "hb_calls (push_event s e h) = hb_calls h" "hb_runs (push_event s e h) = hb_runs h"
  "hb_next (push_event s e h) = hb_next h" "hb_served (push_event s e h) = hb_served h"
  by (simp_all add: push_event_def)

lemma refuse_fields [simp]: "hb_calls (refuse x m h) = hb_calls h" "hb_runs (refuse x m h) = hb_runs h"
  "hb_next (refuse x m h) = hb_next h" "hb_served (refuse x m h) = hb_served h"
  by (simp_all add: refuse_def)

lemma cancel_run_fields [simp]: "hb_calls (cancel_run c h) = hb_calls h" "hb_socks (cancel_run c h) = hb_socks h"
  "hb_next (cancel_run c h) = hb_next h" "hb_served (cancel_run c h) = hb_served h"
  by (simp_all add: cancel_run_def split: option.split)

lemma session_fields [simp]: "hb_calls (cancel_current s h) = hb_calls h" "hb_calls (set_cancel_func s r h) = hb_calls h"
  "hb_next (cancel_current s h) = hb_next h" "hb_next (set_cancel_func s r h) = hb_next h"
  "hb_served (cancel_current s h) = hb_served h" "hb_served (set_cancel_func s r h) = hb_served h"
  by (simp_all add: cancel_current_def set_cancel_func_def split: option.split)

lemma socks_on_sock: "socks_ok d h \<Longrightarrow> (\<And>k. sock_ok d (hb_calls h) k \<Longrightarrow> sock_ok d (hb_calls h) (f k)) \<Longrightarrow> socks_ok d (on_sock s f h)"
  by (auto simp: socks_ok_def on_sock_def split: option.split)

lemma socks_emit: "socks_ok d h \<Longrightarrow> (\<And>ws ev. e \<noteq> Room ws ev) \<Longrightarrow> socks_ok d (push_event s e h)"
  unfolding push_event_def by (rule socks_on_sock) (auto simp: sock_ok_def)

lemma socks_refuse: "socks_ok d h \<Longrightarrow> socks_ok d (refuse x m h)"
  unfolding refuse_def by (rule socks_emit) (auto split: task.split)

lemma socks_other: "socks_ok d h \<Longrightarrow> hb_socks h' = hb_socks h \<Longrightarrow> hb_calls h \<le> hb_calls h' \<Longrightarrow> socks_ok d h'"
  unfolding socks_ok_def by (metis sock_ok_mono)

lemma socks_session: "socks_ok d h \<Longrightarrow> socks_ok d (cancel_current s h)" "socks_ok d h \<Longrightarrow> socks_ok d (set_cancel_func s r h)"
proof -
  assume h: "socks_ok d h"
  have c: "socks_ok d (cancel_run c h)" for c by (rule socks_other [OF h]) simp_all
  show "socks_ok d (cancel_current s h)" "socks_ok d (set_cancel_func s r h)"
    using h by (auto simp: cancel_current_def set_cancel_func_def sock_ok_def intro!: socks_on_sock [OF c] split: option.split)
qed

lemma authorised_owned:
  assumes "resolve_authorised d subject ids h = (h1, Some authorised)" "ws \<in> set authorised"
  shows "owned_once d (hb_calls h1) subject ws"
proof -
  from assms(1) obtain u mine where u: "db_user d (hb_calls h) subject = Inr u"
    and m: "list_owned_by_user d (Suc (hb_calls h)) (us_id u) ids = Inr mine"
    and h1: "hb_calls h1 = Suc (Suc (hb_calls h))" "authorised = filter (\<lambda>i. i \<in> mine) ids"
    by (auto simp: resolve_authorised_def Let_def split: sum.splits)
  obtain rows where "db_owners d (Suc (hb_calls h)) = Inr rows" "(ws, us_id u) \<in> rows"
    using m assms(2) by (auto simp: list_owned_by_user_def h1(2) Let_def split: if_splits sum.splits)
  then show ?thesis using u h1(1) unfolding owned_once_def by (metis lessI)
qed

lemma resolve_other: "resolve_authorised d subject ids h = (h1, r) \<Longrightarrow> hb_socks h1 = hb_socks h \<and> hb_calls h \<le> hb_calls h1
    \<and> hb_runs h1 = hb_runs h \<and> hb_next h1 = hb_next h \<and> hb_served h1 = hb_served h"
  by (auto simp: resolve_authorised_def Let_def split: sum.splits)

lemma socks_subscribe:
  assumes "socks_ok d h" shows "socks_ok d (on_subscribe d s args h)"
proof (cases "hb_socks h s")
  case (Some k)
  let ?subject = "ep_subject (sk_principal k)"
  obtain h1 r where r: "resolve_authorised d ?subject (parse_workspace_ids args) h = (h1, r)" by fastforce
  note o = resolve_other [OF r]
  have h1: "socks_ok d h1" using socks_other [OF assms] o by blast
  have "socks_ok d (on_sock s (\<lambda>k. k\<lparr>sk_rooms := sk_rooms k \<union> (@) workspaceRoomPrefix ` set authorised\<rparr>) h1)"
    if a: "r = Some authorised" for authorised
  proof -
    have k: "hb_socks h1 s = Some k" using o Some by simp
    have "sock_ok d (hb_calls h1) (k\<lparr>sk_rooms := sk_rooms k \<union> (@) workspaceRoomPrefix ` set authorised\<rparr>)"
      using h1 k authorised_owned [OF r [unfolded a]] by (auto simp: socks_ok_def sock_ok_def)
    then show ?thesis using h1 k by (simp add: socks_ok_def on_sock_def)
  qed
  then show ?thesis using assms h1 by (auto simp: on_subscribe_def Some r Let_def intro!: socks_emit split: option.split)
qed (use assms in \<open>simp add: on_subscribe_def\<close>)

lemma sock_ok_room:
  "sock_ok d c k \<Longrightarrow> workspaceRoomPrefix @ ws \<in> sk_rooms k \<Longrightarrow> sock_ok d c (k\<lparr>sk_inbox := sk_inbox k @ [Room ws ev]\<rparr>)"
  unfolding sock_ok_def by fastforce

lemma socks_step: "hub_step d h h' \<Longrightarrow> socks_ok d h \<Longrightarrow> socks_ok d h'"
proof (induction rule: hub_step.induct)
  case (step_connect h s hs)
  then show ?case by (auto simp: on_connect_def socks_ok_def sock_ok_def split: option.split)
next
  case (step_subscribe s h args)
  then show ?case by (simp add: socks_subscribe)
next
  case (step_unsubscribe s h args)
  then show ?case unfolding on_unsubscribe_def by (intro socks_on_sock) (auto simp: sock_ok_def)
next
  case (step_disconnect s h)
  then show ?case unfolding on_disconnect_def by (intro socks_on_sock socks_session) (auto simp: sock_ok_def)
next
  case (step_emit h ws ev)
  then show ?case using sock_ok_room by (auto simp: emit_to_workspace_def socks_ok_def)
next
  case (step_send s h args)
  then show ?case
    by (auto simp: handle_message_send_def spawn_def intro!: socks_emit intro: socks_other split: list.split option.split)
next
  case (step_answers s h args)
  then show ?case
    by (auto simp: handle_answers_def spawn_def intro!: socks_emit intro: socks_other split: list.split option.split)
next
  case (step_start r h)
  have "socks_ok d (on_run r f (set_cancel_func s r h))" for f s
    by (rule socks_other [OF socks_session(2) [OF step_start(2)]]) simp_all
  then show ?case using step_start by (auto simp: dispatch_start_def split: option.split)
next
  case (step_check r h)
  have e: "socks_ok d (dispatch_end r (refuse x m (h\<lparr>hb_calls := c\<rparr>)))" if "hb_calls h \<le> c" for x m c
    using socks_refuse [of d "h\<lparr>hb_calls := c\<rparr>" x m] socks_other [OF step_check(2), of "h\<lparr>hb_calls := c\<rparr>"] that
    by (auto intro: socks_other simp: dispatch_end_def)
  have s: "socks_ok d (on_run r f (h\<lparr>hb_calls := c, hb_served := l\<rparr>))" if "hb_calls h \<le> c" for f c l
    by (rule socks_other [OF step_check(2)]) (use that in simp_all)
  show ?case
    using step_check(2) e [of "Suc (hb_calls h)"] e [of "Suc (Suc (hb_calls h))"] s
    by (auto simp: dispatch_check_def Let_def split: option.split sum.split task.split)
next
  case (step_end r h)
  then show ?case by (auto simp: dispatch_end_def intro: socks_other)
qed


section \<open>Calls of the chat service\<close>

text \<open>A call made for the user the database named, in a workspace of that user.\<close>

definition authorised_call :: "db \<Rightarrow> nat \<Rightarrow> string \<times> string \<times> task \<Rightarrow> bool" where
  "authorised_call d c x \<longleftrightarrow> (case x of (subject, user, t) \<Rightarrow> \<exists>n u. n < c \<and> db_user d n subject = Inr u \<and> us_id u = user
     \<and> (case t of AnswerTask q \<Rightarrow> True
         | SendTask p \<Rightarrow> Suc n < c \<and> (\<exists>rows. db_owners d (Suc n) = Inr rows \<and> (sp_ws p, user) \<in> rows)))"

lemma authorised_call_mono: "authorised_call d c x \<Longrightarrow> c \<le> c' \<Longrightarrow> authorised_call d c' x"
proof -
  assume a: "authorised_call d c x" "c \<le> c'"
  obtain subject user t where x: "x = (subject, user, t)" using prod_cases3 by blast
  show ?thesis using a(1) less_le_trans [OF _ a(2)] by (cases t) (auto simp: authorised_call_def x)
qed

lemma authorised_now:
  assumes "db_user d n subject = Inr u"
  shows "authorised_call d (Suc n) (subject, us_id u, AnswerTask q)"
    and "db_owners d (Suc n) = Inr rows \<Longrightarrow> (sp_ws p, us_id u) \<in> rows
      \<Longrightarrow> authorised_call d (Suc (Suc n)) (subject, us_id u, SendTask p)"
proof -
  show "authorised_call d (Suc n) (subject, us_id u, AnswerTask q)"
    unfolding authorised_call_def using assms by (auto intro: exI [of _ n])
  assume "db_owners d (Suc n) = Inr rows" "(sp_ws p, us_id u) \<in> rows"
  then show "authorised_call d (Suc (Suc n)) (subject, us_id u, SendTask p)"
    unfolding authorised_call_def prod.case task.case using assms less_SucI [OF lessI [of n]] lessI [of "Suc n"] by blast
qed

lemma served_step:
  "hub_step d h h' \<Longrightarrow> hb_calls h \<le> hb_calls h' \<and> (\<forall>x \<in> set (hb_served h') - set (hb_served h). authorised_call d (hb_calls h') x)"
proof (induction rule: hub_step.induct)
  case (step_connect h s hs)
  then show ?case by (auto simp: on_connect_def split: option.split)
next
  case (step_subscribe s h args)
  have "hb_calls h \<le> hb_calls (on_subscribe d s args h) \<and> hb_served (on_subscribe d s args h) = hb_served h"
    using resolve_other by (fastforce simp: on_subscribe_def Let_def split: option.split prod.split)
  then show ?case by simp
next
  case (step_check r h)
  show ?case
    using authorised_now [of d "hb_calls h"]
    by (auto simp: dispatch_check_def dispatch_end_def Let_def owned_workspace_def
        split: option.split sum.split task.split if_splits)
qed (auto simp: on_unsubscribe_def on_disconnect_def emit_to_workspace_def handle_message_send_def handle_answers_def spawn_def
    dispatch_start_def dispatch_end_def split: list.split option.split)

lemma calls_authorised:
  assumes "hub_reach d h" shows "\<forall>x \<in> set (hb_served h). authorised_call d (hb_calls h) x"
  using assms
proof induction
  case reach_new
  show ?case by (simp add: new_hub_def)
next
  case (reach_step h h')
  show ?case
  proof
    fix x
    assume x: "x \<in> set (hb_served h')"
    show "authorised_call d (hb_calls h') x"
    proof (cases "x \<in> set (hb_served h)")
      case True
      then show ?thesis using reach_step authorised_call_mono served_step by blast
    next
      case False
      then show ?thesis using served_step [OF reach_step(2)] x by blast
    qed
  qed
qed


section \<open>Sessions\<close>

text \<open>A dispatch that has registered with the session of its socket and has not been cancelled.\<close>

definition live_dispatch :: "nat \<Rightarrow> string \<Rightarrow> hub \<Rightarrow> bool" where
  "live_dispatch r s h \<longleftrightarrow> (case hb_runs h r of None \<Rightarrow> False
     | Some x \<Rightarrow> rn_sock x = s \<and> rn_stage x \<noteq> Spawned \<and> \<not> rn_cancelled x)"

text \<open>The session of a socket holds the cancel function of its live dispatch.\<close>

definition session_ok :: "hub \<Rightarrow> bool" where
  "session_ok h \<longleftrightarrow> (\<forall>r s. live_dispatch r s h \<longrightarrow> (\<exists>k. hb_socks h s = Some k \<and> sk_cancel k = Some r))
     \<and> (\<forall>r x. hb_runs h r = Some x \<longrightarrow> r < hb_next h \<and> hb_socks h (rn_sock x) \<noteq> None)"

lemma session_okD:
  assumes "session_ok h"
  shows "live_dispatch r s h \<Longrightarrow> \<exists>k. hb_socks h s = Some k \<and> sk_cancel k = Some r"
    and "hb_runs h r = Some x \<Longrightarrow> r < hb_next h"
    and "hb_runs h r = Some x \<Longrightarrow> \<exists>k. hb_socks h (rn_sock x) = Some k"
  using assms by (auto simp: session_ok_def)

text \<open>A change that keeps the cancel functions of the sockets and adds no live dispatch keeps the sessions.\<close>

lemma session_same:
  assumes "session_ok h"
    and "\<And>s k. hb_socks h s = Some k \<Longrightarrow> \<exists>k'. hb_socks h' s = Some k' \<and> sk_cancel k' = sk_cancel k"
    and "\<And>r s. live_dispatch r s h' \<Longrightarrow> live_dispatch r s h"
    and "\<And>r x. hb_runs h' r = Some x \<Longrightarrow> r < hb_next h' \<and> hb_socks h' (rn_sock x) \<noteq> None"
  shows "session_ok h'"
  unfolding session_ok_def using assms session_okD(1) by metis

lemma session_socks:
  assumes "session_ok h"
    and "\<And>s k. hb_socks h s = Some k \<Longrightarrow> \<exists>k'. hb_socks h' s = Some k' \<and> sk_cancel k' = sk_cancel k"
    and "hb_runs h' = hb_runs h" "hb_next h' = hb_next h"
  shows "session_ok h'"
proof (rule session_same [OF assms(1,2)])
  show "live_dispatch r s h" if "live_dispatch r s h'" for r s using that assms(3) by (simp add: live_dispatch_def)
  show "r < hb_next h' \<and> hb_socks h' (rn_sock x) \<noteq> None" if "hb_runs h' r = Some x" for r x
    using that assms session_okD(2,3) [OF assms(1)] by (metis option.distinct(1))
qed

lemma session_push [intro]: "session_ok h \<Longrightarrow> session_ok (push_event s e h)"
  by (erule session_socks) (auto simp: push_event_def on_sock_def split: option.split)

lemma session_spawn [intro]:
  assumes "session_ok h" "open_sock s h" shows "session_ok (spawn s t h)"
proof (rule session_same [OF assms(1)])
  show "r < hb_next (spawn s t h) \<and> hb_socks (spawn s t h) (rn_sock x) \<noteq> None" if "hb_runs (spawn s t h) r = Some x" for r x
    using that assms(2) session_okD(2,3) [OF assms(1)]
    by (auto simp: spawn_def open_sock_def less_Suc_eq split: if_splits option.splits)
qed (auto simp: spawn_def live_dispatch_def split: if_splits)

lemma session_end [intro]:
  assumes "session_ok h" shows "session_ok (dispatch_end r h)"
proof (rule session_same [OF assms])
  show "q < hb_next (dispatch_end r h) \<and> hb_socks (dispatch_end r h) (rn_sock x) \<noteq> None"
    if "hb_runs (dispatch_end r h) q = Some x" for q x
    using that session_okD(2,3) [OF assms] by (auto simp: dispatch_end_def split: if_splits)
qed (auto simp: dispatch_end_def live_dispatch_def split: if_splits)

lemma session_calls [intro]: "session_ok h \<Longrightarrow> session_ok (h\<lparr>hb_calls := c, hb_served := l\<rparr>)" "session_ok h \<Longrightarrow> session_ok (h\<lparr>hb_calls := c\<rparr>)"
  by (erule session_socks; simp)+

lemma session_serving [intro]:
  assumes "session_ok h" "at_stage Registered r h"
  shows "session_ok (on_run r (\<lambda>x. x\<lparr>rn_stage := Serving\<rparr>) h)"
proof (rule session_same [OF assms(1)])
  show "q < hb_next (on_run r (\<lambda>x. x\<lparr>rn_stage := Serving\<rparr>) h) \<and> hb_socks (on_run r (\<lambda>x. x\<lparr>rn_stage := Serving\<rparr>) h) (rn_sock x) \<noteq> None"
    if "hb_runs (on_run r (\<lambda>x. x\<lparr>rn_stage := Serving\<rparr>) h) q = Some x" for q x
    using that session_okD(2,3) [OF assms(1)] by (auto simp: on_run_def split: if_splits option.splits)
qed (use assms(2) in \<open>auto simp: on_run_def live_dispatch_def at_stage_def split: if_splits option.splits\<close>)

text \<open>Cancelling the function a session holds leaves its socket without a live dispatch.\<close>

lemma no_live_after_cancel:
  assumes "session_ok h" "hb_socks h s = Some k"
  shows "\<not> live_dispatch r s (cancel_run (sk_cancel k) h)"
proof
  assume l: "live_dispatch r s (cancel_run (sk_cancel k) h)"
  then have "live_dispatch r s h"
    by (auto simp: live_dispatch_def cancel_run_def on_run_def split: option.splits if_splits)
  then have "sk_cancel k = Some r" using session_okD(1) [OF assms(1)] assms(2) by fastforce
  then show False using l by (auto simp: live_dispatch_def cancel_run_def on_run_def split: option.splits)
qed

text \<open>Giving the session of a socket to a run, or to none: nothing lives there any more.\<close>

lemma cancel_run_sock: "hb_runs (cancel_run c h) q = Some x \<Longrightarrow> \<exists>x0. hb_runs h q = Some x0 \<and> rn_sock x0 = rn_sock x"
  by (auto simp: cancel_run_def on_run_def split: option.splits if_splits)

lemma cancel_run_keeps: "hb_runs h q = Some x \<Longrightarrow> \<exists>x'. hb_runs (cancel_run c h) q = Some x' \<and> rn_sock x' = rn_sock x"
  by (cases c) (auto simp: cancel_run_def on_run_def split: option.split)

lemma session_give:
  assumes "session_ok h" "hb_socks h s = Some k" "\<And>k. sk_cancel (f k) = c"
  shows "session_ok (on_sock s f (cancel_run (sk_cancel k) h))"
proof -
  let ?h = "cancel_run (sk_cancel k) h" and ?h' = "on_sock s f (cancel_run (sk_cancel k) h)"
  have s: "hb_socks ?h' = (hb_socks h)(s \<mapsto> f k)" using assms(2) by (simp add: on_sock_def)
  have l: "live_dispatch q t ?h' \<Longrightarrow> live_dispatch q t ?h" for q t by (simp add: live_dispatch_def)
  have "\<exists>k. hb_socks ?h' t = Some k \<and> sk_cancel k = Some q" if "live_dispatch q t ?h'" for q t
  proof -
    have "t \<noteq> s" using no_live_after_cancel [OF assms(1,2)] l [OF that] by blast
    moreover have "live_dispatch q t h"
      using l [OF that] by (auto simp: live_dispatch_def cancel_run_def on_run_def split: option.splits if_splits)
    ultimately show ?thesis using session_okD(1) [OF assms(1)] s by simp
  qed
  moreover have "q < hb_next ?h' \<and> hb_socks ?h' (rn_sock x) \<noteq> None" if h: "hb_runs ?h' q = Some x" for q x
  proof -
    obtain x0 where x0: "hb_runs h q = Some x0" "rn_sock x0 = rn_sock x" using cancel_run_sock h on_sock_fields(2) by metis
    then show ?thesis using s session_okD(2,3) [OF assms(1) x0(1)] by auto
  qed
  ultimately show ?thesis unfolding session_ok_def by blast
qed

lemma session_register:
  assumes "session_ok h" "hb_runs h r = Some x" "hb_socks h (rn_sock x) = Some k" "sk_cancel k = Some r"
  shows "session_ok (on_run r (\<lambda>x. x\<lparr>rn_stage := Registered\<rparr>) h)"
proof -
  let ?h = "on_run r (\<lambda>x. x\<lparr>rn_stage := Registered\<rparr>) h"
  have runs: "hb_runs ?h = (hb_runs h)(r \<mapsto> x\<lparr>rn_stage := Registered\<rparr>)" by (simp add: on_run_def assms(2))
  have "\<exists>k. hb_socks ?h t = Some k \<and> sk_cancel k = Some q" if "live_dispatch q t ?h" for q t
  proof (cases "q = r")
    case True
    then show ?thesis using that assms(3,4) by (simp add: live_dispatch_def runs)
  next
    case False
    then have "live_dispatch q t h" using that by (simp add: live_dispatch_def runs)
    then show ?thesis using session_okD(1) [OF assms(1)] by simp
  qed
  moreover have "q < hb_next ?h \<and> hb_socks ?h (rn_sock y) \<noteq> None" if "hb_runs ?h q = Some y" for q y
    using that session_okD(2,3) [OF assms(1)] assms(2,3) by (cases "q = r") (auto simp: runs)
  ultimately show ?thesis unfolding session_ok_def by blast
qed

lemma session_connect:
  assumes "session_ok h" "hb_socks h s = None" shows "session_ok (on_connect s hs h)"
proof (cases "register_auth hs")
  case (Some p)
  let ?h = "on_connect s hs h"
  have f: "hb_runs ?h = hb_runs h" "hb_next ?h = hb_next h" "\<And>t. t \<noteq> s \<Longrightarrow> hb_socks ?h t = hb_socks h t"
    by (simp_all add: on_connect_def Some)
  have "q < hb_next ?h \<and> hb_socks ?h (rn_sock x) \<noteq> None" if "hb_runs ?h q = Some x" for q x
  proof -
    have "hb_runs h q = Some x" using that f(1) by simp
    then obtain k where "hb_socks h (rn_sock x) = Some k" "q < hb_next h" using session_okD(2,3) [OF assms(1)] by blast
    then show ?thesis using f(2,3) assms(2) by (metis option.distinct(1))
  qed
  moreover have "live_dispatch r t ?h \<Longrightarrow> live_dispatch r t h" for r t by (simp add: live_dispatch_def f(1))
  moreover have "\<exists>k'. hb_socks ?h t = Some k' \<and> sk_cancel k' = sk_cancel k" if "hb_socks h t = Some k" for t k
    using that assms(2) f(3) [of t] by (cases "t = s") auto
  ultimately show ?thesis using session_same [OF assms(1), of ?h] by blast
qed (simp add: on_connect_def assms(1))

lemma session_subscribe:
  assumes "session_ok h" shows "session_ok (on_subscribe d s args h)"
proof (cases "hb_socks h s")
  case (Some k)
  obtain h1 r where r: "resolve_authorised d (ep_subject (sk_principal k)) (parse_workspace_ids args) h = (h1, r)" by fastforce
  note o = resolve_other [OF r]
  have h1: "session_ok h1" by (rule session_socks [OF assms]) (simp_all add: o)
  then have "session_ok (on_sock s (\<lambda>k. k\<lparr>sk_rooms := f k\<rparr>) h1)" for f
    by (rule session_socks) (auto simp: on_sock_def split: option.split)
  then show ?thesis using h1 assms by (auto simp: on_subscribe_def Some r Let_def split: option.split)
qed (simp add: on_subscribe_def assms)

lemma session_refused: "session_ok h \<Longrightarrow> session_ok (dispatch_end r (refuse x m (h\<lparr>hb_calls := c\<rparr>)))"
  unfolding refuse_def by (intro session_end session_push session_calls)

lemma session_served:
  "session_ok h \<Longrightarrow> at_stage Registered r h
    \<Longrightarrow> session_ok (on_run r (\<lambda>x. x\<lparr>rn_stage := Serving\<rparr>) (h\<lparr>hb_calls := c, hb_served := l\<rparr>))"
  by (intro session_serving session_calls) (simp_all add: at_stage_def)

lemma session_check:
  assumes "session_ok h" "at_stage Registered r h" shows "session_ok (dispatch_check d r h)"
  using assms session_refused session_served
  by (auto simp: dispatch_check_def Let_def split: option.split sum.split task.split)

lemma session_step:
  assumes "hub_step d h h'" "session_ok h" shows "session_ok h'"
  using assms
proof (induction rule: hub_step.induct)
  case (step_connect h s hs)
  then show ?case using session_connect by blast
next
  case (step_subscribe s h args)
  then show ?case using session_subscribe by blast
next
  case (step_unsubscribe s h args)
  then show ?case
    by (intro session_socks [OF step_unsubscribe(2)]) (auto simp: on_unsubscribe_def on_sock_def split: option.split)
next
  case (step_disconnect s h)
  then obtain k where k: "hb_socks h s = Some k" by (auto simp: open_sock_def split: option.splits)
  show ?case
    using session_give [OF step_disconnect(2) k, of "\<lambda>k. k\<lparr>sk_cancel := None, sk_open := False, sk_rooms := {}\<rparr>" None]
    by (simp add: on_disconnect_def cancel_current_def k on_sock_def)
next
  case (step_emit h ws ev)
  then show ?case by (intro session_socks [OF step_emit]) (auto simp: emit_to_workspace_def)
next
  case (step_send s h args)
  then show ?case by (auto simp: handle_message_send_def split: list.split option.split)
next
  case (step_answers s h args)
  then show ?case by (auto simp: handle_answers_def split: list.split option.split)
next
  case (step_start r h)
  then obtain x where x: "hb_runs h r = Some x" by (auto simp: at_stage_def split: option.splits)
  then obtain k where k: "hb_socks h (rn_sock x) = Some k" using session_okD(3) [OF step_start(2)] by blast
  let ?h = "set_cancel_func (rn_sock x) r h"
  have "session_ok ?h"
    using session_give [OF step_start(2) k, of "\<lambda>k. k\<lparr>sk_cancel := Some r\<rparr>"] by (simp add: set_cancel_func_def k)
  moreover obtain x' where "hb_runs ?h r = Some x'" "rn_sock x' = rn_sock x"
    using cancel_run_keeps [OF x, of "sk_cancel k"] by (auto simp: set_cancel_func_def k)
  moreover have "hb_socks ?h (rn_sock x) = Some (k\<lparr>sk_cancel := Some r\<rparr>)" by (simp add: set_cancel_func_def k on_sock_def)
  ultimately show ?case using session_register by (fastforce simp: dispatch_start_def x)
next
  case (step_check r h)
  then show ?case using session_check by blast
next
  case (step_end r h)
  then show ?case by blast
qed

lemma reach_session: "hub_reach d h \<Longrightarrow> session_ok h"
proof (induction rule: hub_reach.induct)
  case reach_new
  show ?case by (simp add: new_hub_def session_ok_def live_dispatch_def)
next
  case (reach_step h h')
  then show ?case using session_step by blast
qed

text \<open>The session of a socket holds the cancel function of a dispatch that was spawned.\<close>

definition held_ok :: "hub \<Rightarrow> bool" where
  "held_ok h \<longleftrightarrow> (\<forall>s k r. hb_socks h s = Some k \<and> sk_cancel k = Some r \<longrightarrow> r < hb_next h)"

lemma held_same:
  assumes "held_ok h" "hb_next h \<le> hb_next h'"
    and "\<And>s k r. hb_socks h' s = Some k \<Longrightarrow> sk_cancel k = Some r
      \<Longrightarrow> r < hb_next h' \<or> (\<exists>k0. hb_socks h s = Some k0 \<and> sk_cancel k0 = Some r)"
  shows "held_ok h'"
  unfolding held_ok_def using assms less_le_trans unfolding held_ok_def by metis

lemma held_on_sock [intro]: "held_ok h \<Longrightarrow> (\<And>k. sk_cancel (f k) = sk_cancel k) \<Longrightarrow> held_ok (on_sock s f h)"
  by (erule held_same) (auto simp: on_sock_def split: option.splits if_splits)

lemma held_other: "held_ok h \<Longrightarrow> hb_socks h' = hb_socks h \<Longrightarrow> hb_next h \<le> hb_next h' \<Longrightarrow> held_ok h'"
  by (erule held_same) auto

lemma held_push [intro]: "held_ok h \<Longrightarrow> held_ok (push_event s e h)"
  unfolding push_event_def by (erule held_on_sock) simp

lemma held_subscribe:
  assumes "held_ok h" shows "held_ok (on_subscribe d s args h)"
proof (cases "hb_socks h s")
  case (Some k)
  obtain h1 r where r: "resolve_authorised d (ep_subject (sk_principal k)) (parse_workspace_ids args) h = (h1, r)" by fastforce
  have h1: "held_ok h1" using held_other [OF assms] resolve_other [OF r] by simp
  then have "held_ok (on_sock s (\<lambda>k. k\<lparr>sk_rooms := f k\<rparr>) h1)" for f by (rule held_on_sock) simp
  then show ?thesis using h1 assms by (auto simp: on_subscribe_def Some r Let_def split: option.split)
qed (simp add: on_subscribe_def assms)

lemma held_refused: "held_ok h \<Longrightarrow> held_ok (dispatch_end r (refuse x m (h\<lparr>hb_calls := c\<rparr>)))"
  unfolding refuse_def
  by (rule held_other [OF held_push [OF held_other [of h "h\<lparr>hb_calls := c\<rparr>"]]]) (simp_all add: dispatch_end_def)

lemma held_served: "held_ok h \<Longrightarrow> held_ok (on_run r f (h\<lparr>hb_calls := c, hb_served := l\<rparr>))"
  by (erule held_other) simp_all

lemma held_step:
  assumes "hub_step d h h'" "session_ok h" "held_ok h" shows "held_ok h'"
  using assms
proof (induction rule: hub_step.induct)
  case (step_connect h s hs)
  show ?case
    by (rule held_same [OF step_connect(3)]) (auto simp: on_connect_def split: option.splits if_splits)
next
  case (step_subscribe s h args)
  then show ?case using held_subscribe by blast
next
  case (step_unsubscribe s h args)
  then show ?case by (auto simp: on_unsubscribe_def)
next
  case (step_disconnect s h)
  show ?case
    by (rule held_same [OF step_disconnect(3)])
      (auto simp: on_disconnect_def cancel_current_def on_sock_def split: option.splits if_splits)
next
  case (step_emit h ws ev)
  show ?case by (rule held_same [OF step_emit(2)]) (auto simp: emit_to_workspace_def split: if_splits)
next
  case (step_send s h args)
  then show ?case
    by (auto simp: handle_message_send_def spawn_def split: list.split option.split intro: held_other [of h])
next
  case (step_answers s h args)
  then show ?case
    by (auto simp: handle_answers_def spawn_def split: list.split option.split intro: held_other [of h])
next
  case (step_start r h)
  then obtain x where "hb_runs h r = Some x" by (auto simp: at_stage_def split: option.splits)
  then show ?case using session_okD(2) [OF step_start(2)]
    by (intro held_same [OF step_start(3)])
      (auto simp: dispatch_start_def set_cancel_func_def on_sock_def split: option.splits if_splits)
next
  case (step_check r h)
  then show ?case using held_refused held_served
    by (auto simp: dispatch_check_def Let_def split: option.split sum.split task.split)
next
  case (step_end r h)
  then show ?case by (intro held_other [OF step_end(3)]) (simp_all add: dispatch_end_def)
qed

lemma reach_held: "hub_reach d h \<Longrightarrow> held_ok h"
proof (induction rule: hub_reach.induct)
  case reach_new
  show ?case by (simp add: new_hub_def held_ok_def)
next
  case (reach_step h h')
  then show ?case using held_step reach_session by blast
qed

text \<open>
  C9. A socket has one live dispatch: in every run of the server, two dispatches that registered with the
  session of a socket and have not been cancelled are the same, and a disconnect cancels it.
\<close>

theorem one_live_dispatch:
  assumes "hub_reach d h" "live_dispatch r s h"
  shows "(\<forall>q. live_dispatch q s h \<longrightarrow> q = r) \<and> \<not> live_dispatch q s (on_disconnect s h)"
proof
  note ok = reach_session [OF assms(1)]
  obtain k where k: "hb_socks h s = Some k" "sk_cancel k = Some r" using session_okD(1) [OF ok assms(2)] by blast
  show "\<forall>q. live_dispatch q s h \<longrightarrow> q = r" using session_okD(1) [OF ok] k by fastforce
  show "\<not> live_dispatch q s (on_disconnect s h)"
    using no_live_after_cancel [OF ok k(1), of q] by (simp add: on_disconnect_def cancel_current_def k(1) live_dispatch_def)
qed

section \<open>Dispatches the session does not stop\<close>

text \<open>
  C37. A disconnect does not reach a dispatch that has not started: when a valid message arrives, its socket
  disconnects and its goroutine runs after that, the goroutine registers with the closed session, lives on,
  and has the message served for a user who owns the workspace.
\<close>

theorem late_dispatch_survives:
  assumes "hub_reach d h" "hb_socks h s = Some k" "sk_open k" "parse_message_send raw = Some p"
    and "\<not> blank (sp_ws p)" "\<not> blank (sp_conv p)" "\<not> blank (sp_text p)"
    and "h' = dispatch_start (hb_next h) (on_disconnect s (handle_message_send s [raw] h))"
    and "db_user d (hb_calls h) (ep_subject (sk_principal k)) = Inr u" "\<not> blank (us_id u)"
    and "db_owners d (Suc (hb_calls h)) = Inr rows" "(sp_ws p, us_id u) \<in> rows"
  shows "hub_reach d h' \<and> \<not> open_sock s h' \<and> live_dispatch (hb_next h) s h'
    \<and> hb_served (dispatch_check d (hb_next h) h') = hb_served h @ [(ep_subject (sk_principal k), us_id u, SendTask p)]"
proof -
  let ?r = "hb_next h" and ?h1 = "handle_message_send s [raw] h"
  let ?h2 = "on_disconnect s ?h1"
  have h1: "?h1 = spawn s (SendTask p) h" using assms(4-7) by (simp add: handle_message_send_def)
  have r1: "hub_step d h ?h1" by (rule step_send) (simp add: open_sock_def assms(2,3))
  have r2: "hub_step d ?h1 ?h2" by (rule step_disconnect) (simp add: open_sock_def h1 spawn_def assms(2,3))
  have new: "sk_cancel k \<noteq> Some ?r" using reach_held [OF assms(1)] assms(2) by (fastforce simp: held_ok_def)
  have s2: "hb_socks ?h2 s = Some (k\<lparr>sk_cancel := None, sk_open := False, sk_rooms := {}\<rparr>)"
    by (simp add: on_disconnect_def cancel_current_def h1 spawn_def assms(2) on_sock_def)
  have u2: "hb_runs ?h2 ?r = Some \<lparr>rn_sock = s, rn_task = SendTask p, rn_stage = Spawned, rn_cancelled = False\<rparr>"
    using new by (auto simp: on_disconnect_def cancel_current_def h1 spawn_def assms(2) cancel_run_def on_run_def split: option.split)
  have r3: "hub_step d ?h2 h'" unfolding assms(8) by (rule step_start) (simp add: at_stage_def u2)
  have s3: "hb_socks h' s = Some (k\<lparr>sk_cancel := Some ?r, sk_open := False, sk_rooms := {}\<rparr>)"
    by (simp add: assms(8) dispatch_start_def u2 set_cancel_func_def s2 cancel_run_def on_sock_def)
  have u3: "hb_runs h' ?r = Some \<lparr>rn_sock = s, rn_task = SendTask p, rn_stage = Registered, rn_cancelled = False\<rparr>"
    by (simp add: assms(8) dispatch_start_def u2 set_cancel_func_def s2 cancel_run_def on_run_def)
  have c3: "hb_calls h' = hb_calls h" "hb_served h' = hb_served h"
    by (simp_all add: assms(8) dispatch_start_def u2) (simp_all add: on_disconnect_def h1 spawn_def)
  show ?thesis
    using reach_step [OF reach_step [OF reach_step [OF assms(1) r1] r2] r3] assms(5,9-12)
    by (simp add: open_sock_def s3 live_dispatch_def u3 dispatch_check_def c3 owned_workspace_def Let_def)
qed

text \<open>
  A banned or deleted user keeps sending: for a user whom every request over HTTP refuses, a message
  of a connected socket that reaches its check is served all the same.
\<close>

theorem banned_user_sends:
  assumes "hb_runs h r = Some x" "\<not> rn_cancelled x" "hb_socks h (rn_sock x) = Some k" "rn_task x = SendTask p"
    and "db_user d (hb_calls h) (ep_subject (sk_principal k)) = Inr u" "us_banned u \<or> us_deleted u \<noteq> None"
    and "\<not> blank (us_id u)" "\<not> blank (sp_ws p)"
    and "db_owners d (Suc (hb_calls h)) = Inr rows" "(sp_ws p, us_id u) \<in> rows"
  shows "current_user d (hb_calls h) (Some (sk_principal k)) \<in> {Inl ErrUserBanned, Inl ErrUserDeleted}
    \<and> hb_served (dispatch_check d r h) = hb_served h @ [(ep_subject (sk_principal k), us_id u, SendTask p)]"
  using assms by (auto simp: current_user_def dispatch_check_def owned_workspace_def Let_def)

section \<open>Witnesses\<close>

definition sample_socket_db :: db where
  "sample_socket_db = \<lparr>db_user = (\<lambda>_ _. Inr \<lparr>us_id = ''u'', us_subject = ''f'', us_email = '''', us_nickname = '''', us_name = '''',
     us_surname = '''', us_avatar = None, us_country = None, us_birth = None, us_banned = True, us_terms = False, us_privacy = False,
     us_created = 0, us_updated = 0, us_deleted = None, us_prefs = no_preferences\<rparr>), db_owners = (\<lambda>_. Inr {(''w'', ''u'')})\<rparr>"

definition sample_payload :: json where
  "sample_payload = JMap [(''workspace_id'', JString ''w''), (''conversation_id'', JString ''c''),
     (''content'', JMap [(''type'', JString ''text''), (''text'', JString ''hi'')])]"

definition sample_connected :: hub where
  "sample_connected = on_connect ''s'' (\<lambda>k. if k = ''x-firebase-uid'' then Some ''f'' else None) new_hub"

definition sample_subscribed :: hub where
  "sample_subscribed = emit_to_workspace ''w'' ''e''
     (on_subscribe sample_socket_db ''s'' [JMap [(''workspace_ids'', JList [JString ''w''])]] sample_connected)"

definition sample_registered :: hub where
  "sample_registered = dispatch_start 0 (handle_message_send ''s'' [sample_payload] sample_subscribed)"

lemma sample_open [simp]: "open_sock ''s'' sample_connected" "open_sock ''s'' sample_subscribed"
  "at_stage Spawned 0 (handle_message_send ''s'' [sample_payload] sample_subscribed)" "at_stage Registered 0 sample_registered"
  by code_simp+

lemma sample_connected_reach: "hub_reach sample_socket_db sample_connected"
  unfolding sample_connected_def by (rule reach_step [OF reach_new step_connect]) (simp add: new_hub_def)

lemma sample_subscribed_reach: "hub_reach sample_socket_db sample_subscribed"
  unfolding sample_subscribed_def
  by (rule reach_step [OF reach_step [OF sample_connected_reach step_subscribe] step_emit]) simp

lemma sample_registered_reach: "hub_reach sample_socket_db sample_registered"
  unfolding sample_registered_def
  by (rule reach_step [OF reach_step [OF sample_subscribed_reach step_send] step_start]) simp_all

lemma sample_sock: "hb_socks sample_subscribed ''s'' = Some \<lparr>sk_principal = \<lparr>ep_subject = ''f'', ep_email = [], ep_name = []\<rparr>,
    sk_rooms = {''workspace:w''}, sk_open = True, sk_cancel = None, sk_inbox = [Subscribed [''w''], Room ''w'' ''e'']\<rparr>"
  by code_simp

lemma sample_served: "(''f'', ''u'', SendTask \<lparr>sp_ws = ''w'', sp_conv = ''c'', sp_local = '''', sp_type = ''text'', sp_text = ''hi'', sp_mentions = []\<rparr>)
    \<in> set (hb_served (dispatch_check sample_socket_db 0 sample_registered))"
  by code_simp

lemma sample_dispatch: "hb_runs sample_registered 0 = Some \<lparr>rn_sock = ''s'', rn_task = SendTask \<lparr>sp_ws = ''w'', sp_conv = ''c'', sp_local = '''',
    sp_type = ''text'', sp_text = ''hi'', sp_mentions = []\<rparr>, rn_stage = Registered, rn_cancelled = False\<rparr>"
  "hb_socks sample_registered ''s'' = Some \<lparr>sk_principal = \<lparr>ep_subject = ''f'', ep_email = [], ep_name = []\<rparr>,
    sk_rooms = {''workspace:w''}, sk_open = True, sk_cancel = Some 0, sk_inbox = [Subscribed [''w''], Room ''w'' ''e'']\<rparr>"
  by code_simp+

lemma sample_db_owners [simp]: "db_owners sample_socket_db n = Inr {(''w'', ''u'')}" by (simp add: sample_socket_db_def)

lemma sample_db_user: "\<exists>u. db_user sample_socket_db n f = Inr u \<and> us_id u = ''u'' \<and> us_banned u"
  by (simp add: sample_socket_db_def)

lemma sample_parsed: "parse_message_send sample_payload = Some \<lparr>sp_ws = ''w'', sp_conv = ''c'', sp_local = '''',
    sp_type = ''text'', sp_text = ''hi'', sp_mentions = []\<rparr>"
  by code_simp



lemma one_live_dispatch_witness: "\<not> live_dispatch 0 ''s'' (on_disconnect ''s'' sample_registered)"
proof -
  have "live_dispatch 0 ''s'' sample_registered" by (simp add: live_dispatch_def sample_dispatch)
  from one_live_dispatch [OF sample_registered_reach this, of 0] show ?thesis by simp
qed

lemma not_blank_samples: "\<not> blank ''w''" "\<not> blank ''c''" "\<not> blank ''hi''" "\<not> blank ''u''"
  by code_simp+

lemma late_dispatch_survives_witness:
  "live_dispatch (hb_next sample_subscribed) ''s''
     (dispatch_start (hb_next sample_subscribed) (on_disconnect ''s'' (handle_message_send ''s'' [sample_payload] sample_subscribed)))"
proof -
  obtain u where u: "db_user sample_socket_db (hb_calls sample_subscribed) ''f'' = Inr u" "us_id u = ''u''"
    using sample_db_user by blast
  show ?thesis
    using late_dispatch_survives [OF sample_subscribed_reach sample_sock _ sample_parsed _ _ _ refl _ _ sample_db_owners]
      u not_blank_samples by simp
qed

lemma banned_user_sends_witness: "hb_served sample_registered \<noteq> hb_served (dispatch_check sample_socket_db 0 sample_registered)"
proof -
  obtain u where u: "db_user sample_socket_db (hb_calls sample_registered) ''f'' = Inr u" "us_id u = ''u''" "us_banned u"
    using sample_db_user by blast
  show ?thesis
    using banned_user_sends [OF sample_dispatch(1) _ _ _ _ _ _ _ sample_db_owners] sample_dispatch(2) u not_blank_samples by simp
qed

end
