(* ===== verification/Spec2Isabelle.thy ===== *)
theory Spec2Isabelle
  imports Errors Auto_Ingest Memory_Jobs_Props Session_Store Reaper Stream_Props Palace_Graph_Props Workflow_Props Accounts_Props Agent_Messages_Props Artifacts_Props
    Bootstrap_Props Tokens_Props Sockets_Props
begin

text \<open>
  The Crawbl backend in Isabelle/HOL: a model of the Go services under \<open>src/internal\<close> that
  hold the program's own logic, with the theorems that make them correct.

  The program. Users chat with a swarm of agents. The orchestrator
  (\<open>internal/orchestrator\<close>) stores workspaces, conversations, messages and memories in
  Postgres, calls the agent runtime of the user over gRPC and broadcasts events to the apps. Text of
  a conversation is ingested into memory (\<open>memory/autoingest\<close>, with the classifier of
  \<open>memory/extract\<close>), stored as drawers (\<open>memory/repo/drawerrepo\<close>), and worked on by
  periodic jobs (\<open>memory/jobs\<close>); the palace graph (\<open>memory/repo/palacegraphrepo\<close>) is
  a view of the drawers. The chat service streams the agents' replies
  (\<open>service/chatservice\<close>); agents reach the orchestrator through tools
  (\<open>service/mcpservice\<close>), among them question cards and workflows
  (\<open>service/workflowservice\<close>). The agent runtime keeps its sessions in Redis
  (\<open>internal/agentruntime/session\<close>), and the reaper (\<open>internal/userswarm/reaper\<close>)
  removes the swarms and users of old end-to-end tests.

  Theories, in the order they build on each other.

  \<^item> \<open>Prelude\<close>: Go maps of slices, orders the runtime chooses (\<open>any_order\<close>,
    \<open>sort_slice\<close>), invariants of folds. \<open>Go_Strings\<close>: the part of \<open>strings\<close>,
    \<open>unicode/utf8\<close> and \<open>strconv\<close> the code uses, on bytes. \<open>Errors\<close>:
    \<open>pkg/errors\<close>.
  \<^item> \<open>Memory_Types\<close>: drawers and constants (\<open>memory/types.go\<close>). \<open>Classify\<close>:
    the heuristic classifier (\<open>memory/extract/classify.go\<close>): what it returns is scored,
    capped and typed, and splitting by turns loses nothing. \<open>Chunking\<close>
    (\<open>memory/autoingest/helpers.go\<close>): sentence and hard splitting; chunks cover the text and
    stay within bounds. \<open>Drawer_Repo\<close>: the statements on \<open>memory_drawers\<close>.
    \<open>Auto_Ingest\<close> (\<open>memory/autoingest/service.go\<close>, \<open>worker.go\<close>): the per-chunk
    pipeline keeps the invariant of the stored drawers, the kill switch stores nothing, and the queue
    accounts for every submission.
  \<^item> \<open>Memory_Jobs\<close>, \<open>Memory_Jobs_Props\<close> (\<open>memory/jobs\<close>): the process, link,
    enrich and maintain sweeps over a locale of drawer-store operations, interpreted on
    \<open>Drawer_Repo\<close>: no drawer is stuck in a claimed state, retries are bounded, a sweep touches
    only the drawers it claims, maintenance spares protected drawers and the minimum.
  \<^item> \<open>Session_Store\<close> (\<open>agentruntime/session/redis.go\<close>): appended events are read back,
    histories are capped, a deletion removes exactly one session. \<open>Reaper\<close>
    (\<open>userswarm/reaper\<close>): what is deleted, that everything stale is, and that a dry run
    changes nothing.
  \<^item> \<open>Chat_Store\<close>: messages, conversations, agents, transactions with rollback, the order of
    message states (\<open>repo/messagerepo\<close>, \<open>pkg/database\<close>). \<open>Questions\<close>
    (\<open>mcpservice/questions.go\<close>, \<open>chatservice/actions.go\<close>,
    \<open>server/socketio/answers.go\<close>): cards are stored as asked, can be answered, are answered
    once per view of the row, and every rejected answer is classified. \<open>Stream\<close>,
    \<open>Stream_Props\<close> (\<open>chatservice/stream*.go\<close>): final messages carry the text that was
    streamed, no placeholder stays pending.
  \<^item> \<open>Palace_Graph\<close>, \<open>Palace_Graph_Props\<close> (\<open>palacegraphrepo\<close>): the aggregation,
    its cache with a lifetime, breadth-first traversal against a reference by levels, tunnels and
    statistics.
  \<^item> \<open>Workflow\<close>, \<open>Workflow_Props\<close> (\<open>workflowservice/engine.go\<close>,
    \<open>workflowrepo\<close>, \<open>mcpservice/workflows.go\<close>): the engine refines an abstract machine
    of its events; cancellation, the nil map and triggers without a runtime are the error behaviours.
  \<^item> \<open>Accounts\<close> (\<open>service/authservice\<close>, \<open>repo/userrepo\<close>): users, their
    preferences, workspaces and quotas as tables with the constraints of the schema.
    \<open>Accounts_Steps\<close>: what each operation leaves alone, as locales of relations between
    tables. \<open>Accounts_Props\<close>: banned and deleted users do not come back, email addresses stay
    unique, tables stay well-typed.
  \<^item> \<open>Agent_Messages\<close>, \<open>Agent_Messages_Props\<close>
    (\<open>mcpservice/agent_messaging.go\<close>, \<open>repo/mcprepo\<close>): the limit on messages that are
    active at a time, and where it is lost. \<open>Artifacts\<close>, \<open>Artifacts_Props\<close>
    (\<open>mcpservice/artifacts.go\<close>, \<open>repo/artifactrepo\<close>): versions are numbered without
    gaps, updates are read back, and two writers may race.
  \<^item> \<open>Conversations\<close> (\<open>repo/messagerepo\<close>, \<open>conversationrepo\<close>, \<open>agentrepo\<close>,
    \<open>agentsettingsrepo\<close>, \<open>agentpromptsrepo\<close>): the tables behind the list of conversations.
    \<open>Chat_Service\<close> (\<open>chatservice/bootstrap.go\<close>, \<open>conversations.go\<close>,
    \<open>agents.go\<close>): the bootstrap of a workspace and the operations on its conversations.
    \<open>Chat_Service_Props\<close>: pages of messages put together give the conversation, a bootstrap
    loses nothing, an agent that left the seed blocks its workspace. \<open>Bootstrap_Props\<close>: what a
    bootstrap leaves behind, and agents of other workspaces.

  \<^item> \<open>Encodings\<close>: the base64 and hexadecimal codes the tokens use, with their round trips.
    \<open>Tokens\<close>, \<open>Tokens_Props\<close> (\<open>pkg/hmac\<close>, \<open>pkg/grpc\<close>, \<open>server/mcp\<close>,
    \<open>handler/internal_runtime.go\<close>, \<open>agentruntime\<close>): identity tokens, everybody who reads
    and sends them: an identity is one that was issued, and arrives as it was signed.
    \<open>Edge_Auth\<close> (\<open>cmd/envoy-auth-filter\<close>, \<open>server/middleware\<close>): which requests
    of the app pass the gateway and under which principal they are served.
  \<^item> \<open>Sockets\<close>, \<open>Sockets_Props\<close> (\<open>server/socketio\<close>): connections, rooms,
    broadcasts and the goroutines that serve messages, as a step relation over sockets and runs: events
    reach owners only, calls are made for the authenticated user, a socket has one live dispatch.

  How state and effects are modelled. A component's state is a record that each operation returns
  updated; a table is a list or a map of rows. A statement is one step that takes effect or fails as
  the state or the environment says, so each error path is a branch. Go's \<open>(T, error)\<close> is a
  sum. Results of calls to code outside \<open>src\<close> (language models, embeddings, the Kubernetes API,
  Redis, JSON, regular expressions, the keyed hash, the time parser, the gateway) are arguments of the definitions; what a theorem needs of them is
  a hypothesis of the theorem. \<open>float64\<close> is \<open>real\<close>; \<open>time.Time\<close> an integer;
  integers whose size does not matter are \<open>nat\<close> or \<open>int\<close>.

  Loops and bounds. Loops over slices are structural recursion or folds. The traversal of the graph is
  a function with a proof of termination, and \<open>traverse_terminates\<close> shows that as many turns as
  there are rooms are enough; the sweeps of the jobs and the hard splitting terminate by measures
  given with their definitions.

  Not modelled. Transport (routing and decoding of HTTP, gRPC and MCP requests, but for their
  authentication; the protocol of Socket.IO), configuration and wiring, logging,
  metrics and timeouts other than those named above; repositories whose code is only SQL text and
  whose users are not modelled; the adapters around the ADK library and the providers of language
  models; infrastructure (Pulumi), command-line tools and generated code. The components of
  \<open>PROJECT.json\<close> list them with the reason.
\<close>

end
